(* ===== verification/Lorie_Prelude.thy ===== *)
theory Lorie_Prelude
  imports Main "HOL-Library.Word"
begin

text \<open>
  Shared vocabulary of the development: the machine-integer types of the C sources, the
  arithmetic that C performs on them, and generic lemmas on words and lists that several
  components use.  A C \<open>uint8_t\<close>, \<open>uint16_t\<close>, \<open>uint32_t\<close> or \<open>uint64_t\<close> is a word of that
  width (arithmetic wraps); \<open>size_t\<close> is a 64-bit word on the supported ABI (arm64-v8a); a C
  \<open>int\<close> whose overflow the code never relies on is a HOL \<open>int\<close>, with range lemmas where the
  range matters.
\<close>

unbundle bit_operations_syntax

type_synonym u8 = "8 word"
type_synonym u16 = "16 word"
type_synonym u32 = "32 word"
type_synonym u64 = "64 word"

named_theorems state_simps \<open>definitions of state-changing operations\<close>
named_theorems frame_simps \<open>what an operation leaves unchanged\<close>

abbreviation INT32_MAX :: int where
  "INT32_MAX \<equiv> 2147483647"

abbreviation INT64_MAX :: int where
  "INT64_MAX \<equiv> 9223372036854775807"

section \<open>Words\<close>

lemma unat_u32_less: "unat (w :: u32) < 2 ^ 32"
  using unsigned_less [where w = w and ?'a = nat] by simp

lemma unat_u64_less: "unat (w :: u64) < 2 ^ 64"
  using unsigned_less [where w = w and ?'a = nat] by simp

lemma bit_u32: "bit (w :: u32) n \<Longrightarrow> n < 32"
  using bit_imp_le_length [of w n] by simp

text \<open>The sign test of \<open>(int32_t)w >= 0\<close>.\<close>

lemma sint_u32_nonneg_iff: "0 \<le> sint (w :: u32) \<longleftrightarrow> unat w < 2 ^ 31"
proof -
  have "0 \<le> sint w \<longleftrightarrow> \<not> bit w 31"
    by (simp add: sint_uint signed_take_bit_nonnegative_iff bit_uint_iff)
  also have "bit w 31 \<longleftrightarrow> 2 ^ 31 \<le> unat w"
  proof -
    have "bit w 31 \<longleftrightarrow> odd (unat w div 2 ^ 31)"
      by (metis bit_iff_odd bit_unsigned_iff bit_imp_possible_bit possible_bit_nat)
    also have "\<dots> \<longleftrightarrow> 2 ^ 31 \<le> unat w"
    proof (cases "unat w < 2 ^ 31")
      case False
      have "unat w div 2 ^ 31 = 1"
        by (rule div_nat_eqI) (use False unat_u32_less [of w] in simp_all)
      with False show ?thesis by simp
    qed simp
    finally show ?thesis .
  qed
  finally show ?thesis by linarith
qed

section \<open>C integer division\<close>

text \<open>C division truncates towards zero; HOL division rounds down.\<close>

definition c_div :: "int \<Rightarrow> int \<Rightarrow> int" where
  "c_div a b = sgn a * sgn b * (\<bar>a\<bar> div \<bar>b\<bar>)"

lemma c_div_nonneg: "0 \<le> a \<Longrightarrow> 0 < b \<Longrightarrow> c_div a b = a div b"
  by (cases "a = 0") (simp_all add: c_div_def sgn_if)

section \<open>Flags\<close>

text \<open>The C idiom \<open>if (flags & mask)\<close>.\<close>

definition has_flag :: "'a::len word \<Rightarrow> 'a word \<Rightarrow> bool" where
  "has_flag w m \<longleftrightarrow> w AND m \<noteq> 0"

lemma has_flag_iff: "has_flag w m \<longleftrightarrow> (\<exists>n. bit w n \<and> bit m n)"
  by (auto simp: has_flag_def bit_eq_iff bit_and_iff) (use bit_imp_le_length in blast)

lemma has_flag_bit: "has_flag w (2 ^ n) \<longleftrightarrow> bit w n"
  by (auto simp: has_flag_iff bit_exp_iff possible_bit_word dest: bit_imp_le_length)

text \<open>The complement of the mask 3, which the simplifier writes \<open>- 4\<close>.\<close>

lemma bit_minus_4: "bit (- 4 :: int) n \<longleftrightarrow> 2 \<le> n"
proof -
  have "(- 4 :: int) = NOT (mask 2)" by (simp add: mask_eq_exp_minus_1)
  then have "bit (- 4 :: int) n \<longleftrightarrow> \<not> n < 2"
    by (simp only: bit_not_int_iff bit_mask_iff possible_bit_int) auto
  then show ?thesis by auto
qed

section \<open>Serial numbers that skip zero\<close>

text \<open>The idiom \<open>if (++serial == 0) ++serial;\<close>: zero is reserved for "no serial".\<close>

definition bumpSerial :: "u32 \<Rightarrow> u32" where
  "bumpSerial s = (let s' = s + 1 in if s' = 0 then s' + 1 else s')"

lemma bumpSerial_neq_0 [simp]: "bumpSerial s \<noteq> 0"
  by (simp add: bumpSerial_def Let_def)

lemma unat_bumpSerial: "unat (bumpSerial s) = unat s mod (2 ^ 32 - 1) + 1"
proof (cases "s + 1 = 0")
  case True
  then have s: "s = - 1" by (simp add: eq_neg_iff_add_eq_0)
  have "unat s = 2 ^ 32 - 1" by (simp add: s unsigned_minus_1_eq_mask mask_eq_exp_minus_1)
  moreover have "bumpSerial s = 1" by (simp add: s bumpSerial_def)
  ultimately show ?thesis by simp
next
  case False
  have b: "unat s < 2 ^ 32" by (rule unat_u32_less)
  from False have n: "unat (s + 1) = unat s + 1"
    by (simp add: unat_eq_zero unatSuc add.commute)
  have "unat s + 1 < 2 ^ 32"
    using unat_u32_less [of "s + 1"] n by simp
  then show ?thesis using False n by (simp add: bumpSerial_def Let_def)
qed

lemma unat_bumpSerial_iter:
  "unat ((bumpSerial ^^ Suc k) s) = (unat s + k) mod (2 ^ 32 - 1) + 1"
proof (induction k)
  case 0
  show ?case by (simp add: unat_bumpSerial)
next
  case (Suc k)
  have "unat ((bumpSerial ^^ Suc (Suc k)) s) = unat (bumpSerial ((bumpSerial ^^ Suc k) s))"
    by simp
  also have "\<dots> = ((unat s + k) mod (2 ^ 32 - 1) + 1) mod (2 ^ 32 - 1) + 1"
    by (simp only: unat_bumpSerial Suc.IH)
  also have "\<dots> = (unat s + Suc k) mod (2 ^ 32 - 1) + 1"
    by (simp add: mod_Suc_eq)
  finally show ?case .
qed

text \<open>A serial is not reused before the counter has gone round all non-zero values.\<close>

lemma bumpSerial_iter_fresh:
  assumes "s \<noteq> 0" and "0 < k" and "k < 2 ^ 32 - 1"
  shows "(bumpSerial ^^ k) s \<noteq> s"
proof
  assume eq: "(bumpSerial ^^ k) s = s"
  from assms(2) obtain j where k: "k = Suc j" by (cases k) auto
  have pos: "0 < unat s" using assms(1) by (simp add: unat_gt_0)
  have lt: "unat s < 2 ^ 32" by (rule unat_u32_less)
  have "unat s = (unat s + j) mod (2 ^ 32 - 1) + 1"
    using arg_cong [OF eq, of unat] unfolding k unat_bumpSerial_iter by simp
  then have "(unat s - 1) mod (2 ^ 32 - 1) = (unat s + j) mod (2 ^ 32 - 1)"
    using pos lt by simp
  then have "(unat s + j - (unat s - 1)) mod (2 ^ 32 - 1) = 0"
    using mod_eq_dvd_iff_nat [of "unat s - 1" "unat s + j" "2 ^ 32 - 1"] pos
    by (metis diff_le_self dvd_imp_mod_0 le_add1 le_trans)
  then have "(j + 1) mod (2 ^ 32 - 1) = 0" using pos by simp
  then show False using assms(3) k by simp
qed


section \<open>Byte buffers\<close>

text \<open>
  Writing consecutive elements into an array.  The array is always as long as the C array; a
  write past its end would make the list longer, so the length lemma is also the bounds check.
\<close>

definition poke :: "'a list \<Rightarrow> nat \<Rightarrow> 'a list \<Rightarrow> 'a list" where
  "poke xs off ys = take off xs @ ys @ drop (off + length ys) xs"

lemma poke_length: "off + length ys \<le> length xs \<Longrightarrow> length (poke xs off ys) = length xs"
  by (simp add: poke_def)

text \<open>Sequential writing into a zeroed array: the next write after \<open>a\<close>, leaving a gap of \<open>k\<close>.\<close>

lemma poke_zeros:
  assumes "off = length a + k" "k + length ys \<le> n"
  shows "poke (a @ replicate n z) off ys = (a @ replicate k z @ ys) @ replicate (n - (k + length ys)) z"
  using assms by (simp add: poke_def min.absorb1)

text \<open>Little-endian integers.\<close>

definition le32 :: "u8 list \<Rightarrow> u32" where
  "le32 bs = ucast (bs ! 0) OR push_bit 8 (ucast (bs ! 1)) OR push_bit 16 (ucast (bs ! 2)) OR push_bit 24 (ucast (bs ! 3))"

definition card32 :: "u32 \<Rightarrow> u8 list" where
  "card32 v = map (\<lambda>i. ucast (drop_bit (i * 8) v)) [0..<4]"

lemma card32_eq: "card32 v = [ucast v, ucast (drop_bit 8 v), ucast (drop_bit 16 v), ucast (drop_bit 24 v)]"
  by (simp add: card32_def upt_rec)

lemma length_card32 [simp]: "length (card32 v) = 4"
  by (simp add: card32_eq)

lemma le32_card32 [simp]: "le32 (card32 v @ bs) = v"
proof (rule bit_word_eqI)
  fix n assume "n < LENGTH(32)"
  then have "n < 8 \<or> 8 \<le> n \<and> n < 16 \<or> 16 \<le> n \<and> n < 24 \<or> 24 \<le> n \<and> n < 32" by auto
  then show "bit (le32 (card32 v @ bs)) n = bit v n"
    by (auto simp: le32_def card32_eq bit_simps)
qed


lemma take_drop_length: "g = take k xs \<Longrightarrow> xs = g @ drop (length g) xs"
  by (cases "k \<le> length xs") simp_all


text \<open>Writing to distinct places of a function.\<close>

lemma fold_fun_upd_other: "i \<notin> f ` set xs \<Longrightarrow> fold (\<lambda>x d. d(f x := g x)) xs d i = d i"
  by (induction xs arbitrary: d) auto

lemma fold_fun_upd_at:
  assumes "inj_on f (set xs)" "x \<in> set xs"
  shows "fold (\<lambda>x d. d(f x := g x)) xs d (f x) = g x"
  using assms
proof (induction xs arbitrary: d)
  case (Cons y ys)
  show ?case
  proof (cases "x \<in> set ys")
    case False
    with Cons.prems have "x = y" "f x \<notin> f ` set ys" by (auto simp: inj_on_def)
    from fold_fun_upd_other [OF this(2), of g "d(f y := g y)"] this(1) show ?thesis
      by (simp only: list.simps fold_simps fun_upd_same)
  qed (use Cons in \<open>simp add: inj_on_def\<close>)
qed simp

lemma row_major_inj:
  assumes "x < s" "x' < s" "y * s + x = y' * s + (x' :: nat)"
  shows "y = y' \<and> x = x'"
proof -
  have "(y * s + x) div s = y" "(y' * s + x') div s = y'"
    using assms(1, 2) by (simp_all add: div_mult_self3 div_less)
  with assms(3) have "y = y'" by simp
  with assms(3) show ?thesis by simp
qed

section \<open>First index\<close>

text \<open>The idiom of a counting loop that stops at the first element with a property.\<close>

definition findIndex :: "('a \<Rightarrow> bool) \<Rightarrow> 'a list \<Rightarrow> nat option" where
  "findIndex p xs = find (\<lambda>i. p (xs ! i)) [0..<length xs]"

lemma findIndex_Some: "findIndex p xs = Some i \<Longrightarrow> i < length xs \<and> p (xs ! i)"
  by (auto simp: findIndex_def find_Some_iff)

lemma findIndex_None: "findIndex p xs = None \<longleftrightarrow> (\<forall>x \<in> set xs. \<not> p x)"
  by (auto simp: findIndex_def find_None_iff all_set_conv_all_nth)

lemma findIndex_least: "findIndex p xs = Some i \<Longrightarrow> j < i \<Longrightarrow> \<not> p (xs ! j)"
  by (auto simp: findIndex_def find_Some_iff)

lemma findIndex_split:
  assumes "findIndex p xs = Some i"
  obtains ys x zs where "xs = ys @ x # zs" "length ys = i" "p x" "\<forall>y \<in> set ys. \<not> p y"
proof
  have i: "i < length xs" "p (xs ! i)" using findIndex_Some [OF assms] by auto
  show "xs = take i xs @ xs ! i # drop (Suc i) xs" using i(1) by (rule id_take_nth_drop)
  show "length (take i xs) = i" using i(1) by simp
  show "p (xs ! i)" by (rule i(2))
  show "\<forall>y \<in> set (take i xs). \<not> p y"
    using findIndex_least [OF assms] i(1) by (auto simp: in_set_conv_nth)
qed

lemma findIndex_at:
  assumes "\<forall>y \<in> set ys. \<not> p y" "p x"
  shows "findIndex p (ys @ x # zs) = Some (length ys)"
proof (cases "findIndex p (ys @ x # zs)")
  case None
  with assms(2) show ?thesis by (simp add: findIndex_None)
next
  case (Some i)
  have "\<not> i < length ys" using findIndex_Some [OF Some] assms(1) by (auto simp: nth_append)
  moreover have "\<not> length ys < i" using findIndex_least [OF Some, of "length ys"] assms(2) by auto
  ultimately show ?thesis using Some by simp
qed

section \<open>Decimal numerals\<close>

text \<open>The output of \<open>printf("%d")\<close>.\<close>

function decimalNat :: "nat \<Rightarrow> string" where
  "decimalNat n = (if n < 10 then [char_of (48 + n)] else decimalNat (n div 10) @ [char_of (48 + n mod 10)])"
  by pat_completeness auto
termination by (relation "measure id") auto

definition decimal :: "int \<Rightarrow> string" where
  "decimal i = (if i < 0 then CHR ''-'' # decimalNat (nat (- i)) else decimalNat (nat i))"

declare decimalNat.simps [simp del]

lemma map_update_same: "f x = f (t ! i) \<Longrightarrow> map f (t[i := x]) = map f t"
  by (cases "i < length t") (simp_all add: map_update list_update_same_conv list_update_beyond)

end
