(* ===== verification/Window_State.thy ===== *)
theory Window_State
  imports Lorie_Prelude
begin

text \<open>
  The per-window state that the host and the X clients negotiate: fullscreen
  (\<open>fullscreen_state.h\<close>), maximised axes (\<open>maximized_state.h\<close>), the activation time check
  (\<open>window_interaction.h\<close>) and the window role (\<open>window_role.h\<close>).  A request from a client
  changes the wish, a confirmation from the host carries the serial of the request it answers
  and changes both the wish and the actual state.
\<close>

section \<open>Fullscreen\<close>

record LorieFullscreenState =
  fs_serial :: u32
  fs_requested :: bool
  fs_actual :: bool

definition lorieFullscreenRequest ::
    "LorieFullscreenState \<Rightarrow> u32 \<Rightarrow> bool \<times> LorieFullscreenState" where
  "lorieFullscreenRequest state action =
     (if action > 2 then (False, state)
      else (True, state\<lparr>fs_requested := (if action = 2 then \<not> fs_requested state else action = 1),
                        fs_serial := bumpSerial (fs_serial state)\<rparr>))"

definition lorieFullscreenConfirm ::
    "LorieFullscreenState \<Rightarrow> u32 \<Rightarrow> bool \<Rightarrow> bool \<times> LorieFullscreenState" where
  "lorieFullscreenConfirm state serial actual =
     (if serial \<noteq> fs_serial state then (False, state)
      else (True, state\<lparr>fs_requested := actual, fs_actual := actual\<rparr>))"

section \<open>Maximised axes\<close>

abbreviation (input) LORIE_MAXIMIZED_HORIZONTAL :: u32 where
  "LORIE_MAXIMIZED_HORIZONTAL \<equiv> 1"

abbreviation (input) LORIE_MAXIMIZED_VERTICAL :: u32 where
  "LORIE_MAXIMIZED_VERTICAL \<equiv> 2"

record LorieMaximizedState =
  mx_serial :: u32
  mx_requested :: u32
  mx_actual :: u32

definition lorieMaximizedRequest ::
    "LorieMaximizedState \<Rightarrow> u32 \<Rightarrow> u32 \<Rightarrow> bool \<times> LorieMaximizedState" where
  "lorieMaximizedRequest state action axes =
     (if action > 2 \<or> axes = 0 \<or> has_flag axes (NOT 3) then (False, state)
      else (True, state\<lparr>mx_requested :=
              (if action = 0 then mx_requested state AND NOT axes
               else if action = 1 then mx_requested state OR axes
               else mx_requested state XOR axes)\<rparr>))"

definition lorieMaximizedConfirm ::
    "LorieMaximizedState \<Rightarrow> u32 \<Rightarrow> u32 \<Rightarrow> bool \<times> LorieMaximizedState" where
  "lorieMaximizedConfirm state serial axes =
     (if serial \<noteq> mx_serial state \<or> has_flag axes (NOT 3) then (False, state)
      else (True, state\<lparr>mx_requested := axes, mx_actual := axes\<rparr>))"

section \<open>Interaction requests\<close>

abbreviation (input) LORIE_INTERACTION_NONE :: u8 where "LORIE_INTERACTION_NONE \<equiv> 0"
abbreviation (input) LORIE_INTERACTION_ACTIVATE :: u8 where "LORIE_INTERACTION_ACTIVATE \<equiv> 1"
abbreviation (input) LORIE_INTERACTION_MINIMIZE :: u8 where "LORIE_INTERACTION_MINIMIZE \<equiv> 2"
abbreviation (input) LORIE_STATE_ACTIVE :: u32 where "LORIE_STATE_ACTIVE \<equiv> 1"
abbreviation (input) LORIE_STATE_MINIMIZED :: u32 where "LORIE_STATE_MINIMIZED \<equiv> 2"
abbreviation (input) LORIE_STATE_ATTENTION :: u32 where "LORIE_STATE_ATTENTION \<equiv> 4"

record LorieWindowInteraction =
  ia_serial :: u32
  ia_action :: u8
  ia_attention :: bool
  ia_actual :: u8

definition lorieActivationTimestamp :: "u32 \<Rightarrow> u32 \<Rightarrow> u32 \<Rightarrow> bool" where
  "lorieActivationTimestamp requested input now \<longleftrightarrow>
     requested \<noteq> 0 \<and> input \<noteq> 0 \<and> 0 \<le> sint (requested - input)
     \<and> 0 \<le> sint (now - requested) \<and> now - input \<le> 10000"

section \<open>Role\<close>

datatype LorieWindowRole =
    LORIE_WINDOW_APPLICATION
  | LORIE_WINDOW_SPLASH
  | LORIE_WINDOW_UNCLASSIFIED
  | LORIE_WINDOW_DIALOG

definition lorieWindowRole :: "bool \<Rightarrow> bool \<Rightarrow> bool \<Rightarrow> bool \<Rightarrow> bool \<Rightarrow> LorieWindowRole" where
  "lorieWindowRole splash dialog typed wmClass wmState =
     (if splash then LORIE_WINDOW_SPLASH
      else if dialog then LORIE_WINDOW_DIALOG
      else if typed \<or> wmClass \<or> wmState then LORIE_WINDOW_APPLICATION
      else LORIE_WINDOW_UNCLASSIFIED)"

section \<open>The confirmation contract\<close>

text \<open>
  What both negotiated states promise to the window model: a confirmation is accepted exactly
  when it carries the current serial and a valid value; then wish and actual state agree.
\<close>

locale confirmable =
  fixes serial :: "'s \<Rightarrow> u32"
    and requested :: "'s \<Rightarrow> 'v"
    and actual :: "'s \<Rightarrow> 'v"
    and confirm :: "'s \<Rightarrow> u32 \<Rightarrow> 'v \<Rightarrow> bool \<times> 's"
    and valid :: "'v \<Rightarrow> bool"
  assumes accepted_iff: "fst (confirm s n v) \<longleftrightarrow> n = serial s \<and> valid v"
    and rejected: "\<not> fst (confirm s n v) \<Longrightarrow> snd (confirm s n v) = s"
    and settled: "fst (confirm s n v) \<Longrightarrow>
      requested (snd (confirm s n v)) = v \<and> actual (snd (confirm s n v)) = v"
    and keeps_serial: "serial (snd (confirm s n v)) = serial s"
begin

lemma stale_ignored: "n \<noteq> serial s \<Longrightarrow> confirm s n v = (False, s)"
  using accepted_iff [of s n v] rejected [of s n v] by (cases "confirm s n v") auto

lemma stale_list_ignored:
  "\<forall>(n, v) \<in> set cs. n \<noteq> serial s \<Longrightarrow> foldl (\<lambda>s (n, v). snd (confirm s n v)) s cs = s"
  by (induction cs) (auto simp: stale_ignored)

lemma stale_then_current:
  assumes "\<forall>(n, v) \<in> set cs. n \<noteq> serial s" and "valid v"
  shows "let t = snd (confirm (foldl (\<lambda>s (n, v). snd (confirm s n v)) s cs) (serial s) v)
         in requested t = v \<and> actual t = v"
  using assms settled [of s "serial s" v]
  by (simp add: stale_list_ignored accepted_iff Let_def)

end

interpretation fs: confirmable fs_serial fs_requested fs_actual lorieFullscreenConfirm "\<lambda>_. True"
  by unfold_locales (auto simp: lorieFullscreenConfirm_def)

interpretation mx: confirmable mx_serial mx_requested mx_actual lorieMaximizedConfirm
    "\<lambda>axes. \<not> has_flag axes (NOT 3)"
  by unfold_locales (auto simp: lorieMaximizedConfirm_def)

section \<open>Requests in sequence\<close>

definition fullscreenRequests :: "LorieFullscreenState \<Rightarrow> u32 list \<Rightarrow> LorieFullscreenState" where
  "fullscreenRequests = foldl (\<lambda>s a. snd (lorieFullscreenRequest s a))"

lemma fullscreenRequests_serial:
  "\<forall>a \<in> set acts. a \<le> 2 \<Longrightarrow>
   fs_serial (fullscreenRequests s acts) = (bumpSerial ^^ length acts) (fs_serial s)"
proof (induction acts arbitrary: s)
  case Nil
  show ?case by (simp add: fullscreenRequests_def)
next
  case (Cons a acts)
  have "fs_serial (fullscreenRequests s (a # acts))
      = fs_serial (fullscreenRequests (snd (lorieFullscreenRequest s a)) acts)"
    by (simp add: fullscreenRequests_def)
  also have "\<dots> = (bumpSerial ^^ length acts) (bumpSerial (fs_serial s))"
    using Cons by (auto simp: lorieFullscreenRequest_def)
  finally show ?case by (simp add: funpow_swap1)
qed

text \<open>
  a confirmation that answers an earlier fullscreen request is rejected without any effect
  once the client has made further valid requests, as long as fewer than \<open>2 ^ 32 - 1\<close> requests
  are in between (the serial then comes round).
\<close>

theorem fullscreen_stale_confirm_rejected:
  assumes "fs_serial s \<noteq> 0" and "\<forall>a \<in> set acts. a \<le> 2"
    and "acts \<noteq> []" and "length acts < 2 ^ 32 - 1"
  shows "lorieFullscreenConfirm (fullscreenRequests s acts) (fs_serial s) v
         = (False, fullscreenRequests s acts)"
proof (rule fs.stale_ignored)
  show "fs_serial s \<noteq> fs_serial (fullscreenRequests s acts)"
    using bumpSerial_iter_fresh [of "fs_serial s" "length acts"] assms
    by (auto simp: fullscreenRequests_serial)
qed

theorem fullscreen_stale_confirm_rejected_witness:
  "lorieFullscreenConfirm
     (fullscreenRequests \<lparr>fs_serial = 4294967295, fs_requested = False, fs_actual = False\<rparr> [1, 2])
     4294967295 True
   = (False, \<lparr>fs_serial = 2, fs_requested = False, fs_actual = False\<rparr>)"
  using fullscreen_stale_confirm_rejected
    [of "\<lparr>fs_serial = 4294967295, fs_requested = False, fs_actual = False\<rparr>" "[1, 2]" True]
  by (simp add: fullscreenRequests_def lorieFullscreenRequest_def bumpSerial_def)

section \<open>Activation time\<close>

text \<open>
  the wrapping comparisons of the activation check amount to one condition on real
  elapsed time, also across a wrap of the 32-bit millisecond clock: the request was made after
  the last input and not after now, and the last input is at most ten seconds old.
\<close>

theorem activation_timestamp_iff:
  "lorieActivationTimestamp requested input now \<longleftrightarrow>
     requested \<noteq> 0 \<and> input \<noteq> 0
     \<and> unat (requested - input) \<le> unat (now - input) \<and> unat (now - input) \<le> 10000"
proof -
  define a b c where "a = requested - input" and "b = now - requested" and "c = now - input"
  have c: "c = a + b" by (simp add: a_def b_def c_def)
  have le: "c \<le> 10000 \<longleftrightarrow> unat c \<le> 10000"
    by (simp add: word_le_nat_alt)
  have "unat a < 2 ^ 31 \<and> unat b < 2 ^ 31 \<and> unat c \<le> 10000 \<longleftrightarrow>
        unat a \<le> unat c \<and> unat c \<le> 10000" (is "?l \<longleftrightarrow> ?r")
  proof
    assume l: ?l
    then have "unat c = unat a + unat b" by (simp add: c unat_word_ariths)
    with l show ?r by simp
  next
    assume r: ?r
    have "b = c - a" by (simp add: c)
    then have "unat b = unat c - unat a"
      using r by (simp add: unat_sub word_le_nat_alt)
    then have "unat b \<le> unat c" by simp
    with r show ?l by auto
  qed
  then show ?thesis
    unfolding lorieActivationTimestamp_def
    by (simp add: sint_u32_nonneg_iff le flip: a_def b_def c_def)
qed

section \<open>Maximised axes as sets\<close>

definition axesOf :: "u32 \<Rightarrow> nat set" where
  "axesOf w = {i. bit w i}"

lemma axesOf_bitops:
  "axesOf (a AND NOT b) = axesOf a - axesOf b"
  "axesOf (a OR b) = axesOf a \<union> axesOf b"
  "axesOf (a XOR b) = (axesOf a - axesOf b) \<union> (axesOf b - axesOf a)"
  by (auto simp: axesOf_def bit_and_iff bit_or_iff bit_xor_iff bit_not_iff dest: bit_u32)

text \<open>
  on the sets of maximised axes, an accepted request removes, adds or toggles exactly the
  named axes; a request with an unknown action, no axis or an unknown axis bit is refused and
  changes nothing; neither the confirmed state nor the serial is touched.
\<close>

theorem maximized_request_sets:
  "lorieMaximizedRequest s action axes = (ok, t) \<Longrightarrow>
     ok = (action \<le> 2 \<and> axesOf axes \<noteq> {} \<and> axesOf axes \<subseteq> {0, 1})
     \<and> axesOf (mx_requested t) =
         (if \<not> ok then axesOf (mx_requested s)
          else if action = 0 then axesOf (mx_requested s) - axesOf axes
          else if action = 1 then axesOf (mx_requested s) \<union> axesOf axes
          else (axesOf (mx_requested s) - axesOf axes) \<union> (axesOf axes - axesOf (mx_requested s)))
     \<and> mx_actual t = mx_actual s \<and> mx_serial t = mx_serial s"
proof -
  assume eq: "lorieMaximizedRequest s action axes = (ok, t)"
  have empty: "axesOf axes = {} \<longleftrightarrow> axes = 0"
    by (auto simp: axesOf_def bit_eq_iff dest: bit_u32)
  have "has_flag axes (NOT 3) \<longleftrightarrow> (\<exists>i. bit axes i \<and> i \<noteq> 0 \<and> i \<noteq> 1)"
    by (auto simp: has_flag_iff bit_minus_4 dest: bit_u32)
  then have sub: "axesOf axes \<subseteq> {0, 1} \<longleftrightarrow> \<not> has_flag axes (NOT 3)"
    by (auto simp: axesOf_def)
  show ?thesis
    using eq
    by (auto simp: lorieMaximizedRequest_def empty sub [simplified] axesOf_bitops split: if_splits)
qed

theorem maximized_request_sets_witness:
  "lorieMaximizedRequest \<lparr>mx_serial = 7, mx_requested = 1, mx_actual = 1\<rparr> 2 3
     = (True, \<lparr>mx_serial = 7, mx_requested = 2, mx_actual = 1\<rparr>)
   \<and> axesOf 2 = axesOf 1 - axesOf 3 \<union> (axesOf 3 - axesOf 1)"
proof -
  have run: "lorieMaximizedRequest \<lparr>mx_serial = 7, mx_requested = 1, mx_actual = 1\<rparr> 2 3
     = (True, \<lparr>mx_serial = 7, mx_requested = 2, mx_actual = 1\<rparr>)"
    by (simp add: lorieMaximizedRequest_def has_flag_def)
  show ?thesis using run maximized_request_sets [OF run] by simp
qed

end
