(* ===== verification/Window_Size.thy ===== *)
theory Window_Size
  imports Lorie_Prelude
begin

text \<open>
  Size hints and placement arithmetic: \<open>window_size.h\<close> (the ICCCM \<open>WM_NORMAL_HINTS\<close> array to
  bounded constraints) and \<open>window_placement.h\<close> (centering, clamping and the mapping of
  normalised host coordinates to X coordinates).  The pair of a hints pointer and a count is an
  optional list of 32-bit words: no pointer is \<open>None\<close>, the count is the length of the list.
\<close>

abbreviation (input) LORIE_WINDOW_SIZE_LIMIT :: int where "LORIE_WINDOW_SIZE_LIMIT \<equiv> 16384"
abbreviation (input) LORIE_HINT_MIN_SIZE :: u32 where "LORIE_HINT_MIN_SIZE \<equiv> 16"
abbreviation (input) LORIE_HINT_MAX_SIZE :: u32 where "LORIE_HINT_MAX_SIZE \<equiv> 32"
abbreviation (input) LORIE_HINT_RESIZE_INC :: u32 where "LORIE_HINT_RESIZE_INC \<equiv> 64"
abbreviation (input) LORIE_HINT_ASPECT :: u32 where "LORIE_HINT_ASPECT \<equiv> 128"
abbreviation (input) LORIE_HINT_BASE_SIZE :: u32 where "LORIE_HINT_BASE_SIZE \<equiv> 256"

type_synonym hints = "u32 list option"

record LorieResizeRules =
  baseWidth :: int
  baseHeight :: int
  widthIncrement :: int
  heightIncrement :: int
  minAspectX :: int
  minAspectY :: int
  maxAspectX :: int
  maxAspectY :: int
  aspectBaseWidth :: int
  aspectBaseHeight :: int

record LorieWindowConstraints =
  minWidth :: int
  minHeight :: int
  maxWidth :: int
  maxHeight :: int
  resize :: LorieResizeRules

section \<open>Size hints\<close>

text \<open>\<open>hintFlag\<close> is the guard \<open>hints && count >= n && (hints[0] & flag)\<close>.\<close>

definition hintFlag :: "hints \<Rightarrow> nat \<Rightarrow> u32 \<Rightarrow> bool" where
  "hintFlag hints n flag =
     (case hints of None \<Rightarrow> False | Some h \<Rightarrow> n \<le> length h \<and> h \<noteq> [] \<and> has_flag (h ! 0) flag)"

definition hintValue :: "hints \<Rightarrow> nat \<Rightarrow> int" where
  "hintValue hints i = uint (the hints ! i)"

definition axisMinimum :: "hints \<Rightarrow> nat \<Rightarrow> int" where
  "axisMinimum hints axis =
     (if hintFlag hints 7 LORIE_HINT_MIN_SIZE
         \<and> 0 < hintValue hints (5 + axis) \<and> hintValue hints (5 + axis) \<le> LORIE_WINDOW_SIZE_LIMIT
      then hintValue hints (5 + axis) else 1)"

definition axisMaximum :: "hints \<Rightarrow> nat \<Rightarrow> int" where
  "axisMaximum hints axis =
     (if hintFlag hints 9 LORIE_HINT_MAX_SIZE
         \<and> 0 < hintValue hints (7 + axis) \<and> hintValue hints (7 + axis) \<le> INT32_MAX
      then (if hintValue hints (7 + axis) < LORIE_WINDOW_SIZE_LIMIT
            then hintValue hints (7 + axis) else LORIE_WINDOW_SIZE_LIMIT)
      else LORIE_WINDOW_SIZE_LIMIT)"

definition lorieWindowSizeAxis :: "int \<Rightarrow> hints \<Rightarrow> nat \<Rightarrow> int" where
  "lorieWindowSizeAxis requested hints axis =
     (let minimum = axisMinimum hints axis; maximum = axisMaximum hints axis;
          (lo, hi) = (if maximum < minimum then (1, LORIE_WINDOW_SIZE_LIMIT) else (minimum, maximum))
      in if requested < lo then lo else if requested > hi then hi else requested)"

text \<open>
  One iteration of the per-axis loop of \<open>lorieWindowSizeHints\<close>: from the current minimum and
  maximum of the axis it yields base size, increment, the (possibly raised) minimum and the
  aspect base of the axis.
\<close>

record axisRules =
  ax_base :: int
  ax_increment :: int
  ax_minimum :: int
  ax_aspectBase :: int

definition sizeHintsAxis :: "hints \<Rightarrow> nat \<Rightarrow> int \<Rightarrow> int \<Rightarrow> axisRules" where
  "sizeHintsAxis hints axis minimum maximum =
     (let incr = (if hintFlag hints 11 LORIE_HINT_RESIZE_INC \<and> 0 < hintValue hints (9 + axis)
                     \<and> hintValue hints (9 + axis) \<le> LORIE_WINDOW_SIZE_LIMIT
                  then hintValue hints (9 + axis) else 1)
      in if hintFlag hints 17 LORIE_HINT_BASE_SIZE
            \<and> hintValue hints (15 + axis) \<le> LORIE_WINDOW_SIZE_LIMIT
         then let base = hintValue hints (15 + axis)
              in \<lparr>ax_base = base, ax_increment = incr,
                  ax_minimum = (if \<not> hintFlag hints 1 LORIE_HINT_MIN_SIZE \<and> base > 0 \<and> base \<le> maximum
                                then base else minimum),
                  ax_aspectBase = base\<rparr>
         else \<lparr>ax_base = (if hintFlag hints 7 LORIE_HINT_MIN_SIZE then minimum else 0),
               ax_increment = incr, ax_minimum = minimum, ax_aspectBase = 0\<rparr>)"

definition aspectValid :: "hints \<Rightarrow> bool" where
  "aspectValid hints \<longleftrightarrow>
     hintFlag hints 15 LORIE_HINT_ASPECT
     \<and> (\<forall>i \<in> {11, 12, 13, 14}. 0 < hintValue hints i \<and> hintValue hints i \<le> INT32_MAX)
     \<and> (ucast (the hints ! 11) :: u64) * ucast (the hints ! 14)
        \<le> ucast (the hints ! 13) * ucast (the hints ! 12)"

definition lorieWindowSizeHints :: "hints \<Rightarrow> LorieWindowConstraints" where
  "lorieWindowSizeHints hints =
     (let minW = lorieWindowSizeAxis 1 hints 0; minH = lorieWindowSizeAxis 1 hints 1;
          maxW = lorieWindowSizeAxis INT32_MAX hints 0; maxH = lorieWindowSizeAxis INT32_MAX hints 1;
          none = \<lparr>baseWidth = 0, baseHeight = 0, widthIncrement = 0, heightIncrement = 0,
                  minAspectX = 0, minAspectY = 0, maxAspectX = 0, maxAspectY = 0,
                  aspectBaseWidth = 0, aspectBaseHeight = 0\<rparr>
      in if hints = None \<or> hints = Some []
         then \<lparr>minWidth = minW, minHeight = minH, maxWidth = maxW, maxHeight = maxH, resize = none\<rparr>
         else let w = sizeHintsAxis hints 0 minW maxW; h = sizeHintsAxis hints 1 minH maxH;
                  rules = none\<lparr>baseWidth := ax_base w, baseHeight := ax_base h,
                               widthIncrement := ax_increment w, heightIncrement := ax_increment h,
                               aspectBaseWidth := ax_aspectBase w, aspectBaseHeight := ax_aspectBase h\<rparr>
              in \<lparr>minWidth = ax_minimum w, minHeight = ax_minimum h, maxWidth = maxW, maxHeight = maxH,
                  resize = (if aspectValid hints
                            then rules\<lparr>minAspectX := hintValue hints 11, minAspectY := hintValue hints 12,
                                       maxAspectX := hintValue hints 13, maxAspectY := hintValue hints 14\<rparr>
                            else rules)\<rparr>)"

section \<open>Placement\<close>

definition lorieWindowPositionSpecified :: "hints \<Rightarrow> bool" where
  "lorieWindowPositionSpecified hints = hintFlag hints 1 (1 OR 4)"

definition lorieCenterTransientAxis :: "int \<Rightarrow> int \<Rightarrow> int \<Rightarrow> int" where
  "lorieCenterTransientAxis extent origin available =
     origin + (if extent < available then c_div (available - extent) 2 else 0)"

definition loriePlaceTransientAxis :: "int \<Rightarrow> int \<Rightarrow> int \<Rightarrow> int \<Rightarrow> int" where
  "loriePlaceTransientAxis position extent origin available =
     (let last = origin + (if extent < available then available - extent else 0)
      in if position < origin then origin else if position > last then last else position)"

definition lorieOutputAxis :: "int \<Rightarrow> int \<Rightarrow> int \<Rightarrow> int" where
  "lorieOutputAxis normalized origin extent =
     (let value = (if normalized < 0 then 0 else if normalized > 10000 then 10000 else normalized)
      in origin + c_div (value * (if extent > 0 then extent - 1 else 0)) 10000)"

section \<open>Lemmas\<close>

lemma axisMinimum_range: "1 \<le> axisMinimum hints axis \<and> axisMinimum hints axis \<le> 16384"
  by (auto simp: axisMinimum_def)

lemma axisMaximum_range: "1 \<le> axisMaximum hints axis \<and> axisMaximum hints axis \<le> 16384"
  by (auto simp: axisMaximum_def)

lemma lorieWindowSizeAxis_range:
  "1 \<le> lorieWindowSizeAxis r hints axis \<and> lorieWindowSizeAxis r hints axis \<le> 16384"
  using axisMinimum_range [of hints axis] axisMaximum_range [of hints axis]
  by (auto simp: lorieWindowSizeAxis_def Let_def)

lemma lorieWindowSizeAxis_mono:
  "r \<le> r' \<Longrightarrow> lorieWindowSizeAxis r hints axis \<le> lorieWindowSizeAxis r' hints axis"
  by (auto simp: lorieWindowSizeAxis_def Let_def)

text \<open>The axis function is the clamp into the limits that the function reports itself.\<close>

lemma lorieWindowSizeAxis_clamp:
  "lorieWindowSizeAxis r hints axis =
     max (lorieWindowSizeAxis 1 hints axis) (min (lorieWindowSizeAxis INT32_MAX hints axis) r)"
  using axisMinimum_range [of hints axis] axisMaximum_range [of hints axis]
  by (auto simp: lorieWindowSizeAxis_def Let_def)

lemma sizeHintsAxis_range:
  assumes "1 \<le> minimum" and "minimum \<le> maximum" and "maximum \<le> 16384"
  shows "let a = sizeHintsAxis hints axis minimum maximum in
           1 \<le> ax_minimum a \<and> ax_minimum a \<le> maximum
           \<and> 0 \<le> ax_base a \<and> ax_base a \<le> 16384
           \<and> 1 \<le> ax_increment a \<and> ax_increment a \<le> 16384
           \<and> 0 \<le> ax_aspectBase a \<and> ax_aspectBase a \<le> 16384"
  using assms by (auto simp: sizeHintsAxis_def Let_def hintValue_def)

lemma uint_ucast_mult_31:
  fixes a b :: u32
  assumes "uint a \<le> INT32_MAX" and "uint b \<le> INT32_MAX"
  shows "uint ((ucast a :: u64) * ucast b) = uint a * uint b"
proof -
  have "uint a * uint b \<le> INT32_MAX * INT32_MAX"
    by (rule mult_mono) (use assms in auto)
  then have "uint a * uint b < 2 ^ 64" by simp
  moreover have "take_bit 64 (uint a) = uint a" "take_bit 64 (uint b) = uint b"
    using assms by (simp_all add: take_bit_int_eq_self)
  ultimately show ?thesis by (simp add: uint_word_ariths unsigned_ucast_eq)
qed

lemma aspectValid_ratio:
  assumes "aspectValid hints"
  shows "hintValue hints 11 * hintValue hints 14 \<le> hintValue hints 13 * hintValue hints 12"
  using assms
  by (auto simp: aspectValid_def hintValue_def word_le_def uint_ucast_mult_31)

lemmas sizeAxis_limits = lorieWindowSizeAxis_range lorieWindowSizeAxis_mono

lemma sizeHintsAxis_ok:
  "let a = sizeHintsAxis hints axis (lorieWindowSizeAxis 1 hints ax) (lorieWindowSizeAxis INT32_MAX hints ax) in
     1 \<le> ax_minimum a \<and> ax_minimum a \<le> lorieWindowSizeAxis INT32_MAX hints ax
     \<and> 0 \<le> ax_base a \<and> ax_base a \<le> 16384 \<and> 1 \<le> ax_increment a \<and> ax_increment a \<le> 16384
     \<and> 0 \<le> ax_aspectBase a \<and> ax_aspectBase a \<le> 16384"
  by (rule sizeHintsAxis_range) (simp_all add: sizeAxis_limits)

section \<open>Properties\<close>

text \<open>
  C37: whatever bytes a client stores in \<open>WM_NORMAL_HINTS\<close>, the constraints handed to the host
  are usable: on both axes the minimum is positive and at most the maximum, the maximum is at
  most the window size limit, the aspect base and the base size are within the limit, and the
  increments are positive as soon as a hints array exists.
\<close>

theorem size_hints_bounds:
  "let c = lorieWindowSizeHints hints in
     1 \<le> minWidth c \<and> minWidth c \<le> maxWidth c \<and> maxWidth c \<le> 16384
     \<and> 1 \<le> minHeight c \<and> minHeight c \<le> maxHeight c \<and> maxHeight c \<le> 16384
     \<and> baseWidth (resize c) \<in> {0..16384} \<and> baseHeight (resize c) \<in> {0..16384}
     \<and> aspectBaseWidth (resize c) \<in> {0..16384} \<and> aspectBaseHeight (resize c) \<in> {0..16384}
     \<and> widthIncrement (resize c) \<in> (if hints = None \<or> hints = Some [] then {0} else {1..16384})
     \<and> heightIncrement (resize c) \<in> (if hints = None \<or> hints = Some [] then {0} else {1..16384})"
  using sizeHintsAxis_ok [of hints 0 0] sizeHintsAxis_ok [of hints 1 1]
  by (simp add: lorieWindowSizeHints_def Let_def sizeAxis_limits)

text \<open>
  the aspect rule is all or nothing: either all four aspect fields are zero, or all are
  positive 31-bit values and the minimum ratio is at most the maximum ratio as exact fractions
  (the 64-bit products of the check cannot overflow).
\<close>

theorem size_hints_aspect:
  "let r = resize (lorieWindowSizeHints hints) in
     (minAspectX r = 0 \<and> minAspectY r = 0 \<and> maxAspectX r = 0 \<and> maxAspectY r = 0)
     \<or> (0 < minAspectX r \<and> 0 < minAspectY r \<and> 0 < maxAspectX r \<and> 0 < maxAspectY r
        \<and> minAspectX r \<le> INT32_MAX \<and> minAspectY r \<le> INT32_MAX
        \<and> maxAspectX r \<le> INT32_MAX \<and> maxAspectY r \<le> INT32_MAX
        \<and> minAspectX r * maxAspectY r \<le> maxAspectX r * minAspectY r)"
proof (cases "aspectValid hints")
  case True
  then show ?thesis using aspectValid_ratio [OF True]
    by (auto simp: lorieWindowSizeHints_def Let_def aspectValid_def)
next
  case False
  then show ?thesis by (simp add: lorieWindowSizeHints_def Let_def)
qed

text \<open>
  the clamp the client geometry goes through is idempotent and agrees with the reported
  limits: a size that already satisfies them is never changed again, so a resize cannot feed
  back into another resize; contradictory hints leave the full range.
\<close>

theorem size_axis_stable:
  "lorieWindowSizeAxis (lorieWindowSizeAxis r hints axis) hints axis = lorieWindowSizeAxis r hints axis
   \<and> lorieWindowSizeAxis r hints axis =
       max (lorieWindowSizeAxis 1 hints axis) (min (lorieWindowSizeAxis INT32_MAX hints axis) r)
   \<and> (axisMaximum hints axis < axisMinimum hints axis \<longrightarrow>
        lorieWindowSizeAxis r hints axis = max 1 (min 16384 r))"
proof (intro conjI impI)
  show "lorieWindowSizeAxis (lorieWindowSizeAxis r hints axis) hints axis = lorieWindowSizeAxis r hints axis"
    by (auto simp: lorieWindowSizeAxis_def Let_def split: if_splits)
qed (rule lorieWindowSizeAxis_clamp, simp add: lorieWindowSizeAxis_def Let_def)

theorem size_axis_stable_witness:
  "axisMaximum (Some [48, 0, 0, 0, 0, 500, 10, 100, 10]) 0 = 100
   \<and> axisMinimum (Some [48, 0, 0, 0, 0, 500, 10, 100, 10]) 0 = 500
   \<and> lorieWindowSizeAxis 20000 (Some [48, 0, 0, 0, 0, 500, 10, 100, 10]) 0 = 16384"
proof -
  have m: "axisMaximum (Some [48, 0, 0, 0, 0, 500, 10, 100, 10]) 0 = 100"
      "axisMinimum (Some [48, 0, 0, 0, 0, 500, 10, 100, 10]) 0 = 500"
    by (simp_all add: axisMaximum_def axisMinimum_def hintFlag_def hintValue_def has_flag_def)
  then show ?thesis
    using size_axis_stable [of 20000 "Some [48, 0, 0, 0, 0, 500, 10, 100, 10]" 0] by simp
qed

text \<open>
  placement keeps a transient reachable: a window that fits is moved by the least amount so
  that its whole extent lies inside the owner, one that does not fit starts at the owner's
  origin, and placing twice is the same as placing once.
\<close>

theorem place_transient_reachable:
  assumes "0 \<le> extent" and "0 \<le> available"
  shows "let p = loriePlaceTransientAxis pos extent origin available in
           origin \<le> p
           \<and> (extent \<le> available \<longrightarrow> p + extent \<le> origin + available)
           \<and> (available \<le> extent \<longrightarrow> p = origin)
           \<and> (origin \<le> pos \<and> pos + extent \<le> origin + available \<longrightarrow> p = pos)
           \<and> loriePlaceTransientAxis p extent origin available = p"
  using assms by (auto simp: loriePlaceTransientAxis_def Let_def)

theorem place_transient_reachable_witness:
  "loriePlaceTransientAxis 700 200 100 640 = 540 \<and> loriePlaceTransientAxis 540 200 100 640 = 540"
  using place_transient_reachable [of 200 640 700 100]
  by (simp add: loriePlaceTransientAxis_def Let_def)

text \<open>
  a normalised host coordinate always maps to a pixel of the window: for a positive extent
  the result lies between the origin and the last pixel, both ends are reached, larger
  coordinates never map to smaller pixels, and the product stays far below the 64-bit range.
\<close>

theorem output_axis_in_window:
  assumes "0 < extent" and "extent \<le> 32767"
  shows "origin \<le> lorieOutputAxis n origin extent
         \<and> lorieOutputAxis n origin extent \<le> origin + extent - 1
         \<and> lorieOutputAxis 0 origin extent = origin
         \<and> lorieOutputAxis 10000 origin extent = origin + extent - 1
         \<and> (n \<le> m \<longrightarrow> lorieOutputAxis n origin extent \<le> lorieOutputAxis m origin extent)
         \<and> 10000 * (extent - 1) < INT64_MAX"
proof -
  let ?v = "\<lambda>n. if n < 0 then 0 else if n > 10000 then 10000 else (n :: int)"
  have eq: "lorieOutputAxis k origin extent = origin + ?v k * (extent - 1) div 10000" for k
    using assms by (simp add: lorieOutputAxis_def c_div_nonneg)
  have mono: "?v a * (extent - 1) div 10000 \<le> ?v b * (extent - 1) div 10000" if "a \<le> b" for a b
    using assms that by (intro zdiv_mono1 mult_right_mono) auto
  have top: "10000 * (extent - 1) div 10000 = extent - 1" by simp
  have "0 \<le> ?v n * (extent - 1) div 10000" "?v n * (extent - 1) div 10000 \<le> extent - 1"
    using mono [of "min n 0" n] mono [of n "max n 10000"] top assms by auto
  then show ?thesis using eq mono [of n m] top assms by auto
qed

theorem output_axis_in_window_witness:
  "lorieOutputAxis 5000 100 640 = 419 \<and> 100 \<le> lorieOutputAxis 5000 100 640
   \<and> lorieOutputAxis 10000 100 640 = 739"
  using output_axis_in_window [of 640 100 5000 5000]
  by (simp add: lorieOutputAxis_def c_div_def)

end
