(* ===== verification/Window_Family.thy ===== *)
theory Window_Family
  imports Lorie_Prelude
begin

text \<open>
  The window tree of the X server as the sources see it, and the family logic on top of it:
  \<open>window_family.h\<close> (activation order, family membership, popup grabs) and
  \<open>window_inspection_walk.h\<close> (the bounded inspection walk).  A non-null \<open>WindowPtr\<close> is a
  number, the null pointer is \<open>None\<close>, and the fields of \<open>WindowRec\<close> that the sources read are a
  record stored per pointer.  Callbacks (\<open>transientFor\<close>, \<open>belongs\<close>, \<open>member\<close>, \<open>raise\<close>) are
  function arguments, as in C.
\<close>

type_synonym wptr = nat
type_synonym XID = u32

datatype drawableClass = InputOutput | InputOnly

record windowRec =
  w_id :: XID
  w_parent :: "wptr option"
  w_firstChild :: "wptr option"
  w_lastChild :: "wptr option"
  w_nextSib :: "wptr option"
  w_prevSib :: "wptr option"
  w_mapped :: bool
  w_realized :: bool
  w_overrideRedirect :: bool
  w_class :: drawableClass
  w_x :: int
  w_y :: int
  w_width :: int
  w_height :: int

type_synonym wstore = "wptr \<Rightarrow> windowRec"

section \<open>Activation\<close>

record LorieWindowActivation =
  act_members :: "wptr list"
  act_focus :: wptr
  act_truncated :: bool

text \<open>\<open>members[0]\<close> is the owner: the structure is initialised with one member.\<close>

definition activationInit :: "wptr \<Rightarrow> LorieWindowActivation" where
  "activationInit w = \<lparr>act_members = [w], act_focus = w, act_truncated = False\<rparr>"

definition lorieWindowActivationAdd ::
    "LorieWindowActivation \<Rightarrow> wptr \<Rightarrow> bool \<Rightarrow> LorieWindowActivation" where
  "lorieWindowActivationAdd activation w modal =
     (if w = hd (act_members activation) then activation
      else if length (act_members activation) = 256 then activation\<lparr>act_truncated := True\<rparr>
      else let a = activation\<lparr>act_members := act_members activation @ [w]\<rparr>
           in if modal then a\<lparr>act_focus := w\<rparr> else a)"

partial_function (option) stackTop :: "(wptr \<Rightarrow> wptr option) \<Rightarrow> wptr \<Rightarrow> wptr \<Rightarrow> wptr option" where
  "stackTop par root stack =
     (case par stack of None \<Rightarrow> Some stack
      | Some p \<Rightarrow> if p = root then Some stack else stackTop par root p)"

text \<open>
  \<open>raise\<close> acts on the server state \<open>'s\<close>, from which the parent links are read afresh for
  every member; \<open>None\<close> stands for a climb that does not end.
\<close>

fun raiseMembers ::
    "('s \<Rightarrow> wptr \<Rightarrow> wptr option) \<Rightarrow> ('s \<Rightarrow> wptr \<Rightarrow> 's) \<Rightarrow> wptr \<Rightarrow> wptr list \<Rightarrow> 's \<Rightarrow> 's option" where
  "raiseMembers par raise root [] s = Some s"
| "raiseMembers par raise root (m # ms) s =
     (case stackTop (par s) root m of None \<Rightarrow> None
      | Some t \<Rightarrow> raiseMembers par raise root ms (raise s t))"

definition lorieWindowActivationApply ::
    "('s \<Rightarrow> wptr \<Rightarrow> wptr option) \<Rightarrow> ('s \<Rightarrow> wptr \<Rightarrow> 's) \<Rightarrow> LorieWindowActivation \<Rightarrow> wptr \<Rightarrow> 's
      \<Rightarrow> (wptr option \<times> 's) option" where
  "lorieWindowActivationApply par raise activation root s =
     (if act_truncated activation then Some (None, s)
      else map_option (\<lambda>s'. (Some (act_focus activation), s'))
             (raiseMembers par raise root (act_members activation) s))"

section \<open>Family membership\<close>

datatype famResult = FamReturn bool | FamNext "wptr option" nat

text \<open>The inner loop over real ancestors; it also notes the nearest transient link.\<close>

fun familyAncestors ::
    "(wptr \<Rightarrow> wptr option) \<Rightarrow> (wptr \<Rightarrow> wptr option) \<Rightarrow> wptr \<Rightarrow> wptr
      \<Rightarrow> nat \<Rightarrow> wptr option \<Rightarrow> wptr option \<Rightarrow> famResult" where
  "familyAncestors par transientFor owner root remaining None transient = FamNext transient remaining"
| "familyAncestors par transientFor owner root 0 (Some a) transient =
     (if a = root then FamNext transient 0 else FamReturn False)"
| "familyAncestors par transientFor owner root (Suc remaining) (Some a) transient =
     (if a = root then FamNext transient (Suc remaining)
      else if a = owner then FamReturn True
      else familyAncestors par transientFor owner root remaining (par a)
             (case transient of None \<Rightarrow> transientFor a | Some t \<Rightarrow> Some t))"

lemma familyAncestors_le:
  "familyAncestors par tf owner root n a tr = FamNext t r \<Longrightarrow> r \<le> n"
  by (induction par tf owner root n a tr rule: familyAncestors.induct) (auto split: if_splits)

lemma familyAncestors_decreases:
  "familyAncestors par tf owner root n (Some w) tr = FamNext t r \<Longrightarrow> w \<noteq> root \<Longrightarrow> r < n"
  by (cases n) (auto dest!: familyAncestors_le split: if_splits)

function familyLoop ::
    "(wptr \<Rightarrow> wptr option) \<Rightarrow> (wptr \<Rightarrow> wptr option) \<Rightarrow> wptr \<Rightarrow> wptr \<Rightarrow> nat \<Rightarrow> wptr option \<Rightarrow> bool" where
  "familyLoop par transientFor owner root remaining None = False"
| "familyLoop par transientFor owner root remaining (Some w) =
     (if w = root then False
      else case familyAncestors par transientFor owner root remaining (Some w) None of
             FamReturn b \<Rightarrow> b
           | FamNext transient r \<Rightarrow> familyLoop par transientFor owner root r transient)"
  by pat_completeness auto
termination
  by (relation "measure (\<lambda>(par, tf, owner, root, remaining, w). remaining)")
    (auto dest: familyAncestors_decreases)

definition lorieWindowFamilyContains ::
    "(wptr \<Rightarrow> wptr option) \<Rightarrow> wptr option \<Rightarrow> wptr \<Rightarrow> wptr \<Rightarrow> (wptr \<Rightarrow> wptr option) \<Rightarrow> bool" where
  "lorieWindowFamilyContains par w owner root transientFor =
     familyLoop par transientFor owner root 64 w"

section \<open>Popup grabs\<close>

fun grabPopup ::
    "wstore \<Rightarrow> (wptr \<Rightarrow> wptr \<Rightarrow> bool) \<Rightarrow> wptr \<Rightarrow> wptr \<Rightarrow> nat \<Rightarrow> wptr option \<Rightarrow> wptr option" where
  "grabPopup s belongs owner root remaining None = None"
| "grabPopup s belongs owner root 0 (Some w) = None"
| "grabPopup s belongs owner root (Suc remaining) (Some w) =
     (if w = owner \<or> w = root then None
      else if w_realized (s w) \<and> w_overrideRedirect (s w) \<and> w_class (s w) = InputOutput \<and> belongs w owner
      then Some w
      else grabPopup s belongs owner root remaining (w_parent (s w)))"

definition lorieWindowGrabPopup ::
    "wstore \<Rightarrow> wptr option \<Rightarrow> wptr \<Rightarrow> wptr \<Rightarrow> (wptr \<Rightarrow> wptr \<Rightarrow> bool) \<Rightarrow> wptr option" where
  "lorieWindowGrabPopup s w owner root belongs = grabPopup s belongs owner root 64 w"

section \<open>Inspection\<close>

fun inspectMember ::
    "(wptr \<Rightarrow> wptr option) \<Rightarrow> (wptr \<Rightarrow> wptr \<Rightarrow> bool) \<Rightarrow> wptr \<Rightarrow> wptr \<Rightarrow> nat \<Rightarrow> wptr option \<Rightarrow> bool" where
  "inspectMember par member owner root left None = False"
| "inspectMember par member owner root 0 (Some w) = False"
| "inspectMember par member owner root (Suc left) (Some w) =
     (if w = root then False else if member w owner then True
      else inspectMember par member owner root left (par w))"

definition lorieInspectMember ::
    "(wptr \<Rightarrow> wptr option) \<Rightarrow> wptr \<Rightarrow> wptr \<Rightarrow> wptr \<Rightarrow> (wptr \<Rightarrow> wptr \<Rightarrow> bool) \<Rightarrow> bool" where
  "lorieInspectMember par w owner root member = inspectMember par member owner root 64 (Some w)"

record LorieInspectionWalk =
  walk_count :: nat
  walk_truncated :: bool

text \<open>
  \<open>inspectClimb\<close> is the inner loop \<open>while (window != root && !window->prevSib) window =
  window->parent\<close>; \<open>inspectNext\<close> is one advance of the outer loop.  \<open>None\<close> is a climb that
  does not end or runs into a null parent; \<open>Some None\<close> is the end of the walk.
\<close>

partial_function (option) inspectClimb :: "wstore \<Rightarrow> wptr \<Rightarrow> wptr \<Rightarrow> wptr option" where
  "inspectClimb s root w =
     (if w \<noteq> root \<and> w_prevSib (s w) = None
      then case w_parent (s w) of None \<Rightarrow> None | Some p \<Rightarrow> inspectClimb s root p
      else Some w)"

definition inspectAfter :: "wstore \<Rightarrow> wptr \<Rightarrow> wptr \<Rightarrow> wptr option option" where
  "inspectAfter s root w =
     (case inspectClimb s root w of None \<Rightarrow> None
      | Some v \<Rightarrow> Some (if v = root then None else w_prevSib (s v)))"

definition inspectNext :: "wstore \<Rightarrow> wptr \<Rightarrow> wptr \<Rightarrow> wptr option option" where
  "inspectNext s root w =
     (case w_lastChild (s w) of Some c \<Rightarrow> Some (Some c) | None \<Rightarrow> inspectAfter s root w)"

partial_function (option) inspectLoop ::
    "wstore \<Rightarrow> (wptr \<Rightarrow> wptr \<Rightarrow> bool) \<Rightarrow> wptr \<Rightarrow> wptr \<Rightarrow> nat \<Rightarrow> nat \<Rightarrow> wptr list \<Rightarrow> wptr option
      \<Rightarrow> (wptr list \<times> bool) option" where
  "inspectLoop s member owner root limit scanned out w0 =
     (case w0 of None \<Rightarrow> Some (out, False)
      | Some w \<Rightarrow>
          if Suc scanned > 8192 then Some (out, True)
          else if w \<noteq> owner \<and> lorieInspectMember (\<lambda>v. w_parent (s v)) w owner root member
          then if length out = limit then Some (out, True)
               else case inspectNext s root w of None \<Rightarrow> None
                    | Some n \<Rightarrow> inspectLoop s member owner root limit (Suc scanned) (out @ [w]) n
          else case inspectNext s root w of None \<Rightarrow> None
               | Some n \<Rightarrow> inspectLoop s member owner root limit (Suc scanned) out n)"

text \<open>The result: the windows emitted in order (their number is the count) and the flag.\<close>

definition lorieInspectFamily ::
    "wstore \<Rightarrow> wptr option \<Rightarrow> wptr option \<Rightarrow> nat \<Rightarrow> (wptr \<Rightarrow> wptr \<Rightarrow> bool)
      \<Rightarrow> (wptr list \<times> LorieInspectionWalk) option" where
  "lorieInspectFamily s root owner limit member =
     (case (root, owner) of
        (Some r, Some ow) \<Rightarrow>
          if limit = 0 then Some ([], \<lparr>walk_count = 0, walk_truncated = False\<rparr>)
          else map_option (\<lambda>(out, tr). (out, \<lparr>walk_count = length out, walk_truncated = tr\<rparr>))
                 (inspectLoop s member ow r limit 0 [ow] (w_lastChild (s r)))
      | _ \<Rightarrow> Some ([], \<lparr>walk_count = 0, walk_truncated = False\<rparr>))"


section \<open>Activation order\<close>

definition collectActivation :: "wptr \<Rightarrow> (wptr \<Rightarrow> bool) \<Rightarrow> wptr list \<Rightarrow> LorieWindowActivation" where
  "collectActivation owner modal = foldl (\<lambda>a w. lorieWindowActivationAdd a w (modal w)) (activationInit owner)"

definition others :: "wptr \<Rightarrow> wptr list \<Rightarrow> wptr list" where
  "others owner ws = filter (\<lambda>w. w \<noteq> owner) ws"

definition lastModal :: "wptr \<Rightarrow> (wptr \<Rightarrow> bool) \<Rightarrow> wptr list \<Rightarrow> wptr" where
  "lastModal owner modal ws = (let ms = filter modal ws in if ms = [] then owner else last ms)"

lemma collectActivation_snoc:
  "collectActivation owner modal (ws @ [w]) =
     lorieWindowActivationAdd (collectActivation owner modal ws) w (modal w)"
  by (simp add: collectActivation_def)

lemma collectActivation_members:
  "act_members (collectActivation owner modal ws) = owner # take 255 (others owner ws)
   \<and> act_truncated (collectActivation owner modal ws) = (length (others owner ws) > 255)"
proof (induction ws rule: rev_induct)
  case Nil
  show ?case by (simp add: collectActivation_def activationInit_def others_def)
next
  case (snoc w ws)
  then show ?case
    by (auto simp: collectActivation_snoc lorieWindowActivationAdd_def others_def Let_def)
qed

lemma collectActivation_focus:
  "length (others owner ws) \<le> 255 \<Longrightarrow>
   act_focus (collectActivation owner modal ws) = lastModal owner modal (others owner ws)"
proof (induction ws rule: rev_induct)
  case Nil
  show ?case by (simp add: collectActivation_def activationInit_def others_def lastModal_def)
next
  case (snoc w ws)
  from snoc.prems have "length (others owner ws) \<le> 255" by (auto simp: others_def split: if_splits)
  with snoc show ?case
    by (cases "w = owner")
      (auto simp: collectActivation_snoc lorieWindowActivationAdd_def collectActivation_members
        others_def lastModal_def Let_def)
qed

text \<open>The climb to the top-level window ends on every acyclic window tree.\<close>

lemma stackTop_total:
  assumes "wf {(p, w). par w = Some p}"
  shows "\<exists>t. stackTop par root w = Some t \<and> (par t = None \<or> par t = Some root)
             \<and> (w, t) \<in> {(w, p). par w = Some p}\<^sup>*"
  using assms
proof (induction w rule: wf_induct_rule)
  case (less w)
  show ?case
  proof (cases "par w")
    case None
    then show ?thesis by (auto simp: stackTop.simps [of par root w])
  next
    case (Some p)
    show ?thesis
    proof (cases "p = root")
      case True
      with Some show ?thesis by (auto simp: stackTop.simps [of par root w])
    next
      case False
      have "(p, w) \<in> {(p, w). par w = Some p}" using Some by simp
      from less [OF this] obtain t where t: "stackTop par root p = Some t"
          "par t = None \<or> par t = Some root" "(p, t) \<in> {(w, p). par w = Some p}\<^sup>*" by blast
      have "(w, t) \<in> {(w, p). par w = Some p}\<^sup>*"
        using t(3) Some by (auto intro: converse_rtrancl_into_rtrancl)
      with t(1,2) Some False show ?thesis by (auto simp: stackTop.simps [of par root w])
    qed
  qed
qed

lemma raiseMembers_total:
  assumes "\<And>s t. par (raise s t) = par s" and "wf {(p, w). par s w = Some p}"
  shows "raiseMembers par raise root ms s
         = Some (foldl raise s (map (\<lambda>m. the (stackTop (par s) root m)) ms))"
  using assms(2)
proof (induction ms arbitrary: s)
  case (Cons m ms)
  obtain t where "stackTop (par s) root m = Some t"
    using stackTop_total [OF Cons.prems] by blast
  with Cons.IH [of "raise s t"] Cons.prems assms(1) show ?case by simp
qed simp

text \<open>
  activating a family raises the top-level window of the owner first and then those of the
  transients in collection order, each once per collected member, and hands the focus to the
  last modal transient (or the owner); a family of more than 256 members is left alone. The
  climbs end on every acyclic window tree whose parent links restacking does not change.
\<close>

theorem activation_raises_in_order:
  assumes "\<And>s t. par (raise s t) = par s" and "wf {(p, w). par s w = Some p}"
  shows "lorieWindowActivationApply par raise (collectActivation owner modal ws) root s =
    Some (if length (others owner ws) > 255 then (None, s)
          else (Some (lastModal owner modal (others owner ws)),
                foldl raise s (map (\<lambda>m. the (stackTop (par s) root m)) (owner # others owner ws))))"
  using raiseMembers_total [of par raise s root "owner # others owner ws", OF assms]
  by (simp add: lorieWindowActivationApply_def collectActivation_members collectActivation_focus)

theorem activation_raises_in_order_witness:
  "lorieWindowActivationApply (\<lambda>(_ :: wptr list) w. if w = 5 then Some 2 else if w = 2 then Some 0 else None)
     (\<lambda>s t. s @ [t]) (collectActivation 5 (\<lambda>w. w = 7) [5, 7]) 0 []
   = Some (Some 7, [2, 7])"
proof -
  let ?p = "\<lambda>w :: nat. if w = 5 then Some 2 else if w = 2 then Some 0 else None"
  have wf: "wf {(p, w). ?p w = Some p}"
    by (rule wf_subset [OF wf_less_than]) (auto split: if_splits)
  have "stackTop ?p 0 5 = Some 2" "stackTop ?p 0 7 = Some 7"
    by (simp_all add: stackTop.simps)
  then show ?thesis
    using activation_raises_in_order [of "\<lambda>(_ :: wptr list). ?p" "\<lambda>s t. s @ [t]" "[]" 5 "\<lambda>w. w = 7" "[5, 7]" 0] wf
    by (simp add: others_def lastModal_def)
qed

section \<open>Family membership: soundness and completeness\<close>

definition links :: "(wptr \<Rightarrow> wptr option) \<Rightarrow> (wptr \<Rightarrow> wptr option) \<Rightarrow> wptr \<Rightarrow> (wptr \<times> wptr) set" where
  "links par tf root = {(a, b). a \<noteq> root \<and> (par a = Some b \<or> tf a = Some b)}"

lemma familyAncestors_sound:
  "familyAncestors par tf owner root n (Some a) tr = FamReturn True \<Longrightarrow>
     (a, owner) \<in> (links par tf root)\<^sup>* \<and> owner \<noteq> root"
proof (induction n arbitrary: a tr)
  case (Suc n)
  show ?case
  proof (cases "a = owner \<or> a = root")
    case True
    with Suc.prems show ?thesis by (auto split: if_splits)
  next
    case False
    then have rec: "familyAncestors par tf owner root n (par a)
        (case tr of None \<Rightarrow> tf a | Some t \<Rightarrow> Some t) = FamReturn True"
      using Suc.prems by simp
    then obtain b where b: "par a = Some b" by (cases "par a") auto
    with rec Suc.IH have "(b, owner) \<in> (links par tf root)\<^sup>* \<and> owner \<noteq> root" by metis
    moreover have "(a, b) \<in> links par tf root" using b False by (simp add: links_def)
    ultimately show ?thesis by (auto intro: converse_rtrancl_into_rtrancl)
  qed
qed (auto split: if_splits)

lemma familyAncestors_next:
  "familyAncestors par tf owner root n (Some a) tr = FamNext (Some t) r \<Longrightarrow>
     tr = Some t \<or> (a, t) \<in> (links par tf root)\<^sup>*"
proof (induction n arbitrary: a tr)
  case (Suc n)
  show ?case
  proof (cases "a = owner \<or> a = root")
    case True
    with Suc.prems show ?thesis by (auto split: if_splits)
  next
    case False
    let ?tr = "case tr of None \<Rightarrow> tf a | Some t \<Rightarrow> Some t"
    have rec: "familyAncestors par tf owner root n (par a) ?tr = FamNext (Some t) r"
      using Suc.prems False by simp
    have via_tf: "tf a = Some t \<Longrightarrow> (a, t) \<in> (links par tf root)\<^sup>*"
      using False by (auto simp: links_def)
    show ?thesis
    proof (cases "par a")
      case None
      with rec have "?tr = Some t" by simp
      then show ?thesis using via_tf by (auto split: option.splits)
    next
      case (Some b)
      with rec Suc.IH have "?tr = Some t \<or> (b, t) \<in> (links par tf root)\<^sup>*" by metis
      moreover have "(a, b) \<in> links par tf root" using Some False by (simp add: links_def)
      ultimately show ?thesis using via_tf
        by (auto split: option.splits intro: converse_rtrancl_into_rtrancl)
    qed
  qed
qed (auto split: if_splits)

lemma familyLoop_sound:
  "familyLoop par tf owner root n w \<Longrightarrow>
     \<exists>v. w = Some v \<and> (v, owner) \<in> (links par tf root)\<^sup>* \<and> owner \<noteq> root"
proof (induction par tf owner root n w rule: familyLoop.induct)
  case (2 par tf owner root n w)
  show ?case
  proof (cases "familyAncestors par tf owner root n (Some w) None")
    case (FamReturn b)
    with "2.prems" have "b" by (auto split: if_splits)
    with FamReturn show ?thesis using familyAncestors_sound [of par tf owner root n w None] by simp
  next
    case (FamNext t r)
    have "w \<noteq> root" using "2.prems" by auto
    with "2.prems" FamNext have "familyLoop par tf owner root r t" by simp
    from "2.IH" [OF \<open>w \<noteq> root\<close> FamNext this] obtain v where
      v: "t = Some v" "(v, owner) \<in> (links par tf root)\<^sup>*" "owner \<noteq> root" by blast
    with FamNext familyAncestors_next [of par tf owner root n w None v r]
    show ?thesis by (auto intro: rtrancl_trans)
  qed
qed simp

text \<open>A stretch of parent links: \<open>upPath par root start ws e\<close> visits \<open>ws\<close> and arrives at \<open>e\<close>.\<close>

fun upPath :: "(wptr \<Rightarrow> wptr option) \<Rightarrow> wptr \<Rightarrow> wptr option \<Rightarrow> wptr list \<Rightarrow> wptr option \<Rightarrow> bool" where
  "upPath par root start [] e = (start = e)"
| "upPath par root start (w # ws) e = (start = Some w \<and> w \<noteq> root \<and> upPath par root (par w) ws e)"

definition firstTransient :: "(wptr \<Rightarrow> wptr option) \<Rightarrow> wptr list \<Rightarrow> wptr option" where
  "firstTransient tf ws = (case filter (\<lambda>w. tf w \<noteq> None) ws of [] \<Rightarrow> None | w # _ \<Rightarrow> tf w)"

lemma familyAncestors_hit:
  "upPath par root start ws (Some owner) \<Longrightarrow> owner \<noteq> root \<Longrightarrow> length ws < n \<Longrightarrow>
   familyAncestors par tf owner root n start tr = FamReturn True"
proof (induction ws arbitrary: start n tr)
  case Nil
  then show ?case by (cases n) auto
next
  case (Cons w ws)
  then show ?case by (cases n) auto
qed

lemma familyAncestors_miss:
  "upPath par root start ws e \<Longrightarrow> e = None \<or> e = Some root \<Longrightarrow> owner \<notin> set ws \<Longrightarrow> length ws \<le> n \<Longrightarrow>
   familyAncestors par tf owner root n start tr =
     FamNext (case tr of None \<Rightarrow> firstTransient tf ws | Some t \<Rightarrow> Some t) (n - length ws)"
proof (induction ws arbitrary: start n tr)
  case Nil
  then show ?case by (cases n) (auto simp: firstTransient_def split: option.splits)
next
  case (Cons w ws)
  from Cons.prems obtain m where n: "n = Suc m" by (cases n) auto
  with Cons show ?case
    by (auto simp: firstTransient_def split: option.splits)
qed

text \<open>
  C23: family membership is sound and total although client-supplied transient links may form
  cycles: a window is reported as belonging to an owner only if the owner is reached from it
  over parent and transient links that never pass through the root. It is complete within the
  budget of 64 windows: a real ancestor closer than that is found, and so is an owner that is
  an ancestor of the window named by the nearest transient link.
\<close>

theorem family_contains_sound_complete:
  "(lorieWindowFamilyContains par (Some w) owner root tf \<longrightarrow>
      owner \<noteq> root \<and> (w, owner) \<in> (links par tf root)\<^sup>*)
   \<and> (owner \<noteq> root \<and> upPath par root (Some w) ws (Some owner) \<and> length ws < 64 \<longrightarrow>
      lorieWindowFamilyContains par (Some w) owner root tf)
   \<and> (owner \<noteq> root \<and> w \<noteq> root \<and> upPath par root (Some w) ws e \<and> (e = None \<or> e = Some root)
      \<and> firstTransient tf ws = Some t \<and> t \<noteq> root \<and> upPath par root (Some t) vs (Some owner)
      \<and> length ws + length vs < 64 \<longrightarrow>
      lorieWindowFamilyContains par (Some w) owner root tf)"
proof (intro conjI impI; (elim conjE)?)
  assume "lorieWindowFamilyContains par (Some w) owner root tf"
  then show "owner \<noteq> root" and "(w, owner) \<in> (links par tf root)\<^sup>*"
    using familyLoop_sound [of par tf owner root 64 "Some w"]
    by (auto simp: lorieWindowFamilyContains_def)
next
  assume *: "owner \<noteq> root" "upPath par root (Some w) ws (Some owner)" "length ws < 64"
  then have "w \<noteq> root" by (cases ws) auto
  with * familyAncestors_hit [of par root "Some w" ws owner 64 tf None]
  show "lorieWindowFamilyContains par (Some w) owner root tf"
    by (simp add: lorieWindowFamilyContains_def)
next
  assume *: "owner \<noteq> root" "w \<noteq> root" "upPath par root (Some w) ws e" "e = None \<or> e = Some root"
    "firstTransient tf ws = Some t" "t \<noteq> root" "upPath par root (Some t) vs (Some owner)"
    "length ws + length vs < 64"
  show "lorieWindowFamilyContains par (Some w) owner root tf"
  proof (cases "owner \<in> set ws")
    case False
    have "familyAncestors par tf owner root 64 (Some w) None = FamNext (Some t) (64 - length ws)"
      using familyAncestors_miss [OF *(3,4) False, of 64 tf None] *(5,8) by simp
    moreover have "familyAncestors par tf owner root (64 - length ws) (Some t) None = FamReturn True"
      using *(8) by (intro familyAncestors_hit [OF *(7,1)]) simp
    ultimately show ?thesis using *(2,6) by (simp add: lorieWindowFamilyContains_def)
  next
    case True
    then obtain xs ys where ws: "ws = xs @ owner # ys" by (meson split_list)
    have "upPath par root start (xs @ owner # ys) e \<Longrightarrow> upPath par root start xs (Some owner)" for start
      by (induction xs arbitrary: start) auto
    with *(3) ws have "upPath par root (Some w) xs (Some owner)" by simp
    moreover have "length xs < 64" using *(8) by (simp add: ws)
    ultimately have "familyAncestors par tf owner root 64 (Some w) None = FamReturn True"
      using *(1) by (intro familyAncestors_hit)
    with *(2) show ?thesis by (simp add: lorieWindowFamilyContains_def)
  qed
qed

theorem family_contains_sound_complete_witness:
  "lorieWindowFamilyContains (\<lambda>w. if w = 3 then Some 0 else if w = 9 then Some 0 else None) (Some 9) 3 0
     (\<lambda>w. if w = 9 then Some 3 else if w = 3 then Some 9 else None)"
  using family_contains_sound_complete
    [of "\<lambda>w. if w = 3 then Some 0 else if w = 9 then Some 0 else None" 9 3 0
        "\<lambda>w. if w = 9 then Some 3 else if w = 3 then Some 9 else None" "[9]" "Some 0" 3 "[]"]
  by (simp add: firstTransient_def)

text \<open>
  only a genuine temporary window is ever dismissed for a lost grab: the window found is
  realised, override-redirect, drawable, judged to belong to the owner, reached from the grab
  window over fewer than 64 parent links, and it is neither the owner nor the root.
\<close>

theorem grab_popup_safe:
  assumes "lorieWindowGrabPopup s w owner root belongs = Some p"
  shows "p \<noteq> owner \<and> p \<noteq> root \<and> w_realized (s p) \<and> w_overrideRedirect (s p)
         \<and> w_class (s p) = InputOutput \<and> belongs p owner
         \<and> (\<exists>ws. upPath (\<lambda>v. w_parent (s v)) root w ws (Some p) \<and> length ws < 64 \<and> owner \<notin> set ws)"
proof -
  have "grabPopup s belongs owner root n w = Some p \<Longrightarrow>
        p \<noteq> owner \<and> p \<noteq> root \<and> w_realized (s p) \<and> w_overrideRedirect (s p)
         \<and> w_class (s p) = InputOutput \<and> belongs p owner
         \<and> (\<exists>ws. upPath (\<lambda>v. w_parent (s v)) root w ws (Some p) \<and> length ws < n \<and> owner \<notin> set ws)" for n
  proof (induction s belongs owner root n w rule: grabPopup.induct)
    case (3 s belongs owner root n w)
    show ?case
    proof (cases "w_realized (s w) \<and> w_overrideRedirect (s w) \<and> w_class (s w) = InputOutput \<and> belongs w owner")
      case True
      with "3.prems" show ?thesis by (auto split: if_splits intro: exI [of _ "[]"])
    next
      case False
      with "3.prems" have n: "w \<noteq> owner" "w \<noteq> root"
        and rec: "grabPopup s belongs owner root n (w_parent (s w)) = Some p" by (auto split: if_splits)
      from "3.IH" [OF _ False rec] n obtain ws where
        "upPath (\<lambda>v. w_parent (s v)) root (w_parent (s w)) ws (Some p)" "length ws < n" "owner \<notin> set ws"
        by blast
      with n have "upPath (\<lambda>v. w_parent (s v)) root (Some w) (w # ws) (Some p)
          \<and> length (w # ws) < Suc n \<and> owner \<notin> set (w # ws)" by simp
      with "3.IH" [OF _ False rec] n show ?thesis by blast
    qed
  qed simp_all
  with assms show ?thesis by (simp add: lorieWindowGrabPopup_def)
qed


definition plainWindow :: windowRec where
  "plainWindow = \<lparr>w_id = 0, w_parent = None, w_firstChild = None, w_lastChild = None,
     w_nextSib = None, w_prevSib = None, w_mapped = True, w_realized = True,
     w_overrideRedirect = False, w_class = InputOutput, w_x = 0, w_y = 0, w_width = 1, w_height = 1\<rparr>"

theorem grab_popup_safe_witness:
  "lorieWindowGrabPopup
     ((\<lambda>_. plainWindow)(8 := plainWindow\<lparr>w_class := InputOnly, w_parent := Some 7\<rparr>,
                        7 := plainWindow\<lparr>w_overrideRedirect := True, w_parent := Some 0\<rparr>))
     (Some 8) 3 0 (\<lambda>_ _. True) = Some 7
   \<and> (7 :: wptr) \<noteq> 3"
proof -
  have run: "lorieWindowGrabPopup
     ((\<lambda>_. plainWindow)(8 := plainWindow\<lparr>w_class := InputOnly, w_parent := Some 7\<rparr>,
                        7 := plainWindow\<lparr>w_overrideRedirect := True, w_parent := Some 0\<rparr>))
     (Some 8) 3 0 (\<lambda>_ _. True) = Some 7"
    by (simp add: lorieWindowGrabPopup_def numeral_eq_Suc plainWindow_def)
  show ?thesis using run grab_popup_safe [OF run] by simp
qed

section \<open>The inspection walk refines a tree traversal\<close>

text \<open>
  The abstract window tree: children in traversal order, that is from \<open>lastChild\<close> along
  \<open>prevSib\<close>.  \<open>laid s t\<close> says that the sibling and child links of the store \<open>s\<close> represent \<open>t\<close>.
\<close>

datatype wtree = WNode (rt: wptr) (subtrees: "wtree list")

fun headOf :: "wtree list \<Rightarrow> wptr option" where
  "headOf [] = None"
| "headOf (t # ts) = Some (rt t)"

fun laid :: "wstore \<Rightarrow> wtree \<Rightarrow> bool"
and laids :: "wstore \<Rightarrow> wptr \<Rightarrow> wtree list \<Rightarrow> bool" where
  "laid s (WNode w cs) = (w_lastChild (s w) = headOf cs \<and> laids s w cs)"
| "laids s w [] = True"
| "laids s w (c # cs) =
     (w_parent (s (rt c)) = Some w \<and> w_prevSib (s (rt c)) = headOf cs \<and> laid s c \<and> laids s w cs)"

fun pre :: "wtree \<Rightarrow> wptr list"
and pres :: "wtree list \<Rightarrow> wptr list" where
  "pre (WNode w cs) = w # pres cs"
| "pres [] = []"
| "pres (c # cs) = pre c @ pres cs"

fun follows :: "(wptr \<Rightarrow> wptr option option) \<Rightarrow> wptr option \<Rightarrow> wptr list \<Rightarrow> wptr option \<Rightarrow> bool" where
  "follows nxt start [] e = (start = e)"
| "follows nxt start (w # ws) e = (start = Some w \<and> (\<exists>n. nxt w = Some n \<and> follows nxt n ws e))"

lemma follows_append:
  "follows nxt start (xs @ ys) e \<longleftrightarrow> (\<exists>m. follows nxt start xs m \<and> follows nxt m ys e)"
  by (induction xs arbitrary: start) auto

lemma inspectAfter_root [simp]: "inspectAfter s root root = Some None"
  by (simp add: inspectAfter_def inspectClimb.simps [of s root root])

lemma inspectAfter_sibling:
  "w \<noteq> root \<Longrightarrow> w_prevSib (s w) = Some u \<Longrightarrow> inspectAfter s root w = Some (Some u)"
  by (simp add: inspectAfter_def inspectClimb.simps [of s root w])

lemma inspectAfter_parent:
  "w \<noteq> root \<Longrightarrow> w_prevSib (s w) = None \<Longrightarrow> w_parent (s w) = Some p \<Longrightarrow>
   inspectAfter s root w = inspectAfter s root p"
  by (simp add: inspectAfter_def inspectClimb.simps [of s root w])

text \<open>The pointer walk visits a subtree in preorder and then goes on after its root.\<close>

lemma inspectNext_preorder:
  "laid s t \<Longrightarrow> root \<notin> set (pre t) \<Longrightarrow> inspectAfter s root (rt t) = Some e \<Longrightarrow>
     follows (inspectNext s root) (Some (rt t)) (pre t) e"
  "laids s w cs \<Longrightarrow> root \<notin> set (pres cs) \<Longrightarrow> inspectAfter s root w = Some e \<Longrightarrow> cs \<noteq> [] \<Longrightarrow>
     follows (inspectNext s root) (headOf cs) (pres cs) e"
proof (induction s t and s w cs arbitrary: e and e rule: laid_laids.induct)
  case (1 s w cs)
  show ?case
  proof (cases cs)
    case Nil
    with 1 show ?thesis by (simp add: inspectNext_def)
  next
    case (Cons c cs')
    with 1 have "follows (inspectNext s root) (headOf cs) (pres cs) e" by simp
    moreover have "inspectNext s root w = Some (headOf cs)"
      using 1 Cons by (simp add: inspectNext_def)
    ultimately show ?thesis by simp
  qed
next
  case (3 s w c cs)
  have c: "rt c \<noteq> root" using "3.prems" by (cases c) auto
  show ?case
  proof (cases cs)
    case Nil
    with 3 c have "inspectAfter s root (rt c) = Some e"
      by (simp add: inspectAfter_parent [where p = w])
    with 3 Nil show ?thesis by simp
  next
    case (Cons c' cs')
    with 3 c have "inspectAfter s root (rt c) = Some (headOf cs)"
      by (simp add: inspectAfter_sibling)
    with 3 Cons have "follows (inspectNext s root) (Some (rt c)) (pre c) (headOf cs)" by simp
    moreover have "follows (inspectNext s root) (headOf cs) (pres cs) e" using 3 Cons by simp
    ultimately show ?thesis by (auto simp: follows_append)
  qed
qed simp

abbreviation (input) picked :: "wstore \<Rightarrow> (wptr \<Rightarrow> wptr \<Rightarrow> bool) \<Rightarrow> wptr \<Rightarrow> wptr \<Rightarrow> wptr \<Rightarrow> bool" where
  "picked s member owner root w \<equiv>
     w \<noteq> owner \<and> lorieInspectMember (\<lambda>v. w_parent (s v)) w owner root member"

lemma inspectLoop_follows:
  assumes "follows (inspectNext s root) start ws None"
    and "scanned + length ws \<le> 8192" and "length out \<le> limit"
  shows "inspectLoop s member owner root limit scanned out start =
    Some (out @ take (limit - length out) (filter (picked s member owner root) ws),
          limit - length out < length (filter (picked s member owner root) ws))"
  using assms
proof (induction ws arbitrary: start scanned out)
  case Nil
  then show ?case by (simp add: inspectLoop.simps)
next
  case (Cons w ws)
  then obtain n where n: "start = Some w" "inspectNext s root w = Some n"
    "follows (inspectNext s root) n ws None" by auto
  show ?case
  proof (cases "picked s member owner root w")
    case False
    with n Cons show ?thesis
      by (subst inspectLoop.simps) auto
  next
    case True
    show ?thesis
    proof (cases "length out = limit")
      case True
      with n Cons.prems \<open>picked s member owner root w\<close> show ?thesis
        by (subst inspectLoop.simps) simp
    next
      case False
      with Cons.prems have "length (out @ [w]) \<le> limit" by simp
      moreover obtain k where "limit - length out = Suc k" "limit - length (out @ [w]) = k"
        using False Cons.prems by (metis Suc_diff_Suc length_append_singleton nat_less_le)
      ultimately show ?thesis
        using n False Cons.prems \<open>picked s member owner root w\<close>
          Cons.IH [OF n(3), of "Suc scanned" "out @ [w]"]
        by (subst inspectLoop.simps) simp
    qed
  qed
qed

text \<open>
  C16: on a window tree of at most 8192 windows the inspection walk over sibling and parent
  pointers returns, emits the owner first and then the family members in preorder of the tree
  (topmost first) up to the limit, counts exactly what it emitted, and reports truncation
  exactly when members were left out.
\<close>

theorem inspect_family_refines_preorder:
  assumes "laid s (WNode root cs)" and "root \<notin> set (pres cs)"
    and "length (pres cs) \<le> 8192" and "0 < limit"
  shows "let ms = filter (picked s member owner root) (pres cs) in
    lorieInspectFamily s (Some root) (Some owner) limit member =
      Some (owner # take (limit - 1) ms,
            \<lparr>walk_count = min limit (Suc (length ms)), walk_truncated = (limit - 1 < length ms)\<rparr>)"
proof -
  have "follows (inspectNext s root) (headOf cs) (pres cs) None"
  proof (cases "cs = []")
    case False
    then show ?thesis
      using assms inspectNext_preorder(2) [of s root cs root None] by simp
  qed simp
  then have "inspectLoop s member owner root limit 0 [owner] (headOf cs) =
    Some ([owner] @ take (limit - 1) (filter (picked s member owner root) (pres cs)),
          limit - 1 < length (filter (picked s member owner root) (pres cs)))"
    using inspectLoop_follows [of s root "headOf cs" "pres cs" 0 "[owner]" limit member owner] assms
    by simp
  then show ?thesis using assms by (auto simp: lorieInspectFamily_def Let_def)
qed

definition sampleStore :: wstore where
  "sampleStore = (\<lambda>_. plainWindow)(
     0 := plainWindow\<lparr>w_lastChild := Some 1\<rparr>,
     1 := plainWindow\<lparr>w_parent := Some 0, w_prevSib := Some 3, w_lastChild := Some 2\<rparr>,
     2 := plainWindow\<lparr>w_parent := Some 1\<rparr>,
     3 := plainWindow\<lparr>w_parent := Some 0\<rparr>)"

theorem inspect_family_refines_preorder_witness:
  "lorieInspectFamily sampleStore (Some 0) (Some 3) 10 (\<lambda>w _. w = 1)
   = Some ([3, 1, 2], \<lparr>walk_count = 3, walk_truncated = False\<rparr>)"
  using inspect_family_refines_preorder
    [of sampleStore 0 "[WNode 1 [WNode 2 []], WNode 3 []]" 10 3 "\<lambda>w _. w = 1"]
  by (simp add: sampleStore_def plainWindow_def lorieInspectMember_def numeral_eq_Suc Let_def)

end
