(* ===== verification/Keyboard.thy ===== *)
theory Keyboard
  imports Lorie_Prelude "HOL-Library.Multiset"
begin

text \<open>
  The keyboard translation of \<open>InputXKB.c\<close>: a keysym from the host is turned into a keycode, the
  fake modifier events that make the keycode produce it, and the bookkeeping that lets the
  release find the same keycode.  The XKB keyboard description is data of the X server: the
  record \<open>xkbDesc\<close> holds what the XKB access macros read from it (groups and shift-level types
  of a key, its keysyms, its actions, the modifier map), including the group field of a core
  state word and the case conversion of keysyms, which are code of the server and therefore
  arguments here.  A key code is a natural number, a modifier state a 32-bit word.  Events put
  on the input queue are appended to \<open>kb_out\<close>; processing that queue is the argument \<open>process\<close>.
\<close>

datatype groupRange = WrapIntoRange | ClampIntoRange | RedirectIntoRange nat

record ktEntry =
  kte_active :: bool
  kte_mask :: u32
  kte_level :: nat

record keyType =
  kt_map :: "ktEntry list"
  kt_mask :: u32
  kt_preserve :: "u32 list option"

datatype actionType = XkbSA_SetMods | XkbSA_LockMods | XkbSA_Other

record xkbAction =
  xa_type :: actionType
  xa_useModMapMods :: bool
  xa_mask :: u32

record xkbDesc =
  min_key_code :: nat
  max_key_code :: nat
  xk_numGroups :: "nat \<Rightarrow> nat"
  xk_outOfRange :: "nat \<Rightarrow> groupRange"
  xk_groupsWidth :: "nat \<Rightarrow> nat"
  xk_keyType :: "nat \<Rightarrow> nat \<Rightarrow> keyType"
  xk_syms :: "nat \<Rightarrow> nat \<Rightarrow> u32"
  xk_actions :: "nat \<Rightarrow> (nat \<Rightarrow> xkbAction) option"
  xk_modmap :: "nat \<Rightarrow> u32"
  xk_names :: "(nat \<Rightarrow> string) option"
  xk_groupForCoreState :: "u32 \<Rightarrow> nat"
  xk_convertCase :: "u32 \<Rightarrow> u32 \<times> u32"

datatype keyEvent = KeyPress nat | KeyRelease nat

record kbd =
  kb_xkb :: xkbDesc
  kb_state :: u32
  kb_down :: "nat \<Rightarrow> bool"
  kb_pressedKeys :: "u32 list"
  kb_addedKeysyms :: "(nat \<times> u32) list"
  kb_mallocOk :: bool
  kb_out :: "keyEvent list"

abbreviation (input) NoSymbol :: u32 where "NoSymbol \<equiv> 0"
abbreviation (input) ShiftMask :: u32 where "ShiftMask \<equiv> 1"
abbreviation (input) LockMask :: u32 where "LockMask \<equiv> 2"
abbreviation (input) XK_Tab :: u32 where "XK_Tab \<equiv> 0xff09"
abbreviation (input) XK_ISO_Level3_Shift :: u32 where "XK_ISO_Level3_Shift \<equiv> 0xfe03"
abbreviation (input) XK_Mode_switch :: u32 where "XK_Mode_switch \<equiv> 0xff7e"
abbreviation (input) XK_Num_Lock :: u32 where "XK_Num_Lock \<equiv> 0xff7f"
abbreviation (input) XK_Caps_Lock :: u32 where "XK_Caps_Lock \<equiv> 0xffe5"

definition fakeKeys :: "nat list" where
  "fakeKeys = [92, 203, 204, 205, 206, 207]"

text \<open>The table of keysyms with the same meaning (\<open>keysymdef.h\<close> values, in source order).\<close>

definition altKeysym :: "(u32 \<times> u32) list" where
  "altKeysym =
     [(0xffe1, 0xffe2), (0xffe3, 0xffe4), (0xffe7, 0xffe8), (0xffe9, 0xffea), (0xffeb, 0xffec),
      (0xffed, 0xffee), (0xff80, 0x0020), (0xff89, 0xff09), (0xff8d, 0xff0d), (0xff91, 0xffbe),
      (0xff92, 0xffbf), (0xff93, 0xffc0), (0xff94, 0xffc1), (0xff95, 0xff50), (0xff96, 0xff51),
      (0xff97, 0xff52), (0xff98, 0xff53), (0xff99, 0xff54), (0xff9a, 0xff55), (0xff9b, 0xff56),
      (0xff9c, 0xff57), (0xff9d, 0xff58), (0xff9e, 0xff63), (0xff9f, 0xffff), (0xffbd, 0x003d),
      (0xffaa, 0x002a), (0xffab, 0x002b), (0xffac, 0x002c), (0xffad, 0x002d), (0xffae, 0x002e),
      (0xffaf, 0x002f), (0xffb0, 0x0030), (0xffb1, 0x0031), (0xffb2, 0x0032), (0xffb3, 0x0033),
      (0xffb4, 0x0034), (0xffb5, 0x0035), (0xffb6, 0x0036), (0xffb7, 0x0037), (0xffb8, 0x0038),
      (0xffb9, 0x0039), (0xfe03, 0xff7e)]"

section \<open>Translation of a key code\<close>

definition XkbKeycodeInRange :: "xkbDesc \<Rightarrow> nat \<Rightarrow> bool" where
  "XkbKeycodeInRange xkb key \<longleftrightarrow> min_key_code xkb \<le> key \<and> key \<le> max_key_code xkb"

text \<open>The group used for a key in a core state; the same lines occur in three functions.\<close>

definition effectiveGroup :: "xkbDesc \<Rightarrow> nat \<Rightarrow> u32 \<Rightarrow> nat" where
  "effectiveGroup xkb key mods =
     (let g = xk_groupForCoreState xkb mods; n = xk_numGroups xkb key
      in if g \<ge> n
         then (case xk_outOfRange xkb key of
                 WrapIntoRange \<Rightarrow> g mod n
               | ClampIntoRange \<Rightarrow> n - 1
               | RedirectIntoRange r \<Rightarrow> if r \<ge> n then 0 else r)
         else g)"

text \<open>The first active map entry that matches the modifiers, with its index.\<close>

fun levelEntry :: "keyType \<Rightarrow> u32 \<Rightarrow> nat \<Rightarrow> ktEntry list \<Rightarrow> (nat \<times> ktEntry) option" where
  "levelEntry type mods i [] = None"
| "levelEntry type mods i (e # es) =
     (if kte_active e \<and> mods AND kt_mask type = kte_mask e then Some (i, e)
      else levelEntry type mods (Suc i) es)"

definition keyColumn :: "xkbDesc \<Rightarrow> nat \<Rightarrow> u32 \<Rightarrow> nat" where
  "keyColumn xkb key mods =
     (let g = effectiveGroup xkb key mods; type = xk_keyType xkb key g
      in g * xk_groupsWidth xkb key +
         (case levelEntry type mods 0 (kt_map type) of None \<Rightarrow> 0 | Some (i, e) \<Rightarrow> kte_level e))"

definition keyPreserve :: "xkbDesc \<Rightarrow> nat \<Rightarrow> u32 \<Rightarrow> u32" where
  "keyPreserve xkb key mods =
     (let type = xk_keyType xkb key (effectiveGroup xkb key mods)
      in case levelEntry type mods 0 (kt_map type) of None \<Rightarrow> 0
         | Some (i, e) \<Rightarrow> (case kt_preserve type of None \<Rightarrow> 0 | Some ps \<Rightarrow> ps ! i))"

text \<open>Result: whether a keysym was found, the returned modifiers and the keysym.\<close>

definition XkbTranslateKeyCode :: "xkbDesc \<Rightarrow> nat \<Rightarrow> u32 \<Rightarrow> bool \<times> u32 \<times> u32" where
  "XkbTranslateKeyCode xkb key mods =
     (if \<not> XkbKeycodeInRange xkb key \<or> xk_numGroups xkb key = 0 then (False, 0, NoSymbol)
      else let ks = xk_syms xkb key (keyColumn xkb key mods);
               type = xk_keyType xkb key (effectiveGroup xkb key mods)
           in (ks \<noteq> NoSymbol, kt_mask type AND NOT (keyPreserve xkb key mods), ks))"

definition XkbKeyActionPtr :: "xkbDesc \<Rightarrow> nat \<Rightarrow> u32 \<Rightarrow> xkbAction option" where
  "XkbKeyActionPtr xkb key mods =
     (case xk_actions xkb key of None \<Rightarrow> None
      | Some acts \<Rightarrow>
          if \<not> XkbKeycodeInRange xkb key \<or> xk_numGroups xkb key = 0 then None
          else Some (acts (keyColumn xkb key mods)))"

definition XkbKeyEffectiveGroup :: "xkbDesc \<Rightarrow> nat \<Rightarrow> u32 \<Rightarrow> nat" where
  "XkbKeyEffectiveGroup xkb key mods =
     (if \<not> XkbKeycodeInRange xkb key \<or> xk_numGroups xkb key = 0 then 0
      else effectiveGroup xkb key mods)"

section \<open>Keysym to key code\<close>

definition lorieGetKeyboardState :: "kbd \<Rightarrow> u32" where
  "lorieGetKeyboardState kb = kb_state kb"

text \<open>Whether a key produces the keysym in a state, Caps Lock conversion included.\<close>

definition keyMatches :: "xkbDesc \<Rightarrow> u32 \<Rightarrow> u32 \<Rightarrow> nat \<Rightarrow> bool" where
  "keyMatches xkb keysym state key =
     (let (ok, consumed, ks) = XkbTranslateKeyCode xkb key state
      in if ks = NoSymbol then False
         else let state_out = state AND NOT consumed
              in (if has_flag state_out LockMask then snd (xk_convertCase xkb ks) else ks) = keysym)"

text \<open>The loop over the keys: the first real match, else the first fake key that matches.\<close>

fun scanKeys :: "(nat \<Rightarrow> bool) \<Rightarrow> nat \<Rightarrow> nat list \<Rightarrow> nat" where
  "scanKeys m fallback [] = fallback"
| "scanKeys m fallback (key # keys) =
     (if \<not> m key then scanKeys m fallback keys
      else if key \<in> set fakeKeys then scanKeys m (if fallback = 0 then key else fallback) keys
      else key)"

definition keyRange :: "xkbDesc \<Rightarrow> nat list" where
  "keyRange xkb = [min_key_code xkb ..< Suc (max_key_code xkb)]"

text \<open>\<open>lorieKeysymToKeycode\<close> called with a null \<open>new_state\<close>.\<close>

definition keysymToKeycodeIn :: "xkbDesc \<Rightarrow> u32 \<Rightarrow> u32 \<Rightarrow> nat" where
  "keysymToKeycodeIn xkb keysym state = scanKeys (keyMatches xkb keysym state) 0 (keyRange xkb)"

definition actionMask :: "xkbDesc \<Rightarrow> nat \<Rightarrow> xkbAction \<Rightarrow> u32" where
  "actionMask xkb key act = (if xa_useModMapMods act then xk_modmap xkb key else xa_mask act)"

definition levelThreeKey :: "xkbDesc \<Rightarrow> u32 \<Rightarrow> nat" where
  "levelThreeKey xkb state =
     (let keycode = keysymToKeycodeIn xkb XK_ISO_Level3_Shift state
      in if keycode = 0 then keysymToKeycodeIn xkb XK_Mode_switch state else keycode)"

definition lorieGetLevelThreeMask :: "kbd \<Rightarrow> u32" where
  "lorieGetLevelThreeMask kb =
     (let xkb = kb_xkb kb; state = lorieGetKeyboardState kb AND NOT 0xff;
          keycode = levelThreeKey xkb state
      in if keycode = 0 then 0
         else case XkbKeyActionPtr xkb keycode state of None \<Rightarrow> 0
              | Some act \<Rightarrow> if xa_type act \<noteq> XkbSA_SetMods then 0 else actionMask xkb keycode act)"

definition toggleMask :: "u32 \<Rightarrow> u32 \<Rightarrow> u32" where
  "toggleMask state m = (if has_flag state m then 0 else m)"

text \<open>\<open>lorieKeysymToKeycode\<close> with \<open>new_state\<close>: the key code and the state that produces it.\<close>

definition lorieKeysymToKeycode :: "kbd \<Rightarrow> u32 \<Rightarrow> u32 \<Rightarrow> nat \<times> u32" where
  "lorieKeysymToKeycode kb keysym state =
     (let xkb = kb_xkb kb; k0 = keysymToKeycodeIn xkb keysym state
      in if k0 \<noteq> 0 then (k0, state)
         else let s1 = (state AND NOT ShiftMask) OR toggleMask state ShiftMask;
                  k1 = keysymToKeycodeIn xkb keysym s1
              in if k1 \<noteq> 0 then (k1, s1)
                 else let l3 = lorieGetLevelThreeMask kb
                      in if l3 = 0 then (0, s1)
                         else let s2 = (state AND NOT l3) OR toggleMask state l3;
                                  k2 = keysymToKeycodeIn xkb keysym s2
                              in if k2 \<noteq> 0 then (k2, s2)
                                 else let s3 = (state AND NOT (ShiftMask OR l3))
                                               OR toggleMask state ShiftMask OR toggleMask state l3;
                                          k3 = keysymToKeycodeIn xkb keysym s3
                                      in (k3, s3))"

section \<open>Modifier keys\<close>

definition setModsMask :: "xkbDesc \<Rightarrow> u32 \<Rightarrow> nat \<Rightarrow> u32 option" where
  "setModsMask xkb state key =
     (case XkbKeyActionPtr xkb key state of None \<Rightarrow> None
      | Some act \<Rightarrow> if xa_type act \<noteq> XkbSA_SetMods then None else Some (actionMask xkb key act))"

definition loriePressShift :: "kbd \<Rightarrow> nat" where
  "loriePressShift kb =
     (let state = lorieGetKeyboardState kb; xkb = kb_xkb kb
      in if has_flag state ShiftMask then 0
         else case find (\<lambda>key. case setModsMask xkb state key of None \<Rightarrow> False
                                | Some m \<Rightarrow> m AND ShiftMask = ShiftMask) (keyRange xkb) of
                None \<Rightarrow> 0 | Some key \<Rightarrow> key)"

text \<open>The collecting loop shared by the two release functions: too many keys gives none.\<close>

fun collectKeys :: "(nat \<Rightarrow> bool) \<Rightarrow> nat \<Rightarrow> nat list \<Rightarrow> nat list \<Rightarrow> nat list" where
  "collectKeys p maxKeys acc [] = acc"
| "collectKeys p maxKeys acc (key # keys) =
     (if \<not> p key then collectKeys p maxKeys acc keys
      else if length acc \<ge> maxKeys then []
      else collectKeys p maxKeys (acc @ [key]) keys)"

definition heldModifier :: "kbd \<Rightarrow> u32 \<Rightarrow> nat \<Rightarrow> bool" where
  "heldModifier kb mods key \<longleftrightarrow>
     kb_down kb key \<and> (case setModsMask (kb_xkb kb) (lorieGetKeyboardState kb) key of
                          None \<Rightarrow> False | Some m \<Rightarrow> has_flag m mods)"

definition lorieReleaseShift :: "kbd \<Rightarrow> nat \<Rightarrow> nat list" where
  "lorieReleaseShift kb maxKeys =
     (if \<not> has_flag (lorieGetKeyboardState kb) ShiftMask then []
      else collectKeys (heldModifier kb ShiftMask) maxKeys [] (keyRange (kb_xkb kb)))"

definition loriePressLevelThree :: "kbd \<Rightarrow> nat" where
  "loriePressLevelThree kb =
     (let l3 = lorieGetLevelThreeMask kb; state = lorieGetKeyboardState kb; xkb = kb_xkb kb
      in if l3 = 0 \<or> has_flag state l3 then 0
         else let keycode = levelThreeKey xkb state
              in if keycode = 0 then 0
                 else case XkbKeyActionPtr xkb keycode state of None \<Rightarrow> 0
                      | Some act \<Rightarrow> if xa_type act \<noteq> XkbSA_SetMods then 0 else keycode)"

definition lorieReleaseLevelThree :: "kbd \<Rightarrow> nat \<Rightarrow> nat list" where
  "lorieReleaseLevelThree kb maxKeys =
     (let l3 = lorieGetLevelThreeMask kb
      in if l3 = 0 \<or> \<not> has_flag (lorieGetKeyboardState kb) l3 then []
         else collectKeys (heldModifier kb l3) maxKeys [] (keyRange (kb_xkb kb)))"

definition lorieIsAffectedByNumLock :: "kbd \<Rightarrow> nat \<Rightarrow> bool" where
  "lorieIsAffectedByNumLock kb keycode =
     (let xkb = kb_xkb kb; state = lorieGetKeyboardState kb AND NOT 0xff;
          numlock_keycode = keysymToKeycodeIn xkb XK_Num_Lock state
      in if numlock_keycode = 0 then False
         else case XkbKeyActionPtr xkb numlock_keycode state of None \<Rightarrow> False
              | Some act \<Rightarrow>
                  if xa_type act \<noteq> XkbSA_LockMods then False
                  else let numlock_mask = actionMask xkb keycode act;
                           type = xk_keyType xkb keycode (XkbKeyEffectiveGroup xkb keycode state)
                       in has_flag (kt_mask type) numlock_mask)"

section \<open>Added keysyms\<close>

definition saveAddedKeysym :: "kbd \<Rightarrow> nat \<Rightarrow> u32 \<Rightarrow> kbd" where
  "saveAddedKeysym kb code keysym =
     (if \<not> kb_mallocOk kb then kb
      else kb\<lparr>kb_addedKeysyms := (code, keysym) # kb_addedKeysyms kb\<rparr>)"

fun moveToFront :: "nat \<Rightarrow> (nat \<times> u32) list \<Rightarrow> (nat \<times> u32) list \<Rightarrow> (nat \<times> u32) list" where
  "moveToFront code seen [] = rev seen"
| "moveToFront code seen (it # rest) =
     (if fst it = code then it # rev seen @ rest else moveToFront code (it # seen) rest)"

definition vncOnKeyUsed :: "kbd \<Rightarrow> nat \<Rightarrow> kbd" where
  "vncOnKeyUsed kb usedKeycode =
     (case kb_addedKeysyms kb of [] \<Rightarrow> kb
      | it # _ \<Rightarrow> if fst it = usedKeycode then kb
                  else kb\<lparr>kb_addedKeysyms := moveToFront usedKeycode [] (kb_addedKeysyms kb)\<rparr>)"

text \<open>
  The reuse loop takes items from the back of the list: the recursion is over the reversed list;
  the result is the key code and what is left, reversed.
\<close>

definition reusable :: "xkbDesc \<Rightarrow> nat \<times> u32 \<Rightarrow> bool" where
  "reusable xkb it \<longleftrightarrow>
     xk_numGroups xkb (fst it) > 0 \<and> xk_syms xkb (fst it) 0 = snd it
     \<and> (case xk_names xkb of None \<Rightarrow> True | Some names \<Rightarrow> names (fst it) ! 0 = CHR ''T'')"

fun reuseLoop :: "xkbDesc \<Rightarrow> (nat \<times> u32) list \<Rightarrow> nat \<times> (nat \<times> u32) list" where
  "reuseLoop xkb [] = (0, [])"
| "reuseLoop xkb (it # rest) =
     (if reusable xkb it \<and> fst it \<noteq> 0 then (fst it, rest) else reuseLoop xkb rest)"

definition getReusableKeycode :: "kbd \<Rightarrow> nat \<times> kbd" where
  "getReusableKeycode kb =
     (let (code, left) = reuseLoop (kb_xkb kb) (rev (kb_addedKeysyms kb))
      in (code, kb\<lparr>kb_addedKeysyms := rev left\<rparr>))"

definition digitChar :: "nat \<Rightarrow> char" where
  "digitChar n = char_of (48 + n mod 10)"

definition keyName :: "nat \<Rightarrow> string" where
  "keyName key = [CHR ''T'', digitChar (key div 100), digitChar (key div 10), digitChar key]"

text \<open>
  \<open>changeTypes\<close> is the server's \<open>XkbChangeTypesOfKey\<close>, which gives the key one alphabetic group.
  Result 0 means that no key code was available.
\<close>

definition lorieAddKeysym :: "(xkbDesc \<Rightarrow> nat \<Rightarrow> xkbDesc) \<Rightarrow> kbd \<Rightarrow> u32 \<Rightarrow> nat \<times> kbd" where
  "lorieAddKeysym changeTypes kb keysym =
     (let xkb = kb_xkb kb;
          (key, kb1) = (case find (\<lambda>k. xk_numGroups xkb k = 0) (rev (keyRange xkb)) of
                          Some k \<Rightarrow> (k, kb) | None \<Rightarrow> getReusableKeycode kb)
      in if key = 0 then (0, kb1)
         else let named = (case xk_names xkb of None \<Rightarrow> xkb
                           | Some names \<Rightarrow> xkb\<lparr>xk_names := Some (names(key := keyName key))\<rparr>);
                  (lower, upper) = xk_convertCase xkb keysym;
                  typed = changeTypes named key;
                  xkb' = typed\<lparr>xk_syms := (xk_syms typed)(key := (xk_syms typed key)(0 := lower, 1 := upper))\<rparr>
              in (key, saveAddedKeysym (kb1\<lparr>kb_xkb := xkb'\<rparr>) key lower))"

section \<open>The keyboard event\<close>

definition altOf :: "u32 \<Rightarrow> u32 \<times> u32 \<Rightarrow> u32 option" where
  "altOf keysym e = (if fst e = keysym then Some (snd e)
                     else if snd e = keysym then Some (fst e) else None)"

fun altSearch :: "kbd \<Rightarrow> u32 \<Rightarrow> u32 \<Rightarrow> (u32 \<times> u32) list \<Rightarrow> nat \<times> u32" where
  "altSearch kb keysym state [] = (0, state)"
| "altSearch kb keysym state (e # es) =
     (case altOf keysym e of None \<Rightarrow> altSearch kb keysym state es
      | Some altsym \<Rightarrow> let (k, ns) = lorieKeysymToKeycode kb altsym state
                       in if k \<noteq> 0 then (k, ns) else altSearch kb keysym state es)"

definition shiftDiffers :: "u32 \<Rightarrow> u32 \<Rightarrow> bool" where
  "shiftDiffers a b \<longleftrightarrow> a AND ShiftMask \<noteq> b AND ShiftMask"

fun numpadSearch :: "kbd \<Rightarrow> u32 \<Rightarrow> u32 \<Rightarrow> (u32 \<times> u32) list \<Rightarrow> (nat \<times> u32) option" where
  "numpadSearch kb keysym state [] = None"
| "numpadSearch kb keysym state (e # es) =
     (case altOf keysym e of None \<Rightarrow> numpadSearch kb keysym state es
      | Some altsym \<Rightarrow>
          let (k2, ns2) = lorieKeysymToKeycode kb altsym state
          in if k2 = 0 \<or> (shiftDiffers state ns2 \<and> lorieIsAffectedByNumLock kb k2)
             then numpadSearch kb keysym state es else Some (k2, ns2))"

definition queue :: "kbd \<Rightarrow> keyEvent list \<Rightarrow> kbd" where
  "queue kb evs = kb\<lparr>kb_out := kb_out kb @ evs\<rparr>"

text \<open>
  A fake modifier: the events queued before the key and those queued after it to undo them;
  \<open>None\<close> is the early return when the modifier keys cannot be found.
\<close>

definition fakeModifier :: "u32 \<Rightarrow> u32 \<Rightarrow> u32 \<Rightarrow> nat \<Rightarrow> nat list \<Rightarrow> (keyEvent list \<times> keyEvent list) option" where
  "fakeModifier state new_state mods press release =
     (if \<not> has_flag state mods \<and> has_flag new_state mods
      then if press = 0 then None else Some ([KeyPress press], [KeyRelease press])
      else if has_flag state mods \<and> \<not> has_flag new_state mods
      then if release = [] then None else Some (map KeyRelease release, map KeyPress release)
      else Some ([], []))"

definition recordPressed :: "u32 list \<Rightarrow> nat \<Rightarrow> u32 \<Rightarrow> u32 list" where
  "recordPressed pressed keycode keysym =
     (map (\<lambda>k. if k = keysym then NoSymbol else k) pressed)[keycode := keysym]"

text \<open>The lookup part of a press: direct, equivalent keysym, or a newly added keysym.\<close>

definition findKeycode ::
    "(xkbDesc \<Rightarrow> nat \<Rightarrow> xkbDesc) \<Rightarrow> kbd \<Rightarrow> u32 \<Rightarrow> u32 \<Rightarrow> nat \<times> u32 \<times> kbd" where
  "findKeycode changeTypes kb keysym state =
     (let (k, ns) = lorieKeysymToKeycode kb keysym state
      in if k \<noteq> 0 then (k, ns, kb)
         else let (k, ns) = altSearch kb keysym state altKeysym
              in if k \<noteq> 0 then (k, ns, kb)
                 else let (added, kb') = lorieAddKeysym changeTypes kb keysym
                      in if added = 0 then (0, state, kb')
                         else let (k, ns) = lorieKeysymToKeycode kb' keysym state in (k, ns, kb'))"

text \<open>Queueing the events of a press once key code and target state are known.\<close>

definition pressKey :: "kbd \<Rightarrow> u32 \<Rightarrow> u32 \<Rightarrow> nat \<Rightarrow> u32 \<Rightarrow> kbd \<times> bool" where
  "pressKey kb keysym state keycode new_state =
     (let level_three_mask =
            (if new_state AND NOT ShiftMask \<noteq> state AND NOT ShiftMask
             then lorieGetLevelThreeMask kb else 0)
      in case fakeModifier state new_state ShiftMask (loriePressShift kb) (lorieReleaseShift kb 8) of
           None \<Rightarrow> (kb, False)
         | Some (shiftPre, shiftPost) \<Rightarrow>
             (let kb1 = queue kb shiftPre
              in case fakeModifier state new_state level_three_mask
                        (loriePressLevelThree kb1) (lorieReleaseLevelThree kb1 8) of
                   None \<Rightarrow> (kb1, False)
                 | Some (l3Pre, l3Post) \<Rightarrow>
                     (let kb2 = vncOnKeyUsed (queue kb1 (l3Pre @ [KeyPress keycode])) keycode;
                          kb3 = kb2\<lparr>kb_pressedKeys := recordPressed (kb_pressedKeys kb2) keycode keysym\<rparr>
                      in (queue kb3 (l3Post @ shiftPost), True))))"

definition pressKeysym ::
    "(xkbDesc \<Rightarrow> nat \<Rightarrow> xkbDesc) \<Rightarrow> (kbd \<Rightarrow> kbd) \<Rightarrow> kbd \<Rightarrow> u32 \<Rightarrow> kbd" where
  "pressKeysym changeTypes process kb0 keysym =
     (let kb = process kb0; state = lorieGetKeyboardState kb;
          (keycode, new_state, kb1) = findKeycode changeTypes kb keysym state
      in if keycode = 0 then kb1
         else let (keycode, new_state) =
                    (if shiftDiffers state new_state \<and> lorieIsAffectedByNumLock kb1 keycode
                     then (case numpadSearch kb1 keysym state altKeysym of
                             None \<Rightarrow> (keycode, new_state) | Some kn \<Rightarrow> kn)
                     else (keycode, new_state));
                  new_state = (if keysym = XK_Tab \<and> has_flag state ShiftMask
                               then new_state OR ShiftMask else new_state);
                  (kb2, done) = pressKey kb1 keysym state keycode new_state
              in if done then process kb2 else kb2)"

definition releaseKeysym :: "(kbd \<Rightarrow> kbd) \<Rightarrow> kbd \<Rightarrow> u32 \<Rightarrow> kbd" where
  "releaseKeysym process kb keysym =
     (case find (\<lambda>i. kb_pressedKeys kb ! i = keysym) [0..<256] of
        None \<Rightarrow> kb
      | Some i \<Rightarrow> process (queue (kb\<lparr>kb_pressedKeys := (kb_pressedKeys kb)[i := NoSymbol]\<rparr>) [KeyRelease i]))"

definition lorieKeysymKeyboardEvent ::
    "(xkbDesc \<Rightarrow> nat \<Rightarrow> xkbDesc) \<Rightarrow> (kbd \<Rightarrow> kbd) \<Rightarrow> kbd \<Rightarrow> u32 \<Rightarrow> bool \<Rightarrow> kbd" where
  "lorieKeysymKeyboardEvent changeTypes process kb keysym down =
     (if \<not> down then releaseKeysym process kb keysym
      else pressKeysym changeTypes process kb keysym)"


section \<open>Lock keys\<close>

text \<open>
  The XKB state of the master keyboard: the locked modifiers and the derived rest.  The server
  functions that recompute the derived state, report changed fields and select indicators are
  arguments; what they cause at the clients is the list of notifications.
\<close>

record xkbState =
  xs_locked_mods :: u32
  xs_derived :: u32

datatype xkbNotice =
    StateNotify u32
  | UpdateIndicators u32
  | PushLockedStateToSlaves
  | SetIndicators u32 u32

record xkbServer =
  sv_computeDerived :: "xkbState \<Rightarrow> xkbState"
  sv_changedFlags :: "xkbState \<Rightarrow> xkbState \<Rightarrow> u32"
  sv_indicatorsToUpdate :: "u32 \<Rightarrow> u32"
  sv_indicatorNames :: "(nat \<Rightarrow> u32) option"
  sv_atom :: "string \<Rightarrow> u32"

definition lorieGetLockKeyModMask :: "kbd \<Rightarrow> u32 \<Rightarrow> u32" where
  "lorieGetLockKeyModMask kb keysym =
     (let state = lorieGetKeyboardState kb AND NOT 0xff; xkb = kb_xkb kb;
          keycode = keysymToKeycodeIn xkb keysym state
      in if keycode = 0 then 0
         else case XkbKeyActionPtr xkb keycode state of None \<Rightarrow> 0
              | Some act \<Rightarrow> if xa_type act \<noteq> XkbSA_LockMods then 0 else actionMask xkb keycode act)"

definition lorieSetLockedMods ::
    "xkbServer \<Rightarrow> xkbState \<Rightarrow> u32 \<Rightarrow> bool \<Rightarrow> xkbState \<times> xkbNotice list" where
  "lorieSetLockedMods sv old m on =
     (if m = 0 then (old, [])
      else let new = sv_computeDerived sv (old\<lparr>xs_locked_mods :=
                       (if on then xs_locked_mods old OR m else xs_locked_mods old AND NOT m)\<rparr>);
               changed = sv_changedFlags sv old new
           in if changed = 0 then (new, [])
              else (new, [StateNotify changed]
                         @ (let ind = sv_indicatorsToUpdate sv changed
                            in if ind \<noteq> 0 then [UpdateIndicators ind] else [])
                         @ [PushLockedStateToSlaves]))"

definition lorieSetScrollLockIndicator :: "xkbServer \<Rightarrow> bool \<Rightarrow> xkbNotice list" where
  "lorieSetScrollLockIndicator sv on =
     (case sv_indicatorNames sv of None \<Rightarrow> []
      | Some names \<Rightarrow>
          (case find (\<lambda>i. names i = sv_atom sv ''Scroll Lock'') [0..<32] of None \<Rightarrow> []
           | Some i \<Rightarrow> [SetIndicators (push_bit i 1) (if on then push_bit i 1 else 0)]))"

text \<open>Bits of the host state: 0 Caps Lock, 1 Num Lock, 2 Scroll Lock.\<close>

definition lorieSyncLockKeysState ::
    "xkbServer \<Rightarrow> kbd \<Rightarrow> xkbState \<Rightarrow> u8 \<Rightarrow> xkbState \<times> xkbNotice list" where
  "lorieSyncLockKeysState sv kb st bits =
     (let (st1, n1) = lorieSetLockedMods sv st (lorieGetLockKeyModMask kb XK_Caps_Lock) (has_flag bits 1);
          (st2, n2) = lorieSetLockedMods sv st1 (lorieGetLockKeyModMask kb XK_Num_Lock) (has_flag bits 2)
      in (st2, n1 @ n2 @ lorieSetScrollLockIndicator sv (has_flag bits 4)))"

section \<open>Lookup lemmas\<close>

lemma fakeKeys_nonzero: "k \<in> set fakeKeys \<Longrightarrow> k \<noteq> 0"
  by (auto simp: fakeKeys_def)

lemma scanKeys_eq:
  "scanKeys m fallback ks =
     (case find (\<lambda>k. m k \<and> k \<notin> set fakeKeys) ks of Some k \<Rightarrow> k
      | None \<Rightarrow> if fallback \<noteq> 0 then fallback else case find m ks of Some k \<Rightarrow> k | None \<Rightarrow> 0)"
  by (induction ks arbitrary: fallback) (auto dest: fakeKeys_nonzero split: option.split)

lemma find_Some_D: "find p xs = Some x \<Longrightarrow> p x \<and> x \<in> set xs"
  by (induction xs) (auto split: if_splits)

lemma set_keyRange [simp]: "k \<in> set (keyRange xkb) \<longleftrightarrow> min_key_code xkb \<le> k \<and> k \<le> max_key_code xkb"
  by (auto simp: keyRange_def)

text \<open>The specification of the lookup in one state.\<close>

definition lookupSpec :: "xkbDesc \<Rightarrow> u32 \<Rightarrow> u32 \<Rightarrow> nat \<Rightarrow> bool" where
  "lookupSpec xkb keysym state k \<longleftrightarrow>
     (if k = 0 then \<forall>j. min_key_code xkb \<le> j \<and> j \<le> max_key_code xkb \<longrightarrow> \<not> keyMatches xkb keysym state j
      else min_key_code xkb \<le> k \<and> k \<le> max_key_code xkb \<and> keyMatches xkb keysym state k
           \<and> (\<forall>j. min_key_code xkb \<le> j \<and> j < k \<and> keyMatches xkb keysym state j \<longrightarrow> j \<in> set fakeKeys)
           \<and> (k \<in> set fakeKeys \<longrightarrow>
                (\<forall>j. min_key_code xkb \<le> j \<and> j \<le> max_key_code xkb \<and> keyMatches xkb keysym state j \<longrightarrow>
                     j \<in> set fakeKeys \<and> k \<le> j)))"

lemma find_upt_Some:
  "find p [a..<b] = Some k \<Longrightarrow> a \<le> k \<and> k < b \<and> p k \<and> (\<forall>j. a \<le> j \<and> j < k \<longrightarrow> \<not> p j)"
proof -
  assume "find p [a..<b] = Some k"
  then obtain i where i: "i < b - a" "p (a + i)" "k = a + i" "\<forall>j<i. \<not> p (a + j)"
    by (auto simp: find_Some_iff)
  have "\<not> p j" if "a \<le> j" "j < k" for j
    using i(3) i(4) [rule_format, of "j - a"] that by simp
  with i show ?thesis by auto
qed

lemma find_upt_None: "find p [a..<b] = None \<longleftrightarrow> (\<forall>j. a \<le> j \<and> j < b \<longrightarrow> \<not> p j)"
  by (auto simp: find_None_iff)

lemma keysymToKeycodeIn_spec:
  assumes "0 < min_key_code xkb"
  shows "lookupSpec xkb keysym state (keysymToKeycodeIn xkb keysym state)"
proof -
  let ?m = "keyMatches xkb keysym state"
  let ?ks = "[min_key_code xkb..<Suc (max_key_code xkb)]"
  note eq = keysymToKeycodeIn_def scanKeys_eq keyRange_def
  show ?thesis
  proof (cases "find (\<lambda>k. ?m k \<and> k \<notin> set fakeKeys) ?ks")
    case (Some k)
    then have "keysymToKeycodeIn xkb keysym state = k" by (simp add: eq del: upt_Suc)
    with find_upt_Some [OF Some] assms show ?thesis by (auto simp: lookupSpec_def)
  next
    case None
    then have real: "\<forall>j. min_key_code xkb \<le> j \<and> j < Suc (max_key_code xkb) \<longrightarrow> \<not> (?m j \<and> j \<notin> set fakeKeys)"
      by (simp only: find_upt_None)
    have scan: "keysymToKeycodeIn xkb keysym state = (case find ?m ?ks of Some k \<Rightarrow> k | None \<Rightarrow> 0)"
      using None by (simp add: eq del: upt_Suc)
    show ?thesis
    proof (cases "find ?m ?ks")
      case None
      with scan show ?thesis by (simp add: lookupSpec_def find_upt_None del: upt_Suc)
    next
      case (Some k)
      then have k: "keysymToKeycodeIn xkb keysym state = k" using scan by (simp del: upt_Suc)
      show ?thesis unfolding k lookupSpec_def
        using find_upt_Some [OF Some] real assms by (auto simp: less_Suc_eq_le not_less [symmetric])
    qed
  qed
qed

lemma toggle_shift: "(state AND NOT 1) OR toggleMask state 1 = state XOR 1"
  by (rule bit_word_eqI)
    (auto simp: toggleMask_def has_flag_bit bit_simps bit_1_iff has_flag_iff)

lemma toggle_bit: "bit (toggleMask state m) n \<Longrightarrow> bit m n"
  by (simp add: toggleMask_def split: if_splits)

lemma toggle_keeps:
  fixes l :: u32
  shows "((state AND NOT 1) OR toggleMask state 1) AND NOT (1 OR l) = state AND NOT (1 OR l)"
    and "((state AND NOT l) OR toggleMask state l) AND NOT (1 OR l) = state AND NOT (1 OR l)"
    and "((state AND NOT (1 OR l)) OR toggleMask state 1 OR toggleMask state l) AND NOT (1 OR l)
         = state AND NOT (1 OR l)"
  by (rule bit_word_eqI; auto simp only: bit_and_iff bit_or_iff bit_not_iff dest: toggle_bit)+

section \<open>Event balance and key records\<close>

text \<open>Presses minus releases of one key in a run of events.\<close>

definition netPress :: "keyEvent list \<Rightarrow> nat \<Rightarrow> int" where
  "netPress evs j = int (count_list evs (KeyPress j)) - int (count_list evs (KeyRelease j))"

lemma netPress_simps [simp]:
  "netPress [] j = 0"
  "netPress (a @ b) j = netPress a j + netPress b j"
  "netPress (KeyPress k # a) j = (if k = j then 1 else 0) + netPress a j"
  "netPress (KeyRelease k # a) j = (if k = j then -1 else 0) + netPress a j"
  by (simp_all add: netPress_def)

lemma netPress_map [simp]:
  "netPress (map KeyPress ks) j = int (count_list ks j)"
  "netPress (map KeyRelease ks) j = - int (count_list ks j)"
  by (induction ks) auto

lemma fakeModifier_balanced:
  "fakeModifier state ns m press release = Some (pre, post) \<Longrightarrow> netPress (pre @ post) j = 0"
  by (auto simp: fakeModifier_def split: if_splits)

lemma queue_simps [simp, frame_simps]:
  "kb_out (queue kb evs) = kb_out kb @ evs"
  "kb_pressedKeys (queue kb evs) = kb_pressedKeys kb"
  "kb_addedKeysyms (queue kb evs) = kb_addedKeysyms kb"
  "kb_xkb (queue kb evs) = kb_xkb kb"
  by (simp_all add: queue_def)

lemma vncOnKeyUsed_frame [simp, frame_simps]:
  "kb_out (vncOnKeyUsed kb k) = kb_out kb"
  "kb_pressedKeys (vncOnKeyUsed kb k) = kb_pressedKeys kb"
  "kb_xkb (vncOnKeyUsed kb k) = kb_xkb kb"
  by (simp_all add: vncOnKeyUsed_def split: list.split)

lemma pressKey_True:
  assumes "pressKey kb keysym state keycode ns = (kb', True)"
  obtains shiftPre shiftPost l3Pre l3Post where
    "kb_out kb' = kb_out kb @ shiftPre @ l3Pre @ [KeyPress keycode] @ l3Post @ shiftPost"
    "kb_pressedKeys kb' = recordPressed (kb_pressedKeys kb) keycode keysym"
    "\<And>j. netPress (shiftPre @ shiftPost) j = 0" "\<And>j. netPress (l3Pre @ l3Post) j = 0"
proof -
  let ?m = "if ns AND NOT ShiftMask \<noteq> state AND NOT ShiftMask then lorieGetLevelThreeMask kb else 0"
  obtain a b where ab: "fakeModifier state ns 1 (loriePressShift kb) (lorieReleaseShift kb 8) = Some (a, b)"
    using assms by (auto simp: pressKey_def Let_def split: option.splits)
  obtain c d where cd: "fakeModifier state ns ?m (loriePressLevelThree (queue kb a))
      (lorieReleaseLevelThree (queue kb a) 8) = Some (c, d)"
    using assms ab unfolding pressKey_def Let_def by (cases rule: option.exhaust) (auto split: option.splits)
  have kb': "kb' = queue ((vncOnKeyUsed (queue (queue kb a) (c @ [KeyPress keycode])) keycode)
      \<lparr>kb_pressedKeys := recordPressed (kb_pressedKeys kb) keycode keysym\<rparr>) (d @ b)"
    using assms unfolding pressKey_def Let_def ab option.case prod.case cd by simp
  show ?thesis
    by (rule that [of a c d b])
      (simp_all add: kb' fakeModifier_balanced [OF ab] fakeModifier_balanced [OF cd] del: netPress_simps(2))
qed

text \<open>The record of pressed keys: 256 entries, and a keysym is held by at most one key.\<close>

definition pressed_wf :: "u32 list \<Rightarrow> bool" where
  "pressed_wf p \<longleftrightarrow> length p = 256
     \<and> (\<forall>i<256. \<forall>j<256. p ! i = p ! j \<and> p ! i \<noteq> NoSymbol \<longrightarrow> i = j)"

lemma recordPressed_nth:
  assumes "i < length p"
  shows "recordPressed p k s ! i = (if i = k then s else if p ! i = s then 0 else p ! i)"
  using assms by (simp add: recordPressed_def nth_list_update)

lemma recordPressed_wf:
  assumes "pressed_wf p" shows "pressed_wf (recordPressed p k s)"
  using assms by (auto simp: pressed_wf_def recordPressed_nth, simp add: recordPressed_def)

lemma clear_wf: "pressed_wf p \<Longrightarrow> pressed_wf (p[i := 0])"
proof -
  assume wf: "pressed_wf p"
  then have "j < 256 \<Longrightarrow> p[i := 0] ! j = (if i = j then 0 else p ! j)" for j
    by (simp add: pressed_wf_def nth_list_update)
  with wf show ?thesis by (auto simp: pressed_wf_def split: if_splits)
qed

lemma find_pressed:
  assumes "pressed_wf p" "k < 256" "p ! k = s" "s \<noteq> 0"
  shows "find (\<lambda>i. p ! i = s) [0..<256] = Some k"
proof (cases "find (\<lambda>i. p ! i = s) [0..<256]")
  case None
  then have "p ! k \<noteq> s" using assms(2) by (simp only: find_upt_None) simp
  with assms(3) show ?thesis by simp
next
  case (Some i)
  from find_upt_Some [OF this] assms have "i = k" unfolding pressed_wf_def by metis
  with Some show ?thesis by simp
qed

lemma releaseKeysym_found:
  assumes "pressed_wf (kb_pressedKeys kb)" "k < 256" "kb_pressedKeys kb ! k = s" "s \<noteq> 0"
  shows "releaseKeysym process kb s =
         process (queue (kb\<lparr>kb_pressedKeys := (kb_pressedKeys kb)[k := 0]\<rparr>) [KeyRelease k])"
  unfolding releaseKeysym_def find_pressed [OF assms] by simp

lemma saveAddedKeysym_frame [simp, frame_simps]:
  "kb_pressedKeys (saveAddedKeysym kb c s) = kb_pressedKeys kb"
  by (simp add: saveAddedKeysym_def)

lemma getReusableKeycode_frame [frame_simps]:
  "getReusableKeycode kb = (c, kb') \<Longrightarrow> kb_pressedKeys kb' = kb_pressedKeys kb"
  by (auto simp: getReusableKeycode_def split: prod.splits)

lemma lorieAddKeysym_frame:
  "lorieAddKeysym ct kb s = (c, kb') \<Longrightarrow> kb_pressedKeys kb' = kb_pressedKeys kb"
  by (auto simp: lorieAddKeysym_def Let_def dest: getReusableKeycode_frame
      split: prod.splits option.splits if_splits)

lemma findKeycode_frame:
  "findKeycode ct kb s st = (c, ns, kb') \<Longrightarrow> kb_pressedKeys kb' = kb_pressedKeys kb"
  by (auto simp: findKeycode_def Let_def dest: lorieAddKeysym_frame split: prod.splits if_splits)

lemma pressKey_record_wf:
  assumes "pressKey kb keysym state keycode ns = (kb', ok)" "pressed_wf (kb_pressedKeys kb)"
  shows "pressed_wf (kb_pressedKeys kb')"
proof (cases ok)
  case True
  with assms show ?thesis by (metis pressKey_True recordPressed_wf)
next
  case False
  with assms show ?thesis by (auto simp: pressKey_def Let_def split: option.splits)
qed

lemma moveToFront_eq:
  "moveToFront code seen l = (case find (\<lambda>it. fst it = code) l of
       None \<Rightarrow> rev seen @ l | Some it \<Rightarrow> it # rev seen @ remove1 it l)"
  by (induction l arbitrary: seen) (auto split: option.split dest: find_Some_D)

text \<open>What the lock functions rely on of the server's XKB state computation.\<close>

definition xkbStateLaws :: "xkbServer \<Rightarrow> bool" where
  "xkbStateLaws sv \<longleftrightarrow>
     (\<forall>s. xs_locked_mods (sv_computeDerived sv s) = xs_locked_mods s)
     \<and> (\<forall>s t. xs_locked_mods s = xs_locked_mods t \<longrightarrow> sv_computeDerived sv s = sv_computeDerived sv t)
     \<and> (\<forall>s. sv_changedFlags sv s s = 0)"

lemma xkbStateLawsD:
  assumes "xkbStateLaws sv"
  shows derived_locked: "xs_locked_mods (sv_computeDerived sv s) = xs_locked_mods s"
    and derived_from_locked:
      "xs_locked_mods s = xs_locked_mods t \<Longrightarrow> sv_computeDerived sv s = sv_computeDerived sv t"
    and unchanged: "sv_changedFlags sv s s = 0"
  using assms unfolding xkbStateLaws_def by blast+

definition lockTo :: "u32 \<Rightarrow> bool \<Rightarrow> u32 \<Rightarrow> u32" where
  "lockTo m on l = (if on then l OR m else l AND NOT m)"

lemma setLocked_state:
  assumes laws: "xkbStateLaws sv" and "sv_computeDerived sv st = st" "lorieSetLockedMods sv st m on = (st', n)"
  shows "sv_computeDerived sv st' = st' \<and> xs_locked_mods st' = lockTo m on (xs_locked_mods st)"
proof (cases "m = 0")
  case True
  with assms show ?thesis by (simp add: lorieSetLockedMods_def lockTo_def)
next
  case False
  let ?x = "st\<lparr>xs_locked_mods := lockTo m on (xs_locked_mods st)\<rparr>"
  from False assms(3) have st': "st' = sv_computeDerived sv ?x"
    by (auto simp: lorieSetLockedMods_def lockTo_def Let_def split: if_splits)
  have "xs_locked_mods st' = xs_locked_mods ?x" unfolding st' by (rule derived_locked [OF laws])
  then show ?thesis using derived_from_locked [OF laws, of st' ?x] st' by simp
qed

lemma setLocked_again:
  assumes laws: "xkbStateLaws sv" and "sv_computeDerived sv st = st" "lockTo m on (xs_locked_mods st) = xs_locked_mods st"
  shows "lorieSetLockedMods sv st m on = (st, [])"
proof -
  have "sv_computeDerived sv (st\<lparr>xs_locked_mods := lockTo m on (xs_locked_mods st)\<rparr>) = st"
    using assms(2,3) derived_from_locked [OF laws, of "st\<lparr>xs_locked_mods := lockTo m on (xs_locked_mods st)\<rparr>" st] by simp
  then show ?thesis by (simp add: lorieSetLockedMods_def Let_def lockTo_def unchanged [OF laws])
qed

lemma bit_lockTo: "i < 32 \<Longrightarrow> bit (lockTo m on l) i \<longleftrightarrow> (if bit m i then on else bit l i)"
  by (simp add: lockTo_def bit_simps)

lemma lockTo_again: "lockTo n b (lockTo n b l) = lockTo n b l"
  by (rule bit_word_eqI) (simp add: bit_lockTo)

lemma lockTo_disjoint:
  assumes "c AND n = 0"
  shows "lockTo c a (lockTo n b (lockTo c a l)) = lockTo n b (lockTo c a l)"
proof (rule bit_word_eqI)
  fix i :: nat assume "i < LENGTH(32)"
  moreover have "\<not> (bit c i \<and> bit n i)" using assms bit_and_iff [of c n i] by simp
  ultimately show "bit (lockTo c a (lockTo n b (lockTo c a l))) i \<longleftrightarrow> bit (lockTo n b (lockTo c a l)) i"
    by (simp add: bit_lockTo)
qed

text \<open>
  A four-key description used to evaluate the model: a letter key with the levels plain, Shift,
  level three and both, a Shift key, a level-three key and Num Lock.
\<close>

definition letterType :: keyType where
  "letterType = \<lparr>kt_map = [\<lparr>kte_active = True, kte_mask = 1, kte_level = 1\<rparr>,
                            \<lparr>kte_active = True, kte_mask = 0x80, kte_level = 2\<rparr>,
                            \<lparr>kte_active = True, kte_mask = 0x81, kte_level = 3\<rparr>],
                  kt_mask = 0x81, kt_preserve = None\<rparr>"

definition plainType :: keyType where
  "plainType = \<lparr>kt_map = [], kt_mask = 0, kt_preserve = None\<rparr>"

definition demoXkb :: xkbDesc where
  "demoXkb = \<lparr>min_key_code = 8, max_key_code = 11, xk_numGroups = (\<lambda>_. 1),
     xk_outOfRange = (\<lambda>_. WrapIntoRange), xk_groupsWidth = (\<lambda>k. if k = 8 then 4 else 1),
     xk_keyType = (\<lambda>k g. if k = 8 then letterType else plainType),
     xk_syms = (\<lambda>k c. if k = 8 then [0x61, 0x41, 0xe6, 0xc6] ! c
                      else if k = 9 then 0xffe1 else if k = 10 then 0xfe03 else 0xff7f),
     xk_actions = (\<lambda>k. if k = 9 then Some (\<lambda>_. \<lparr>xa_type = XkbSA_SetMods, xa_useModMapMods = False, xa_mask = 1\<rparr>)
                      else if k = 10 then Some (\<lambda>_. \<lparr>xa_type = XkbSA_SetMods, xa_useModMapMods = False, xa_mask = 0x80\<rparr>)
                      else if k = 11 then Some (\<lambda>_. \<lparr>xa_type = XkbSA_LockMods, xa_useModMapMods = False, xa_mask = 0x10\<rparr>)
                      else None),
     xk_modmap = (\<lambda>_. 0), xk_names = None, xk_groupForCoreState = (\<lambda>_. 0),
     xk_convertCase = (\<lambda>s. (s, s))\<rparr>"

definition demoKb :: "u32 \<Rightarrow> kbd" where
  "demoKb state = \<lparr>kb_xkb = demoXkb, kb_state = state, kb_down = (\<lambda>_. False),
     kb_pressedKeys = replicate 256 0, kb_addedKeysyms = [], kb_mallocOk = True, kb_out = []\<rparr>"

section \<open>Properties\<close>

text \<open>
  C15: a key code found for a keysym produces exactly that keysym in the target state (Caps Lock
  conversion included); keys that real keyboards never send are chosen only when no other key
  produces the keysym; the target state differs from the current state at most in Shift and in
  the level-three modifier; and no key code is returned only if no key produces the keysym in
  the current state nor with Shift toggled.
\<close>

theorem keysym_lookup_correct:
  assumes "0 < min_key_code (kb_xkb kb)" and "lorieKeysymToKeycode kb keysym state = (k, ns)"
  shows "if k \<noteq> 0
         then lookupSpec (kb_xkb kb) keysym ns k
              \<and> ns AND NOT (1 OR lorieGetLevelThreeMask kb) = state AND NOT (1 OR lorieGetLevelThreeMask kb)
         else lookupSpec (kb_xkb kb) keysym state 0 \<and> lookupSpec (kb_xkb kb) keysym (state XOR 1) 0"
proof -
  note spec = keysymToKeycodeIn_spec [OF assms(1), of keysym]
  let ?l = "lorieGetLevelThreeMask kb"
  let ?s1 = "(state AND NOT 1) OR toggleMask state 1"
  let ?s2 = "(state AND NOT ?l) OR toggleMask state ?l"
  let ?s3 = "(state AND NOT (1 OR ?l)) OR toggleMask state 1 OR toggleMask state ?l"
  consider "(k, ns) = (keysymToKeycodeIn (kb_xkb kb) keysym state, state)" "k \<noteq> 0"
    | "(k, ns) = (keysymToKeycodeIn (kb_xkb kb) keysym ?s1, ?s1)" "k \<noteq> 0"
    | "(k, ns) = (keysymToKeycodeIn (kb_xkb kb) keysym ?s2, ?s2)" "k \<noteq> 0"
    | "(k, ns) = (keysymToKeycodeIn (kb_xkb kb) keysym ?s3, ?s3)" "k \<noteq> 0"
    | "k = 0" "keysymToKeycodeIn (kb_xkb kb) keysym state = 0"
      "keysymToKeycodeIn (kb_xkb kb) keysym ?s1 = 0"
    using assms(2) unfolding lorieKeysymToKeycode_def Let_def by (fastforce split: if_splits)
  then show ?thesis
    by cases (use spec [of state] spec [of ?s1] spec [of ?s2] spec [of ?s3] toggle_keeps [of state ?l]
        toggle_shift [of state] in \<open>simp_all only: prod.inject if_True if_False not_False_eq_True simp_thms\<close>)
qed


theorem keysym_lookup_correct_witness:
  "lorieKeysymToKeycode (demoKb 0) 0x41 0 = (8, 1)
   \<and> lookupSpec demoXkb 0x41 1 8 \<and> (1::u32) AND NOT (1 OR 0x80) = 0 AND NOT (1 OR 0x80)"
proof -
  have l: "lorieKeysymToKeycode (demoKb 0) 0x41 0 = (8, 1)" by code_simp
  have m: "lorieGetLevelThreeMask (demoKb 0) = 0x80" by code_simp
  have x: "kb_xkb (demoKb 0) = demoXkb" and min: "0 < min_key_code (kb_xkb (demoKb 0))"
    by (simp_all add: demoKb_def demoXkb_def)
  show ?thesis using keysym_lookup_correct [OF min l] l by (simp add: m x)
qed

text \<open>
  a press that succeeds queues, after what was queued before, a run of events whose net effect
  is one press of the key code and nothing else: every fake modifier press is released and every
  modifier released for the key is pressed again.
\<close>

theorem press_events_balanced:
  assumes "pressKey kb keysym state keycode ns = (kb', True)"
  shows "\<exists>evs. kb_out kb' = kb_out kb @ evs \<and> (\<forall>j. netPress evs j = (if j = keycode then 1 else 0))"
proof -
  from assms obtain a b c d where
    out: "kb_out kb' = kb_out kb @ a @ c @ [KeyPress keycode] @ d @ b"
    and net: "\<And>j. netPress (a @ b) j = 0" "\<And>j. netPress (c @ d) j = 0"
    by (rule pressKey_True) blast
  have "netPress (a @ c @ [KeyPress keycode] @ d @ b) j = (if j = keycode then 1 else 0)" for j
    using net [of j] by auto
  with out show ?thesis by blast
qed

theorem press_events_balanced_witness:
  "\<exists>kb'. pressKey (demoKb 0) 0x41 0 8 1 = (kb', True)
     \<and> (\<exists>evs. kb_out kb' = evs \<and> (\<forall>j. netPress evs j = (if j = 8 then 1 else 0)))"
proof -
  have "snd (pressKey (demoKb 0) 0x41 0 8 1) = True" by code_simp
  then have p: "pressKey (demoKb 0) 0x41 0 8 1 = (fst (pressKey (demoKb 0) 0x41 0 8 1), True)"
    by (metis prod.collapse)
  have "kb_out (demoKb 0) = []" by (simp add: demoKb_def)
  with press_events_balanced [OF p] p show ?thesis by auto
qed



text \<open>
  every keyboard event keeps the record of pressed keys well formed: one entry per key code
  and no keysym held by two keys, so that a release is never ambiguous.
\<close>

theorem keyboard_event_keeps_record:
  assumes "pressed_wf (kb_pressedKeys kb)"
    and "\<And>kb. kb_pressedKeys (process kb) = kb_pressedKeys kb"
  shows "pressed_wf (kb_pressedKeys (lorieKeysymKeyboardEvent changeTypes process kb keysym down))"
proof (cases down)
  case False
  then show ?thesis
    using assms by (auto simp: lorieKeysymKeyboardEvent_def releaseKeysym_def clear_wf
        simp del: upt_rec_numeral split: option.split)
next
  case True
  obtain c ns kb1 where find: "findKeycode changeTypes (process kb) keysym
      (lorieGetKeyboardState (process kb)) = (c, ns, kb1)" by (rule prod_cases3)
  have wf: "pressed_wf (kb_pressedKeys kb1)" using findKeycode_frame [OF find] assms by simp
  then show ?thesis
    using assms(2) True unfolding lorieKeysymKeyboardEvent_def pressKeysym_def Let_def find
    by (auto dest: pressKey_record_wf split: prod.split)
qed

theorem keyboard_event_keeps_record_witness:
  "pressed_wf (kb_pressedKeys (lorieKeysymKeyboardEvent (\<lambda>x _. x) id (demoKb 0) 0x41 True))"
  by (rule keyboard_event_keeps_record) (simp_all add: demoKb_def pressed_wf_def)

text \<open>
  marking a key code as used keeps all added keysyms with their multiplicity, moves the first
  item of the code to the front and keeps the order of the others; without such an item the list
  is unchanged.
\<close>

theorem key_used_moves_to_front:
  "kb_addedKeysyms (vncOnKeyUsed kb code) =
     (case find (\<lambda>it. fst it = code) (kb_addedKeysyms kb) of
        None \<Rightarrow> kb_addedKeysyms kb
      | Some it \<Rightarrow> it # remove1 it (kb_addedKeysyms kb))
   \<and> mset (kb_addedKeysyms (vncOnKeyUsed kb code)) = mset (kb_addedKeysyms kb)"
proof -
  have eq: "kb_addedKeysyms (vncOnKeyUsed kb code) =
     (case find (\<lambda>it. fst it = code) (kb_addedKeysyms kb) of
        None \<Rightarrow> kb_addedKeysyms kb | Some it \<Rightarrow> it # remove1 it (kb_addedKeysyms kb))"
    by (auto simp: vncOnKeyUsed_def moveToFront_eq split: list.split option.split)
  then show ?thesis by (auto split: option.split dest: find_Some_D)
qed



text \<open>
  synchronising the lock keys is idempotent: when the two lock masks are disjoint and the server
  derives its state from the locked modifiers alone, repeating the same host state changes nothing
  and notifies nobody about modifiers.
\<close>

theorem sync_lock_keys_idempotent:
  assumes disj: "lorieGetLockKeyModMask kb XK_Caps_Lock AND lorieGetLockKeyModMask kb XK_Num_Lock = 0"
    and laws: "xkbStateLaws sv" and st: "sv_computeDerived sv st = st"
    and sync: "lorieSyncLockKeysState sv kb st bits = (st1, n1)"
  shows "lorieSyncLockKeysState sv kb st1 bits = (st1, lorieSetScrollLockIndicator sv (has_flag bits 4))"
proof -
  let ?c = "lorieGetLockKeyModMask kb XK_Caps_Lock" and ?n = "lorieGetLockKeyModMask kb XK_Num_Lock"
  obtain s a b where s: "lorieSetLockedMods sv st ?c (has_flag bits 1) = (s, a)"
    and t: "lorieSetLockedMods sv s ?n (has_flag bits 2) = (st1, b)"
    using sync by (auto simp: lorieSyncLockKeysState_def split: prod.splits)
  note 1 = setLocked_state [OF laws st s]
  note 2 = setLocked_state [OF laws conjunct1 [OF 1] t]
  have "lorieSetLockedMods sv st1 ?c (has_flag bits 1) = (st1, [])"
    by (rule setLocked_again [OF laws]) (use 1 2 lockTo_disjoint [OF disj] in simp_all)
  moreover have "lorieSetLockedMods sv st1 ?n (has_flag bits 2) = (st1, [])"
    by (rule setLocked_again [OF laws]) (use 1 2 lockTo_again in simp_all)
  ultimately show ?thesis by (simp add: lorieSyncLockKeysState_def)
qed

text \<open>A server whose derived state is the locked modifiers.\<close>

definition demoServer :: xkbServer where
  "demoServer = \<lparr>sv_computeDerived = (\<lambda>s. s\<lparr>xs_derived := xs_locked_mods s\<rparr>),
     sv_changedFlags = (\<lambda>s t. xs_locked_mods s XOR xs_locked_mods t),
     sv_indicatorsToUpdate = (\<lambda>c. c), sv_indicatorNames = None, sv_atom = (\<lambda>_. 0)\<rparr>"

lemma demoServer_laws: "xkbStateLaws demoServer"
  by (simp add: xkbStateLaws_def demoServer_def)

theorem sync_lock_keys_idempotent_witness:
  "lorieSyncLockKeysState demoServer (demoKb 0) \<lparr>xs_locked_mods = 0, xs_derived = 0\<rparr> 2
     = (\<lparr>xs_locked_mods = 0x10, xs_derived = 0x10\<rparr>,
        [StateNotify 0x10, UpdateIndicators 0x10, PushLockedStateToSlaves])
   \<and> lorieSyncLockKeysState demoServer (demoKb 0) \<lparr>xs_locked_mods = 0x10, xs_derived = 0x10\<rparr> 2
     = (\<lparr>xs_locked_mods = 0x10, xs_derived = 0x10\<rparr>, [])"
proof -
  have s: "lorieSyncLockKeysState demoServer (demoKb 0) \<lparr>xs_locked_mods = 0, xs_derived = 0\<rparr> 2
     = (\<lparr>xs_locked_mods = 0x10, xs_derived = 0x10\<rparr>,
        [StateNotify 0x10, UpdateIndicators 0x10, PushLockedStateToSlaves])" by code_simp
  have m: "lorieGetLockKeyModMask (demoKb 0) XK_Caps_Lock AND lorieGetLockKeyModMask (demoKb 0) XK_Num_Lock = 0"
    by code_simp
  have "lorieSetScrollLockIndicator demoServer (has_flag 2 4) = []"
    by (simp add: lorieSetScrollLockIndicator_def demoServer_def)
  moreover have "sv_computeDerived demoServer \<lparr>xs_locked_mods = 0, xs_derived = 0\<rparr>
      = \<lparr>xs_locked_mods = 0, xs_derived = 0\<rparr>" by (simp add: demoServer_def)
  ultimately show ?thesis using sync_lock_keys_idempotent [OF m demoServer_laws _ s] s by simp
qed

end
