(* ===== verification/Images.thy ===== *)
theory Images
  imports Lorie_Prelude
begin

text \<open>
  Window icons and the pointer image: \<open>window_icon.h\<close> (validation of \<open>_NET_WM_ICON\<close> data, choice
  of one image, fitting into a 64 by 64 square), \<open>cursor_image.h\<close> (validity of a pointer
  description, conversion of pixels) and \<open>cursor.c\<close> (the current pointer and when it is sent).
  Sizes and offsets are natural numbers; products that C computes in 32 bits carry \<open>mod 2 ^ 32\<close>.
\<close>

section \<open>Window icons\<close>

abbreviation (input) ICON_SIZE :: nat where "ICON_SIZE \<equiv> 64"
abbreviation (input) ICON_PIXELS :: nat where "ICON_PIXELS \<equiv> 4096"

record iconBest =
  ib_offset :: nat
  ib_width :: nat
  ib_height :: nat
  ib_side :: nat

definition iconPrefer :: "iconBest option \<Rightarrow> nat \<Rightarrow> bool" where
  "iconPrefer best side =
     (case best of None \<Rightarrow> True
      | Some b \<Rightarrow> (ib_side b < ICON_SIZE \<and> side > ib_side b) \<or> (side \<ge> ICON_SIZE \<and> side < ib_side b))"

text \<open>The validating scan: \<open>None\<close> is the early return on malformed data.\<close>

function (sequential) iconScan :: "u32 list \<Rightarrow> nat \<Rightarrow> iconBest option \<Rightarrow> iconBest option option" where
  "iconScan data offset best =
     (if offset \<ge> length data then Some best
      else if length data - offset < 2 then None
      else let width = unat (data ! offset); height = unat (data ! (offset + 1)); offset' = offset + 2
           in if width = 0 \<or> height = 0 \<or> width > (length data - offset') div height then None
              else let side = (if width > height then width else height);
                       best' = (if iconPrefer best side
                                then Some \<lparr>ib_offset = offset', ib_width = width,
                                           ib_height = height, ib_side = side\<rparr>
                                else best)
                   in iconScan data (offset' + width * height) best')"
  by pat_completeness auto
termination by (relation "measure (\<lambda>(data, offset, best). length data - offset)") auto

declare iconScan.simps [simp del]

definition iconFit :: "nat \<Rightarrow> nat \<Rightarrow> nat" where
  "iconFit side bestSide = (let s = side * ICON_SIZE div bestSide in if s = 0 then 1 else s)"

definition iconCells :: "nat \<Rightarrow> nat \<Rightarrow> (nat \<times> nat) list" where
  "iconCells width height = List.product [0..<height] [0..<width]"

definition iconTarget :: "nat \<Rightarrow> nat \<Rightarrow> nat \<times> nat \<Rightarrow> nat" where
  "iconTarget top0 left yx = (top0 + fst yx) * ICON_SIZE + left + snd yx"

definition iconSource :: "iconBest \<Rightarrow> nat \<Rightarrow> nat \<Rightarrow> nat \<times> nat \<Rightarrow> nat" where
  "iconSource b width height yx =
     (fst yx * ib_height b mod 2 ^ 32 div height) * ib_width b + snd yx * ib_width b mod 2 ^ 32 div width"

text \<open>The copying loops, as the sequence of writes they perform.\<close>

definition iconDraw :: "u32 list \<Rightarrow> iconBest \<Rightarrow> u32 list" where
  "iconDraw data b =
     (let width = iconFit (ib_width b) (ib_side b); height = iconFit (ib_height b) (ib_side b);
          left = (ICON_SIZE - width) div 2; top0 = (ICON_SIZE - height) div 2
      in fold (\<lambda>yx r. r[iconTarget top0 left yx := data ! (ib_offset b + iconSource b width height yx)])
           (iconCells width height) (replicate ICON_PIXELS 0))"

definition lorieWindowIcon :: "u32 list option \<Rightarrow> bool \<times> u32 list" where
  "lorieWindowIcon data =
     (case data of None \<Rightarrow> (False, replicate ICON_PIXELS 0)
      | Some d \<Rightarrow>
          if length d > 1024 * 1024 then (False, replicate ICON_PIXELS 0)
          else case iconScan d 0 None of
                 Some (Some b) \<Rightarrow> (True, iconDraw d b)
               | _ \<Rightarrow> (False, replicate ICON_PIXELS 0))"

section \<open>Pointer images\<close>

abbreviation (input) CURSOR_LIMIT :: nat where "CURSOR_LIMIT \<equiv> 512"
abbreviation (input) LORIE_CURSOR_DEFAULT :: nat where "LORIE_CURSOR_DEFAULT \<equiv> 0"
abbreviation (input) LORIE_CURSOR_HIDDEN :: nat where "LORIE_CURSOR_HIDDEN \<equiv> 1"
abbreviation (input) LORIE_CURSOR_IMAGE :: nat where "LORIE_CURSOR_IMAGE \<equiv> 2"

record LorieCursorInfo =
  ci_kind :: nat
  ci_width :: nat
  ci_height :: nat
  ci_hotspotX :: nat
  ci_hotspotY :: nat

definition lorieCursorValid :: "LorieCursorInfo \<Rightarrow> bool" where
  "lorieCursorValid info =
     (if ci_kind info = LORIE_CURSOR_DEFAULT \<or> ci_kind info = LORIE_CURSOR_HIDDEN
      then ci_width info = 0 \<and> ci_height info = 0 \<and> ci_hotspotX info = 0 \<and> ci_hotspotY info = 0
      else ci_kind info = LORIE_CURSOR_IMAGE \<and> ci_width info \<noteq> 0 \<and> ci_height info \<noteq> 0
           \<and> ci_width info \<le> CURSOR_LIMIT \<and> ci_height info \<le> CURSOR_LIMIT
           \<and> ci_hotspotX info < ci_width info \<and> ci_hotspotY info < ci_height info)"

definition lorieCursorPixelCount :: "LorieCursorInfo \<Rightarrow> nat" where
  "lorieCursorPixelCount info = (if lorieCursorValid info then ci_width info * ci_height info else 0)"

text \<open>One colour channel: the rounded quotient, clamped.\<close>

definition straightChannel :: "nat \<Rightarrow> nat \<Rightarrow> nat" where
  "straightChannel alpha c = (let color = (c * 255 + alpha div 2) div alpha in if color > 255 then 255 else color)"

definition channel :: "u32 \<Rightarrow> nat \<Rightarrow> nat" where
  "channel pixel shift = unat (drop_bit shift pixel AND 255)"

definition lorieCursorStraightArgb :: "u32 \<Rightarrow> u32" where
  "lorieCursorStraightArgb pixel =
     (let alpha = unat (drop_bit 24 pixel)
      in if alpha = 0 then 0 else if alpha = 255 then pixel
         else fold (\<lambda>shift result. result OR push_bit shift (of_nat (straightChannel alpha (channel pixel shift))))
                [0, 8, 16] (push_bit 24 (of_nat alpha)))"

definition lorieCursorMonoPixel :: "u8 list \<Rightarrow> u8 list \<Rightarrow> nat \<Rightarrow> u8 \<Rightarrow> u32 \<Rightarrow> u32 \<Rightarrow> u32" where
  "lorieCursorMonoPixel source msk offset b foreground background =
     (if has_flag (msk ! offset) b
      then 0xff000000 OR (if has_flag (source ! offset) b then foreground else background) else 0)"

text \<open>The server's cursor: \<open>cu_id\<close> stands for its address, compared with that of the root cursor.\<close>

record cursorBits =
  cb_width :: nat
  cb_height :: nat
  cb_xhot :: nat
  cb_yhot :: nat
  cb_emptyMask :: bool
  cb_argb :: "u32 list option"
  cb_source :: "u8 list"
  cb_mask :: "u8 list"

record cursorRec =
  cu_id :: nat
  cu_bits :: "cursorBits option"
  cu_foreRed :: u16
  cu_foreGreen :: u16
  cu_foreBlue :: u16
  cu_backRed :: u16
  cu_backGreen :: u16
  cu_backBlue :: u16

record cursorState =
  cs_info :: LorieCursorInfo
  cs_pixels :: "nat \<Rightarrow> u32"
  cs_output :: u32
  cs_window :: u32
  cs_pending :: bool

record cursorEvent =
  ce_output :: u32
  ce_window :: u32
  ce_info :: LorieCursorInfo
  ce_pixels :: "u32 list"

definition cursorKind :: "nat \<Rightarrow> LorieCursorInfo" where
  "cursorKind k = \<lparr>ci_kind = k, ci_width = 0, ci_height = 0, ci_hotspotX = 0, ci_hotspotY = 0\<rparr>"

definition packRgb :: "u16 \<Rightarrow> u16 \<Rightarrow> u16 \<Rightarrow> u32" where
  "packRgb r g b = push_bit 8 (ucast r AND 0xff00) OR (ucast g AND 0xff00) OR drop_bit 8 (ucast b)"

text \<open>
  The writes into the pixel array, in order.  The bit order and the row padding of bitmaps are
  configuration of the server (\<open>BITMAP_BIT_ORDER\<close>, \<open>BitmapBytePad\<close>) and arguments here.
\<close>

definition cursorWrites :: "bool \<Rightarrow> (nat \<Rightarrow> nat) \<Rightarrow> cursorRec \<Rightarrow> cursorBits \<Rightarrow> LorieCursorInfo \<Rightarrow> (nat \<times> u32) list" where
  "cursorWrites msbFirst bytePad cursor bits info =
     (case cb_argb bits of
        Some argb \<Rightarrow> map (\<lambda>i. (i, lorieCursorStraightArgb (argb ! i))) [0..<lorieCursorPixelCount info]
      | None \<Rightarrow>
          let foreground = packRgb (cu_foreRed cursor) (cu_foreGreen cursor) (cu_foreBlue cursor);
              background = packRgb (cu_backRed cursor) (cu_backGreen cursor) (cu_backBlue cursor);
              stride = bytePad (cb_width bits)
          in map (\<lambda>(y, x). (y * cb_width bits + x,
                    lorieCursorMonoPixel (cb_source bits) (cb_mask bits) (y * stride + x div 8)
                      (if msbFirst then drop_bit (x mod 8) 0x80 else push_bit (x mod 8) 1)
                      foreground background))
               (List.product [0..<cb_height bits] [0..<cb_width bits]))"

definition cursorImage ::
    "bool \<Rightarrow> (nat \<Rightarrow> nat) \<Rightarrow> nat \<Rightarrow> cursorRec option \<Rightarrow> LorieCursorInfo \<times> (nat \<times> u32) list" where
  "cursorImage msbFirst bytePad rootCursor cursor =
     (case cursor of None \<Rightarrow> (cursorKind LORIE_CURSOR_HIDDEN, [])
      | Some c \<Rightarrow>
          if cu_id c = rootCursor then (cursorKind LORIE_CURSOR_DEFAULT, [])
          else (case cu_bits c of None \<Rightarrow> (cursorKind LORIE_CURSOR_HIDDEN, [])
                | Some bits \<Rightarrow>
                    if cb_width bits \<noteq> 0 \<and> cb_height bits \<noteq> 0 \<and> \<not> cb_emptyMask bits
                    then let image = \<lparr>ci_kind = LORIE_CURSOR_IMAGE, ci_width = cb_width bits,
                                      ci_height = cb_height bits, ci_hotspotX = cb_xhot bits,
                                      ci_hotspotY = cb_yhot bits\<rparr>
                         in if \<not> lorieCursorValid image then (cursorKind LORIE_CURSOR_DEFAULT, [])
                            else (image, cursorWrites msbFirst bytePad c bits image)
                    else (cursorKind LORIE_CURSOR_HIDDEN, [])))"

definition lorieCursorSet ::
    "bool \<Rightarrow> (nat \<Rightarrow> nat) \<Rightarrow> nat \<Rightarrow> cursorRec option \<Rightarrow> cursorState \<Rightarrow> cursorState" where
  "lorieCursorSet msbFirst bytePad rootCursor cursor st =
     (let (info, writes) = cursorImage msbFirst bytePad rootCursor cursor
      in st\<lparr>cs_info := info, cs_pixels := fold (\<lambda>(i, p) f. f(i := p)) writes (cs_pixels st),
            cs_pending := True\<rparr>)"

definition lorieCursorSelect :: "u32 \<Rightarrow> u32 \<Rightarrow> cursorState \<Rightarrow> cursorState" where
  "lorieCursorSelect output window st =
     (if cs_output st = output \<and> cs_window st = window then st
      else st\<lparr>cs_output := output, cs_window := window, cs_pending := True\<rparr>)"

definition lorieCursorRelease :: "u32 \<Rightarrow> cursorState \<Rightarrow> cursorState" where
  "lorieCursorRelease output st = (if cs_output st = output then lorieCursorSelect 0 0 st else st)"

text \<open>The event handed to \<open>lorieSendCursor\<close> carries the pixels its description counts.\<close>

definition lorieCursorPublish :: "cursorState \<Rightarrow> cursorState \<times> cursorEvent option" where
  "lorieCursorPublish st =
     (if cs_output st = 0 \<or> \<not> cs_pending st then (st, None)
      else (st\<lparr>cs_pending := False\<rparr>,
            Some \<lparr>ce_output = cs_output st, ce_window = cs_window st, ce_info = cs_info st,
                  ce_pixels = map (cs_pixels st) [0..<lorieCursorPixelCount (cs_info st)]\<rparr>))"

section \<open>Icon lemmas\<close>

text \<open>The data format: blocks of width, height and that many pixels.\<close>

definition iconBlock :: "nat \<times> nat \<times> u32 list \<Rightarrow> u32 list" where
  "iconBlock b = (case b of (w, h, px) \<Rightarrow> of_nat w # of_nat h # px)"

definition iconBlockOk :: "nat \<times> nat \<times> u32 list \<Rightarrow> bool" where
  "iconBlockOk b = (case b of (w, h, px) \<Rightarrow> 0 < w \<and> 0 < h \<and> w < 2 ^ 32 \<and> h < 2 ^ 32 \<and> length px = w * h)"


fun iconPick :: "nat \<Rightarrow> iconBest option \<Rightarrow> (nat \<times> nat \<times> u32 list) list \<Rightarrow> iconBest option" where
  "iconPick off best [] = best"
| "iconPick off best ((w, h, px) # bs) =
     iconPick (off + 2 + w * h)
       (if iconPrefer best (max w h)
        then Some \<lparr>ib_offset = off + 2, ib_width = w, ib_height = h, ib_side = max w h\<rparr> else best) bs"

lemma length_iconBlock: "iconBlockOk (w, h, px) \<Longrightarrow> length (iconBlock (w, h, px)) = 2 + w * h"
  by (simp add: iconBlockOk_def iconBlock_def)

definition iconFits :: "u32 list \<Rightarrow> nat \<Rightarrow> bool" where
  "iconFits data off \<longleftrightarrow> off + 2 \<le> length data \<and> 0 < unat (data ! off) \<and> 0 < unat (data ! (off + 1))
     \<and> unat (data ! off) * unat (data ! (off + 1)) \<le> length data - (off + 2)"

lemma iconScan_step:
  "iconScan data off best =
     (if off \<ge> length data then Some best
      else if \<not> iconFits data off then None
      else let w = unat (data ! off); h = unat (data ! (off + 1))
           in iconScan data (off + 2 + w * h)
                (if iconPrefer best (max w h)
                 then Some \<lparr>ib_offset = off + 2, ib_width = w, ib_height = h, ib_side = max w h\<rparr> else best))"
proof -
  have m: "(if b < a then a else b) = max a b" for a b :: nat by auto
  show ?thesis
    by (subst iconScan.simps)
      (auto simp: Let_def iconFits_def m not_less less_eq_div_iff_mult_less_eq div_less_iff_less_mult)
qed

lemma iconScan_sound:
  assumes "iconScan data off best = Some r" "off \<le> length data"
  shows "\<exists>bs. (\<forall>b \<in> set bs. iconBlockOk b) \<and> drop off data = concat (map iconBlock bs)"
  using assms
proof (induction "length data - off" arbitrary: off best rule: less_induct)
  case less
  show ?case
  proof (cases "off = length data")
    case True
    then show ?thesis by (intro exI [of _ "[]"]) simp
  next
    case False
    let ?w = "unat (data ! off)" and ?h = "unat (data ! (off + 1))"
    have fits: "iconFits data off" and rest: "\<exists>best'. iconScan data (off + 2 + ?w * ?h) best' = Some r"
      using less.prems False by (auto simp: iconScan_step [of data off] Let_def split: if_splits)
    then obtain bs where bs: "\<forall>b \<in> set bs. iconBlockOk b" "drop (off + 2 + ?w * ?h) data = concat (map iconBlock bs)"
      using less.hyps [of "off + 2 + ?w * ?h"] by (fastforce simp: iconFits_def)
    let ?b = "(?w, ?h, take (?w * ?h) (drop (off + 2) data))"
    have "iconBlockOk ?b" using fits using unat_u32_less [of "data ! off"] unat_u32_less [of "data ! (off + 1)"]
      by (simp add: iconBlockOk_def iconFits_def)
    moreover have "drop off data = iconBlock ?b @ drop (off + 2 + ?w * ?h) data"
    proof -
      have "drop off data = data ! off # data ! (off + 1) # drop (off + 2) data"
        using fits by (simp add: iconFits_def Cons_nth_drop_Suc)
      moreover have "drop (off + 2) data = take n (drop (off + 2) data) @ drop (off + 2 + n) data" for n
        by (metis append_take_drop_id drop_drop add.commute)
      ultimately show ?thesis by (simp add: iconBlock_def)
    qed
    ultimately show ?thesis using bs by (intro exI [of _ "?b # bs"]) auto
  qed
qed

lemma iconScan_complete:
  assumes "\<forall>b \<in> set bs. iconBlockOk b" "drop off data = concat (map iconBlock bs)"
  shows "iconScan data off best = Some (iconPick off best bs)"
  using assms
proof (induction bs arbitrary: off best)
  case Nil
  then show ?case by (subst iconScan.simps) simp
next
  case (Cons b bs)
  obtain w h px where b: "b = (w, h, px)" by (cases b)
  with Cons.prems have ok: "0 < w" "0 < h" "w < 2 ^ 32" "h < 2 ^ 32" "length px = w * h"
    by (auto simp: iconBlockOk_def)
  have d: "drop off data = of_nat w # of_nat h # px @ concat (map iconBlock bs)"
    using Cons.prems(2) by (simp add: b iconBlock_def [of "(w, h, px)"])
  then have len: "length data - off = 2 + w * h + length (concat (map iconBlock bs))"
    by (metis ok(5) length_drop length_Cons length_append add_2_eq_Suc add_Suc add.assoc)
  then have off: "off < length data" by simp
  have n0: "data ! off = of_nat w" using d off by (metis nth_Cons_0 hd_drop_conv_nth list.sel(1))
  have n1: "data ! (off + 1) = of_nat h"
    using d off by (metis nth_drop nth_Cons_0 nth_Cons_Suc One_nat_def less_imp_le)
  have u: "unat (of_nat w :: u32) = w" "unat (of_nat h :: u32) = h"
    using ok by (simp_all add: unat_of_nat take_bit_nat_eq_self)
  have "iconFits data off"
    using len ok off by (auto simp: iconFits_def n0 n1 [simplified] u simp del: length_concat length_map)
  moreover have "drop (off + 2 + w * h) data = concat (map iconBlock bs)"
  proof -
    have "drop (off + 2 + w * h) data = drop (2 + w * h) (drop off data)" by (simp add: add.assoc add.commute)
    also have "\<dots> = concat (map iconBlock bs)" unfolding d using ok(5) by simp
    finally show ?thesis .
  qed
  ultimately show ?case
    using off len ok Cons.IH [of "off + 2 + w * h"] Cons.prems(1) b
    by (simp add: iconScan_step [of data off] Let_def n0 n1 [simplified] u)
qed


text \<open>What a scan result says about the data, and which image it chooses.\<close>

definition iconBestIn :: "u32 list \<Rightarrow> iconBest \<Rightarrow> bool" where
  "iconBestIn data b \<longleftrightarrow>
     0 < ib_width b \<and> 0 < ib_height b \<and> ib_side b = max (ib_width b) (ib_height b)
     \<and> ib_offset b + ib_width b * ib_height b \<le> length data"

lemma iconScan_in:
  assumes "iconScan data off best = Some (Some b)" "\<And>c. best = Some c \<Longrightarrow> iconBestIn data c"
  shows "iconBestIn data b"
  using assms
proof (induction "length data - off" arbitrary: off best rule: less_induct)
  case less
  show ?case
  proof (cases "off \<ge> length data")
    case True
    with less.prems show ?thesis by (simp add: iconScan_step [of data off])
  next
    case False
    let ?w = "unat (data ! off)" and ?h = "unat (data ! (off + 1))"
    let ?best = "if iconPrefer best (max ?w ?h)
        then Some \<lparr>ib_offset = off + 2, ib_width = ?w, ib_height = ?h, ib_side = max ?w ?h\<rparr> else best"
    have fits: "iconFits data off" and rest: "iconScan data (off + 2 + ?w * ?h) ?best = Some (Some b)"
      using less.prems(1) False by (simp_all add: iconScan_step [of data off] Let_def split: if_splits)
    have "iconBestIn data c" if "?best = Some c" for c
      using that less.prems(2) fits by (auto simp: iconBestIn_def iconFits_def split: if_splits)
    then show ?thesis by (intro less.hyps [OF _ rest]) (use fits in \<open>auto simp: iconFits_def\<close>)
  qed
qed

text \<open>The order of preference among sides: at least 64, then the nearest to 64.\<close>

definition iconBetter :: "nat \<Rightarrow> nat \<Rightarrow> bool" where
  "iconBetter s t \<longleftrightarrow> (if 64 \<le> t then 64 \<le> s \<and> s \<le> t else t \<le> s)"

lemma iconBetter_trans: "iconBetter a b \<Longrightarrow> iconBetter b c \<Longrightarrow> iconBetter a c"
  by (auto simp: iconBetter_def split: if_splits)

lemma iconPick_best:
  assumes "iconPick off best bs = Some b"
  shows "(\<forall>(w, h, px) \<in> set bs. iconBetter (ib_side b) (max w h))
         \<and> (\<forall>c. best = Some c \<longrightarrow> iconBetter (ib_side b) (ib_side c))"
  using assms
proof (induction off best bs rule: iconPick.induct)
  case (1 off best)
  then show ?case by (simp add: iconBetter_def)
next
  case (2 off best w h px bs)
  let ?best = "if iconPrefer best (max w h)
      then Some \<lparr>ib_offset = off + 2, ib_width = w, ib_height = h, ib_side = max w h\<rparr> else best"
  have pick: "iconPick (off + 2 + w * h) ?best bs = Some b" using "2.prems" by simp
  have "?best \<noteq> None" by (simp add: iconPrefer_def split: option.split)
  then obtain d where d: "?best = Some d" by (rule not_None_eq [THEN iffD1, THEN exE])
  from "2.IH" [OF pick] d have bd: "iconBetter (ib_side b) (ib_side d)" by simp
  have "iconBetter (ib_side d) (max w h)" and "\<And>c. best = Some c \<Longrightarrow> iconBetter (ib_side d) (ib_side c)"
    using d by (auto simp: iconPrefer_def iconBetter_def split: if_splits)
  with "2.IH" [OF pick] bd show ?case by (auto intro: iconBetter_trans)
qed

lemma iconPick_Some: "bs \<noteq> [] \<or> best \<noteq> None \<Longrightarrow> iconPick off best bs \<noteq> None"
  by (induction off best bs rule: iconPick.induct) (auto simp: iconPrefer_def split: option.splits)

text \<open>Writing to distinct places of a list.\<close>

lemma fold_update_length [simp]: "length (fold (\<lambda>x r. r[f x := g x]) xs r) = length r"
  by (induction xs arbitrary: r) auto

lemma fold_update_nth:
  assumes "inj_on f (set xs)" "\<forall>x \<in> set xs. f x < length r"
  shows "x \<in> set xs \<Longrightarrow> fold (\<lambda>x r. r[f x := g x]) xs r ! f x = g x"
    and "i \<notin> f ` set xs \<Longrightarrow> fold (\<lambda>x r. r[f x := g x]) xs r ! i = r ! i"
proof -
  show "fold (\<lambda>x r. r[f x := g x]) xs r ! i = r ! i" if "i \<notin> f ` set xs" for i
    using that by (induction xs arbitrary: r) auto
  show "fold (\<lambda>x r. r[f x := g x]) xs r ! f x = g x" if "x \<in> set xs" for x
    using assms that
  proof (induction xs arbitrary: r)
    case (Cons y ys)
    show ?case
    proof (cases "x \<in> set ys")
      case True
      with Cons show ?thesis by (simp add: inj_on_def)
    next
      case False
      with Cons.prems have "x = y" "f x \<notin> f ` set ys" by (auto simp: inj_on_def)
      moreover have "fold (\<lambda>x r. r[f x := g x]) ys s ! i = s ! i" if "i \<notin> f ` set ys" for i s
        using that by (induction ys arbitrary: s) auto
      ultimately show ?thesis using Cons.prems by simp
    qed
  qed simp
qed

lemma iconFit_bounds: "0 < w \<Longrightarrow> w \<le> s \<Longrightarrow> 1 \<le> iconFit w s \<and> iconFit w s \<le> 64"
proof -
  assume w: "0 < w" "w \<le> s"
  then have "w * 64 div s \<le> 64" by (metis div_le_mono div_mult_self1_is_m mult_le_mono1 order.strict_trans2)
  then show ?thesis by (simp add: iconFit_def Let_def)
qed

lemma scaled_less: "(y::nat) < n \<Longrightarrow> 0 < m \<Longrightarrow> y * m div n < m"
  by (metis div_less_iff_less_mult mult.commute mult_less_cancel1 less_nat_zero_code neq0_conv)

lemma row_major_less: "(r::nat) < h \<Longrightarrow> c < w \<Longrightarrow> r * w + c < h * w"
proof -
  assume "r < h" "c < w"
  then have "r * w + c < Suc r * w" by simp
  also have "\<dots> \<le> h * w" using \<open>r < h\<close> by (intro mult_le_mono1) simp
  finally show ?thesis .
qed


lemma row_col_eq: "(a::nat) * 64 + b = r * 64 + c \<Longrightarrow> b < 64 \<Longrightarrow> c < 64 \<Longrightarrow> a = r \<and> b = c"
proof -
  assume eq: "a * 64 + b = r * 64 + c" and less: "b < 64" "c < 64"
  from less have "(a * 64 + b) div 64 = a" "(r * 64 + c) div 64 = r" by simp_all
  with eq have "a = r" by simp
  with eq show ?thesis by simp
qed

lemma iconTarget_eq:
  assumes "left + width \<le> 64" "x < width" "c < 64"
  shows "iconTarget top0 left (y, x) = r * 64 + c \<longleftrightarrow> top0 + y = r \<and> left + x = c"
  using assms row_col_eq [of "top0 + y" "left + x" r c] by (auto simp: iconTarget_def add.assoc)

lemma set_iconCells: "set (iconCells width height) = {..<height} \<times> {..<width}"
  by (auto simp: iconCells_def)

lemma iconTarget_inj:
  assumes "left + width \<le> 64"
  shows "inj_on (iconTarget top0 left) (set (iconCells width height))"
proof (rule inj_onI, clarsimp simp: set_iconCells)
  fix y x y' x' assume "x < width" "x' < width" "iconTarget top0 left (y, x) = iconTarget top0 left (y', x')"
  then show "y = y' \<and> x = x'"
    using iconTarget_eq [OF assms, of x "left + x'" top0 y "top0 + y'"] assms by (simp add: iconTarget_def)
qed

lemma iconTarget_bound:
  assumes "left + width \<le> 64" "top0 + height \<le> 64" "yx \<in> set (iconCells width height)"
  shows "iconTarget top0 left yx < 4096"
  using assms row_major_less [of "top0 + fst yx" 64 "left + snd yx" 64]
  by (auto simp: set_iconCells iconTarget_def)

lemma iconSource_bound:
  assumes "iconBestIn d b" "length d \<le> 1024 * 1024" "y < height" "x < width" "height \<le> 64" "width \<le> 64"
  shows "iconSource b width height (y, x) = (y * ib_height b div height) * ib_width b + x * ib_width b div width"
    and "ib_offset b + iconSource b width height (y, x) < length d"
proof -
  have pos: "0 < ib_width b" "0 < ib_height b" and "ib_width b * ib_height b \<le> length d"
    using assms(1) by (auto simp: iconBestIn_def)
  then have "ib_width b \<le> length d" "ib_height b \<le> length d"
    by (metis le_trans mult_le_mono2 mult.right_neutral Suc_leI One_nat_def,
        metis le_trans mult_le_mono1 mult_1 Suc_leI One_nat_def)
  then have "y * ib_height b \<le> 64 * (1024 * 1024)" "x * ib_width b \<le> 64 * (1024 * 1024)"
    using assms(2-6) by (intro mult_le_mono; linarith)+
  then have nowrap: "y * ib_height b mod 2 ^ 32 = y * ib_height b" "x * ib_width b mod 2 ^ 32 = x * ib_width b"
    by simp_all
  show eq: "iconSource b width height (y, x) = (y * ib_height b div height) * ib_width b + x * ib_width b div width"
    by (simp only: iconSource_def nowrap fst_conv snd_conv)
  show "ib_offset b + iconSource b width height (y, x) < length d"
    using row_major_less [OF scaled_less [OF assms(3) pos(2)] scaled_less [OF assms(4) pos(1)]] assms(1)
    by (simp add: eq iconBestIn_def mult.commute)
qed

section \<open>Pointer lemmas\<close>

lemma cursorWrites_bounded:
  assumes "lorieCursorValid info" "ci_kind info = 2" "ci_width info = cb_width bits" "ci_height info = cb_height bits"
    and "(i, p) \<in> set (cursorWrites m pad c bits info)"
  shows "i < lorieCursorPixelCount info"
proof (cases "cb_argb bits")
  case None
  then obtain y x where "i = y * cb_width bits + x" "y < cb_height bits" "x < cb_width bits"
    using assms(5) by (auto simp: cursorWrites_def Let_def)
  then show ?thesis
    using row_major_less [of y "cb_height bits" x "cb_width bits"] assms(1, 3, 4)
    by (simp add: lorieCursorPixelCount_def mult.commute)
next
  case (Some argb)
  with assms(5) show ?thesis by (auto simp: cursorWrites_def)
qed

lemma cursorImage_cases:
  obtains "cursorImage m pad root cursor = (cursorKind 0, []) \<or> cursorImage m pad root cursor = (cursorKind 1, [])"
  | c bits info where "cursorImage m pad root cursor = (info, cursorWrites m pad c bits info)"
      "lorieCursorValid info" "ci_kind info = 2" "ci_width info = cb_width bits" "ci_height info = cb_height bits"
proof -
  let ?plain = "cursorImage m pad root cursor = (cursorKind 0, []) \<or> cursorImage m pad root cursor = (cursorKind 1, [])"
  show thesis
  proof (cases ?plain)
    case False
    then obtain c bits where c: "cursor = Some c" "cu_id c \<noteq> root" "cu_bits c = Some bits"
      "cb_width bits \<noteq> 0" "cb_height bits \<noteq> 0" "\<not> cb_emptyMask bits"
      by (auto simp: cursorImage_def split: option.splits if_splits)
    let ?i = "\<lparr>ci_kind = 2, ci_width = cb_width bits, ci_height = cb_height bits,
               ci_hotspotX = cb_xhot bits, ci_hotspotY = cb_yhot bits\<rparr>"
    have "lorieCursorValid ?i" using False c by (auto simp: cursorImage_def Let_def split: if_splits)
    with c show thesis by (intro that(2) [of ?i c bits]) (simp_all add: cursorImage_def Let_def)
  qed (rule that(1))
qed

lemma fold_writes_other: "i \<notin> fst ` set ws \<Longrightarrow> fold (\<lambda>(i, p) f. f(i := p)) ws f i = f i"
  by (induction ws arbitrary: f) (auto split: prod.splits)

lemma pixelCount_limit: "lorieCursorPixelCount info \<le> 512 * 512"
  using mult_le_mono [of "ci_width info" 512 "ci_height info" 512]
  by (auto simp: lorieCursorPixelCount_def lorieCursorValid_def)

lemma byte_bit: "(n::nat) < 256 \<Longrightarrow> bit n k \<Longrightarrow> k < 8"
proof -
  assume "n < 256" "bit n k"
  then have "take_bit 8 n = n" by (simp add: take_bit_nat_eq_self)
  with \<open>bit n k\<close> show "k < 8" by (metis bit_take_bit_iff)
qed

lemma channel_eqI:
  assumes "n < 256" "\<And>k. k < 8 \<Longrightarrow> bit w (shift + k) \<longleftrightarrow> bit n k"
  shows "channel w shift = n"
proof -
  have "drop_bit shift w AND 255 = take_bit 8 (drop_bit shift w)"
    by (simp add: take_bit_eq_mask mask_eq_decr_exp)
  moreover have "take_bit 8 (drop_bit shift w) = of_nat n"
    by (rule bit_word_eqI) (use assms byte_bit [OF assms(1)] in \<open>auto simp: bit_simps\<close>)
  ultimately have "drop_bit shift w AND 255 = of_nat n" by simp
  then show ?thesis using assms(1) by (simp add: channel_def unat_of_nat take_bit_nat_eq_self)
qed

lemma argb_channels:
  assumes "a < 256" "r < 256" "g < 256" "b < 256"
    and w: "w = push_bit 24 (of_nat a :: u32) OR push_bit 0 (of_nat b) OR push_bit 8 (of_nat g) OR push_bit 16 (of_nat r)"
  shows "channel w 24 = a" "channel w 0 = b" "channel w 8 = g" "channel w 16 = r"
  by (rule channel_eqI; use assms in \<open>auto simp: bit_simps dest: byte_bit\<close>)+

lemma straightChannel_less: "straightChannel a c < 256"
  by (simp add: straightChannel_def Let_def)

lemma channel_24: "channel pixel 24 = unat (drop_bit 24 pixel)"
proof -
  have "drop_bit 24 pixel AND 255 = take_bit 8 (drop_bit 24 pixel)"
    by (simp add: take_bit_eq_mask mask_eq_decr_exp)
  also have "\<dots> = drop_bit 24 pixel" by (rule bit_word_eqI) (auto simp: bit_simps dest: bit_imp_le_length)
  finally show ?thesis by (simp add: channel_def)
qed

lemma straight_fold:
  assumes "0 < channel pixel 24" "channel pixel 24 < 255"
  shows "lorieCursorStraightArgb pixel =
     push_bit 24 (of_nat (channel pixel 24)) OR push_bit 0 (of_nat (straightChannel (channel pixel 24) (channel pixel 0)))
     OR push_bit 8 (of_nat (straightChannel (channel pixel 24) (channel pixel 8)))
     OR push_bit 16 (of_nat (straightChannel (channel pixel 24) (channel pixel 16)))"
  using assms by (simp add: lorieCursorStraightArgb_def channel_24 Let_def or.assoc)

lemma straightChannel_error:
  assumes "0 < a" "c \<le> a"
  shows "2 * \<bar>int (straightChannel a c) * int a - 255 * int c\<bar> \<le> int a"
proof -
  let ?q = "(c * 255 + a div 2) div a"
  have "c * 255 + a div 2 < 256 * a" using assms by linarith
  then have "?q < 256" using assms(1) by (simp add: div_less_iff_less_mult)
  then have s: "straightChannel a c = ?q" by (simp add: straightChannel_def Let_def)
  have "?q * a \<le> c * 255 + a div 2" by (simp add: div_times_less_eq_dividend)
  moreover have "c * 255 + a div 2 < ?q * a + a"
    using assms(1) by (metis add.commute dividend_less_div_times)
  ultimately have "2 * int (?q * a) \<le> 2 * 255 * int c + int a" "2 * 255 * int c \<le> 2 * int (?q * a) + int a"
    by linarith+
  moreover have "2 * x \<le> 2 * 255 * y + z \<Longrightarrow> 2 * 255 * y \<le> 2 * x + z \<Longrightarrow> 2 * \<bar>x - 255 * y\<bar> \<le> z" for x y z :: int
    by (simp add: abs_if)
  ultimately show ?thesis unfolding s of_nat_mult by blast
qed

section \<open>Properties\<close>

text \<open>
  icon data is accepted exactly when it is a non-empty sequence of well-formed images of at
  most one million words: each a width, a height, both positive, and their product of pixels.
\<close>

theorem icon_accepts_iff:
  "fst (lorieWindowIcon (Some d)) \<longleftrightarrow>
     length d \<le> 1024 * 1024 \<and> d \<noteq> []
     \<and> (\<exists>bs. (\<forall>b \<in> set bs. iconBlockOk b) \<and> d = concat (map iconBlock bs))"
proof -
  have scan: "(\<exists>b. iconScan d 0 None = Some (Some b)) \<longleftrightarrow>
      d \<noteq> [] \<and> (\<exists>bs. (\<forall>b \<in> set bs. iconBlockOk b) \<and> d = concat (map iconBlock bs))"
  proof safe
    fix b assume b: "iconScan d 0 None = Some (Some b)"
    show "\<exists>bs. (\<forall>b \<in> set bs. iconBlockOk b) \<and> d = concat (map iconBlock bs)"
      using iconScan_sound [OF b] by simp
  next
    fix b assume "iconScan [] 0 None = Some (Some b)"
    then show False by (simp add: iconScan_step)
  next
    fix bs assume bs: "concat (map iconBlock bs) \<noteq> []" "\<forall>b \<in> set bs. iconBlockOk b"
    then have "iconPick 0 None bs \<noteq> None" by (intro iconPick_Some) auto
    then show "\<exists>b. iconScan (concat (map iconBlock bs)) 0 None = Some (Some b)"
      using iconScan_complete [of bs 0 "concat (map iconBlock bs)" None] bs(2) by auto
  qed
  show ?thesis
    unfolding scan [symmetric] lorieWindowIcon_def by (auto split: option.splits)
qed

text \<open>
  of the images in well-formed data the one chosen is at least as good as every other: the
  smallest of those whose longer side is at least 64 pixels if there is one, else the largest.
\<close>

theorem icon_choice:
  assumes "\<forall>b \<in> set bs. iconBlockOk b" "bs \<noteq> []"
  shows "\<exists>b. iconScan (concat (map iconBlock bs)) 0 None = Some (Some b)
          \<and> (\<forall>(w, h, px) \<in> set bs. iconBetter (ib_side b) (max w h))"
proof -
  have "iconPick 0 None bs \<noteq> None" using assms(2) by (intro iconPick_Some) simp
  then obtain b where b: "iconPick 0 None bs = Some b" by blast
  from iconScan_complete [of bs 0 "concat (map iconBlock bs)" None] assms(1) b
  have "iconScan (concat (map iconBlock bs)) 0 None = Some (Some b)" by simp
  with iconPick_best [OF b] show ?thesis by blast
qed

theorem icon_choice_witness:
  "\<exists>b. iconScan (concat (map iconBlock [(1, 1, [7]), (2, 1, [8, 9])])) 0 None = Some (Some b)
    \<and> (\<forall>(w, h, px) \<in> set [(1, 1, [7 :: u32]), (2, 1, [8, 9])]. iconBetter (ib_side b) (max w h))"
  by (rule icon_choice) (simp_all add: iconBlockOk_def)

text \<open>
  the icon drawn from the chosen image has 64 by 64 pixels; inside the centred rectangle each
  pixel is the nearest sample of the image, outside it is transparent; every sample lies inside
  the image and no 32-bit product wraps.
\<close>

theorem icon_pixels:
  assumes d: "length d \<le> 1024 * 1024" and scan: "iconScan d 0 None = Some (Some b)"
    and rc: "r < 64" "c < 64"
  shows "let width = iconFit (ib_width b) (ib_side b); height = iconFit (ib_height b) (ib_side b);
             left = (64 - width) div 2; top0 = (64 - height) div 2;
             src = ((r - top0) * ib_height b div height) * ib_width b + (c - left) * ib_width b div width
         in length (snd (lorieWindowIcon (Some d))) = 64 * 64
            \<and> (if top0 \<le> r \<and> r < top0 + height \<and> left \<le> c \<and> c < left + width
               then snd (lorieWindowIcon (Some d)) ! (r * 64 + c) = d ! (ib_offset b + src)
                    \<and> ib_offset b + src < length d
               else snd (lorieWindowIcon (Some d)) ! (r * 64 + c) = 0)"
proof -
  define width where "width = iconFit (ib_width b) (ib_side b)"
  define height where "height = iconFit (ib_height b) (ib_side b)"
  define left where "left = (64 - width) div 2"
  define top0 where "top0 = (64 - height) div 2"
  have b: "iconBestIn d b" using iconScan_in [OF scan] by simp
  have wh: "1 \<le> width" "width \<le> 64" "1 \<le> height" "height \<le> 64"
    using b iconFit_bounds unfolding width_def height_def iconBestIn_def by (metis max.cobounded1 max.cobounded2)+
  have fit: "left + width \<le> 64" "top0 + height \<le> 64" using wh by (simp_all add: left_def top0_def)
  let ?f = "iconTarget top0 left" and ?g = "\<lambda>yx. d ! (ib_offset b + iconSource b width height yx)"
  let ?cells = "iconCells width height"
  have bnd: "\<forall>x \<in> set ?cells. ?f x < length (replicate 4096 (0::u32))"
    using iconTarget_bound [OF fit] by simp
  have snd: "snd (lorieWindowIcon (Some d)) = fold (\<lambda>x r. r[?f x := ?g x]) ?cells (replicate 4096 0)"
    using d scan by (simp add: lorieWindowIcon_def iconDraw_def Let_def width_def height_def left_def top0_def)
  note upd = fold_update_nth [OF iconTarget_inj [OF fit(1), of top0 height] bnd, of _ ?g]
  let ?in = "top0 \<le> r \<and> r < top0 + height \<and> left \<le> c \<and> c < left + width"
  have inside: "snd (lorieWindowIcon (Some d)) ! (r * 64 + c) = ?g (r - top0, c - left)" if ?in
  proof -
    have "(r - top0, c - left) \<in> set ?cells" using that by (auto simp: set_iconCells)
    moreover have "?f (r - top0, c - left) = r * 64 + c" using that by (simp add: iconTarget_def)
    ultimately show ?thesis using upd(1) [of "(r - top0, c - left)"] unfolding snd by simp
  qed
  have outside: "snd (lorieWindowIcon (Some d)) ! (r * 64 + c) = 0" if "\<not> ?in"
  proof -
    have "r * 64 + c \<noteq> ?f (y, x)" if "y < height" "x < width" for y x
      using iconTarget_eq [OF fit(1) that(2) rc(2), of top0 y r] that \<open>\<not> ?in\<close> by auto
    then have "r * 64 + c \<notin> ?f ` set ?cells" by (auto simp: set_iconCells)
    then show ?thesis using upd(2) rc row_major_less [OF rc] unfolding snd by simp
  qed
  have "length (snd (lorieWindowIcon (Some d))) = 64 * 64" unfolding snd by simp
  moreover note iconSource_bound [OF b d, of "r - top0" height "c - left" width]
  ultimately show ?thesis
    unfolding Let_def width_def [symmetric] height_def [symmetric] left_def [symmetric] top0_def [symmetric]
    using inside outside wh by auto
qed


theorem icon_pixels_witness:
  "let r = 10; c = (20 :: nat) in snd (lorieWindowIcon (Some [1, 1, 7])) ! (r * 64 + c) = 7"
proof -
  have scan: "iconScan [1, 1, 7] 0 None =
      Some (Some \<lparr>ib_offset = 2, ib_width = 1, ib_height = 1, ib_side = 1\<rparr>)"
    by (simp add: iconScan_step iconFits_def iconPrefer_def)
  show ?thesis using icon_pixels [OF _ scan, of 10 20] by (simp add: iconFit_def Let_def)
qed

text \<open>
  setting a pointer always leaves a valid description (so that the receiver accepts it), marks
  it for sending, and writes only pixels that the description counts, never past the static array.
\<close>

theorem cursor_set_valid:
  "lorieCursorValid (cs_info (lorieCursorSet m pad root cursor st))
   \<and> cs_pending (lorieCursorSet m pad root cursor st)
   \<and> lorieCursorPixelCount (cs_info (lorieCursorSet m pad root cursor st)) \<le> 512 * 512
   \<and> (\<forall>i \<ge> lorieCursorPixelCount (cs_info (lorieCursorSet m pad root cursor st)).
        cs_pixels (lorieCursorSet m pad root cursor st) i = cs_pixels st i)"
proof (rule cursorImage_cases [of m pad root cursor])
  assume "cursorImage m pad root cursor = (cursorKind 0, []) \<or> cursorImage m pad root cursor = (cursorKind 1, [])"
  moreover have "lorieCursorValid (cursorKind 0)" "lorieCursorValid (cursorKind 1)"
    by (simp_all add: lorieCursorValid_def cursorKind_def)
  ultimately show ?thesis using pixelCount_limit by (auto simp: lorieCursorSet_def)
next
  fix c bits info
  assume img: "cursorImage m pad root cursor = (info, cursorWrites m pad c bits info)"
    and ok: "lorieCursorValid info" "ci_kind info = 2" "ci_width info = cb_width bits" "ci_height info = cb_height bits"
  have "fold (\<lambda>(i, p) f. f(i := p)) (cursorWrites m pad c bits info) (cs_pixels st) i = cs_pixels st i"
    if "lorieCursorPixelCount info \<le> i" for i
    by (rule fold_writes_other) (use cursorWrites_bounded [OF ok] that in fastforce)
  with img ok pixelCount_limit show ?thesis by (simp add: lorieCursorSet_def)
qed

text \<open>A pointer of one pixel, set over an array of zeros.\<close>

definition demoCursor :: cursorRec where
  "demoCursor = \<lparr>cu_id = 1, cu_bits = Some \<lparr>cb_width = 1, cb_height = 1, cb_xhot = 0, cb_yhot = 0, cb_emptyMask = False,
      cb_argb = Some [0xff102030], cb_source = [], cb_mask = []\<rparr>, cu_foreRed = 0, cu_foreGreen = 0, cu_foreBlue = 0,
      cu_backRed = 0, cu_backGreen = 0, cu_backBlue = 0\<rparr>"

definition demoPointer :: cursorState where
  "demoPointer = \<lparr>cs_info = cursorKind 0, cs_pixels = (\<lambda>_. 0), cs_output = 1, cs_window = 0, cs_pending = False\<rparr>"

theorem cursor_set_valid_witness:
  "lorieCursorPixelCount (cs_info (lorieCursorSet False (\<lambda>n. n) 7 (Some demoCursor) demoPointer)) = 1
   \<and> cs_pixels (lorieCursorSet False (\<lambda>n. n) 7 (Some demoCursor) demoPointer) 5 = 0"
proof -
  have n: "lorieCursorPixelCount (cs_info (lorieCursorSet False (\<lambda>n. n) 7 (Some demoCursor) demoPointer)) = 1"
    by (simp add: lorieCursorSet_def cursorImage_def demoCursor_def lorieCursorPixelCount_def lorieCursorValid_def Let_def)
  then show ?thesis
    using cursor_set_valid [of False "\<lambda>n. n" 7 "Some demoCursor" demoPointer] by (simp add: demoPointer_def)
qed

text \<open>
  the pointer is sent only for a selected output and only after a change; the event carries
  the current target and image, and sending again without a change sends nothing.
\<close>

theorem cursor_publish_once:
  "case snd (lorieCursorPublish st) of
     None \<Rightarrow> cs_output st = 0 \<or> \<not> cs_pending st
   | Some e \<Rightarrow> cs_output st \<noteq> 0 \<and> cs_pending st \<and> ce_output e = cs_output st \<and> ce_window e = cs_window st
       \<and> ce_info e = cs_info st \<and> length (ce_pixels e) = lorieCursorPixelCount (cs_info st)
       \<and> snd (lorieCursorPublish (fst (lorieCursorPublish st))) = None
       \<and> snd (lorieCursorPublish (lorieCursorSelect (cs_output st) (cs_window st) (fst (lorieCursorPublish st)))) = None"
  by (simp add: lorieCursorPublish_def lorieCursorSelect_def)

text \<open>
  the conversion to straight alpha keeps the alpha value; for a translucent pixel each colour
  channel becomes the rounded quotient of the premultiplied value by alpha, clamped to 255, so
  that multiplying back differs from the input by at most half the alpha.
\<close>

theorem straight_argb_channels:
  assumes "0 < channel pixel 24" "channel pixel 24 < 255" "shift = 0 \<or> shift = 8 \<or> shift = 16"
    and "channel pixel shift \<le> channel pixel 24"
  shows "channel (lorieCursorStraightArgb pixel) 24 = channel pixel 24
     \<and> channel (lorieCursorStraightArgb pixel) shift = straightChannel (channel pixel 24) (channel pixel shift)
     \<and> 2 * \<bar>int (channel (lorieCursorStraightArgb pixel) shift) * int (channel pixel 24)
            - 255 * int (channel pixel shift)\<bar> \<le> int (channel pixel 24)"
proof -
  have a: "channel pixel 24 < 256" using assms(2) by simp
  note ch = argb_channels [OF a straightChannel_less straightChannel_less straightChannel_less straight_fold [OF assms(1, 2)]]
  have "channel (lorieCursorStraightArgb pixel) shift = straightChannel (channel pixel 24) (channel pixel shift)"
    using assms(3) ch(2-4) by auto
  with ch(1) straightChannel_error [OF assms(1, 4)] show ?thesis by simp
qed

theorem straight_argb_channels_witness:
  "channel (lorieCursorStraightArgb 0x80402010) 24 = 128 \<and> channel (lorieCursorStraightArgb 0x80402010) 16 = 128"
proof -
  have "channel 0x80402010 24 = 128" "channel 0x80402010 16 = 64" by code_simp+
  then show ?thesis using straight_argb_channels [of "0x80402010" 16] by (simp add: straightChannel_def)
qed

end
