(* ===== verification/Density.thy ===== *)
theory Density
  imports Lorie_Prelude
begin

text \<open>
  Screen density: \<open>density_settings.h\<close>, which serialises an XSETTINGS property into a bounded
  buffer, and \<open>density.c\<close>, which owns the settings window, publishes the density and the colour
  scheme and reacts to selection changes.  Properties, windows and selections are state of the X
  server; what the code asks of it is an argument (\<open>densServer\<close>, \<open>densEnv\<close>) and what it does to
  it is a list of effects.
\<close>

section \<open>The XSETTINGS property\<close>

abbreviation (input) SETTINGS_SIZE :: nat where "SETTINGS_SIZE \<equiv> 160"

definition asciiBytes :: "string \<Rightarrow> u8 list" where
  "asciiBytes s = map of_char s"

definition pad4 :: "nat \<Rightarrow> nat" where
  "pad4 n = (n + 3) div 4 * 4"

definition settingNames :: "string list" where
  "settingNames = [''Xft/DPI'', ''Gdk/WindowScalingFactor'', ''Gdk/UnscaledDPI'']"

definition densityScale :: "int \<Rightarrow> int" where
  "densityScale dpi = (let scale = (dpi + 48) div 96 in if scale < 1 then 1 else scale)"

definition settingValues :: "int \<Rightarrow> u32 list" where
  "settingValues dpi =
     (let scale = densityScale dpi
      in [of_int dpi * 1024, of_int scale, of_int ((dpi * 1024 + scale div 2) div scale)])"

text \<open>One pass of the loop over the integer settings.\<close>

definition putInteger :: "u32 \<Rightarrow> string \<times> u32 \<Rightarrow> u8 list \<times> nat \<Rightarrow> u8 list \<times> nat" where
  "putInteger serial nv bo =
     (case nv of (name, v) \<Rightarrow> case bo of (bytes, offset) \<Rightarrow>
        let bytes = poke bytes (offset + 2) [of_nat (length name)];
            bytes = poke bytes (offset + 4) (asciiBytes name);
            offset = offset + 4 + pad4 (length name);
            bytes = poke bytes offset (card32 serial);
            bytes = poke bytes (offset + 4) (card32 v)
        in (bytes, offset + 8))"

definition putTheme :: "u32 \<Rightarrow> int \<Rightarrow> u8 list \<times> nat \<Rightarrow> u8 list \<times> nat" where
  "putTheme serial scheme bo =
     (case bo of (bytes, offset) \<Rightarrow>
        let name = ''Net/ThemeName''; theme = (if scheme = 1 then ''Adwaita-dark'' else ''Adwaita'');
            bytes = poke bytes offset [1];
            bytes = poke bytes (offset + 2) [of_nat (length name)];
            bytes = poke bytes (offset + 4) (asciiBytes name);
            offset = offset + 4 + pad4 (length name);
            bytes = poke bytes offset (card32 serial);
            bytes = poke bytes (offset + 4) (card32 (of_nat (length theme)));
            bytes = poke bytes (offset + 8) (asciiBytes theme)
        in (bytes, offset + 8 + pad4 (length theme)))"

text \<open>The buffer afterwards and the number of bytes used, 0 for refused arguments.\<close>

definition lorieDensitySettings :: "u8 list \<Rightarrow> int \<Rightarrow> u32 \<Rightarrow> int \<Rightarrow> u8 list \<times> nat" where
  "lorieDensitySettings buf dpi serial scheme =
     (if dpi < 24 \<or> dpi > 1536 \<or> scheme < 0 \<or> scheme > 2 then (buf, 0)
      else let bytes = replicate SETTINGS_SIZE 0;
               bytes = poke bytes 4 (card32 serial);
               bytes = poke bytes 8 (card32 (if scheme \<noteq> 0 then 4 else 3));
               bo = fold (putInteger serial) (zip settingNames (settingValues dpi)) (bytes, 12)
           in if scheme \<noteq> 0 then putTheme serial scheme bo else bo)"

section \<open>Publishing\<close>

datatype lookupResult = LookupBadMatch | LookupSuccess "string \<times> nat \<times> u8 list" | LookupError

datatype densEffect =
    ChangeResourceManager "u8 list"
  | ChangeSettings u32 "u8 list"
  | FreeWindow u32
  | SetPhysicalSize int int
  | ScreenSizeNotify
  | NotifySelectionOwner u32
  | SendManager u32 u32
  | RemoveCallback

record densState =
  ds_settingsWindow :: u32
  ds_settingsSelection :: u32
  ds_serial :: u32
  ds_colorScheme :: int
  ds_resources :: string
  ds_dpi :: int
  ds_hasRoot :: bool
  ds_width :: int
  ds_height :: int
  ds_mmWidth :: int
  ds_mmHeight :: int

text \<open>
  What the server answers: the \<open>RESOURCE_MANAGER\<close> property of the root window (its type by name),
  which windows exist, whether there is an output, and the truncated double
  \<open>size * 25.4 / dpi\<close>.
\<close>

record densServer =
  dx_resource :: lookupResult
  dx_windowExists :: "u32 \<Rightarrow> bool"
  dx_hasOutput :: bool
  dx_millimetres :: "int \<Rightarrow> int \<Rightarrow> int"

definition resourceLine :: "int \<Rightarrow> string" where
  "resourceLine dpi = take 39 (''Xft.dpi: '' @ decimal dpi @ [CHR 0x0A])"

text \<open>Whether the database is absent or still the one written before.\<close>

definition ownsResources :: "densServer \<Rightarrow> string \<Rightarrow> bool" where
  "ownsResources sv resources =
     (case dx_resource sv of LookupBadMatch \<Rightarrow> True
      | LookupSuccess (type, format, data) \<Rightarrow>
          type = ''STRING'' \<and> format = 8 \<and> length data = length resources \<and> data = asciiBytes resources
      | LookupError \<Rightarrow> False)"

definition publish :: "densServer \<Rightarrow> densState \<Rightarrow> densState \<times> densEffect list" where
  "publish sv st =
     (let (st1, e1) = (if ownsResources sv (ds_resources st)
                       then let r = resourceLine (ds_dpi st)
                            in (st\<lparr>ds_resources := r\<rparr>, [ChangeResourceManager (asciiBytes r)])
                       else (st, []))
      in if ds_settingsWindow st1 \<noteq> 0 \<and> dx_windowExists sv (ds_settingsWindow st1)
         then let st2 = st1\<lparr>ds_serial := ds_serial st1 + 1\<rparr>;
                  (bytes, n) = lorieDensitySettings (replicate SETTINGS_SIZE 0) (ds_dpi st2)
                                 (ds_serial st2) (ds_colorScheme st2)
              in (st2, e1 @ [ChangeSettings (ds_settingsWindow st2) (take n bytes)])
         else (st1, e1))"

datatype selectionKind = SelectionSetOwner | SelectionWindowDestroy | SelectionClientClose

definition selectionChanged :: "u32 \<Rightarrow> u32 \<Rightarrow> selectionKind \<Rightarrow> densState \<Rightarrow> densState \<times> densEffect list" where
  "selectionChanged selection window kind st =
     (if ds_settingsWindow st = 0 \<or> selection \<noteq> ds_settingsSelection st then (st, [])
      else if kind = SelectionSetOwner \<and> window \<noteq> ds_settingsWindow st
      then (st\<lparr>ds_settingsWindow := 0\<rparr>, [FreeWindow (ds_settingsWindow st)])
      else if kind = SelectionWindowDestroy then (st\<lparr>ds_settingsWindow := 0\<rparr>, [])
      else (st, []))"

text \<open>
  What initialisation depends on: the environment variables, the state of the settings selection,
  whether a selection object can be made, the window that is created, and the callback.
\<close>

datatype selectionLookup = SelectionBadMatch | SelectionFound u32 | SelectionError

record densEnv =
  de_scheme :: "string option"
  de_enabled :: "string option"
  de_atom :: "string \<Rightarrow> u32"
  de_selection :: selectionLookup
  de_selectionAllocated :: bool
  de_accessGranted :: bool
  de_ownerWindow :: "u32 option"
  de_callbackAdded :: bool

definition schemeOf :: "string option \<Rightarrow> int" where
  "schemeOf scheme = (if scheme = Some ''1'' then 1 else if scheme = Some ''2'' then 2 else 0)"

definition selectionUsable :: "densEnv \<Rightarrow> bool" where
  "selectionUsable env =
     (case de_selection env of
        SelectionBadMatch \<Rightarrow> de_selectionAllocated env \<and> de_accessGranted env
      | SelectionFound w \<Rightarrow> w = 0
      | SelectionError \<Rightarrow> False)"

text \<open>\<open>None\<close> is the fatal error when the ownership callback cannot be installed.\<close>

definition lorieDensityInit :: "densEnv \<Rightarrow> densServer \<Rightarrow> densState \<Rightarrow> (densState \<times> densEffect list) option" where
  "lorieDensityInit env sv st0 =
     (let st = st0\<lparr>ds_settingsWindow := 0, ds_serial := 0, ds_colorScheme := schemeOf (de_scheme env),
                   ds_resources := []\<rparr>;
          claimed =
            (if de_enabled env = Some ''1''
             then let st1 = st\<lparr>ds_settingsSelection := de_atom env ''_XSETTINGS_S0''\<rparr>
                  in if selectionUsable env
                     then (case de_ownerWindow env of None \<Rightarrow> Some (st1, [])
                           | Some w \<Rightarrow>
                               if \<not> de_callbackAdded env then None
                               else let st2 = st1\<lparr>ds_settingsWindow := w\<rparr>;
                                        (st3, e) = selectionChanged (ds_settingsSelection st2) w SelectionSetOwner st2
                                    in Some (st3, NotifySelectionOwner w # e))
                     else Some (st1, [])
             else Some (st, []))
      in case claimed of None \<Rightarrow> None
         | Some (st1, e1) \<Rightarrow>
             let (st2, e2) = publish sv st1;
                 e3 = (if dx_hasOutput sv then [SetPhysicalSize (ds_mmWidth st2) (ds_mmHeight st2)] else []);
                 e4 = (if ds_settingsWindow st2 \<noteq> 0
                       then [SendManager (ds_settingsSelection st2) (ds_settingsWindow st2)] else [])
             in Some (st2, e1 @ e2 @ e3 @ e4))"

definition lorieDensityReset :: "densState \<Rightarrow> densState \<times> densEffect list" where
  "lorieDensityReset st = (st\<lparr>ds_settingsWindow := 0\<rparr>, [RemoveCallback])"

definition lorieSetDpi :: "densServer \<Rightarrow> int \<Rightarrow> densState \<Rightarrow> densState \<times> densEffect list" where
  "lorieSetDpi sv dpi st =
     (if \<not> ds_hasRoot st \<or> dpi < 24 \<or> dpi > 1536 \<or> dpi = ds_dpi st then (st, [])
      else let st1 = st\<lparr>ds_dpi := dpi,
                        ds_mmWidth := max 1 (dx_millimetres sv (ds_width st) dpi),
                        ds_mmHeight := max 1 (dx_millimetres sv (ds_height st) dpi)\<rparr>;
               e1 = (if dx_hasOutput sv then [SetPhysicalSize (ds_mmWidth st1) (ds_mmHeight st1)] else []);
               (st2, e2) = publish sv st1
           in (st2, e1 @ [ScreenSizeNotify] @ e2))"

definition lorieSetColorScheme :: "densServer \<Rightarrow> int \<Rightarrow> densState \<Rightarrow> densState \<times> densEffect list" where
  "lorieSetColorScheme sv v st =
     (if \<not> ds_hasRoot st \<or> v < 0 \<or> v > 2 \<or> ds_colorScheme st = v then (st, [])
      else publish sv (st\<lparr>ds_colorScheme := v\<rparr>))"

section \<open>The XSETTINGS format\<close>

text \<open>A reader of the format, little endian: the reference for the serialiser.\<close>

datatype xsetting = XInteger string u32 u32 | XString string u32 string

definition asciiString :: "u8 list \<Rightarrow> string" where
  "asciiString bs = map (\<lambda>b. char_of (unat b)) bs"

fun readSetting :: "u8 list \<Rightarrow> (xsetting \<times> u8 list) option" where
  "readSetting (type # _ # l0 # l1 # bs) =
     (let n = unat l0 + 256 * unat l1; name = asciiString (take n bs); body = drop (pad4 n) bs
      in if length bs < pad4 n + 8 then None
         else if type = 0 then Some (XInteger name (le32 body) (le32 (drop 4 body)), drop 8 body)
         else if type = 1
         then let m = unat (le32 (drop 4 body)); rest = drop 8 body
              in if length rest < pad4 m then None
                 else Some (XString name (le32 body) (asciiString (take m rest)), drop (pad4 m) rest)
         else None)"
| "readSetting _ = None"

fun readSettings :: "nat \<Rightarrow> u8 list \<Rightarrow> (xsetting list \<times> u8 list) option" where
  "readSettings 0 bs = Some ([], bs)"
| "readSettings (Suc n) bs =
     (case readSetting bs of None \<Rightarrow> None
      | Some (s, bs) \<Rightarrow> (case readSettings n bs of None \<Rightarrow> None | Some (ss, bs) \<Rightarrow> Some (s # ss, bs)))"

definition readXsettings :: "u8 list \<Rightarrow> (u32 \<times> xsetting list \<times> u8 list) option" where
  "readXsettings bs =
     (if length bs < 12 \<or> bs ! 0 \<noteq> 0 then None
      else case readSettings (unat (le32 (drop 8 bs))) (drop 12 bs) of None \<Rightarrow> None
           | Some (ss, rest) \<Rightarrow> Some (le32 (drop 4 bs), ss, rest))"


lemma char_byte [simp]: "char_of (unat (of_char c :: u8)) = c"
proof -
  have "unat (of_char c :: u8) = of_char c"
    unfolding of_nat_of_char [symmetric, where 'a = u8] by (simp add: unat_of_nat take_bit_eq_mod)
  then show ?thesis by simp
qed

lemma asciiString_asciiBytes [simp]: "asciiString (asciiBytes s) = s"
  by (induction s) (simp_all add: asciiString_def asciiBytes_def)

lemma length_asciiBytes [simp]: "length (asciiBytes s) = length s"
  by (simp add: asciiBytes_def)

text \<open>The bytes of one setting.\<close>

definition settingHead :: "u8 \<Rightarrow> string \<Rightarrow> u32 \<Rightarrow> u8 list" where
  "settingHead type name serial =
     [type, 0, of_nat (length name), 0] @ asciiBytes name @ replicate (pad4 (length name) - length name) 0 @ card32 serial"

definition integerBlock :: "u32 \<Rightarrow> string \<times> u32 \<Rightarrow> u8 list" where
  "integerBlock serial nv = settingHead 0 (fst nv) serial @ card32 (snd nv)"

definition stringBlock :: "u32 \<Rightarrow> string \<Rightarrow> string \<Rightarrow> u8 list" where
  "stringBlock serial name text =
     settingHead 1 name serial @ card32 (of_nat (length text)) @ asciiBytes text
     @ replicate (pad4 (length text) - length text) 0"

lemma pad4_ge: "n \<le> pad4 n"
  by (simp add: pad4_def)

lemma length_settingHead [simp]: "length (settingHead type name serial) = 8 + pad4 (length name)"
  using pad4_ge [of "length name"] by (simp add: settingHead_def)

lemma head_pokes:
  assumes "8 + pad4 (length name) \<le> n"
  shows "poke (poke (poke ((a @ [type]) @ replicate (n - 1) 0) (length a + 2) [of_nat (length name)])
           (length a + 4) (asciiBytes name)) (length a + 4 + pad4 (length name)) (card32 serial)
         = (a @ settingHead type name serial) @ replicate (n - (8 + pad4 (length name))) 0"
proof -
  let ?l = "length name" and ?p = "pad4 (length name) - length name"
  have p: "length name \<le> pad4 (length name)" by (rule pad4_ge)
  have 1: "poke ((a @ [type]) @ replicate (n - 1) 0) (length a + 2) [of_nat ?l] =
      (a @ [type, 0, of_nat ?l]) @ replicate (n - 3) 0"
    using assms by (subst poke_zeros [of _ _ 1]) simp_all
  have 2: "poke ((a @ [type, 0, of_nat ?l]) @ replicate (n - 3) 0) (length a + 4) (asciiBytes name) =
      (a @ [type, 0, of_nat ?l, 0] @ asciiBytes name) @ replicate (n - (4 + ?l)) 0"
    using assms p by (subst poke_zeros [of _ _ 1]) simp_all
  show ?thesis
    using assms p unfolding 1 2 by (subst poke_zeros [of _ _ ?p]) (simp_all add: settingHead_def)
qed

lemma putInteger_block:
  assumes "12 + pad4 (length name) \<le> n"
  shows "putInteger serial (name, v) (a @ replicate n 0, length a) =
     ((a @ integerBlock serial (name, v)) @ replicate (n - length (integerBlock serial (name, v))) 0,
      length (a @ integerBlock serial (name, v)))"
proof -
  have z: "a @ replicate n 0 = (a @ [0]) @ replicate (n - 1) (0 :: u8)"
    using assms by (cases n) simp_all
  have h: "8 + pad4 (length name) \<le> n" using assms by simp
  show ?thesis
    unfolding putInteger_def prod.case Let_def z head_pokes [OF h]
    using assms by (subst poke_zeros [of _ _ 0]) (simp_all add: integerBlock_def)
qed

lemma string_pokes:
  assumes "12 + pad4 (length name) + pad4 (length text) \<le> n"
  shows "poke (poke (poke (poke (poke (poke (a @ replicate n 0) (length a) [1])
           (length a + 2) [of_nat (length name)]) (length a + 4) (asciiBytes name))
           (length a + 4 + pad4 (length name)) (card32 serial))
           (length a + 4 + pad4 (length name) + 4) (card32 (of_nat (length text))))
           (length a + 4 + pad4 (length name) + 8) (asciiBytes text)
         = (a @ stringBlock serial name text) @ replicate (n - length (stringBlock serial name text)) 0"
proof -
  have p: "length text \<le> pad4 (length text)" by (rule pad4_ge)
  have z: "poke (a @ replicate n 0) (length a) [1] = (a @ [1]) @ replicate (n - 1) (0 :: u8)"
    using assms by (subst poke_zeros [of _ a 0]) simp_all
  have h: "8 + pad4 (length name) \<le> n" using assms by simp
  have c: "poke ((a @ settingHead 1 name serial) @ replicate (n - (8 + pad4 (length name))) 0)
      (length a + 4 + pad4 (length name) + 4) (card32 (of_nat (length text))) =
      (a @ settingHead 1 name serial @ card32 (of_nat (length text))) @ replicate (n - (12 + pad4 (length name))) 0"
    using assms by (subst poke_zeros [of _ _ 0]) simp_all
  have t: "replicate (n - (12 + pad4 (length name) + length text)) (0 :: u8) =
      replicate (pad4 (length text) - length text) 0 @ replicate (n - (12 + pad4 (length name) + pad4 (length text))) 0"
    using assms p by (simp flip: replicate_add)
  show ?thesis
    unfolding z head_pokes [OF h] c
    using assms p t by (subst poke_zeros [of _ _ 0]) (simp_all add: stringBlock_def)
qed

lemma putTheme_block:
  assumes "theme = (if scheme = 1 then ''Adwaita-dark'' else ''Adwaita'')" "40 \<le> n"
  shows "putTheme serial scheme (a @ replicate n 0, length a) =
     ((a @ stringBlock serial ''Net/ThemeName'' theme)
        @ replicate (n - length (stringBlock serial ''Net/ThemeName'' theme)) 0,
      length (a @ stringBlock serial ''Net/ThemeName'' theme))"
proof -
  define name where "name = ''Net/ThemeName''"
  have len: "length name = 13" "length theme \<le> 12" by (simp_all add: name_def assms(1))
  have "(length theme + 3) div 4 \<le> 3" using len(2) by simp
  then have fit: "12 + pad4 (length name) + pad4 (length theme) \<le> n"
    using len(1) assms(2) by (simp add: pad4_def)
  have "length (stringBlock serial name theme) = 12 + pad4 (length name) + pad4 (length theme)"
    using pad4_ge [of "length theme"] by (simp add: stringBlock_def)
  then show ?thesis
    unfolding putTheme_def prod.case Let_def assms(1) [symmetric] name_def [symmetric] string_pokes [OF fit]
    by simp
qed

text \<open>Reading back one block.\<close>

lemma readSetting_integer:
  assumes "length name < 256"
  shows "readSetting (integerBlock serial (name, v) @ rest) = Some (XInteger name serial v, rest)"
  using assms pad4_ge [of "length name"]
  by (simp add: integerBlock_def settingHead_def Let_def unat_of_nat take_bit_nat_eq_self)

lemma readSetting_string:
  assumes "length name < 256" "length text < 2 ^ 32"
  shows "readSetting (stringBlock serial name text @ rest) = Some (XString name serial text, rest)"
  using assms pad4_ge [of "length name"] pad4_ge [of "length text"]
  by (simp add: stringBlock_def settingHead_def Let_def unat_of_nat take_bit_nat_eq_self)


lemma readSettings_blocks:
  assumes "\<forall>nv \<in> set nvs. length (fst nv) < 256"
  shows "readSettings (length nvs + n) (concat (map (integerBlock serial) nvs) @ rest) =
     (case readSettings n rest of None \<Rightarrow> None
      | Some (ss, left) \<Rightarrow> Some (map (\<lambda>nv. XInteger (fst nv) serial (snd nv)) nvs @ ss, left))"
  using assms
proof (induction nvs)
  case Nil
  then show ?case by (simp split: option.split)
next
  case (Cons nv nvs)
  obtain name v where "nv = (name, v)" by (cases nv)
  with Cons show ?case by (simp add: readSetting_integer split: option.split)
qed

definition settingsHeader :: "u32 \<Rightarrow> u32 \<Rightarrow> u8 list" where
  "settingsHeader serial n = replicate 4 0 @ card32 serial @ card32 n"

definition integerBlocks :: "u32 \<Rightarrow> int \<Rightarrow> u8 list" where
  "integerBlocks serial dpi = concat (map (integerBlock serial) (zip settingNames (settingValues dpi)))"

lemma length_integerBlocks: "length (integerBlocks serial dpi) = 84"
  by (simp add: integerBlocks_def settingNames_def settingValues_def integerBlock_def Let_def pad4_def)

lemma header_pokes:
  "poke (poke (replicate 160 0) 4 (card32 serial)) 8 (card32 n) = settingsHeader serial n @ replicate 148 0"
proof -
  have 1: "poke (replicate 160 0) 4 (card32 serial) = (replicate 4 0 @ card32 serial) @ replicate 152 (0 :: u8)"
    using poke_zeros [of 4 "[]" 4 "card32 serial" 160 0] by simp
  show ?thesis
    unfolding 1 by (subst poke_zeros [of _ _ 0]) (simp_all add: settingsHeader_def)
qed

lemma integer_loop:
  assumes "length a = 12"
  shows "fold (putInteger serial) (zip settingNames (settingValues dpi)) (a @ replicate 148 0, 12) =
     ((a @ integerBlocks serial dpi) @ replicate 64 0, 96)"
proof -
  obtain v1 v2 v3 where v: "settingValues dpi = [v1, v2, v3]" by (simp add: settingValues_def Let_def)
  let ?n1 = "''Xft/DPI''" and ?n2 = "''Gdk/WindowScalingFactor''" and ?n3 = "''Gdk/UnscaledDPI''"
  have 1: "putInteger serial (?n1, v1) (a @ replicate 148 0, 12) = ((a @ integerBlock serial (?n1, v1)) @ replicate 128 0, 32)"
    using putInteger_block [of ?n1 148 serial v1 a] assms by (simp add: integerBlock_def pad4_def)
  have 2: "putInteger serial (?n2, v2) ((a @ integerBlock serial (?n1, v1)) @ replicate 128 0, 32) =
      ((a @ integerBlock serial (?n1, v1) @ integerBlock serial (?n2, v2)) @ replicate 92 0, 68)"
    using putInteger_block [of ?n2 128 serial v2 "a @ integerBlock serial (?n1, v1)"] assms
    by (simp add: integerBlock_def pad4_def)
  have 3: "putInteger serial (?n3, v3) ((a @ integerBlock serial (?n1, v1) @ integerBlock serial (?n2, v2)) @ replicate 92 0, 68) =
      ((a @ integerBlock serial (?n1, v1) @ integerBlock serial (?n2, v2) @ integerBlock serial (?n3, v3)) @ replicate 64 0, 96)"
    using putInteger_block [of ?n3 92 serial v3 "a @ integerBlock serial (?n1, v1) @ integerBlock serial (?n2, v2)"] assms
    by (simp add: integerBlock_def pad4_def)
  have "fold (putInteger serial) (zip settingNames (settingValues dpi)) (a @ replicate 148 0, 12) =
      ((a @ integerBlock serial (?n1, v1) @ integerBlock serial (?n2, v2) @ integerBlock serial (?n3, v3)) @ replicate 64 0, 96)"
    by (simp only: v settingNames_def zip_Cons_Cons zip_Nil fold_simps 1 2 3)
  then show ?thesis by (simp add: integerBlocks_def v settingNames_def)
qed


definition themeBlock :: "u32 \<Rightarrow> int \<Rightarrow> u8 list" where
  "themeBlock serial scheme =
     (if scheme = 0 then []
      else stringBlock serial ''Net/ThemeName'' (if scheme = 1 then ''Adwaita-dark'' else ''Adwaita''))"

lemma themeBlock_length: "length (themeBlock serial scheme) \<le> 40"
  by (simp add: themeBlock_def stringBlock_def pad4_def)

lemma lorieDensitySettings_bytes:
  assumes "24 \<le> dpi" "dpi \<le> 1536" "0 \<le> scheme" "scheme \<le> 2"
  shows "lorieDensitySettings buf dpi serial scheme =
     (let bs = settingsHeader serial (if scheme \<noteq> 0 then 4 else 3) @ integerBlocks serial dpi @ themeBlock serial scheme
      in (bs @ replicate (160 - length bs) 0, length bs))"
proof -
  let ?h = "settingsHeader serial (if scheme \<noteq> 0 then 4 else 3)"
  have h: "length ?h = 12" by (simp add: settingsHeader_def)
  have loop: "fold (putInteger serial) (zip settingNames (settingValues dpi)) (?h @ replicate 148 0, 12) =
      ((?h @ integerBlocks serial dpi) @ replicate 64 0, 96)" by (rule integer_loop [OF h])
  show ?thesis
  proof (cases "scheme = 0")
    case True
    with assms loop h show ?thesis
      by (simp add: lorieDensitySettings_def header_pokes Let_def themeBlock_def length_integerBlocks)
  next
    case False
    with assms loop h length_integerBlocks
    have "lorieDensitySettings buf dpi serial scheme =
        putTheme serial scheme ((?h @ integerBlocks serial dpi) @ replicate 64 0, length (?h @ integerBlocks serial dpi))"
      by (simp add: lorieDensitySettings_def header_pokes Let_def)
    also have "\<dots> = ((((?h @ integerBlocks serial dpi) @ themeBlock serial scheme)
          @ replicate (64 - length (themeBlock serial scheme)) 0),
        length ((?h @ integerBlocks serial dpi) @ themeBlock serial scheme))"
      using putTheme_block [OF refl, of 64 serial scheme "?h @ integerBlocks serial dpi"] False
      by (simp add: themeBlock_def)
    finally show ?thesis using h by (simp add: Let_def length_integerBlocks)
  qed
qed

text \<open>The settings the property must carry.\<close>

definition densitySettings :: "int \<Rightarrow> u32 \<Rightarrow> int \<Rightarrow> xsetting list" where
  "densitySettings dpi serial scheme =
     [XInteger ''Xft/DPI'' serial (of_int (1024 * dpi)),
      XInteger ''Gdk/WindowScalingFactor'' serial (of_int (densityScale dpi)),
      XInteger ''Gdk/UnscaledDPI'' serial (of_int ((dpi * 1024 + densityScale dpi div 2) div densityScale dpi))]
     @ (if scheme = 0 then []
        else [XString ''Net/ThemeName'' serial (if scheme = 1 then ''Adwaita-dark'' else ''Adwaita'')])"

lemma read_header:
  "readXsettings (settingsHeader serial n @ body) =
     (case readSettings (unat n) body of None \<Rightarrow> None | Some (ss, rest) \<Rightarrow> Some (serial, ss, rest))"
proof -
  have "drop 4 (settingsHeader serial n @ body) = card32 serial @ card32 n @ body"
    "drop 8 (settingsHeader serial n @ body) = card32 n @ body"
    "drop 12 (settingsHeader serial n @ body) = body"
    "length (settingsHeader serial n @ body) = 12 + length body" "(settingsHeader serial n @ body) ! 0 = 0"
    by (simp_all add: settingsHeader_def nth_append)
  then show ?thesis by (simp add: readXsettings_def split: option.split)
qed

lemma read_body:
  "readSettings (unat (if scheme \<noteq> 0 then 4 else 3 :: u32)) (integerBlocks serial dpi @ themeBlock serial scheme) =
     Some (densitySettings dpi serial scheme, [])"
proof -
  let ?nvs = "zip settingNames (settingValues dpi)" and ?k = "if scheme \<noteq> 0 then 1 else 0 :: nat"
  have len: "length ?nvs = 3" by (simp add: settingNames_def settingValues_def Let_def)
  have short: "\<forall>nv \<in> set ?nvs. length (fst nv) < 256"
    by (simp add: settingNames_def settingValues_def Let_def)
  have theme: "readSettings ?k (themeBlock serial scheme) = Some (drop 3 (densitySettings dpi serial scheme), [])"
    using readSetting_string [where rest = "[]"] by (simp add: themeBlock_def densitySettings_def)
  have n: "unat (if scheme \<noteq> 0 then 4 else 3 :: u32) = length ?nvs + ?k" using len by simp
  show ?thesis
    unfolding n integerBlocks_def readSettings_blocks [OF short] theme
    by (simp add: densitySettings_def settingNames_def settingValues_def Let_def mult.commute)
qed

lemma density_settings_read:
  assumes "24 \<le> dpi" "dpi \<le> 1536" "0 \<le> scheme" "scheme \<le> 2"
    and "lorieDensitySettings buf dpi serial scheme = (bytes, n)"
  shows "n \<le> 160 \<and> length bytes = 160
         \<and> readXsettings (take n bytes) = Some (serial, densitySettings dpi serial scheme, [])"
proof -
  let ?bs = "settingsHeader serial (if scheme \<noteq> 0 then 4 else 3) @ integerBlocks serial dpi @ themeBlock serial scheme"
  have h: "length (settingsHeader serial k) = 12" for k by (simp add: settingsHeader_def)
  have "n = length ?bs" "bytes = ?bs @ replicate (160 - length ?bs) 0"
    using assms(5) unfolding lorieDensitySettings_bytes [OF assms(1-4)] Let_def by auto
  moreover have "length ?bs \<le> 160"
    using themeBlock_length [of serial scheme] by (simp only: length_append h length_integerBlocks)
  moreover have "readXsettings ?bs = Some (serial, densitySettings dpi serial scheme, [])"
    by (simp only: read_header read_body option.case prod.case)
  ultimately show ?thesis by simp
qed

text \<open>The range that the setters maintain.\<close>

definition dens_ok :: "densState \<Rightarrow> bool" where
  "dens_ok st \<longleftrightarrow> 24 \<le> ds_dpi st \<and> ds_dpi st \<le> 1536 \<and> 0 \<le> ds_colorScheme st \<and> ds_colorScheme st \<le> 2"

lemma publish_frame [simp, frame_simps]:
  "ds_dpi (fst (publish sv st)) = ds_dpi st"
  "ds_colorScheme (fst (publish sv st)) = ds_colorScheme st"
  "ds_settingsWindow (fst (publish sv st)) = ds_settingsWindow st"
  "ds_settingsSelection (fst (publish sv st)) = ds_settingsSelection st"
  by (simp_all add: publish_def Let_def split: prod.split)

text \<open>A settings write of one operation: to the owned window, next serial, readable.\<close>

definition settingsWrite :: "densState \<Rightarrow> densState \<Rightarrow> u32 \<Rightarrow> u8 list \<Rightarrow> bool" where
  "settingsWrite st st' w b \<longleftrightarrow>
     w = ds_settingsWindow st \<and> w \<noteq> 0 \<and> ds_serial st' = ds_serial st + 1
     \<and> readXsettings b = Some (ds_serial st', densitySettings (ds_dpi st') (ds_serial st') (ds_colorScheme st'), [])"

lemma publish_settings:
  assumes "dens_ok st" "ChangeSettings w b \<in> set (snd (publish sv st))"
  shows "settingsWrite st (fst (publish sv st)) w b"
proof -
  obtain bytes n where d: "lorieDensitySettings (replicate 160 0) (ds_dpi st) (ds_serial st + 1) (ds_colorScheme st) = (bytes, n)"
    by (cases "lorieDensitySettings (replicate 160 0) (ds_dpi st) (ds_serial st + 1) (ds_colorScheme st)")
  have win: "ds_settingsWindow st \<noteq> 0 \<and> dx_windowExists sv (ds_settingsWindow st)"
    using assms(2) by (auto simp: publish_def Let_def split: if_splits prod.splits)
  have "w = ds_settingsWindow st \<and> b = take n bytes \<and> ds_serial (fst (publish sv st)) = ds_serial st + 1"
    using assms(2) win d by (auto simp: publish_def Let_def split: if_splits)
  moreover have "readXsettings (take n bytes) =
      Some (ds_serial st + 1, densitySettings (ds_dpi st) (ds_serial st + 1) (ds_colorScheme st), [])"
    using density_settings_read [OF _ _ _ _ d] assms(1) by (simp add: dens_ok_def)
  ultimately show ?thesis using win by (simp add: settingsWrite_def)
qed

lemma publish_unowned:
  "ds_settingsWindow st = 0 \<Longrightarrow> ChangeSettings w b \<notin> set (snd (publish sv st))"
  by (auto simp: publish_def Let_def)

lemma setters_unowned:
  assumes "ds_settingsWindow st = 0"
  shows "ChangeSettings w b \<notin> set (snd (lorieSetDpi sv dpi st))"
    and "ChangeSettings w b \<notin> set (snd (lorieSetColorScheme sv scheme st))"
  using assms by (simp_all add: lorieSetDpi_def lorieSetColorScheme_def Let_def case_prod_unfold publish_unowned)

section \<open>Properties\<close>

text \<open>
  C19: for every density and colour scheme in range the serialised property fits the 160-byte
  buffer, and reading its bytes by the XSETTINGS format gives back the serial and exactly the
  intended settings, with nothing left over.
\<close>

theorem density_settings_roundtrip:
  assumes "24 \<le> dpi" "dpi \<le> 1536" "0 \<le> scheme" "scheme \<le> 2"
    and "lorieDensitySettings buf dpi serial scheme = (bytes, n)"
  shows "n \<le> 160 \<and> length bytes = 160
         \<and> readXsettings (take n bytes) = Some (serial, densitySettings dpi serial scheme, [])"
  by (rule density_settings_read [OF assms])

theorem density_settings_roundtrip_witness:
  "snd (lorieDensitySettings [] 96 7 1) \<le> 160
   \<and> readXsettings (take (snd (lorieDensitySettings [] 96 7 1)) (fst (lorieDensitySettings [] 96 7 1)))
     = Some (7, densitySettings 96 7 1, [])"
proof -
  obtain bytes n where "lorieDensitySettings [] 96 7 1 = (bytes, n)" by (cases "lorieDensitySettings [] 96 7 1")
  with density_settings_roundtrip [OF _ _ _ _ this] show ?thesis by simp
qed

text \<open>
  publishing never overwrites a resource database that somebody else wrote: the property is
  replaced only when it is absent or still holds the bytes written before; what is written then
  is remembered, so that the next publication recognises it as its own.
\<close>

theorem publish_respects_foreign_resources:
  "(if ownsResources sv (ds_resources st)
    then filter (\<lambda>e. \<exists>b. e = ChangeResourceManager b) (snd (publish sv st))
           = [ChangeResourceManager (asciiBytes (resourceLine (ds_dpi st)))]
         \<and> ownsResources (sv\<lparr>dx_resource := LookupSuccess (''STRING'', 8, asciiBytes (resourceLine (ds_dpi st)))\<rparr>)
             (ds_resources (fst (publish sv st)))
    else (\<forall>b. ChangeResourceManager b \<notin> set (snd (publish sv st)))
         \<and> ds_resources (fst (publish sv st)) = ds_resources st)"
  by (auto simp: publish_def Let_def ownsResources_def split: prod.split)

text \<open>
  changing the density or the colour scheme keeps both in range, and any settings property it
  writes goes to the owned window, carries the next serial and reads back as the settings of the
  new state.
\<close>

theorem setters_publish_readable_settings:
  assumes "dens_ok st"
    and "r = lorieSetDpi sv dpi st \<or> r = lorieSetColorScheme sv scheme st"
  shows "dens_ok (fst r)
         \<and> (\<forall>w b. ChangeSettings w b \<in> set (snd r) \<longrightarrow> settingsWrite st (fst r) w b)"
proof -
  let ?s1 = "st\<lparr>ds_dpi := dpi, ds_mmWidth := max 1 (dx_millimetres sv (ds_width st) dpi),
                 ds_mmHeight := max 1 (dx_millimetres sv (ds_height st) dpi)\<rparr>"
  let ?s2 = "st\<lparr>ds_colorScheme := scheme\<rparr>"
  consider "r = (st, [])"
    | "dens_ok ?s1" "fst r = fst (publish sv ?s1)"
      "\<forall>w b. ChangeSettings w b \<in> set (snd r) \<longrightarrow> ChangeSettings w b \<in> set (snd (publish sv ?s1))"
    | "dens_ok ?s2" "r = publish sv ?s2"
    using assms by (auto simp: lorieSetDpi_def lorieSetColorScheme_def dens_ok_def Let_def
        split: if_splits prod.splits)
  then show ?thesis
  proof cases
    case 2
    then show ?thesis using publish_settings [OF 2(1), where sv = sv] by (auto simp: dens_ok_def settingsWrite_def)
  next
    case 3
    then show ?thesis using publish_settings [OF 3(1), where sv = sv] by (auto simp: dens_ok_def settingsWrite_def)
  qed (use assms(1) in simp)
qed

text \<open>A state that owns window 5, and a server on which that window exists.\<close>

definition demoState :: densState where
  "demoState = \<lparr>ds_settingsWindow = 5, ds_settingsSelection = 3, ds_serial = 0, ds_colorScheme = 0,
     ds_resources = [], ds_dpi = 96, ds_hasRoot = True, ds_width = 100, ds_height = 100,
     ds_mmWidth = 1, ds_mmHeight = 1\<rparr>"

definition demoDisplay :: densServer where
  "demoDisplay = \<lparr>dx_resource = LookupError, dx_windowExists = (\<lambda>w. w = 5), dx_hasOutput = False,
     dx_millimetres = (\<lambda>size dpi. size * 254 div (10 * dpi))\<rparr>"

theorem setters_publish_readable_settings_witness:
  "\<exists>b. snd (lorieSetDpi demoDisplay 192 demoState) = [ScreenSizeNotify, ChangeSettings 5 b]
     \<and> readXsettings b = Some (1, densitySettings 192 1 0, [])"
proof -
  have ok: "dens_ok demoState" by (simp add: dens_ok_def demoState_def)
  obtain bytes n where "lorieDensitySettings (replicate 160 0) 192 1 0 = (bytes, n)"
    by (cases "lorieDensitySettings (replicate 160 0) 192 1 0")
  then obtain b where b: "snd (lorieSetDpi demoDisplay 192 demoState) = [ScreenSizeNotify, ChangeSettings 5 b]"
    "ds_dpi (fst (lorieSetDpi demoDisplay 192 demoState)) = 192"
    "ds_colorScheme (fst (lorieSetDpi demoDisplay 192 demoState)) = 0"
    by (simp add: lorieSetDpi_def demoDisplay_def demoState_def publish_def ownsResources_def)
  show ?thesis
    using setters_publish_readable_settings [OF ok, of "lorieSetDpi demoDisplay 192 demoState" demoDisplay 192] b
    by (auto simp: settingsWrite_def demoState_def)
qed

text \<open>
  when another client takes the settings selection the owned window is freed once and
  forgotten; from then on neither setter writes the settings property, and a further selection
  change frees nothing.
\<close>

theorem selection_loss_stops_settings:
  assumes "ds_settingsWindow st \<noteq> 0" "window \<noteq> ds_settingsWindow st"
    and "selectionChanged (ds_settingsSelection st) window SelectionSetOwner st = (st', e)"
  shows "e = [FreeWindow (ds_settingsWindow st)]
         \<and> (\<forall>w b. ChangeSettings w b \<notin> set (snd (lorieSetDpi sv dpi st')))
         \<and> (\<forall>w b. ChangeSettings w b \<notin> set (snd (lorieSetColorScheme sv scheme st')))
         \<and> selectionChanged sel win kind st' = (st', [])"
proof -
  have st': "st' = st\<lparr>ds_settingsWindow := 0\<rparr>" and e: "e = [FreeWindow (ds_settingsWindow st)]"
    using assms by (auto simp: selectionChanged_def split: if_splits)
  have "ds_settingsWindow st' = 0" by (simp add: st')
  from setters_unowned [OF this] this show ?thesis by (simp add: e selectionChanged_def)
qed

theorem selection_loss_stops_settings_witness:
  "snd (selectionChanged 3 9 SelectionSetOwner demoState) = [FreeWindow 5]"
proof -
  have sel: "ds_settingsSelection demoState = 3" "ds_settingsWindow demoState = 5" by (simp_all add: demoState_def)
  obtain st' e where r: "selectionChanged (ds_settingsSelection demoState) 9 SelectionSetOwner demoState = (st', e)"
    by (cases "selectionChanged (ds_settingsSelection demoState) 9 SelectionSetOwner demoState")
  have "e = [FreeWindow 5]" using selection_loss_stops_settings [OF _ _ r] sel by simp
  with r sel show ?thesis by simp
qed

end
