(* ===== verification/Socket_IO.thy ===== *)
theory Socket_IO
  imports Lorie_Prelude
begin

text \<open>
  Sockets, descriptors and locks: the retry loops of \<open>socket_io.h\<close>, \<open>gpu_completion.h\<close>,
  \<open>dma_buffer.h\<close> and \<open>shared_lock.h\<close>, the stream writer of \<open>command_queue.h\<close> and the descriptor
  passing of \<open>buffer.c\<close>.  The kernel is a script: the list of results its calls return, in
  order.  A loop is a function on the script; \<open>None\<close> means that the script ended while the loop
  was still waiting.  An entry \<open>Ret n\<close> of a transfer says how many bytes the kernel is ready to
  move; a transfer never moves more than was asked for.
\<close>

datatype sysResult = EINTR | Fail int | Ret nat

abbreviation (input) EAGAIN :: int where "EAGAIN \<equiv> 11"
abbreviation (input) EINVAL :: int where "EINVAL \<equiv> 22"
abbreviation (input) EPIPE :: int where "EPIPE \<equiv> 32"
abbreviation (input) ETIMEDOUT :: int where "ETIMEDOUT \<equiv> 110"

section \<open>Whole transfers\<close>

text \<open>Result: success, the bytes read so far, and what is left in the stream.\<close>

fun lorieReadFully :: "sysResult list \<Rightarrow> u8 list \<Rightarrow> nat \<Rightarrow> (bool \<times> u8 list \<times> u8 list) option" where
  "lorieReadFully script stream 0 = Some (True, [], stream)"
| "lorieReadFully [] stream (Suc n) = None"
| "lorieReadFully (EINTR # script) stream (Suc n) = lorieReadFully script stream (Suc n)"
| "lorieReadFully (Fail e # script) stream (Suc n) = Some (False, [], stream)"
| "lorieReadFully (Ret k # script) stream (Suc n) =
     (let got = take (min k (Suc n)) stream
      in if got = [] then Some (False, [], stream)
         else case lorieReadFully script (drop (length got) stream) (Suc n - length got) of
                None \<Rightarrow> None
              | Some (ok, more, rest) \<Rightarrow> Some (ok, got @ more, rest))"

text \<open>Result: success and the bytes sent.\<close>

fun lorieWriteFully :: "sysResult list \<Rightarrow> u8 list \<Rightarrow> (bool \<times> u8 list) option" where
  "lorieWriteFully script [] = Some (True, [])"
| "lorieWriteFully [] (b # bs) = None"
| "lorieWriteFully (EINTR # script) (b # bs) = lorieWriteFully script (b # bs)"
| "lorieWriteFully (Fail e # script) (b # bs) = Some (False, [])"
| "lorieWriteFully (Ret k # script) (b # bs) =
     (let sent = take k (b # bs)
      in if sent = [] then Some (False, [])
         else case lorieWriteFully script (drop (length sent) (b # bs)) of
                None \<Rightarrow> None
              | Some (ok, more) \<Rightarrow> Some (ok, sent @ more))"

section \<open>Interrupted calls\<close>

fun retry :: "sysResult list \<Rightarrow> (sysResult \<times> sysResult list) option" where
  "retry [] = None"
| "retry (EINTR # script) = retry script"
| "retry (r # script) = Some (r, script)"

definition lorieNotifyGpuCompletion :: "sysResult list \<Rightarrow> bool option" where
  "lorieNotifyGpuCompletion script =
     (case retry script of None \<Rightarrow> None
      | Some (Ret n, _) \<Rightarrow> Some (n = 8) | Some (Fail e, _) \<Rightarrow> Some (e = EAGAIN) | Some (EINTR, _) \<Rightarrow> Some False)"

definition lorieConsumeGpuCompletion :: "sysResult list \<Rightarrow> bool option" where
  "lorieConsumeGpuCompletion script =
     (case retry script of None \<Rightarrow> None | Some (r, _) \<Rightarrow> Some (r = Ret 8))"

text \<open>An error code, 0 for success.\<close>

definition lorieDmaSync :: "sysResult list \<Rightarrow> int option" where
  "lorieDmaSync script =
     (case retry script of None \<Rightarrow> None
      | Some (Fail e, _) \<Rightarrow> Some e | Some (_, _) \<Rightarrow> Some 0)"

datatype dmaAllocation = DmaFd int | DmaError int

text \<open>\<open>heap\<close> is the result of opening the heap device, \<open>newFd\<close> the descriptor the driver fills in.\<close>

definition lorieDmaAllocate :: "nat \<Rightarrow> int + int \<Rightarrow> int \<Rightarrow> sysResult list \<Rightarrow> (dmaAllocation \<times> int list) option" where
  "lorieDmaAllocate bytes heap newFd script =
     (if bytes = 0 then Some (DmaError EINVAL, [])
      else case heap of
        Inl e \<Rightarrow> Some (DmaError e, [])
      | Inr h \<Rightarrow>
          (case retry script of None \<Rightarrow> None
           | Some (Fail e, _) \<Rightarrow> Some (DmaError e, [h])
           | Some (_, _) \<Rightarrow> Some (DmaFd newFd, [h])))"

section \<open>Shared locks\<close>

text \<open>The deadline of one attempt, seconds and nanoseconds.\<close>

definition lockDeadline :: "int \<times> int \<Rightarrow> int \<times> int" where
  "lockDeadline now =
     (let nsec = snd now + 33000000
      in if nsec \<ge> 1000000000 then (fst now + 1, nsec - 1000000000) else (fst now, nsec))"

text \<open>The attempts: the error of each timed lock and whether the peer was alive after it.\<close>

fun lorieLockShared :: "(int \<times> bool) list \<Rightarrow> int option" where
  "lorieLockShared [] = None"
| "lorieLockShared ((err, alive) # attempts) =
     (if err \<noteq> ETIMEDOUT then Some err
      else if \<not> alive then Some EPIPE
      else lorieLockShared attempts)"

section \<open>The command queue\<close>

record Message =
  qm_bytes :: "u8 list"
  qm_sent :: nat
  qm_descriptor :: int

record LorieCommandQueue =
  cq_messages :: "Message list"
  cq_bytes :: nat
  cq_count :: nat

abbreviation (input) MAX_BYTES :: nat where "MAX_BYTES \<equiv> 1048576"
abbreviation (input) MAX_MESSAGES :: nat where "MAX_MESSAGES \<equiv> 4096"

definition cq_empty :: LorieCommandQueue where
  "cq_empty = \<lparr>cq_messages = [], cq_bytes = 0, cq_count = 0\<rparr>"

text \<open>The queue after clearing and the descriptors closed.\<close>

definition cq_clear :: "LorieCommandQueue \<Rightarrow> LorieCommandQueue \<times> int list" where
  "cq_clear q = (cq_empty, filter (\<lambda>fd. fd \<ge> 0) (map qm_descriptor (cq_messages q)))"

text \<open>
  \<open>copy\<close> is the result of duplicating the descriptor (negative on failure), \<open>mallocOk\<close> whether
  the message could be allocated.  Result: success, the queue and the descriptors closed.
\<close>

definition cq_append ::
    "u8 list \<Rightarrow> int \<Rightarrow> int \<Rightarrow> bool \<Rightarrow> LorieCommandQueue \<Rightarrow> bool \<times> LorieCommandQueue \<times> int list" where
  "cq_append data descriptor dupFd mallocOk q =
     (if length data > MAX_BYTES - cq_bytes q \<or> cq_count q = MAX_MESSAGES then (False, q, [])
      else let copy = (if descriptor < 0 then -1 else dupFd)
           in if descriptor \<ge> 0 \<and> copy < 0 then (False, q, [])
              else if \<not> mallocOk then (False, q, if copy \<ge> 0 then [copy] else [])
              else (True,
                    q\<lparr>cq_messages := cq_messages q @ [\<lparr>qm_bytes = data, qm_sent = 0, qm_descriptor = copy\<rparr>],
                      cq_count := cq_count q + 1, cq_bytes := cq_bytes q + length data\<rparr>, []))"

datatype wireItem = WireByte u8 | WireDescriptor int

text \<open>Putting a wire item in front of the result of the rest of the loop.\<close>

definition flushed ::
    "wireItem list \<Rightarrow> int list \<Rightarrow> (bool \<times> LorieCommandQueue \<times> wireItem list \<times> int list) option
     \<Rightarrow> (bool \<times> LorieCommandQueue \<times> wireItem list \<times> int list) option" where
  "flushed items fds r =
     (case r of None \<Rightarrow> None | Some (ok, q, wire, closed) \<Rightarrow> Some (ok, q, items @ wire, fds @ closed))"

text \<open>
  Result: whether the stream is still usable, the queue left, what was put on the wire and the
  descriptors closed.  The message at the front is taken off once its bytes and its descriptor
  are gone; otherwise one system call is made for it.
\<close>

function (sequential) cq_flush ::
    "sysResult list \<Rightarrow> LorieCommandQueue \<Rightarrow> (bool \<times> LorieCommandQueue \<times> wireItem list \<times> int list) option" where
  "cq_flush script q =
     (case cq_messages q of
        [] \<Rightarrow> Some (True, q, [], [])
      | m # ms \<Rightarrow>
          if \<not> qm_sent m < length (qm_bytes m) \<and> \<not> qm_descriptor m \<ge> 0
          then cq_flush script (q\<lparr>cq_messages := ms, cq_bytes := cq_bytes q - length (qm_bytes m),
                                  cq_count := cq_count q - 1\<rparr>)
          else (case script of
              [] \<Rightarrow> None
            | EINTR # script \<Rightarrow> cq_flush script q
            | Fail e # script \<Rightarrow> Some (e = EAGAIN, q, [], [])
            | Ret k # script \<Rightarrow>
                if qm_sent m < length (qm_bytes m)
                then let sent = take k (drop (qm_sent m) (qm_bytes m))
                     in if sent = [] then Some (False, q, [], [])
                        else flushed (map WireByte sent) []
                               (cq_flush script (q\<lparr>cq_messages := m\<lparr>qm_sent := qm_sent m + length sent\<rparr> # ms\<rparr>))
                else if k \<noteq> 1 then Some (False, q, [], [])
                     else flushed [WireDescriptor (qm_descriptor m)] [qm_descriptor m]
                            (cq_flush script (q\<lparr>cq_messages := m\<lparr>qm_descriptor := -1\<rparr> # ms\<rparr>))))"
  by pat_completeness auto
termination
  by (relation "measure (\<lambda>(script, q). length script + length (cq_messages q))") auto

declare cq_flush.simps [simp del]

section \<open>Passing descriptors\<close>

text \<open>The message carries one marker byte; success is a transfer of exactly that byte.\<close>

definition ancil_send_fd :: "sysResult list \<Rightarrow> int option" where
  "ancil_send_fd script =
     (case retry script of None \<Rightarrow> None | Some (r, _) \<Rightarrow> Some (if r = Ret 1 then 0 else -1))"

record controlMessage =
  cm_rights :: bool
  cm_fds :: "int list"

record receivedMessage =
  rm_marker :: u8
  rm_truncated :: bool
  rm_control :: "controlMessage list"

fun takeFds :: "int \<times> nat \<times> int list \<Rightarrow> int list \<Rightarrow> int \<times> nat \<times> int list" where
  "takeFds acc [] = acc"
| "takeFds (received, count, closed) (fd # fds) =
     (if count = 0 then takeFds (fd, 1, closed) fds
      else takeFds (received, Suc count, closed @ [fd]) fds)"

definition controlFds :: "receivedMessage \<Rightarrow> int list" where
  "controlFds msg = concat (map cm_fds (filter cm_rights (rm_control msg)))"

text \<open>The descriptor returned (-1 for none) and the descriptors closed.\<close>

definition ancil_recv_fd :: "sysResult list \<Rightarrow> receivedMessage \<Rightarrow> (int \<times> int list) option" where
  "ancil_recv_fd script msg =
     (case retry script of None \<Rightarrow> None
      | Some (Ret n, _) \<Rightarrow>
          let (received, count, closed) =
                fold (\<lambda>cm acc. if cm_rights cm then takeFds acc (cm_fds cm) else acc) (rm_control msg) (-1, 0, [])
          in if n \<noteq> 1 \<or> rm_marker msg \<noteq> 33 \<or> count \<noteq> 1 \<or> rm_truncated msg
             then Some (-1, closed @ (if received \<ge> 0 then [received] else []))
             else Some (received, closed)
      | Some (_, _) \<Rightarrow> Some (-1, []))"


section \<open>Transfer lemmas\<close>

lemma lorieWriteFully_prefix:
  "lorieWriteFully script data = Some (ok, sent) \<Longrightarrow> \<exists>rest. data = sent @ rest \<and> (ok \<longleftrightarrow> rest = [])"
proof (induction script data arbitrary: ok sent rule: lorieWriteFully.induct)
  case (5 k script b bs)
  define g where "g = take k (b # bs)"
  have split: "b # bs = g @ drop (length g) (b # bs)" by (rule take_drop_length [OF g_def])
  show ?case
  proof (cases "g = []")
    case False
    then obtain more where more: "lorieWriteFully script (drop (length g) (b # bs)) = Some (ok, more)" "sent = g @ more"
      using "5.prems" unfolding lorieWriteFully.simps Let_def g_def [symmetric] by (auto split: option.splits)
    from "5.IH" [OF g_def False more(1)] obtain rest where
      "drop (length g) (b # bs) = more @ rest" "ok \<longleftrightarrow> rest = []" by blast
    then show ?thesis using split more(2) by (metis append.assoc)
  next
    case True
    with "5.prems" show ?thesis unfolding lorieWriteFully.simps Let_def g_def [symmetric] by simp
  qed
qed auto

lemma lorieReadFully_prefix:
  "lorieReadFully script stream n = Some (ok, got, rest) \<Longrightarrow>
     stream = got @ rest \<and> length got \<le> n \<and> (ok \<longleftrightarrow> length got = n)"
proof (induction script stream n arbitrary: ok got rest rule: lorieReadFully.induct)
  case (5 k script stream n)
  define g where "g = take (min k (Suc n)) stream"
  have split: "stream = g @ drop (length g) stream" by (rule take_drop_length [OF g_def])
  have short: "length g \<le> Suc n" by (simp add: g_def)
  show ?case
  proof (cases "g = []")
    case False
    then obtain more where more: "lorieReadFully script (drop (length g) stream) (Suc n - length g) = Some (ok, more, rest)"
      "got = g @ more"
      using "5.prems" unfolding lorieReadFully.simps Let_def g_def [symmetric] by (auto split: option.splits)
    from "5.IH" [OF g_def False more(1)] short split more(2) show ?thesis by auto
  next
    case True
    with "5.prems" show ?thesis unfolding lorieReadFully.simps Let_def g_def [symmetric] by simp
  qed
qed auto

text \<open>A script that never fails and is long enough lets a transfer finish.\<close>

definition progress :: "sysResult list \<Rightarrow> nat \<Rightarrow> bool" where
  "progress script n \<longleftrightarrow>
     (\<forall>r \<in> set script. r = EINTR \<or> (\<exists>k>0. r = Ret k)) \<and> n \<le> length (filter (\<lambda>r. r \<noteq> EINTR) script)"

lemma lorieWriteFully_finishes:
  "progress script (length data) \<Longrightarrow> lorieWriteFully script data = Some (True, data)"
proof (induction script data rule: lorieWriteFully.induct)
  case (5 k script b bs)
  define g where "g = take k (b # bs)"
  have split: "b # bs = g @ drop (length g) (b # bs)" by (rule take_drop_length [OF g_def])
  have "k > 0" using 5(2) by (auto simp: progress_def)
  then have g: "g \<noteq> []" by (simp add: g_def)
  then have "progress script (length (drop (length g) (b # bs)))"
    using 5(2) by (cases g) (auto simp: progress_def)
  from "5.IH" [OF g_def g this] g split show ?case
    unfolding lorieWriteFully.simps Let_def g_def [symmetric] by simp
qed (auto simp: progress_def)

lemma lorieReadFully_finishes:
  "progress script n \<Longrightarrow> n \<le> length stream \<Longrightarrow> lorieReadFully script stream n = Some (True, take n stream, drop n stream)"
proof (induction script stream n rule: lorieReadFully.induct)
  case (5 k script stream n)
  define g where "g = take (min k (Suc n)) stream"
  have split: "stream = g @ drop (length g) stream" by (rule take_drop_length [OF g_def])
  have short: "length g \<le> Suc n" by (simp add: g_def)
  have "k > 0" using "5.prems"(1) by (auto simp: progress_def)
  then have g: "g \<noteq> []" using "5.prems"(2) by (auto simp: g_def)
  then have pr: "progress script (Suc n - length g)"
    using "5.prems"(1) by (cases g) (auto simp: progress_def)
  have len: "Suc n - length g \<le> length (drop (length g) stream)" using "5.prems"(2) by simp
  have t: "take (Suc n) stream = g @ take (Suc n - length g) (drop (length g) stream)"
    and d: "drop (Suc n) stream = drop (Suc n - length g) (drop (length g) stream)"
    using short by (subst split, simp)+
  from "5.IH" [OF g_def g pr len] g show ?case
    unfolding lorieReadFully.simps Let_def g_def [symmetric] t d by simp
qed (auto simp: progress_def)

section \<open>Queue lemmas\<close>

text \<open>What a message still has to put on the wire.\<close>

definition messageWire :: "Message \<Rightarrow> wireItem list" where
  "messageWire m = map WireByte (drop (qm_sent m) (qm_bytes m))
                   @ (if qm_descriptor m \<ge> 0 then [WireDescriptor (qm_descriptor m)] else [])"

definition queueWire :: "LorieCommandQueue \<Rightarrow> wireItem list" where
  "queueWire q = concat (map messageWire (cq_messages q))"

definition cq_wf :: "LorieCommandQueue \<Rightarrow> bool" where
  "cq_wf q \<longleftrightarrow> cq_bytes q = sum_list (map (\<lambda>m. length (qm_bytes m)) (cq_messages q)) \<and> cq_bytes q \<le> MAX_BYTES
     \<and> cq_count q = length (cq_messages q) \<and> cq_count q \<le> MAX_MESSAGES
     \<and> (\<forall>m \<in> set (cq_messages q). qm_sent m \<le> length (qm_bytes m))"

definition wireFds :: "wireItem list \<Rightarrow> int list" where
  "wireFds w = concat (map (\<lambda>i. case i of WireByte _ \<Rightarrow> [] | WireDescriptor fd \<Rightarrow> [fd]) w)"

lemma wireFds_simps [simp]:
  "wireFds [] = []" "wireFds (a @ b) = wireFds a @ wireFds b"
  "wireFds (WireByte x # w) = wireFds w" "wireFds (WireDescriptor fd # w) = fd # wireFds w"
  "wireFds (map WireByte bs) = []"
  by (simp_all add: wireFds_def comp_def)

definition flushSpec ::
    "LorieCommandQueue \<Rightarrow> (bool \<times> LorieCommandQueue \<times> wireItem list \<times> int list) \<Rightarrow> bool" where
  "flushSpec q r \<longleftrightarrow> (case r of (ok, q', wire, closed) \<Rightarrow>
     cq_wf q' \<and> wire @ queueWire q' = queueWire q \<and> closed = wireFds wire)"

lemma flushSpec_flushed:
  assumes "flushed items fds r = Some x" "cq_wf q"
    and "\<And>y. r = Some y \<Longrightarrow> flushSpec q1 y" "items @ queueWire q1 = queueWire q" "fds = wireFds items"
  shows "flushSpec q x"
  using assms by (auto simp: flushed_def flushSpec_def split: option.splits)

lemma flush_sent:
  assumes "cq_wf q" "cq_messages q = m # ms" "sent = take k (drop (qm_sent m) (qm_bytes m))"
    and "q1 = q\<lparr>cq_messages := m\<lparr>qm_sent := qm_sent m + length sent\<rparr> # ms\<rparr>"
  shows "cq_wf q1" "map WireByte sent @ queueWire q1 = queueWire q"
proof -
  show "cq_wf q1" using assms by (auto simp: cq_wf_def)
  have "drop (qm_sent m) (qm_bytes m) = sent @ drop (length sent) (drop (qm_sent m) (qm_bytes m))"
    by (rule take_drop_length [OF assms(3)])
  then have "map WireByte (drop (qm_sent m) (qm_bytes m)) =
      map WireByte sent @ map WireByte (drop (qm_sent m + length sent) (qm_bytes m))"
    by (metis map_append drop_drop add.commute)
  then show "map WireByte sent @ queueWire q1 = queueWire q"
    using assms(2, 4) by (simp add: queueWire_def messageWire_def)
qed

lemma flush_descriptor:
  assumes "cq_wf q" "cq_messages q = m # ms" "\<not> qm_sent m < length (qm_bytes m)" "qm_descriptor m \<ge> 0"
    and "q1 = q\<lparr>cq_messages := m\<lparr>qm_descriptor := -1\<rparr> # ms\<rparr>"
  shows "cq_wf q1" "[WireDescriptor (qm_descriptor m)] @ queueWire q1 = queueWire q"
  using assms by (auto simp: cq_wf_def queueWire_def messageWire_def)

lemma flush_pop:
  assumes "cq_wf q" "cq_messages q = m # ms" "\<not> qm_sent m < length (qm_bytes m) \<and> \<not> qm_descriptor m \<ge> 0"
    and "q1 = q\<lparr>cq_messages := ms, cq_bytes := cq_bytes q - length (qm_bytes m), cq_count := cq_count q - 1\<rparr>"
  shows "cq_wf q1" "queueWire q1 = queueWire q"
  using assms by (auto simp: cq_wf_def queueWire_def messageWire_def)

lemma cq_flush_spec:
  "cq_wf q \<Longrightarrow> cq_flush script q = Some r \<Longrightarrow> flushSpec q r"
proof (induction script q arbitrary: r rule: cq_flush.induct)
  case (1 script q)
  note wf = "1.prems"(1) and res = "1.prems"(2) [unfolded cq_flush.simps [of script q]]
  have stop: "flushSpec q (ok, q, [], [])" for ok using wf by (simp add: flushSpec_def)
  show ?case
  proof (cases "cq_messages q")
    case Nil
    with res stop show ?thesis by auto
  next
    case (Cons m ms)
    show ?thesis
    proof (cases "\<not> qm_sent m < length (qm_bytes m) \<and> \<not> qm_descriptor m \<ge> 0")
      case True
      with res Cons flush_pop [OF wf Cons True refl] "1.IH"(1) [OF Cons True] show ?thesis
        by (simp add: flushSpec_def)
    next
      case more: False
      then obtain e script' where script: "script = e # script'" using res Cons by (cases script) auto
      show ?thesis
      proof (cases e)
        case EINTR
        with res [unfolded Cons list.case if_not_P [OF more] script] wf "1.IH"(2) [OF Cons more script]
        show ?thesis by simp
      next
        case (Fail err)
        with more res Cons script stop show ?thesis by auto
      next
        case (Ret k)
        note step = res [unfolded Cons list.case if_not_P [OF more] script Ret sysResult.case]
        show ?thesis
        proof (cases "qm_sent m < length (qm_bytes m)")
          case True
          define sent where "sent = take k (drop (qm_sent m) (qm_bytes m))"
          note step' = step [unfolded if_P [OF True] Let_def sent_def [symmetric]]
          note ih = "1.IH"(3) [OF Cons more script Ret True sent_def]
          show ?thesis
          proof (cases "sent = []")
            case False
            note fl = flush_sent [OF wf Cons sent_def refl]
            show ?thesis
              by (rule flushSpec_flushed [OF step' [unfolded if_not_P [OF False]] wf ih [OF False fl(1)] fl(2)]) simp_all
          qed (use step' stop in auto)
        next
          case False
          note step' = step [unfolded if_not_P [OF False]]
          show ?thesis
          proof (cases "k \<noteq> 1")
            case one: False
            have fd: "qm_descriptor m \<ge> 0" using more False by simp
            note fl = flush_descriptor [OF wf Cons False fd refl]
            show ?thesis
              by (rule flushSpec_flushed [OF step' [unfolded if_not_P [OF one]] wf
                    "1.IH"(4) [OF Cons more script Ret False one fl(1)] fl(2)]) simp_all
          qed (use step' stop in auto)
        qed
      qed
    qed
  qed
qed


lemma takeFds_eq:
  "takeFds (r, c, closed) fds =
     (if c = 0 then (case fds of [] \<Rightarrow> (r, 0, closed) | fd # rest \<Rightarrow> (fd, length fds, closed @ rest))
      else (r, c + length fds, closed @ fds))"
  by (induction fds arbitrary: r c closed) (auto split: list.split)

lemma recv_fold:
  "fold (\<lambda>cm acc. if cm_rights cm then takeFds acc (cm_fds cm) else acc) cms (r, c, closed) =
     takeFds (r, c, closed) (concat (map cm_fds (filter cm_rights cms)))"
proof (induction cms arbitrary: r c closed)
  case (Cons cm cms)
  have "takeFds (takeFds (r, c, closed) a) b = takeFds (r, c, closed) (a @ b)" for a b
    by (simp add: takeFds_eq split: list.split)
  then have "takeFds (r, c, closed) (cm_fds cm @ b) = takeFds (takeFds (r, c, closed) (cm_fds cm)) b" for b
    by simp
  with Cons.IH show ?case by (cases "takeFds (r, c, closed) (cm_fds cm)") simp
qed simp

section \<open>Properties\<close>

text \<open>
  whatever the kernel's fragmentation, bytes sent by a successful whole write and read by a
  whole read of the same length are the bytes written, and the read leaves the rest of the
  stream; interrupted calls are retried and both finish once enough calls make progress.
\<close>

theorem transfer_roundtrip:
  assumes "progress s1 (length data)" "progress s2 (length data)"
  shows "\<exists>w. lorieWriteFully s1 data = Some (True, w)
             \<and> lorieReadFully s2 (w @ rest) (length data) = Some (True, data, rest)"
  using lorieWriteFully_finishes [OF assms(1)] lorieReadFully_finishes [OF assms(2), of "data @ rest"] by simp

theorem transfer_roundtrip_witness:
  "\<exists>w. lorieWriteFully [Ret 1, EINTR, Ret 5] [7, 8] = Some (True, w)
       \<and> lorieReadFully [EINTR, Ret 3, Ret 1] (w @ [9]) 2 = Some (True, [7, 8], [9])"
  using transfer_roundtrip [of "[Ret 1, EINTR, Ret 5]" "[7, 8]" "[EINTR, Ret 3, Ret 1]" "[9]"]
  by (simp add: progress_def numeral_2_eq_2)

text \<open>
  C17: the command queue never interleaves or reorders: what a flush puts on the wire followed by
  what is still queued is what was queued before, byte for byte and descriptor for descriptor,
  however the kernel splits the writes; exactly the descriptors that went out are closed, and the
  byte and message counters stay exact and within their limits.
\<close>

theorem command_queue_in_order:
  assumes "cq_wf q" "cq_flush script q = Some (ok, q', wire, closed)"
  shows "wire @ queueWire q' = queueWire q \<and> closed = wireFds wire \<and> cq_wf q'"
  using cq_flush_spec [OF assms] by (simp add: flushSpec_def)

definition demoQueue :: LorieCommandQueue where
  "demoQueue = \<lparr>cq_messages = [\<lparr>qm_bytes = [1, 2, 3], qm_sent = 0, qm_descriptor = 4\<rparr>,
      \<lparr>qm_bytes = [5], qm_sent = 0, qm_descriptor = -1\<rparr>], cq_bytes = 4, cq_count = 2\<rparr>"

theorem command_queue_in_order_witness:
  "\<exists>q'. cq_flush [Ret 2, Ret 9, EINTR, Ret 1, Fail 11] demoQueue =
       Some (True, q', [WireByte 1, WireByte 2, WireByte 3, WireDescriptor 4], [4])
     \<and> [WireByte 1, WireByte 2, WireByte 3, WireDescriptor 4] @ queueWire q' = queueWire demoQueue \<and> cq_wf q'"
proof -
  let ?q = "\<lparr>cq_messages = [\<lparr>qm_bytes = [5], qm_sent = 0, qm_descriptor = -1\<rparr>], cq_bytes = 1, cq_count = 1\<rparr>"
  have f: "cq_flush [Ret 2, Ret 9, EINTR, Ret 1, Fail 11] demoQueue =
      Some (True, ?q, [WireByte 1, WireByte 2, WireByte 3, WireDescriptor 4], [4])"
    by (simp add: cq_flush.simps flushed_def demoQueue_def)
  have "cq_wf demoQueue" by (simp add: cq_wf_def demoQueue_def)
  from command_queue_in_order [OF this f] f show ?thesis by blast
qed

text \<open>
  appending a message either refuses and leaves the queue as it was, with no descriptor kept,
  or adds its bytes and its own copy of the descriptor behind everything queued; the limits hold.
\<close>

theorem command_queue_append:
  assumes "cq_wf q" "cq_append data fd dupFd mallocOk q = (ok, q', closed)"
  shows "cq_wf q' \<and> (if ok then queueWire q' = queueWire q @ map WireByte data
                            @ (if fd \<ge> 0 then [WireDescriptor dupFd] else []) \<and> closed = []
                    else q' = q)"
  using assms
  by (auto simp: cq_append_def cq_wf_def queueWire_def messageWire_def Let_def split: if_splits)

theorem command_queue_append_witness:
  "\<exists>q'. cq_append [8] (-1) (-1) True demoQueue = (True, q', [])
        \<and> queueWire q' = queueWire demoQueue @ [WireByte 8]"
proof -
  obtain q' where a: "cq_append [8] (-1) (-1) True demoQueue = (True, q', [])"
    by (simp add: cq_append_def demoQueue_def)
  have "cq_wf demoQueue" by (simp add: cq_wf_def demoQueue_def)
  from command_queue_append [OF this a] a show ?thesis by auto
qed

text \<open>
  receiving a descriptor never leaks one: of all descriptors the message carried, either
  exactly one is returned, being the only one, or -1 is returned and every one of them was closed
  (those that are valid).
\<close>

theorem receive_descriptor_no_leak:
  assumes "ancil_recv_fd script msg = Some (fd, closed)" "retry script = Some (Ret n, left)"
    and "\<forall>f \<in> set (controlFds msg). f \<ge> 0"
  shows "(controlFds msg = [fd] \<and> closed = []) \<or> (fd = -1 \<and> set closed = set (controlFds msg)
           \<and> length closed = length (controlFds msg))"
proof -
  have "takeFds (-1, 0, []) (controlFds msg) =
      (case controlFds msg of [] \<Rightarrow> (-1, 0, []) | f # fs \<Rightarrow> (f, length (controlFds msg), fs))"
    by (simp add: takeFds_eq split: list.split)
  then show ?thesis
    using assms unfolding ancil_recv_fd_def recv_fold controlFds_def [symmetric]
    by (cases "controlFds msg") (auto simp: Let_def split: if_splits)
qed

theorem receive_descriptor_no_leak_witness:
  "ancil_recv_fd [EINTR, Ret 1] \<lparr>rm_marker = 33, rm_truncated = False,
       rm_control = [\<lparr>cm_rights = True, cm_fds = [3, 4]\<rparr>]\<rparr> = Some (-1, [4, 3])"
proof -
  let ?m = "\<lparr>rm_marker = 33, rm_truncated = False, rm_control = [\<lparr>cm_rights = True, cm_fds = [3, 4]\<rparr>]\<rparr>"
  have r: "ancil_recv_fd [EINTR, Ret 1] ?m = Some (-1, [4, 3])" by (simp add: ancil_recv_fd_def)
  then show ?thesis using receive_descriptor_no_leak [OF r] by simp
qed

text \<open>
  the shared lock is reported as held only when a lock attempt returned success, a timeout is
  never reported, and the session is given up only after an attempt timed out with a dead peer.
\<close>

theorem shared_lock_result:
  assumes "lorieLockShared attempts = Some e"
  shows "e \<noteq> ETIMEDOUT \<and> (\<exists>pre err alive post. attempts = pre @ (err, alive) # post
           \<and> pre = map (\<lambda>_. (ETIMEDOUT, True)) pre
           \<and> (if err = ETIMEDOUT then e = EPIPE \<and> \<not> alive else e = err))"
  using assms
proof (induction attempts rule: lorieLockShared.induct)
  case (2 err alive attempts)
  show ?case
  proof (cases "err = ETIMEDOUT \<and> alive")
    case True
    with 2 obtain pre err' alive' post where "e \<noteq> ETIMEDOUT" "attempts = pre @ (err', alive') # post"
      "pre = map (\<lambda>_. (ETIMEDOUT, True)) pre" "if err' = ETIMEDOUT then e = EPIPE \<and> \<not> alive' else e = err'" by auto
    with True show ?thesis by (intro conjI exI [of _ "(err, alive) # pre"]) auto
  next
    case False
    with 2 show ?thesis by (auto split: if_splits intro!: exI [of _ "[]"])
  qed
qed simp

theorem shared_lock_result_witness:
  "lorieLockShared [(ETIMEDOUT, True), (0, True)] = Some 0 \<and> (0::int) \<noteq> ETIMEDOUT"
  using shared_lock_result [of "[(ETIMEDOUT, True), (0, True)]" 0] by simp

end
