(* ===== verification/Buffers.thy ===== *)
theory Buffers
  imports Lorie_Prelude
begin

text \<open>
  Pixel storage: the layout check of \<open>buffer_layout.h\<close> and the buffer objects of \<open>buffer.c\<close> and
  \<open>buffer.h\<close>: allocation over heap memory, shared memory or a hardware buffer, promotion and
  conversion of storage, reference counts, CPU locking, the exchange of buffers over a socket and
  buffer lists.  Kernel and platform calls are answered by the record \<open>os\<close>; what the code gives
  back to them (unmapping, closing, freeing, releasing) is a list of effects.  A pointer is a
  natural number, 0 for null; a C \<open>int\<close> or \<open>off_t\<close> is an \<open>int\<close>, and 64-bit unsigned arithmetic is
  written with \<open>mod 2 ^ 64\<close>.
\<close>

section \<open>Layout\<close>

definition u64 :: "int \<Rightarrow> nat" where
  "u64 i = nat (i mod 2 ^ 64)"

definition lorieBufferLayout :: "int \<Rightarrow> int \<Rightarrow> int \<Rightarrow> nat \<Rightarrow> nat option" where
  "lorieBufferLayout width stride height offset =
     (if width \<le> 0 \<or> height \<le> 0 \<or> stride < width \<or> stride > INT32_MAX div 4 \<or> offset mod 4 \<noteq> 0 then None
      else let bytes = (u64 (height - 1) * u64 stride + u64 width) * 4 mod 2 ^ 64
           in if bytes > 2 ^ 64 - 1 \<or> int offset > INT64_MAX \<or> int bytes > INT64_MAX - int offset then None
              else Some bytes)"

definition loriePresentSizeMatches :: "int \<Rightarrow> int \<Rightarrow> int \<Rightarrow> int \<Rightarrow> bool" where
  "loriePresentSizeMatches screenWidth screenHeight width height \<longleftrightarrow>
     screenWidth > 0 \<and> screenHeight > 0 \<and> screenWidth = width \<and> screenHeight = height"

section \<open>Buffers\<close>

abbreviation (input) LORIEBUFFER_REGULAR :: nat where "LORIEBUFFER_REGULAR \<equiv> 1"
abbreviation (input) LORIEBUFFER_FD :: nat where "LORIEBUFFER_FD \<equiv> 2"
abbreviation (input) LORIEBUFFER_AHARDWAREBUFFER :: nat where "LORIEBUFFER_AHARDWAREBUFFER \<equiv> 3"
abbreviation (input) FORMAT_R8G8B8A8 :: nat where "FORMAT_R8G8B8A8 \<equiv> 1"
abbreviation (input) FORMAT_R8G8B8X8 :: nat where "FORMAT_R8G8B8X8 \<equiv> 2"
abbreviation (input) FORMAT_B8G8R8A8 :: nat where "FORMAT_B8G8R8A8 \<equiv> 5"

text \<open>\<open>lb_pixels\<close> is the storage behind \<open>desc.data\<close>, one 32-bit pixel per index.\<close>

record LorieBuffer =
  lb_refcount :: int
  lb_width :: int
  lb_height :: int
  lb_stride :: int
  lb_format :: nat
  lb_type :: nat
  lb_id :: nat
  lb_hardware :: nat
  lb_data :: nat
  lb_locked :: bool
  lb_lockedData :: nat
  lb_fd :: int
  lb_size :: nat
  lb_offset :: int
  lb_mapping :: nat
  lb_dmaBuf :: bool
  lb_graphicsImage :: nat
  lb_gpuCopyPending :: int
  lb_pixels :: "nat \<Rightarrow> u32"

datatype bufEffect =
    Munmap nat nat
  | CloseFd int
  | FreeData nat
  | ReleaseHardware nat
  | ReleaseImage nat

record hwDesc =
  hw_layers :: nat
  hw_width :: nat
  hw_height :: nat
  hw_stride :: nat
  hw_format :: nat

text \<open>The answers of the platform during one operation.\<close>

record osAnswers =
  os_android26 :: bool
  os_describe :: hwDesc
  os_callocData :: nat
  os_callocBuffer :: bool
  os_dupFd :: "int \<Rightarrow> int"
  os_fstatSize :: "int option"
  os_ashmemSize :: int
  os_page :: int
  os_mmap :: "nat option"
  os_syncStart :: int
  os_syncEnd :: int
  os_region :: "nat \<Rightarrow> int"
  os_hardware :: "nat option"
  os_hardwareLock :: "int \<times> nat"
  os_hardwareUnlock :: int
  os_dmaAllocate :: int
  os_fresh :: "nat \<Rightarrow> u32"

definition formatOk :: "nat \<Rightarrow> bool" where
  "formatOk f \<longleftrightarrow> f = FORMAT_B8G8R8A8 \<or> f = FORMAT_R8G8B8A8 \<or> f = FORMAT_R8G8B8X8"

text \<open>The clean-up at the label \<open>fail\<close>.\<close>

definition allocFail :: "osAnswers \<Rightarrow> LorieBuffer \<Rightarrow> nat \<Rightarrow> nat \<Rightarrow> bufEffect list" where
  "allocFail os b type buf =
     (if lb_mapping b \<noteq> 0 then [Munmap (lb_mapping b) (lb_size b)] else [])
     @ (if lb_fd b \<ge> 0 then [CloseFd (lb_fd b)] else [])
     @ (if type = LORIEBUFFER_REGULAR \<and> lb_data b \<noteq> 0 then [FreeData (lb_data b)] else [])
     @ (if buf \<noteq> 0 \<and> os_android26 os then [ReleaseHardware buf] else [])"

text \<open>Mapping of a descriptor: \<open>Inl\<close> is the buffer at the point of failure.\<close>

definition mapDescriptor :: "osAnswers \<Rightarrow> LorieBuffer \<Rightarrow> nat \<Rightarrow> int \<Rightarrow> LorieBuffer + LorieBuffer" where
  "mapDescriptor os b bytes offset =
     (if lb_fd b < 0 then Inl b
      else case os_fstatSize os of None \<Rightarrow> Inl b
      | Some st_size \<Rightarrow>
          (let extent = (if st_size > 0 then nat st_size else 0);
               extent = (if extent = 0 \<and> os_ashmemSize os > 0 then nat (os_ashmemSize os) else extent)
           in if (u64 offset + bytes) mod 2 ^ 64 > extent then Inl b
              else if os_page os \<le> 0 then Inl b
              else let delta = nat (offset mod os_page os)
                   in if bytes > 2 ^ 64 - 1 - delta then Inl b
                      else let b = b\<lparr>lb_size := bytes + delta\<rparr>
                           in case os_mmap os of None \<Rightarrow> Inl b
                              | Some m \<Rightarrow>
                                  let b = b\<lparr>lb_mapping := m, lb_data := m + delta, lb_pixels := os_fresh os\<rparr>
                                  in if os_syncStart os \<noteq> 0 then Inr b
                                     else if os_syncEnd os \<noteq> 0 then Inl (b\<lparr>lb_dmaBuf := True\<rparr>)
                                     else Inr (b\<lparr>lb_dmaBuf := True\<rparr>)))"

text \<open>Geometry: taken from the hardware buffer if there is one, then checked.\<close>

definition allocGeometry :: "osAnswers \<Rightarrow> LorieBuffer \<Rightarrow> LorieBuffer + LorieBuffer \<times> nat" where
  "allocGeometry os b =
     (let hardware = (lb_type b = LORIEBUFFER_AHARDWAREBUFFER);
          desc = (if os_android26 os then os_describe os
                  else \<lparr>hw_layers = 0, hw_width = 0, hw_height = 0, hw_stride = 0, hw_format = 0\<rparr>)
      in if hardware \<and>
            (lb_hardware b = 0 \<or> hw_layers desc \<noteq> 1 \<or> int (hw_width desc) > INT32_MAX
             \<or> int (hw_height desc) > INT32_MAX \<or> int (hw_stride desc) > INT32_MAX \<or> hw_format desc > 255)
         then Inl b
         else let b = (if hardware
                       then b\<lparr>lb_width := int (hw_width desc), lb_height := int (hw_height desc),
                              lb_stride := int (hw_stride desc), lb_format := hw_format desc\<rparr>
                       else b)
              in if \<not> formatOk (lb_format b) then Inl b
                 else case lorieBufferLayout (lb_width b) (lb_stride b) (lb_height b) (u64 (lb_offset b)) of
                        None \<Rightarrow> Inl b | Some bytes \<Rightarrow> Inr (b, bytes))"

definition allocStorage :: "osAnswers \<Rightarrow> LorieBuffer \<Rightarrow> nat \<Rightarrow> int \<Rightarrow> bool \<Rightarrow> LorieBuffer + LorieBuffer" where
  "allocStorage os b bytes fd takeFd =
     (if lb_type b = LORIEBUFFER_REGULAR
      then (if os_callocData os = 0 then Inl b else Inr (b\<lparr>lb_data := os_callocData os\<rparr>))
      else if lb_type b = LORIEBUFFER_FD then mapDescriptor os (if takeFd then b else b\<lparr>lb_fd := os_dupFd os fd\<rparr>) bytes (lb_offset b)
      else if lb_type b = LORIEBUFFER_AHARDWAREBUFFER then Inr b
      else Inl b)"

definition allocInit ::
    "nat \<Rightarrow> int \<Rightarrow> int \<Rightarrow> int \<Rightarrow> nat \<Rightarrow> nat \<Rightarrow> nat \<Rightarrow> int \<Rightarrow> int \<Rightarrow> bool \<Rightarrow> LorieBuffer" where
  "allocInit nextId width stride height format type buf fd offset takeFd =
     \<lparr>lb_refcount = 1, lb_width = width, lb_height = height, lb_stride = stride,
     lb_format = format, lb_type = type, lb_id = nextId, lb_hardware = buf, lb_data = 0,
     lb_locked = False, lb_lockedData = 0, lb_fd = (if takeFd then fd else -1), lb_size = 0,
     lb_offset = offset, lb_mapping = 0, lb_dmaBuf = False, lb_graphicsImage = 0,
     lb_gpuCopyPending = 0, lb_pixels = (\<lambda>_. 0)\<rparr>"

text \<open>
  The parameter \<open>nextId\<close> is the static counter of identities.  Result: the buffer, the effects
  and the counter.
\<close>

definition allocate ::
    "osAnswers \<Rightarrow> nat \<Rightarrow> int \<Rightarrow> int \<Rightarrow> int \<Rightarrow> nat \<Rightarrow> nat \<Rightarrow> nat \<Rightarrow> int \<Rightarrow> int \<Rightarrow> bool
     \<Rightarrow> LorieBuffer option \<times> bufEffect list \<times> nat" where
  "allocate os nextId width stride height format type buf fd offset takeFd =
     (let b = allocInit nextId width stride height format type buf fd offset takeFd;
          nextId' = (nextId + 1) mod 2 ^ 64;
          failed = (\<lambda>b. (None, allocFail os b type buf, nextId'))
      in case allocGeometry os b of Inl b \<Rightarrow> failed b
         | Inr (b, bytes) \<Rightarrow>
             (case allocStorage os b bytes fd takeFd of
                Inl b \<Rightarrow> failed b
              | Inr b \<Rightarrow> if \<not> os_callocBuffer os then failed b else (Some b, [], nextId')))"

definition alignToPage :: "osAnswers \<Rightarrow> nat \<Rightarrow> nat" where
  "alignToPage os bytes =
     unat ((of_nat bytes + of_int (os_page os) - 1) AND NOT (of_int (os_page os) - 1) :: 64 word)"

definition LorieBuffer_allocate ::
    "osAnswers \<Rightarrow> nat \<Rightarrow> int \<Rightarrow> int \<Rightarrow> nat \<Rightarrow> nat \<Rightarrow> LorieBuffer option \<times> bufEffect list \<times> nat" where
  "LorieBuffer_allocate os nextId width height format type =
     (case lorieBufferLayout width width height 0 of None \<Rightarrow> (None, [], nextId)
      | Some bytes \<Rightarrow>
          if bytes > 2 ^ 64 - 1 - nat (os_page os) then (None, [], nextId)
          else if type = LORIEBUFFER_FD
          then let fd = os_region os (alignToPage os bytes)
               in if fd < 0 then (None, [], nextId)
                  else allocate os nextId width width height format type 0 fd 0 True
          else if type = LORIEBUFFER_AHARDWAREBUFFER
          then let hw = (if os_android26 os then (case os_hardware os of None \<Rightarrow> 0 | Some h \<Rightarrow> h) else 0)
               in allocate os nextId width width height format type hw (-1) 0 True
          else allocate os nextId width width height format type 0 (-1) 0 True)"

definition LorieBuffer_wrapFileDescriptor ::
    "osAnswers \<Rightarrow> nat \<Rightarrow> int \<Rightarrow> int \<Rightarrow> int \<Rightarrow> nat \<Rightarrow> int \<Rightarrow> int \<Rightarrow> LorieBuffer option \<times> bufEffect list \<times> nat" where
  "LorieBuffer_wrapFileDescriptor os nextId width stride height format fd offset =
     allocate os nextId width stride height format LORIEBUFFER_FD 0 fd offset False"

definition LorieBuffer_wrapAHardwareBuffer :: "osAnswers \<Rightarrow> nat \<Rightarrow> nat \<Rightarrow> LorieBuffer option \<times> bufEffect list \<times> nat" where
  "LorieBuffer_wrapAHardwareBuffer os nextId buf =
     allocate os nextId 0 0 0 0 LORIEBUFFER_AHARDWAREBUFFER buf (-1) 0 False"

text \<open>
  The shared-memory region: the results of the three ways of creating one, tried in order, and
  the descriptors closed on the way.
\<close>

record regionAnswers =
  rg_sharedMemory :: int
  rg_memfd :: int
  rg_ftruncate :: int
  rg_ashmem :: int
  rg_setName :: int
  rg_setSize :: int

definition LorieBuffer_createRegion :: "bool \<Rightarrow> regionAnswers \<Rightarrow> int \<times> int list" where
  "LorieBuffer_createRegion android26 rg =
     (let fd = (if android26 then rg_sharedMemory rg else -1)
      in if fd \<ge> 0 then (fd, [])
         else if rg_memfd rg \<ge> 0 \<and> rg_ftruncate rg = 0 then (rg_memfd rg, [])
         else let closed = (if rg_memfd rg \<ge> 0 then [rg_memfd rg] else []);
                  fd = rg_ashmem rg
              in if fd < 0 then (fd, closed)
                 else if rg_setName rg < 0 then (rg_setName rg, closed @ [fd])
                 else if rg_setSize rg < 0 then (rg_setSize rg, closed @ [fd])
                 else (fd, closed))"

section \<open>Promotion and conversion\<close>

text \<open>Copying the rows of an image from one pitch to another, pixel by pixel.\<close>

definition copyRows :: "nat \<Rightarrow> nat \<Rightarrow> nat \<Rightarrow> nat \<Rightarrow> (nat \<Rightarrow> u32) \<Rightarrow> (nat \<Rightarrow> u32) \<Rightarrow> nat \<Rightarrow> u32" where
  "copyRows width height srcStride dstStride src dst =
     fold (\<lambda>(y, x) d. d(y * dstStride + x := src (y * srcStride + x)))
       (List.product [0..<height] [0..<width]) dst"

definition LorieBuffer_makeDmaBuf :: "osAnswers \<Rightarrow> LorieBuffer option \<Rightarrow> bool \<times> LorieBuffer option \<times> bufEffect list" where
  "LorieBuffer_makeDmaBuf os buffer =
     (case buffer of None \<Rightarrow> (False, None, [])
      | Some b \<Rightarrow>
          if lb_dmaBuf b then (True, Some b, [])
          else if lb_type b \<noteq> LORIEBUFFER_REGULAR \<or> lb_refcount b \<noteq> 1 \<or> lb_locked b
                  \<or> lb_graphicsImage b \<noteq> 0 \<or> lb_gpuCopyPending b \<noteq> 0 then (False, Some b, [])
          else if lb_width b > INT32_MAX div 4 - 63 then (False, Some b, [])
          else let stride = (lb_width b + 63) div 64 * 64
               in case lorieBufferLayout stride stride (lb_height b) 0 of None \<Rightarrow> (False, Some b, [])
                  | Some bytes \<Rightarrow>
                      (if os_dmaAllocate os < 0 then (False, Some b, [])
                       else case os_mmap os of None \<Rightarrow> (False, Some b, [CloseFd (os_dmaAllocate os)])
                       | Some m \<Rightarrow>
                           if os_syncStart os \<noteq> 0 \<or> os_syncEnd os \<noteq> 0
                           then (False, Some b, [Munmap m bytes, CloseFd (os_dmaAllocate os)])
                           else (True,
                                 Some (b\<lparr>lb_type := LORIEBUFFER_FD, lb_data := m, lb_stride := stride,
                                         lb_mapping := m, lb_size := bytes, lb_fd := os_dmaAllocate os,
                                         lb_dmaBuf := True,
                                         lb_pixels := copyRows (nat (lb_width b)) (nat (lb_height b))
                                           (nat (lb_stride b)) (nat stride) (lb_pixels b) (os_fresh os)\<rparr>),
                                 [FreeData (lb_data b)])))"

definition LorieBuffer_convert :: "osAnswers \<Rightarrow> LorieBuffer option \<Rightarrow> nat \<Rightarrow> nat \<Rightarrow> LorieBuffer option \<times> bufEffect list" where
  "LorieBuffer_convert os buffer type format =
     (case buffer of None \<Rightarrow> (None, [])
      | Some b \<Rightarrow>
          if lb_type b \<noteq> LORIEBUFFER_REGULAR \<or> (type \<noteq> LORIEBUFFER_FD \<and> type \<noteq> LORIEBUFFER_AHARDWAREBUFFER)
             \<or> (format \<noteq> FORMAT_R8G8B8X8 \<and> format \<noteq> FORMAT_B8G8R8A8) then (Some b, [])
          else if type = LORIEBUFFER_FD
          then (case lorieBufferLayout (lb_width b) (lb_stride b) (lb_height b) 0 of None \<Rightarrow> (Some b, [])
                | Some bytes \<Rightarrow>
                    if os_region os bytes < 0 then (Some b, [])
                    else case os_mmap os of None \<Rightarrow> (Some b, [CloseFd (os_region os bytes)])
                    | Some m \<Rightarrow>
                        if m = 0 then (Some b, [CloseFd (os_region os bytes)])
                        else (Some (b\<lparr>lb_type := type, lb_format := format, lb_fd := os_region os bytes, lb_size := bytes,
                                      lb_offset := 0, lb_mapping := m, lb_data := m, lb_lockedData := 0,
                                      lb_locked := False,
                                      lb_pixels := copyRows (nat (lb_width b)) (nat (lb_height b))
                                        (nat (lb_stride b)) (nat (lb_stride b)) (lb_pixels b) (os_fresh os)\<rparr>),
                              [FreeData (lb_data b)]))
          else if \<not> os_android26 os then (Some b, [])
          else (case os_hardware os of None \<Rightarrow> (Some b, [])
                | Some h \<Rightarrow>
                    if fst (os_hardwareLock os) \<noteq> 0 then (Some b, [ReleaseHardware h])
                    else (Some (b\<lparr>lb_type := type, lb_format := format, lb_stride := int (hw_stride (os_describe os)),
                                  lb_hardware := h, lb_data := 0, lb_lockedData := 0, lb_locked := False,
                                  lb_pixels := copyRows (nat (lb_width b)) (nat (lb_height b))
                                    (nat (lb_stride b)) (hw_stride (os_describe os)) (lb_pixels b) (os_fresh os)\<rparr>),
                          [FreeData (lb_data b)])))"

section \<open>References, locks and images\<close>

definition LorieBuffer_free :: "osAnswers \<Rightarrow> LorieBuffer \<Rightarrow> bufEffect list" where
  "LorieBuffer_free os b =
     (if lb_graphicsImage b \<noteq> 0 then [ReleaseImage (lb_graphicsImage b)] else [])
     @ (if lb_type b = LORIEBUFFER_REGULAR then [FreeData (lb_data b)]
        else if lb_type b = LORIEBUFFER_FD then [Munmap (lb_mapping b) (lb_size b), CloseFd (lb_fd b)]
        else if lb_type b = LORIEBUFFER_AHARDWAREBUFFER \<and> os_android26 os then [ReleaseHardware (lb_hardware b)]
        else [])"

text \<open>
  Buffers live in a store of addresses; \<open>bs_lists\<close> holds the intrusive lists, each buffer being
  linked into at most one of them.
\<close>

record bufStore =
  bs_heap :: "nat \<Rightarrow> LorieBuffer option"
  bs_lists :: "nat \<Rightarrow> nat list"

definition listDel :: "nat \<Rightarrow> (nat \<Rightarrow> nat list) \<Rightarrow> nat \<Rightarrow> nat list" where
  "listDel p ls = (\<lambda>l. filter (\<lambda>q. q \<noteq> p) (ls l))"

definition LorieBuffer_acquire :: "nat \<Rightarrow> bufStore \<Rightarrow> bufStore" where
  "LorieBuffer_acquire p st =
     (case bs_heap st p of None \<Rightarrow> st
      | Some b \<Rightarrow> st\<lparr>bs_heap := (bs_heap st)(p \<mapsto> b\<lparr>lb_refcount := lb_refcount b + 1\<rparr>)\<rparr>)"

definition LorieBuffer_release :: "osAnswers \<Rightarrow> nat \<Rightarrow> bufStore \<Rightarrow> bufStore \<times> bufEffect list" where
  "LorieBuffer_release os p st =
     (case bs_heap st p of None \<Rightarrow> (st, [])
      | Some b \<Rightarrow>
          let b' = b\<lparr>lb_refcount := lb_refcount b - 1\<rparr>
          in if lb_refcount b = 1
             then (st\<lparr>bs_heap := (bs_heap st)(p := None), bs_lists := listDel p (bs_lists st)\<rparr>, LorieBuffer_free os b')
             else (st\<lparr>bs_heap := (bs_heap st)(p \<mapsto> b')\<rparr>, []))"

definition LorieBuffer_addToList :: "nat \<Rightarrow> nat \<Rightarrow> bufStore \<Rightarrow> bufStore" where
  "LorieBuffer_addToList p l st =
     (if p = 0 \<or> l = 0 then st
      else let ls = listDel p (bs_lists st) in st\<lparr>bs_lists := ls(l := p # ls l)\<rparr>)"

definition LorieBuffer_removeFromList :: "nat \<Rightarrow> bufStore \<Rightarrow> bufStore" where
  "LorieBuffer_removeFromList p st = (if p = 0 then st else st\<lparr>bs_lists := listDel p (bs_lists st)\<rparr>)"

definition LorieBufferList_first :: "nat \<Rightarrow> bufStore \<Rightarrow> nat" where
  "LorieBufferList_first l st = (case bs_lists st l of [] \<Rightarrow> 0 | p # _ \<Rightarrow> p)"

definition LorieBufferList_findById :: "nat \<Rightarrow> nat \<Rightarrow> bufStore \<Rightarrow> nat" where
  "LorieBufferList_findById l ident st =
     (case find (\<lambda>p. case bs_heap st p of None \<Rightarrow> False | Some b \<Rightarrow> lb_id b = ident) (bs_lists st l) of
        None \<Rightarrow> 0 | Some p \<Rightarrow> p)"

definition LorieBuffer_gpuCopyPendingInc :: "LorieBuffer option \<Rightarrow> LorieBuffer option" where
  "LorieBuffer_gpuCopyPendingInc buffer = map_option (\<lambda>b. b\<lparr>lb_gpuCopyPending := lb_gpuCopyPending b + 1\<rparr>) buffer"

definition LorieBuffer_gpuCopyPendingDec :: "LorieBuffer option \<Rightarrow> LorieBuffer option" where
  "LorieBuffer_gpuCopyPendingDec buffer = map_option (\<lambda>b. b\<lparr>lb_gpuCopyPending := lb_gpuCopyPending b - 1\<rparr>) buffer"

definition LorieBuffer_hasGpuCopyPending :: "LorieBuffer option \<Rightarrow> bool" where
  "LorieBuffer_hasGpuCopyPending buffer = (case buffer of None \<Rightarrow> False | Some b \<Rightarrow> lb_gpuCopyPending b \<noteq> 0)"

definition LorieBuffer_fileDescriptor :: "LorieBuffer option \<Rightarrow> int \<times> int option" where
  "LorieBuffer_fileDescriptor buffer =
     (case buffer of None \<Rightarrow> (-1, None)
      | Some b \<Rightarrow> if lb_type b \<noteq> LORIEBUFFER_FD then (-1, None) else (lb_fd b, Some (lb_offset b)))"

definition LorieBuffer_isDmaBuf :: "LorieBuffer option \<Rightarrow> bool" where
  "LorieBuffer_isDmaBuf buffer = (case buffer of None \<Rightarrow> False | Some b \<Rightarrow> lb_dmaBuf b)"

definition LorieBuffer_isRgba :: "LorieBuffer option \<Rightarrow> bool" where
  "LorieBuffer_isRgba buffer = ((case buffer of None \<Rightarrow> 0 | Some b \<Rightarrow> lb_format b) \<noteq> FORMAT_B8G8R8A8)"

definition LorieBuffer_setGraphicsImage :: "LorieBuffer \<Rightarrow> nat \<Rightarrow> LorieBuffer \<times> bufEffect list" where
  "LorieBuffer_setGraphicsImage b img =
     (b\<lparr>lb_graphicsImage := img\<rparr>,
      if lb_graphicsImage b \<noteq> 0 then [ReleaseImage (lb_graphicsImage b)] else [])"

abbreviation (input) ENOENT :: int where "ENOENT \<equiv> 2"
abbreviation (input) EEXIST :: int where "EEXIST \<equiv> 17"
abbreviation (input) ENODEV :: int where "ENODEV \<equiv> 19"
abbreviation (input) ENOSYS :: int where "ENOSYS \<equiv> 38"

text \<open>Result: error code, the pointer stored in \<open>out\<close>, the buffer.\<close>

definition LorieBuffer_lock :: "osAnswers \<Rightarrow> LorieBuffer option \<Rightarrow> int \<times> nat \<times> LorieBuffer option" where
  "LorieBuffer_lock os buffer =
     (case buffer of None \<Rightarrow> (ENODEV, 0, None)
      | Some b \<Rightarrow>
          if lb_locked b then (EEXIST, lb_lockedData b, Some b)
          else let (ret, data) =
                 (if lb_dmaBuf b then (os_syncStart os, lb_data b)
                  else if lb_type b = LORIEBUFFER_REGULAR \<or> lb_type b = LORIEBUFFER_FD then (0, lb_data b)
                  else if lb_type b = LORIEBUFFER_AHARDWAREBUFFER
                  then (if os_android26 os then os_hardwareLock os else (ENOSYS, 0))
                  else (0, lb_lockedData b))
               in if ret \<noteq> 0 then (ret, 0, Some (b\<lparr>lb_lockedData := 0\<rparr>))
                  else (0, data, Some (b\<lparr>lb_lockedData := data, lb_locked := True\<rparr>)))"

definition LorieBuffer_unlock :: "osAnswers \<Rightarrow> LorieBuffer option \<Rightarrow> int \<times> LorieBuffer option" where
  "LorieBuffer_unlock os buffer =
     (case buffer of None \<Rightarrow> (ENODEV, None)
      | Some b \<Rightarrow>
          if \<not> lb_locked b then (ENOENT, Some b)
          else let ret = (if lb_dmaBuf b then os_syncEnd os
                          else if lb_type b = LORIEBUFFER_AHARDWAREBUFFER \<and> os_android26 os then os_hardwareUnlock os
                          else 0)
               in (ret, Some (b\<lparr>lb_lockedData := 0, lb_locked := False\<rparr>)))"

section \<open>Exchange over a socket\<close>

record LorieBufferWire =
  wi_id :: nat
  wi_offset :: nat
  wi_width :: int
  wi_height :: int
  wi_stride :: int
  wi_format :: nat
  wi_type :: nat
  wi_reserved :: nat

datatype sendHandle = SendFd int | SendHardware nat

text \<open>
  The metadata and the handle that follow each other on the socket; \<open>metadataOk\<close> and \<open>handleOk\<close>
  are the results of the two transfers.
\<close>

definition LorieBuffer_sendHandleToUnixSocket ::
    "osAnswers \<Rightarrow> bool \<Rightarrow> bool \<Rightarrow> int \<Rightarrow> LorieBuffer option \<Rightarrow> bool \<times> LorieBufferWire option \<times> sendHandle option" where
  "LorieBuffer_sendHandleToUnixSocket os metadataOk handleOk socketFd buffer =
     (case buffer of None \<Rightarrow> (False, None, None)
      | Some b \<Rightarrow>
          if socketFd < 0 \<or> (lb_type b \<noteq> LORIEBUFFER_FD \<and> lb_type b \<noteq> LORIEBUFFER_AHARDWAREBUFFER) then (False, None, None)
          else let wire = \<lparr>wi_id = lb_id b, wi_offset = u64 (lb_offset b), wi_width = lb_width b,
                           wi_height = lb_height b, wi_stride = lb_stride b, wi_format = lb_format b,
                           wi_type = lb_type b, wi_reserved = 0\<rparr>
               in if \<not> metadataOk then (False, None, None)
                  else if lb_type b = LORIEBUFFER_FD then (handleOk, Some wire, Some (SendFd (lb_fd b)))
                  else if os_android26 os then (handleOk, Some wire, Some (SendHardware (lb_hardware b)))
                  else (False, Some wire, None))"

definition offT :: "nat \<Rightarrow> int" where
  "offT o' = (if o' < 2 ^ 63 then int o' else int o' - 2 ^ 64)"

text \<open>
  \<open>wire\<close> is what was read (\<open>None\<close>: the read failed), \<open>fd\<close> the descriptor received, \<open>hardware\<close> the
  hardware buffer received (\<open>None\<close>: an error).  Result: the buffer stored in \<open>outBuffer\<close>.
\<close>

definition LorieBuffer_recvHandleFromUnixSocket ::
    "osAnswers \<Rightarrow> nat \<Rightarrow> LorieBufferWire option \<Rightarrow> int \<Rightarrow> nat option
     \<Rightarrow> LorieBuffer option \<times> bufEffect list \<times> nat" where
  "LorieBuffer_recvHandleFromUnixSocket os nextId wire fd hardware =
     (case wire of None \<Rightarrow> (None, [], nextId)
      | Some w \<Rightarrow>
          if wi_reserved w \<noteq> 0
             \<or> lorieBufferLayout (wi_width w) (wi_stride w) (wi_height w) (wi_offset w) = None
             \<or> u64 (offT (wi_offset w)) \<noteq> wi_offset w then (None, [], nextId)
          else if wi_type w = LORIEBUFFER_FD
          then (if fd < 0 then (None, [], nextId)
                else let (b, e, n) = allocate os nextId (wi_width w) (wi_stride w) (wi_height w) (wi_format w)
                                       LORIEBUFFER_FD 0 fd (offT (wi_offset w)) True
                     in (map_option (\<lambda>b. b\<lparr>lb_id := wi_id w\<rparr>) b, e, n))
          else if wi_type w = LORIEBUFFER_AHARDWAREBUFFER \<and> wi_offset w = 0
          then (if os_android26 os \<and> hardware = None then (None, [], nextId)
                else let h = (if os_android26 os then the hardware else 0);
                         (b, e, n) = LorieBuffer_wrapAHardwareBuffer os nextId h
                     in case b of None \<Rightarrow> (None, e, n)
                        | Some b \<Rightarrow>
                            if lb_width b \<noteq> wi_width w \<or> lb_height b \<noteq> wi_height w \<or> lb_stride b \<noteq> wi_stride w
                               \<or> lb_format b \<noteq> wi_format w
                            then (None, e @ LorieBuffer_free os b, n)
                            else (Some (b\<lparr>lb_id := wi_id w\<rparr>), e, n))
          else (None, [], nextId))"


section \<open>Layout lemmas\<close>

lemma u64_nonneg: "0 \<le> i \<Longrightarrow> i < 2 ^ 64 \<Longrightarrow> u64 i = nat i"
  by (simp add: u64_def)

lemma lorieBufferLayout_Some:
  assumes "h \<le> INT32_MAX"
  shows "lorieBufferLayout w s h off = Some bytes \<longleftrightarrow>
     0 < w \<and> 0 < h \<and> w \<le> s \<and> s \<le> INT32_MAX div 4 \<and> off mod 4 = 0
     \<and> int bytes = ((h - 1) * s + w) * 4 \<and> int off + int bytes \<le> INT64_MAX"
proof (cases "0 < w \<and> 0 < h \<and> w \<le> s \<and> s \<le> INT32_MAX div 4 \<and> off mod 4 = 0")
  case True
  let ?n = "((h - 1) * s + w) * 4"
  have conv: "u64 (h - 1) = nat (h - 1)" "u64 s = nat s" "u64 w = nat w"
    using True assms by (auto intro!: u64_nonneg)
  have "(h - 1) * s \<le> 2147483646 * 536870911" using True assms by (intro mult_mono) auto
  then have small: "?n < 2 ^ 62" "0 \<le> ?n" using True by auto
  have "(u64 (h - 1) * u64 s + u64 w) * 4 = nat ?n"
    using True by (simp add: conv nat_mult_distrib nat_add_distrib)
  then have "(u64 (h - 1) * u64 s + u64 w) * 4 mod 2 ^ 64 = nat ?n"
    using small by (simp add: nat_less_iff)
  then show ?thesis using True small by (auto simp: lorieBufferLayout_def Let_def)
next
  case False
  then show ?thesis by (auto simp: lorieBufferLayout_def)
qed


section \<open>Well-formed buffers\<close>

text \<open>
  A buffer's geometry passes the layout check, and its storage belongs to its type: the pixels of
  mapped storage lie inside the mapping.
\<close>

definition buf_wf :: "LorieBuffer \<Rightarrow> bool" where
  "buf_wf b \<longleftrightarrow> formatOk (lb_format b) \<and>
     (case lorieBufferLayout (lb_width b) (lb_stride b) (lb_height b) (u64 (lb_offset b)) of
        None \<Rightarrow> False
      | Some bytes \<Rightarrow>
          (lb_type b = LORIEBUFFER_REGULAR \<and> lb_data b \<noteq> 0)
          \<or> (lb_type b = LORIEBUFFER_FD \<and> lb_fd b \<ge> 0 \<and> lb_mapping b \<le> lb_data b
             \<and> lb_data b + bytes \<le> lb_mapping b + lb_size b)
          \<or> (lb_type b = LORIEBUFFER_AHARDWAREBUFFER \<and> lb_hardware b \<noteq> 0))"

lemma buf_wf_id [simp]: "buf_wf (b\<lparr>lb_id := i\<rparr>) = buf_wf b"
  by (simp add: buf_wf_def split: option.split)

definition sameGeometry :: "LorieBuffer \<Rightarrow> LorieBuffer \<Rightarrow> bool" where
  "sameGeometry a b \<longleftrightarrow> lb_width a = lb_width b \<and> lb_height a = lb_height b \<and> lb_stride a = lb_stride b
     \<and> lb_format a = lb_format b \<and> lb_type a = lb_type b \<and> lb_offset a = lb_offset b
     \<and> lb_id a = lb_id b \<and> lb_refcount a = lb_refcount b \<and> lb_hardware a = lb_hardware b \<and> lb_locked a = lb_locked b"

lemma mapDescriptor_Inl: "mapDescriptor os b0 bytes offset = Inl b \<Longrightarrow> lb_fd b = lb_fd b0"
  by (auto simp: mapDescriptor_def Let_def split: if_splits option.splits)

lemma mapDescriptor_Inr:
  "mapDescriptor os b0 bytes offset = Inr b \<Longrightarrow>
     sameGeometry b b0 \<and> lb_fd b = lb_fd b0 \<and> 0 \<le> lb_fd b \<and> lb_mapping b \<le> lb_data b
     \<and> lb_data b + bytes \<le> lb_mapping b + lb_size b"
  by (auto simp: mapDescriptor_def Let_def sameGeometry_def split: if_splits option.splits)

lemma allocGeometry_Inl: "allocGeometry os b0 = Inl b \<Longrightarrow> lb_fd b = lb_fd b0"
  by (auto simp: allocGeometry_def Let_def split: if_splits option.splits)

lemma allocGeometry_Inr:
  "allocGeometry os b0 = Inr (b, bytes) \<Longrightarrow>
     lb_fd b = lb_fd b0 \<and> lb_type b = lb_type b0 \<and> lb_offset b = lb_offset b0 \<and> formatOk (lb_format b)
     \<and> lorieBufferLayout (lb_width b) (lb_stride b) (lb_height b) (u64 (lb_offset b)) = Some bytes
     \<and> lb_hardware b = lb_hardware b0 \<and> lb_id b = lb_id b0 \<and> lb_refcount b = lb_refcount b0
     \<and> lb_locked b = lb_locked b0
     \<and> (if lb_type b0 = 3 then lb_hardware b0 \<noteq> 0
        else lb_width b = lb_width b0 \<and> lb_height b = lb_height b0 \<and> lb_stride b = lb_stride b0
             \<and> lb_format b = lb_format b0)"
  by (auto simp: allocGeometry_def Let_def split: if_splits option.splits)

lemma allocStorage_Inl:
  "allocStorage os b0 bytes fd takeFd = Inl b \<Longrightarrow>
     lb_fd b = lb_fd b0 \<or> (\<not> takeFd \<and> lb_fd b = os_dupFd os fd)"
  by (auto simp: allocStorage_def dest!: mapDescriptor_Inl split: if_splits)

lemma allocStorage_Inr:
  assumes "allocStorage os b0 bytes fd takeFd = Inr b"
  shows "sameGeometry b b0 \<and> (lb_fd b = lb_fd b0 \<or> (\<not> takeFd \<and> lb_fd b = os_dupFd os fd))
     \<and> (lb_type b0 = 1 \<and> lb_data b \<noteq> 0
        \<or> lb_type b0 = 2 \<and> 0 \<le> lb_fd b \<and> lb_mapping b \<le> lb_data b \<and> lb_data b + bytes \<le> lb_mapping b + lb_size b
        \<or> lb_type b0 = 3)"
  using assms
  by (auto simp: allocStorage_def sameGeometry_def dest!: mapDescriptor_Inr split: if_splits)

text \<open>The two outcomes of an allocation.\<close>

lemma allocate_None:
  assumes "allocate os nextId w s h f type buf fd off takeFd = (None, eff, n)"
  shows "\<exists>b. eff = allocFail os b type buf
           \<and> (lb_fd b = (if takeFd then fd else -1) \<or> (\<not> takeFd \<and> lb_fd b = os_dupFd os fd))"
proof -
  have "lb_fd (allocInit nextId w s h f type buf fd off takeFd) = (if takeFd then fd else -1)"
    by (simp add: allocInit_def)
  then show ?thesis using assms unfolding allocate_def Let_def
    by (fastforce dest: allocGeometry_Inl allocGeometry_Inr allocStorage_Inl allocStorage_Inr
        split: sum.splits if_splits)
qed

lemma allocate_Some:
  assumes "allocate os nextId w s h f type buf fd off takeFd = (Some b, eff, n)"
  shows "buf_wf b \<and> eff = [] \<and> lb_refcount b = 1 \<and> \<not> lb_locked b \<and> lb_id b = nextId \<and> lb_type b = type
     \<and> lb_offset b = off \<and> (takeFd \<longrightarrow> lb_fd b = fd)
     \<and> (type \<noteq> 3 \<longrightarrow> lb_width b = w \<and> lb_height b = h \<and> lb_stride b = s \<and> lb_format b = f)"
proof -
  let ?b0 = "allocInit nextId w s h f type buf fd off takeFd"
  obtain b1 bytes where g: "allocGeometry os ?b0 = Inr (b1, bytes)"
    and st: "allocStorage os b1 bytes fd takeFd = Inr b" and eff: "eff = []"
    using assms unfolding allocate_def Let_def by (auto split: sum.splits if_splits)
  note G = allocGeometry_Inr [OF g] and S = allocStorage_Inr [OF st]
  from S have "sameGeometry b b1" by blast
  with G S eff show ?thesis unfolding buf_wf_def sameGeometry_def by (auto simp: allocInit_def)
qed


lemma mapDescriptor_ok:
  assumes "0 \<le> lb_fd b" "os_fstatSize os = Some extent" "os_mmap os = Some m" "0 < os_page os" "os_page os \<le> 2 ^ 20"
    and "0 \<le> off" "0 < bytes" "off + int bytes \<le> extent" "off + int bytes \<le> INT64_MAX"
    and "os_syncStart os \<noteq> 0 \<or> os_syncEnd os = 0"
  shows "\<exists>b'. mapDescriptor os b bytes off = Inr b'"
proof -
  have "(u64 off + bytes) mod 2 ^ 64 = nat (off + int bytes)"
    using assms(6, 9) by (simp add: u64_nonneg nat_add_distrib nat_less_iff)
  then have fits: "\<not> (u64 off + bytes) mod 2 ^ 64 > nat extent" "extent > 0" using assms(6-8) by auto
  have "off mod os_page os < 2 ^ 20" using assms(4, 5) by (meson less_le_trans pos_mod_bound)
  then have delta: "\<not> bytes > 2 ^ 64 - 1 - nat (off mod os_page os)"
    using assms(4, 6, 9) by (simp add: nat_less_iff not_less)
  show ?thesis
    using assms fits delta unfolding mapDescriptor_def by (simp add: Let_def)
qed

lemma allocate_descriptor_ok:
  assumes "formatOk f" "lorieBufferLayout w s h (u64 off) = Some bytes" "0 \<le> fd"
    and "\<And>b. lb_fd b = fd \<Longrightarrow> \<exists>b'. mapDescriptor os b bytes off = Inr b'" "os_callocBuffer os"
  shows "\<exists>b n. allocate os nextId w s h f 2 0 fd off True = (Some b, [], n)"
proof -
  let ?b = "allocInit nextId w s h f 2 0 fd off True"
  have "allocGeometry os ?b = Inr (?b, bytes)" using assms(1, 2) by (simp add: allocGeometry_def allocInit_def)
  moreover obtain b' where "mapDescriptor os ?b bytes off = Inr b'" using assms(4) [of ?b] by (auto simp: allocInit_def)
  then have "allocStorage os ?b bytes fd True = Inr b'" by (simp add: allocStorage_def allocInit_def)
  ultimately show ?thesis using assms(5) by (simp add: allocate_def)
qed

section \<open>Copies and references\<close>

lemma copyRows_pixel:
  assumes "width \<le> dstStride" "x < width" "y < height"
  shows "copyRows width height srcStride dstStride src dst (y * dstStride + x) = src (y * srcStride + x)"
proof -
  let ?f = "\<lambda>(y, x). y * dstStride + x" and ?g = "\<lambda>(y, x). src (y * srcStride + x)"
  let ?xs = "List.product [0..<height] [0..<width]"
  have inj: "inj_on ?f (set ?xs)"
    using assms(1) by (intro inj_onI) (auto dest!: row_major_inj [rotated 2])
  have "(\<lambda>(y, x) d. d(y * dstStride + x := src (y * srcStride + x))) = (\<lambda>p d. d(?f p := ?g p))"
    by (auto simp: fun_eq_iff)
  then show ?thesis
    using fold_fun_upd_at [OF inj, of "(y, x)" ?g dst] assms(2, 3) by (simp add: copyRows_def)
qed

datatype refOp = Acquire | Release

fun runRefs :: "osAnswers \<Rightarrow> nat \<Rightarrow> refOp list \<Rightarrow> bufStore \<Rightarrow> bufStore \<times> bufEffect list" where
  "runRefs os p [] st = (st, [])"
| "runRefs os p (Acquire # ops) st = runRefs os p ops (LorieBuffer_acquire p st)"
| "runRefs os p (Release # ops) st =
     (let (st1, e1) = LorieBuffer_release os p st; (st2, e2) = runRefs os p ops st1 in (st2, e1 @ e2))"

fun balance :: "refOp list \<Rightarrow> int" where
  "balance [] = 0"
| "balance (Acquire # ops) = balance ops + 1"
| "balance (Release # ops) = balance ops - 1"

text \<open>No prefix before the end drops the last reference.\<close>

fun heldUntilEnd :: "int \<Rightarrow> refOp list \<Rightarrow> bool" where
  "heldUntilEnd n [] = True"
| "heldUntilEnd n (Acquire # ops) = (n > 0 \<and> heldUntilEnd (n + 1) ops)"
| "heldUntilEnd n (Release # ops) = (n > 0 \<and> heldUntilEnd (n - 1) ops)"

lemma heldUntilEnd_balance: "heldUntilEnd n ops \<Longrightarrow> 0 \<le> n \<Longrightarrow> 0 \<le> n + balance ops"
  by (induction n ops rule: heldUntilEnd.induct) auto

lemma heldUntilEnd_0: "heldUntilEnd 0 ops \<Longrightarrow> ops = []"
  by (cases ops rule: balance.cases) auto

lemma runRefs_result:
  assumes "bs_heap st p = Some b" "lb_refcount b > 0" "heldUntilEnd (lb_refcount b) ops"
    and "runRefs os p ops st = (st', e)"
  shows "if lb_refcount b + balance ops > 0
         then bs_heap st' p = Some (b\<lparr>lb_refcount := lb_refcount b + balance ops\<rparr>) \<and> e = []
              \<and> bs_lists st' = bs_lists st
         else bs_heap st' p = None \<and> (\<forall>l. p \<notin> set (bs_lists st' l)) \<and> e = LorieBuffer_free os (b\<lparr>lb_refcount := 0\<rparr>)"
  using assms
proof (induction ops arbitrary: st b e rule: balance.induct)
  case (2 ops)
  from 2(1) [of "LorieBuffer_acquire p st" "b\<lparr>lb_refcount := lb_refcount b + 1\<rparr>" e] 2(2-)
  show ?case by (simp add: LorieBuffer_acquire_def add.commute add.left_commute)
next
  case (3 ops)
  show ?case
  proof (cases "lb_refcount b = 1")
    case True
    with 3 heldUntilEnd_0 have "ops = []" by simp
    with 3 True show ?thesis by (auto simp: LorieBuffer_release_def listDel_def)
  next
    case False
    let ?b = "b\<lparr>lb_refcount := lb_refcount b - 1\<rparr>" and ?st = "st\<lparr>bs_heap := (bs_heap st)(p \<mapsto> b\<lparr>lb_refcount := lb_refcount b - 1\<rparr>)\<rparr>"
    have rel: "LorieBuffer_release os p st = (?st, [])" using 3(2) False by (simp add: LorieBuffer_release_def)
    have "lb_refcount ?b + balance ops = lb_refcount b + balance (Release # ops)" by simp
    with 3(1) [of ?st ?b e] 3(2-) False rel show ?thesis by (simp split: prod.splits)
  qed
qed auto

section \<open>Properties\<close>

text \<open>
  a geometry that passes the layout check has an exact byte size, computed without any
  wrap-around, that covers the four bytes of every pixel, and together with its offset stays
  within the signed 64-bit file range.
\<close>

theorem buffer_layout_covers_pixels:
  assumes "lorieBufferLayout width stride height offset = Some bytes" "height \<le> INT32_MAX"
    and "0 \<le> x" "x < width" "0 \<le> y" "y < height"
  shows "int bytes = ((height - 1) * stride + width) * 4 \<and> (y * stride + x) * 4 + 4 \<le> int bytes
         \<and> int offset + int bytes \<le> INT64_MAX \<and> offset mod 4 = 0"
proof -
  from assms(1) have ok: "0 < width" "width \<le> stride" "offset mod 4 = 0"
    "int bytes = ((height - 1) * stride + width) * 4" "int offset + int bytes \<le> INT64_MAX"
    by (simp_all add: lorieBufferLayout_Some [OF assms(2)])
  have "y * stride \<le> (height - 1) * stride" using ok assms(6) by (intro mult_right_mono) auto
  moreover have "p \<le> q \<Longrightarrow> x < width \<Longrightarrow> (p + x) * 4 + 4 \<le> (q + width) * 4" for p q :: int by simp
  ultimately have "(y * stride + x) * 4 + 4 \<le> ((height - 1) * stride + width) * 4" using assms(4) by blast
  with ok show ?thesis by simp
qed

theorem buffer_layout_covers_pixels_witness:
  "lorieBufferLayout 3 4 2 8 = Some 28 \<and> (1 * 4 + 2) * 4 + 4 \<le> int 28"
proof -
  have l: "lorieBufferLayout 3 4 2 8 = Some 28" by (simp add: lorieBufferLayout_Some)
  from buffer_layout_covers_pixels [OF l, of 2 1] l show ?thesis by simp
qed

text \<open>
  ownership of an allocation: a buffer that is returned is well formed, has one reference, a
  fresh identity and nothing was released; on failure a descriptor that was handed over is closed
  exactly once, a borrowed one is not closed, and a hardware buffer handed over is released
  exactly once.
\<close>

theorem allocate_ownership:
  assumes "allocate os nextId w s h f type buf fd off takeFd = (r, eff, n)"
  shows "case r of
      Some b \<Rightarrow> buf_wf b \<and> lb_refcount b = 1 \<and> \<not> lb_locked b \<and> lb_id b = nextId \<and> eff = []
    | None \<Rightarrow>
        (takeFd \<and> fd \<ge> 0 \<longrightarrow> count_list eff (CloseFd fd) = 1)
        \<and> (\<not> takeFd \<and> fd \<ge> 0 \<and> os_dupFd os fd \<noteq> fd \<longrightarrow> CloseFd fd \<notin> set eff)
        \<and> (buf \<noteq> 0 \<and> os_android26 os \<longrightarrow> count_list eff (ReleaseHardware buf) = 1)"
proof (cases r)
  case None
  with allocate_None [of os nextId w s h f type buf fd off takeFd eff n] assms obtain b where
    eff: "eff = allocFail os b type buf"
    and fd: "lb_fd b = (if takeFd then fd else -1) \<or> (\<not> takeFd \<and> lb_fd b = os_dupFd os fd)" by auto
  show ?thesis
    by (cases takeFd) (use fd in \<open>auto simp: None eff allocFail_def\<close>)
next
  case (Some b)
  with allocate_Some [of os nextId w s h f type buf fd off takeFd b eff n] assms show ?thesis by simp
qed

definition demoOs :: osAnswers where
  "demoOs = \<lparr>os_android26 = True,
     os_describe = \<lparr>hw_layers = 1, hw_width = 2, hw_height = 2, hw_stride = 4, hw_format = 1\<rparr>,
     os_callocData = 4096, os_callocBuffer = True, os_dupFd = (\<lambda>fd. fd + 1), os_fstatSize = Some 4096,
     os_ashmemSize = 0, os_page = 4096, os_mmap = Some 65536, os_syncStart = 22, os_syncEnd = 0,
     os_region = (\<lambda>_. 9), os_hardware = Some 5, os_hardwareLock = (0, 77), os_hardwareUnlock = 0,
     os_dmaAllocate = 11, os_fresh = (\<lambda>_. 0)\<rparr>"

theorem allocate_ownership_witness:
  "\<exists>eff. allocate (demoOs\<lparr>os_mmap := None\<rparr>) 0 2 2 2 1 2 0 7 0 True = (None, eff, 1)
         \<and> count_list eff (CloseFd 7) = 1"
proof -
  have a: "allocate (demoOs\<lparr>os_mmap := None\<rparr>) 0 2 2 2 1 2 0 7 0 True = (None, [CloseFd 7], 1)"
    by (simp add: allocate_def allocInit_def allocGeometry_def allocStorage_def mapDescriptor_def formatOk_def
        lorieBufferLayout_def u64_def demoOs_def allocFail_def)
  from allocate_ownership [OF a] a show ?thesis by auto
qed

text \<open>
  C24: promoting a buffer to DMA storage keeps every pixel, the size, the format and the identity;
  only the pitch changes, to a multiple of 64 pixels; it happens only to unshared, unlocked
  regular storage, whose old memory is freed, and the result is a well-formed buffer.
\<close>

theorem make_dma_buf_preserves_pixels:
  assumes "LorieBuffer_makeDmaBuf os (Some b) = (True, Some b', eff)" "\<not> lb_dmaBuf b" "buf_wf b"
    and "lb_height b \<le> INT32_MAX" "lb_offset b = 0" "0 \<le> x" "x < lb_width b" "0 \<le> y" "y < lb_height b"
  shows "lb_pixels b' (nat y * nat (lb_stride b') + nat x) = lb_pixels b (nat y * nat (lb_stride b) + nat x)
         \<and> lb_width b' = lb_width b \<and> lb_height b' = lb_height b \<and> lb_format b' = lb_format b
         \<and> lb_id b' = lb_id b \<and> lb_stride b' mod 64 = 0 \<and> lb_width b \<le> lb_stride b'
         \<and> lb_type b = 1 \<and> lb_refcount b = 1 \<and> \<not> lb_locked b \<and> eff = [FreeData (lb_data b)] \<and> buf_wf b'"
proof -
  let ?s = "(lb_width b + 63) div 64 * 64"
  obtain bytes m where l: "lorieBufferLayout ?s ?s (lb_height b) 0 = Some bytes"
    and b': "b' = b\<lparr>lb_type := 2, lb_data := m, lb_stride := ?s, lb_mapping := m, lb_size := bytes,
        lb_fd := os_dmaAllocate os, lb_dmaBuf := True,
        lb_pixels := copyRows (nat (lb_width b)) (nat (lb_height b)) (nat (lb_stride b)) (nat ?s)
          (lb_pixels b) (os_fresh os)\<rparr>"
    and ok: "lb_type b = 1" "lb_refcount b = 1" "\<not> lb_locked b" "eff = [FreeData (lb_data b)]" "os_dmaAllocate os \<ge> 0"
    using assms(1, 2) by (auto simp: LorieBuffer_makeDmaBuf_def Let_def split: if_splits option.splits)
  have lay: "0 < ?s" "lb_width b \<le> ?s" using assms(6, 7) by linarith+
  have "nat (lb_width b) \<le> nat ?s" using lay by simp
  then have "lb_pixels b' (nat y * nat ?s + nat x) = lb_pixels b (nat y * nat (lb_stride b) + nat x)"
    unfolding b' using copyRows_pixel [of "nat (lb_width b)" "nat ?s" "nat x" "nat y" "nat (lb_height b)"] assms(6-9)
    by simp
  moreover have "buf_wf b'"
  proof -
    let ?n = "nat (((lb_height b - 1) * ?s + lb_width b) * 4)"
    have bytes: "?s \<le> INT32_MAX div 4" "int bytes = ((lb_height b - 1) * ?s + ?s) * 4" "int bytes \<le> INT64_MAX"
      using l by (simp_all add: lorieBufferLayout_Some [OF assms(4)])
    have pos: "0 \<le> (lb_height b - 1) * ?s" using lay(1) assms(8, 9) by simp
    moreover have "0 \<le> q \<Longrightarrow> w \<le> t \<Longrightarrow> (q + w) * 4 \<le> (q + t) * 4" for q w t :: int by simp
    ultimately have n: "((lb_height b - 1) * ?s + lb_width b) * 4 \<le> int bytes"
      unfolding bytes(2) using lay(2) by blast
    moreover have "0 \<le> ((lb_height b - 1) * ?s + lb_width b) * 4" using pos assms(6, 7) by simp
    ultimately have "lorieBufferLayout (lb_width b) ?s (lb_height b) 0 = Some ?n" and "?n \<le> bytes"
      unfolding lorieBufferLayout_Some [OF assms(4)] using bytes lay assms(6-9) by (simp_all add: nat_le_iff)
    then show ?thesis using assms(3, 5) ok by (auto simp: buf_wf_def b' u64_def split: option.splits)
  qed
  ultimately show ?thesis using ok lay by (simp add: b')
qed


definition demoBuffer :: LorieBuffer where
  "demoBuffer = (allocInit 3 2 2 2 1 1 0 (-1) 0 True)\<lparr>lb_data := 4096, lb_pixels := of_nat\<rparr>"

theorem make_dma_buf_preserves_pixels_witness:
  "\<exists>b' eff. LorieBuffer_makeDmaBuf (demoOs\<lparr>os_syncStart := 0\<rparr>) (Some demoBuffer) = (True, Some b', eff)
     \<and> lb_pixels b' (1 * 64 + 1) = 3 \<and> lb_stride b' = 64"
proof -
  have "fst (LorieBuffer_makeDmaBuf (demoOs\<lparr>os_syncStart := 0\<rparr>) (Some demoBuffer))"
    and "\<exists>b'. fst (snd (LorieBuffer_makeDmaBuf (demoOs\<lparr>os_syncStart := 0\<rparr>) (Some demoBuffer))) = Some b' \<and> lb_stride b' = 64"
    by (simp_all add: LorieBuffer_makeDmaBuf_def demoOs_def demoBuffer_def allocInit_def lorieBufferLayout_def u64_def)
  then obtain b' eff where r: "LorieBuffer_makeDmaBuf (demoOs\<lparr>os_syncStart := 0\<rparr>) (Some demoBuffer) = (True, Some b', eff)"
    and s: "lb_stride b' = 64"
    by (metis (full_types) prod.collapse)
  have wf: "buf_wf demoBuffer" "\<not> lb_dmaBuf demoBuffer"
    by (simp_all add: buf_wf_def demoBuffer_def allocInit_def formatOk_def lorieBufferLayout_def u64_def)
  have "lb_pixels b' (1 * 64 + 1) = lb_pixels demoBuffer 3"
    using make_dma_buf_preserves_pixels [OF r wf(2, 1), of 1 1] s by (simp add: demoBuffer_def allocInit_def)
  with r s show ?thesis by (auto simp: demoBuffer_def)
qed

text \<open>
  C21: a buffer lives exactly as long as it is referenced: over any sequence of acquisitions and
  releases that never drops the last reference before its end, it keeps its contents and list
  membership with the exact count and nothing is freed; when the count reaches zero it is unlinked
  from every list and its storage is freed exactly once.
\<close>

theorem buffer_freed_with_last_reference:
  assumes "bs_heap st p = Some b" "lb_refcount b > 0" "heldUntilEnd (lb_refcount b) ops"
    and "runRefs os p ops st = (st', e)"
  shows "if lb_refcount b + balance ops > 0
         then bs_heap st' p = Some (b\<lparr>lb_refcount := lb_refcount b + balance ops\<rparr>) \<and> e = []
              \<and> bs_lists st' = bs_lists st
         else bs_heap st' p = None \<and> (\<forall>l. p \<notin> set (bs_lists st' l)) \<and> e = LorieBuffer_free os (b\<lparr>lb_refcount := 0\<rparr>)"
  by (rule runRefs_result [OF assms])

theorem buffer_freed_with_last_reference_witness:
  "snd (runRefs demoOs 5 [Acquire, Release, Release] \<lparr>bs_heap = [5 \<mapsto> demoBuffer], bs_lists = (\<lambda>_. [5])\<rparr>)
     = [FreeData 4096]"
proof -
  let ?st = "\<lparr>bs_heap = [5 \<mapsto> demoBuffer], bs_lists = (\<lambda>_. [5])\<rparr>"
  obtain st' e where r: "runRefs demoOs 5 [Acquire, Release, Release] ?st = (st', e)"
    by (cases "runRefs demoOs 5 [Acquire, Release, Release] ?st")
  have "e = LorieBuffer_free demoOs (demoBuffer\<lparr>lb_refcount := 0\<rparr>)"
    using buffer_freed_with_last_reference [OF _ _ _ r, of demoBuffer] by (simp add: demoBuffer_def allocInit_def)
  with r show ?thesis by (simp add: LorieBuffer_free_def demoBuffer_def allocInit_def)
qed

text \<open>
  C18: a buffer backed by a descriptor that is sent and received keeps its identity, geometry,
  format and offset; the receiver owns the descriptor it got, and its storage is well formed.
\<close>

theorem buffer_exchange_roundtrip:
  assumes "buf_wf b" "lb_type b = 2" "0 \<le> lb_offset b" "lb_offset b < 2 ^ 63" "lb_height b \<le> INT32_MAX"
    and "LorieBuffer_sendHandleToUnixSocket os True True sock (Some b) = (True, Some wire, Some (SendFd (lb_fd b)))"
    and "0 \<le> fd" "os_fstatSize os' = Some extent" "os_mmap os' = Some m" "0 < os_page os'" "os_page os' \<le> 2 ^ 20"
    and "int bytes = ((lb_height b - 1) * lb_stride b + lb_width b) * 4" "lb_offset b + int bytes \<le> extent"
    and "os_syncStart os' \<noteq> 0 \<or> os_syncEnd os' = 0" "os_callocBuffer os'"
  shows "\<exists>b' n. LorieBuffer_recvHandleFromUnixSocket os' nextId (Some wire) fd None = (Some b', [], n)
     \<and> buf_wf b' \<and> lb_fd b' = fd \<and> lb_id b' = lb_id b \<and> lb_width b' = lb_width b \<and> lb_height b' = lb_height b
     \<and> lb_stride b' = lb_stride b \<and> lb_format b' = lb_format b \<and> lb_offset b' = lb_offset b \<and> lb_type b' = 2"
proof -
  let ?o = "nat (lb_offset b)"
  have o: "u64 (lb_offset b) = ?o" "offT ?o = lb_offset b" using assms(3, 4) by (auto simp: u64_def offT_def)
  have wire: "wire = \<lparr>wi_id = lb_id b, wi_offset = ?o, wi_width = lb_width b, wi_height = lb_height b,
      wi_stride = lb_stride b, wi_format = lb_format b, wi_type = 2, wi_reserved = 0\<rparr>"
    using assms(2, 6) by (auto simp: LorieBuffer_sendHandleToUnixSocket_def o Let_def split: if_splits)
  obtain n where n: "lorieBufferLayout (lb_width b) (lb_stride b) (lb_height b) ?o = Some n" and f: "formatOk (lb_format b)"
    using assms(1) by (auto simp: buf_wf_def o split: option.splits)
  then have "int n = int bytes" "0 < lb_width b" "0 < lb_height b" "lb_width b \<le> lb_stride b"
    and lim: "lb_offset b + int n \<le> INT64_MAX"
    using assms(3, 12) by (simp_all add: lorieBufferLayout_Some [OF assms(5)])
  moreover from this have "0 \<le> (lb_height b - 1) * lb_stride b" by simp
  ultimately have "0 < ((lb_height b - 1) * lb_stride b + lb_width b) * 4"
    by (metis add_nonneg_pos mult_pos_pos zero_less_numeral)
  with \<open>int n = int bytes\<close> assms(12) have nb: "n = bytes" "0 < bytes" by simp_all
  have "\<exists>b'. mapDescriptor os' c bytes (lb_offset b) = Inr b'" if "lb_fd c = fd" for c
    by (rule mapDescriptor_ok) (use that assms nb lim in auto)
  then obtain b' k where a: "allocate os' nextId (lb_width b) (lb_stride b) (lb_height b) (lb_format b) 2 0 fd (lb_offset b) True
      = (Some b', [], k)"
    using allocate_descriptor_ok [OF f _ assms(7) _ assms(15)] n nb(1) o(1) by metis
  note A = allocate_Some [OF a]
  have "LorieBuffer_recvHandleFromUnixSocket os' nextId (Some wire) fd None = (Some (b'\<lparr>lb_id := lb_id b\<rparr>), [], k)"
    using assms(7) n o a by (simp add: LorieBuffer_recvHandleFromUnixSocket_def wire)
  moreover have "buf_wf (b'\<lparr>lb_id := lb_id b\<rparr>)" using A by simp
  ultimately show ?thesis using A by auto
qed


definition demoShared :: LorieBuffer where
  "demoShared = (allocInit 3 2 2 2 1 2 0 9 0 True)\<lparr>lb_data := 65536, lb_mapping := 65536, lb_size := 16\<rparr>"

theorem buffer_exchange_roundtrip_witness:
  "\<exists>wire b' n. LorieBuffer_sendHandleToUnixSocket demoOs True True 4 (Some demoShared) = (True, Some wire, Some (SendFd 9))
     \<and> LorieBuffer_recvHandleFromUnixSocket demoOs 0 (Some wire) 12 None = (Some b', [], n)
     \<and> lb_fd b' = 12 \<and> lb_id b' = 3 \<and> lb_stride b' = 2"
proof -
  have sh: "lb_fd demoShared = 9" "lb_type demoShared = 2" "lb_offset demoShared = 0" "lb_id demoShared = 3"
    "lb_stride demoShared = 2" "lb_width demoShared = 2" "lb_height demoShared = 2"
    by (simp_all add: demoShared_def allocInit_def)
  have wf: "buf_wf demoShared"
    by (simp add: buf_wf_def demoShared_def allocInit_def formatOk_def lorieBufferLayout_def u64_def)
  obtain wire where w: "LorieBuffer_sendHandleToUnixSocket demoOs True True 4 (Some demoShared)
      = (True, Some wire, Some (SendFd (lb_fd demoShared)))"
    by (simp add: LorieBuffer_sendHandleToUnixSocket_def sh)
  have "\<exists>b' n. LorieBuffer_recvHandleFromUnixSocket demoOs 0 (Some wire) 12 None = (Some b', [], n)
     \<and> buf_wf b' \<and> lb_fd b' = 12 \<and> lb_id b' = lb_id demoShared \<and> lb_width b' = lb_width demoShared
     \<and> lb_height b' = lb_height demoShared \<and> lb_stride b' = lb_stride demoShared \<and> lb_format b' = lb_format demoShared
     \<and> lb_offset b' = lb_offset demoShared \<and> lb_type b' = 2"
    by (rule buffer_exchange_roundtrip [OF wf _ _ _ _ w, where bytes = 16 and extent = 4096 and m = 65536])
      (simp_all add: sh demoOs_def)
  with w sh show ?thesis by auto
qed

text \<open>
  CPU access is exclusive: a successful lock yields the storage pointer and marks the buffer,
  a second lock is refused with the same pointer and no change, unlocking clears the mark, and
  unlocking an unlocked buffer is refused without change.
\<close>

theorem lock_exclusive:
  assumes "LorieBuffer_lock os (Some b) = (0, ptr, Some b')"
  shows "\<not> lb_locked b \<and> lb_locked b' \<and> LorieBuffer_lock os' (Some b') = (EEXIST, ptr, Some b')
         \<and> (\<exists>ret. LorieBuffer_unlock os'' (Some b') = (ret, Some (b'\<lparr>lb_locked := False, lb_lockedData := 0\<rparr>)))
         \<and> LorieBuffer_unlock os'' (Some (b'\<lparr>lb_locked := False\<rparr>)) = (ENOENT, Some (b'\<lparr>lb_locked := False\<rparr>))
         \<and> (lb_type b = 1 \<or> lb_type b = 2 \<longrightarrow> ptr = lb_data b)"
  using assms
  by (auto simp: LorieBuffer_lock_def LorieBuffer_unlock_def Let_def split: if_splits prod.splits)

theorem lock_exclusive_witness:
  "\<exists>b'. LorieBuffer_lock demoOs (Some demoBuffer) = (0, 4096, Some b') \<and> LorieBuffer_lock demoOs (Some b') = (EEXIST, 4096, Some b')"
proof -
  obtain b' where l: "LorieBuffer_lock demoOs (Some demoBuffer) = (0, 4096, Some b')"
    by (simp add: LorieBuffer_lock_def demoBuffer_def allocInit_def)
  from lock_exclusive [OF l, where os' = demoOs] l show ?thesis by auto
qed

end
