(* ===== verification/Direct_Input.thy ===== *)
theory Direct_Input
  imports Lorie_Prelude Complex_Main
begin

text \<open>
  Touch contacts and tablet tools: \<open>direct_input.c\<close>.  Twenty contact slots and two tools (pen and
  eraser) are leased to outputs.  Floating-point inputs are a rational number or not finite; the
  positions put on the event queue are kept exact, and the conversion of a tilt to degrees is the
  argument \<open>degrees\<close>.  Events for the X server's devices are appended to \<open>di_out\<close>.
\<close>

datatype floatVal = Finite rat | NotFinite

abbreviation (input) LORIE_TOUCH_BEGIN :: nat where "LORIE_TOUCH_BEGIN \<equiv> 0"
abbreviation (input) LORIE_TOUCH_UPDATE :: nat where "LORIE_TOUCH_UPDATE \<equiv> 1"
abbreviation (input) LORIE_TOUCH_END :: nat where "LORIE_TOUCH_END \<equiv> 2"

type_synonym position = "rat list"

record Contact =
  ct_output :: u32
  ct_contact :: nat
  ct_position :: position

record Tablet =
  tb_output :: u32
  tb_buttons :: u32
  tb_position :: position

datatype touchType = XI_TouchBegin | XI_TouchUpdate | XI_TouchEnd

datatype devEvent =
    TouchEvent touchType nat position
  | ProximityIn nat position
  | ProximityOut nat position
  | TabletMotion nat position
  | TabletButton nat nat bool

record directInput =
  di_contacts :: "Contact list"
  di_tablets :: "Tablet list"
  di_touch :: bool
  di_pen :: bool
  di_eraser :: bool
  di_out :: "devEvent list"

text \<open>The parts of an output command that this module reads.\<close>

record directCommand =
  dc_tablet :: bool
  dc_detail :: nat
  dc_phase :: nat
  dc_pressure :: floatVal
  dc_tiltX :: floatVal
  dc_tiltY :: floatVal
  dc_buttons :: u8
  dc_eraser :: nat
  dc_proximity :: bool

definition noContact :: Contact where
  "noContact = \<lparr>ct_output = 0, ct_contact = 0, ct_position = []\<rparr>"

definition noTablet :: Tablet where
  "noTablet = \<lparr>tb_output = 0, tb_buttons = 0, tb_position = []\<rparr>"

definition emit :: "devEvent list \<Rightarrow> directInput \<Rightarrow> directInput" where
  "emit evs st = st\<lparr>di_out := di_out st @ evs\<rparr>"

definition lorieDirectInputReset :: "directInput \<Rightarrow> directInput" where
  "lorieDirectInputReset st = st\<lparr>di_contacts := replicate 20 noContact, di_tablets := replicate 2 noTablet\<rparr>"

definition lorieDirectInputPressed :: "u32 \<Rightarrow> directInput \<Rightarrow> bool" where
  "lorieDirectInputPressed output st \<longleftrightarrow>
     output \<noteq> 0 \<and>
     ((\<exists>c \<in> set (di_contacts st). ct_output c = output)
      \<or> (\<exists>t \<in> set (di_tablets st). tb_output t = output \<and> has_flag (tb_buttons t) 1))"

definition tabletDevice :: "nat \<Rightarrow> directInput \<Rightarrow> bool" where
  "tabletDevice tool st = (if tool \<noteq> 0 then di_eraser st else di_pen st)"

definition buttonsUp :: "nat \<Rightarrow> u32 \<Rightarrow> devEvent list" where
  "buttonsUp tool buttons =
     map (\<lambda>i. TabletButton tool (i + 1) False) (filter (\<lambda>i. has_flag buttons (push_bit i 1)) [0..<3])"

definition tabletRelease :: "nat \<Rightarrow> directInput \<Rightarrow> directInput" where
  "tabletRelease tool st =
     (let t = di_tablets st ! tool;
          evs = (if tb_output t \<noteq> 0 \<and> tabletDevice tool st
                 then buttonsUp tool (tb_buttons t) @ [ProximityOut tool (tb_position t)] else [])
      in (emit evs st)\<lparr>di_tablets := (di_tablets st)[tool := noTablet]\<rparr>)"

definition releaseContact :: "u32 \<Rightarrow> nat \<Rightarrow> directInput \<Rightarrow> directInput" where
  "releaseContact output i st =
     (if ct_output (di_contacts st ! i) = output \<and> output \<noteq> 0
      then (emit (if di_touch st then [TouchEvent XI_TouchEnd (i + 1) (ct_position (di_contacts st ! i))] else []) st)
             \<lparr>di_contacts := (di_contacts st)[i := noContact]\<rparr>
      else st)"

definition releaseTablet :: "u32 \<Rightarrow> nat \<Rightarrow> directInput \<Rightarrow> directInput" where
  "releaseTablet output i st =
     (if tb_output (di_tablets st ! i) = output \<and> output \<noteq> 0 then tabletRelease i st else st)"

definition lorieDirectInputRelease :: "u32 \<Rightarrow> directInput \<Rightarrow> directInput" where
  "lorieDirectInputRelease output st =
     fold (releaseTablet output) [0..<2] (fold (releaseContact output) [0..<20] st)"

definition pressureOk :: "floatVal \<Rightarrow> rat option" where
  "pressureOk p = (case p of NotFinite \<Rightarrow> None | Finite r \<Rightarrow> if r < 0 \<or> r > 1 then None else Some r)"

definition touchSlot :: "u32 \<Rightarrow> directCommand \<Rightarrow> directInput \<Rightarrow> nat option" where
  "touchSlot output ev st =
     (let slot = find (\<lambda>i. ct_output (di_contacts st ! i) = output
                          \<and> ct_contact (di_contacts st ! i) = dc_detail ev) [0..<20]
      in if dc_phase ev = LORIE_TOUCH_BEGIN
         then (if slot \<noteq> None then None
               else find (\<lambda>i. ct_output (di_contacts st ! i) = 0) [0..<20])
         else slot)"

definition directTouch :: "u32 \<Rightarrow> directCommand \<Rightarrow> int \<Rightarrow> int \<Rightarrow> int \<Rightarrow> int \<Rightarrow> rat \<Rightarrow> directInput \<Rightarrow> directInput" where
  "directTouch output ev width height x y pressure st =
     (if \<not> di_touch st \<or> dc_detail ev > 31 \<or> dc_phase ev > LORIE_TOUCH_END then st
      else case touchSlot output ev st of None \<Rightarrow> st
      | Some slot \<Rightarrow>
          (let pos = [of_int x * 65535 / of_int width, of_int y * 65535 / of_int height, pressure * 65535];
               type = (if dc_phase ev = LORIE_TOUCH_BEGIN then XI_TouchBegin
                       else if dc_phase ev = LORIE_TOUCH_END then XI_TouchEnd else XI_TouchUpdate);
               c = (if dc_phase ev = LORIE_TOUCH_END then noContact
                    else \<lparr>ct_output = output, ct_contact = dc_detail ev, ct_position = pos\<rparr>)
           in (emit [TouchEvent type (slot + 1) pos] st)\<lparr>di_contacts := (di_contacts st)[slot := c]\<rparr>))"

definition clampTilt :: "rat \<Rightarrow> rat" where
  "clampTilt d = max (-64) (min 63 d)"

text \<open>Tip, first and second barrel button become X buttons 1, 3 and 2.\<close>

definition nextButtons :: "u8 \<Rightarrow> u32" where
  "nextButtons b = ucast (b AND 1) OR push_bit 1 (ucast (b AND 2)) OR drop_bit 1 (ucast (b AND 4))"

definition buttonChanges :: "nat \<Rightarrow> u32 \<Rightarrow> u32 \<Rightarrow> devEvent list" where
  "buttonChanges tool old new =
     map (\<lambda>i. TabletButton tool (i + 1) (has_flag new (push_bit i 1)))
       (filter (\<lambda>i. has_flag (old XOR new) (push_bit i 1)) [0..<3])"

text \<open>\<open>stylus\<close> is \<open>lorieSetStylusEnabled(TRUE)\<close>: which of pen and eraser exist afterwards.\<close>

definition directTablet ::
    "(bool \<times> bool \<Rightarrow> bool \<times> bool) \<Rightarrow> (rat \<Rightarrow> rat) \<Rightarrow> u32 \<Rightarrow> directCommand \<Rightarrow> int \<Rightarrow> int \<Rightarrow> int \<Rightarrow> int \<Rightarrow> rat
     \<Rightarrow> rat \<Rightarrow> rat \<Rightarrow> directInput \<Rightarrow> directInput" where
  "directTablet stylus degrees output ev width height x y pressure tiltX tiltY st =
     (let tool = dc_eraser ev
      in if \<not> dc_proximity ev
         then (if tb_output (di_tablets st ! tool) = output then tabletRelease tool st else st)
         else let (pen, eraser) = (if \<not> di_pen st \<or> \<not> di_eraser st then stylus (di_pen st, di_eraser st)
                                   else (di_pen st, di_eraser st));
                  st = st\<lparr>di_pen := pen, di_eraser := eraser\<rparr>
              in if \<not> tabletDevice tool st then st
                 else let other = 1 - tool;
                          st = (if tb_output (di_tablets st ! other) \<noteq> 0 then tabletRelease other st else st);
                          st = (if tb_output (di_tablets st ! tool) \<noteq> 0 \<and> tb_output (di_tablets st ! tool) \<noteq> output
                                then tabletRelease tool st else st);
                          t = di_tablets st ! tool;
                          pos = [of_int x * 0x3FFFF / of_int width, of_int y * 0x3FFFF / of_int height, pressure * 65535,
                                 clampTilt (degrees tiltX), clampTilt (degrees tiltY)];
                          new = nextButtons (dc_buttons ev)
                      in (emit ((if tb_output t = 0 then [ProximityIn tool pos] else [])
                                @ [TabletMotion tool pos] @ buttonChanges tool (tb_buttons t) new) st)
                           \<lparr>di_tablets := (di_tablets st)[tool :=
                              \<lparr>tb_output = output, tb_buttons = new, tb_position = pos\<rparr>]\<rparr>)"

text \<open>\<open>width\<close> and \<open>height\<close> are those of the screen, 0 when there is none.\<close>

definition lorieDirectInput ::
    "(bool \<times> bool \<Rightarrow> bool \<times> bool) \<Rightarrow> (rat \<Rightarrow> rat) \<Rightarrow> int \<Rightarrow> int \<Rightarrow> u32 \<Rightarrow> directCommand \<Rightarrow> int \<Rightarrow> int
     \<Rightarrow> directInput \<Rightarrow> directInput" where
  "lorieDirectInput stylus degrees width height output ev x y st =
     (if output = 0 \<or> width = 0 \<or> height = 0 then st
      else case pressureOk (dc_pressure ev) of None \<Rightarrow> st
      | Some pressure \<Rightarrow>
          if \<not> dc_tablet ev then directTouch output ev width height x y pressure st
          else if dc_buttons ev AND NOT 7 \<noteq> 0 \<or> dc_eraser ev > 1 then st
          else (case (dc_tiltX ev, dc_tiltY ev) of
                  (Finite tx, Finite ty) \<Rightarrow> directTablet stylus degrees output ev width height x y pressure tx ty st
                | _ \<Rightarrow> st))"


section \<open>Pairing of events and leases\<close>

fun touchDelta :: "nat \<Rightarrow> devEvent \<Rightarrow> int" where
  "touchDelta s (TouchEvent XI_TouchBegin i p) = (if i = s then 1 else 0)"
| "touchDelta s (TouchEvent XI_TouchEnd i p) = (if i = s then -1 else 0)"
| "touchDelta s _ = 0"

fun proxDelta :: "nat \<Rightarrow> devEvent \<Rightarrow> int" where
  "proxDelta t (ProximityIn tool p) = (if tool = t then 1 else 0)"
| "proxDelta t (ProximityOut tool p) = (if tool = t then -1 else 0)"
| "proxDelta t _ = 0"

fun buttonDelta :: "nat \<Rightarrow> nat \<Rightarrow> devEvent \<Rightarrow> int" where
  "buttonDelta t n (TabletButton tool b down) = (if tool = t \<and> b = n then (if down then 1 else -1) else 0)"
| "buttonDelta t n _ = 0"

definition net :: "(devEvent \<Rightarrow> int) \<Rightarrow> devEvent list \<Rightarrow> int" where
  "net d evs = sum_list (map d evs)"

lemma net_simps [simp]: "net d [] = 0" "net d (e # evs) = d e + net d evs" "net d (a @ b) = net d a + net d b"
  by (simp_all add: net_def)

text \<open>A slot or tool is leased exactly while the queue holds an unfinished begin for it.\<close>

definition slotOk :: "nat \<Rightarrow> Contact \<Rightarrow> bool \<Rightarrow> devEvent list \<Rightarrow> bool" where
  "slotOk i c touch evs \<longleftrightarrow> net (touchDelta (i + 1)) evs = (if ct_output c \<noteq> 0 then 1 else 0)
                           \<and> (ct_output c \<noteq> 0 \<longrightarrow> touch)"

definition toolOk :: "nat \<Rightarrow> Tablet \<Rightarrow> bool \<Rightarrow> devEvent list \<Rightarrow> bool" where
  "toolOk t tb device evs \<longleftrightarrow> net (proxDelta t) evs = (if tb_output tb \<noteq> 0 then 1 else 0)
     \<and> (\<forall>i<3. net (buttonDelta t (i + 1)) evs = (if bit (tb_buttons tb) i then 1 else 0))
     \<and> (tb_output tb = 0 \<longrightarrow> tb_buttons tb = 0) \<and> (tb_output tb \<noteq> 0 \<longrightarrow> device)"

definition di_wf :: "directInput \<Rightarrow> bool" where
  "di_wf st \<longleftrightarrow> length (di_contacts st) = 20 \<and> length (di_tablets st) = 2
     \<and> (\<forall>i<20. slotOk i (di_contacts st ! i) (di_touch st) (di_out st))
     \<and> (\<forall>i<20. \<forall>j<20. ct_output (di_contacts st ! i) \<noteq> 0 \<and> ct_output (di_contacts st ! i) = ct_output (di_contacts st ! j)
          \<and> ct_contact (di_contacts st ! i) = ct_contact (di_contacts st ! j) \<longrightarrow> i = j)
     \<and> (\<forall>t<2. toolOk t (di_tablets st ! t) (tabletDevice t st) (di_out st))
     \<and> (tb_output (di_tablets st ! 0) = 0 \<or> tb_output (di_tablets st ! 1) = 0)"

lemma has_flag_push: "has_flag (w :: u32) (push_bit i 1) \<longleftrightarrow> bit w i"
  by (simp add: push_bit_eq_mult has_flag_bit)

lemma three: "[0..<3] = [0, 1, 2 :: nat]" "(\<forall>i<3. P i) \<longleftrightarrow> P 0 \<and> P 1 \<and> P (2 :: nat)"
  by (auto simp: upt_rec less_Suc_eq numeral_3_eq_3 numeral_2_eq_2)

lemma net_buttonsUp [simp]:
  "net (touchDelta s) (buttonsUp tool b) = 0"
  "net (proxDelta t) (buttonsUp tool b) = 0"
  "i < 3 \<Longrightarrow> net (buttonDelta t (Suc i)) (buttonsUp tool b) = (if t = tool \<and> bit b i then -1 else 0)"
proof -
  show "net (touchDelta s) (buttonsUp tool b) = 0" "net (proxDelta t) (buttonsUp tool b) = 0"
    by (simp_all add: buttonsUp_def three)
  have "\<forall>i<3. net (buttonDelta t (Suc i)) (buttonsUp tool b) = (if t = tool \<and> bit b i then -1 else 0)"
    unfolding buttonsUp_def has_flag_push by (simp add: three)
  then show "i < 3 \<Longrightarrow> net (buttonDelta t (Suc i)) (buttonsUp tool b) = (if t = tool \<and> bit b i then -1 else 0)" by blast
qed

lemma net_buttonChanges [simp]:
  "net (touchDelta s) (buttonChanges tool a b) = 0"
  "net (proxDelta t) (buttonChanges tool a b) = 0"
  "i < 3 \<Longrightarrow> net (buttonDelta t (Suc i)) (buttonChanges tool a b) =
     (if t = tool then of_bool (bit b i) - of_bool (bit a i) else 0)"
proof -
  show "net (touchDelta s) (buttonChanges tool a b) = 0" "net (proxDelta t) (buttonChanges tool a b) = 0"
    by (simp_all add: buttonChanges_def three)
  have "\<forall>i<3. net (buttonDelta t (Suc i)) (buttonChanges tool a b) =
      (if t = tool then of_bool (bit b i) - of_bool (bit a i) else 0)"
    unfolding buttonChanges_def has_flag_push bit_xor_iff by (simp add: three)
  then show "i < 3 \<Longrightarrow> net (buttonDelta t (Suc i)) (buttonChanges tool a b) =
      (if t = tool then of_bool (bit b i) - of_bool (bit a i) else 0)" by blast
qed

lemma emit_frame [simp, frame_simps]:
  "di_contacts (emit e st) = di_contacts st" "di_tablets (emit e st) = di_tablets st"
  "di_touch (emit e st) = di_touch st" "di_out (emit e st) = di_out st @ e"
  "di_pen (emit e st) = di_pen st" "di_eraser (emit e st) = di_eraser st"
  "tabletDevice t (emit e st) = tabletDevice t st"
  "tabletDevice t (st\<lparr>di_tablets := x\<rparr>) = tabletDevice t st"
  "tabletDevice t (st\<lparr>di_contacts := y\<rparr>) = tabletDevice t st"
  by (simp_all add: emit_def tabletDevice_def)

lemma di_wfD:
  assumes "di_wf st"
  shows "length (di_contacts st) = 20" "length (di_tablets st) = 2"
    and "i < 20 \<Longrightarrow> slotOk i (di_contacts st ! i) (di_touch st) (di_out st)"
    and "i < 20 \<Longrightarrow> j < 20 \<Longrightarrow> ct_output (di_contacts st ! i) \<noteq> 0 \<Longrightarrow>
         ct_output (di_contacts st ! i) = ct_output (di_contacts st ! j) \<Longrightarrow>
         ct_contact (di_contacts st ! i) = ct_contact (di_contacts st ! j) \<Longrightarrow> i = j"
    and "t < 2 \<Longrightarrow> toolOk t (di_tablets st ! t) (tabletDevice t st) (di_out st)"
    and "tb_output (di_tablets st ! 0) = 0 \<or> tb_output (di_tablets st ! 1) = 0"
  using assms unfolding di_wf_def by blast+

lemma di_wfI:
  assumes "length (di_contacts st) = 20" "length (di_tablets st) = 2"
    and "\<And>i. i < 20 \<Longrightarrow> slotOk i (di_contacts st ! i) (di_touch st) (di_out st)"
    and "\<And>i j. i < 20 \<Longrightarrow> j < 20 \<Longrightarrow> ct_output (di_contacts st ! i) \<noteq> 0 \<Longrightarrow>
         ct_output (di_contacts st ! i) = ct_output (di_contacts st ! j) \<Longrightarrow>
         ct_contact (di_contacts st ! i) = ct_contact (di_contacts st ! j) \<Longrightarrow> i = j"
    and "\<And>t. t < 2 \<Longrightarrow> toolOk t (di_tablets st ! t) (tabletDevice t st) (di_out st)"
    and "tb_output (di_tablets st ! 0) = 0 \<or> tb_output (di_tablets st ! 1) = 0"
  shows "di_wf st"
  using assms unfolding di_wf_def by blast

text \<open>Changing one contact slot, with its events, keeps the pairing of everything else.\<close>

lemma contact_step:
  assumes wf: "di_wf st" and "slot < 20"
    and st': "st' = (emit evs st)\<lparr>di_contacts := (di_contacts st)[slot := c]\<rparr>"
    and other: "\<And>s. s \<noteq> slot + 1 \<Longrightarrow> net (touchDelta s) evs = 0" "\<And>t. net (proxDelta t) evs = 0"
      "\<And>t n. net (buttonDelta t n) evs = 0"
    and ok: "slotOk slot c (di_touch st) (di_out st @ evs)"
    and uniq: "\<And>j. j < 20 \<Longrightarrow> j \<noteq> slot \<Longrightarrow> ct_output c \<noteq> 0 \<Longrightarrow> ct_output (di_contacts st ! j) = ct_output c \<Longrightarrow>
        ct_contact (di_contacts st ! j) \<noteq> ct_contact c"
  shows "di_wf st'"
proof (rule di_wfI)
  have nth: "di_contacts st' ! i = (if i = slot then c else di_contacts st ! i)" if "i < 20" for i
    using di_wfD(1) [OF wf] that by (simp add: st' nth_list_update)
  show "slotOk i (di_contacts st' ! i) (di_touch st') (di_out st')" if "i < 20" for i
    using that di_wfD(3) [OF wf that] ok other(1) [of "i + 1"] unfolding nth [OF that]
    by (cases "i = slot") (simp_all add: st' slotOk_def)
  show "toolOk t (di_tablets st' ! t) (tabletDevice t st') (di_out st')" if "t < 2" for t
    using di_wfD(5) [OF wf that] other(2, 3) by (simp add: st' toolOk_def)
  show "i = j" if "i < 20" "j < 20" "ct_output (di_contacts st' ! i) \<noteq> 0"
      "ct_output (di_contacts st' ! i) = ct_output (di_contacts st' ! j)"
      "ct_contact (di_contacts st' ! i) = ct_contact (di_contacts st' ! j)" for i j
  proof (rule ccontr)
    assume "i \<noteq> j"
    then consider "i = slot" "j \<noteq> slot" | "j = slot" "i \<noteq> slot" | "i \<noteq> slot" "j \<noteq> slot" by blast
    then show False
    proof cases
      case 1
      then have "di_contacts st' ! i = c" "di_contacts st' ! j = di_contacts st ! j"
        using nth [OF that(1)] nth [OF that(2)] by simp_all
      then show ?thesis using uniq [OF that(2) 1(2)] that(3-) by metis
    next
      case 2
      then have "di_contacts st' ! j = c" "di_contacts st' ! i = di_contacts st ! i"
        using nth [OF that(1)] nth [OF that(2)] by simp_all
      then show ?thesis using uniq [OF that(1) 2(2)] that(3-) by metis
    next
      case 3
      then have "di_contacts st' ! i = di_contacts st ! i" "di_contacts st' ! j = di_contacts st ! j"
        using nth [OF that(1)] nth [OF that(2)] by simp_all
      then show ?thesis using di_wfD(4) [OF wf that(1, 2)] that(3-) \<open>i \<noteq> j\<close> by metis
    qed
  qed
qed (use di_wfD(1, 2, 6) [OF wf] in \<open>simp_all add: st'\<close>)

text \<open>The same for one tool.\<close>

lemma tool_step:
  assumes wf: "di_wf st" and tool: "tool < 2"
    and st': "st' = (emit evs st)\<lparr>di_tablets := (di_tablets st)[tool := tb]\<rparr>"
    and other: "\<And>s. net (touchDelta s) evs = 0" "\<And>t. t \<noteq> tool \<Longrightarrow> net (proxDelta t) evs = 0"
      "\<And>t i. t \<noteq> tool \<Longrightarrow> i < 3 \<Longrightarrow> net (buttonDelta t (i + 1)) evs = 0"
    and ok: "toolOk tool tb (tabletDevice tool st) (di_out st @ evs)"
    and one: "tb_output tb = 0 \<or> tb_output (di_tablets st ! (1 - tool)) = 0"
  shows "di_wf st'"
proof (rule di_wfI)
  have nth: "di_tablets st' ! t = (if t = tool then tb else di_tablets st ! t)" if "t < 2" for t
    using di_wfD(2) [OF wf] that by (simp add: st' nth_list_update)
  show "slotOk i (di_contacts st' ! i) (di_touch st') (di_out st')" if "i < 20" for i
    using di_wfD(3) [OF wf that] other(1) by (simp add: st' slotOk_def)
  show "toolOk t (di_tablets st' ! t) (tabletDevice t st') (di_out st')" if "t < 2" for t
    using di_wfD(5) [OF wf that] ok other(2) [of t] other(3) [of t] unfolding nth [OF that]
    by (cases "t = tool") (simp_all add: st' toolOk_def)
  show "tb_output (di_tablets st' ! 0) = 0 \<or> tb_output (di_tablets st' ! 1) = 0"
    using one di_wfD(6) [OF wf] tool nth [of 0] nth [of 1] by (auto simp: less_2_cases_iff)
qed (use di_wfD(1, 2) [OF wf] di_wfD(4) [OF wf] in \<open>simp_all add: st'\<close>)


section \<open>Operations keep the pairing\<close>

lemma tabletRelease_wf:
  assumes wf: "di_wf st" and tool: "tool < 2"
  shows "di_wf (tabletRelease tool st)"
proof -
  let ?t = "di_tablets st ! tool"
  let ?evs = "if tb_output ?t \<noteq> 0 \<and> tabletDevice tool st
              then buttonsUp tool (tb_buttons ?t) @ [ProximityOut tool (tb_position ?t)] else []"
  note ok = di_wfD(5) [OF wf tool]
  show ?thesis
  proof (rule tool_step [OF wf tool])
    show "tabletRelease tool st = (emit ?evs st)\<lparr>di_tablets := (di_tablets st)[tool := noTablet]\<rparr>"
      by (simp add: tabletRelease_def Let_def)
    show "toolOk tool noTablet (tabletDevice tool st) (di_out st @ ?evs)"
      using ok by (auto simp: toolOk_def noTablet_def)
  qed (simp_all add: noTablet_def)
qed

lemma tabletRelease_frame:
  "length (di_tablets (tabletRelease tool st)) = length (di_tablets st)"
  "di_contacts (tabletRelease tool st) = di_contacts st" "di_touch (tabletRelease tool st) = di_touch st"
  "tabletDevice t (tabletRelease tool st) = tabletDevice t st"
  "tool < length (di_tablets st) \<Longrightarrow> di_tablets (tabletRelease tool st) ! tool = noTablet"
  "t \<noteq> tool \<Longrightarrow> di_tablets (tabletRelease tool st) ! t = di_tablets st ! t"
  by (simp_all add: tabletRelease_def Let_def)

lemma releaseContact_wf:
  assumes wf: "di_wf st" and i: "i < 20"
  shows "di_wf (releaseContact output i st)"
proof (cases "ct_output (di_contacts st ! i) = output \<and> output \<noteq> 0")
  case True
  let ?evs = "if di_touch st then [TouchEvent XI_TouchEnd (i + 1) (ct_position (di_contacts st ! i))] else []"
  note ok = di_wfD(3) [OF wf i]
  show ?thesis
  proof (rule contact_step [OF wf i])
    show "releaseContact output i st = (emit ?evs st)\<lparr>di_contacts := (di_contacts st)[i := noContact]\<rparr>"
      using True by (simp add: releaseContact_def)
    show "slotOk i noContact (di_touch st) (di_out st @ ?evs)"
      using ok True by (auto simp: slotOk_def noContact_def)
  qed (auto simp: noContact_def)
next
  case False
  with wf show ?thesis by (auto simp: releaseContact_def)
qed

lemma releaseTablet_wf: "di_wf st \<Longrightarrow> t < 2 \<Longrightarrow> di_wf (releaseTablet output t st)"
  by (simp add: releaseTablet_def tabletRelease_wf)

lemma fold_wf:
  assumes "\<And>i st. i \<in> set xs \<Longrightarrow> P st \<Longrightarrow> P (f i st)" "P st"
  shows "P (fold f xs st)"
  using assms by (induction xs arbitrary: st) auto

lemma lorieDirectInputRelease_wf: "di_wf st \<Longrightarrow> di_wf (lorieDirectInputRelease output st)"
  unfolding lorieDirectInputRelease_def
  by (intro fold_wf [where P = di_wf]) (auto intro: releaseContact_wf releaseTablet_wf)

lemma touchSlot_range: "touchSlot output ev st = Some slot \<Longrightarrow> slot < 20"
  unfolding touchSlot_def Let_def by (auto simp: find_Some_iff split: if_splits)

lemma touchSlot_begin:
  assumes "touchSlot output ev st = Some slot" "dc_phase ev = 0"
  shows "ct_output (di_contacts st ! slot) = 0"
    and "j < 20 \<Longrightarrow> ct_output (di_contacts st ! j) = output \<Longrightarrow> ct_contact (di_contacts st ! j) \<noteq> dc_detail ev"
  using assms unfolding touchSlot_def Let_def
  by (auto simp: find_Some_iff find_None_iff simp del: upt_rec_numeral split: if_splits)

lemma touchSlot_held:
  assumes "touchSlot output ev st = Some slot" "dc_phase ev \<noteq> 0"
  shows "ct_output (di_contacts st ! slot) = output" "ct_contact (di_contacts st ! slot) = dc_detail ev"
  using assms unfolding touchSlot_def Let_def
  by (auto simp: find_Some_iff simp del: upt_rec_numeral split: if_splits)

lemma directTouch_wf:
  assumes wf: "di_wf st" and out: "output \<noteq> 0"
  shows "di_wf (directTouch output ev width height x y pressure st)"
proof (cases "\<not> di_touch st \<or> dc_detail ev > 31 \<or> dc_phase ev > 2 \<or> touchSlot output ev st = None")
  case True
  with wf show ?thesis by (auto simp: directTouch_def)
next
  case False
  then obtain slot where slot: "touchSlot output ev st = Some slot" and ph: "dc_phase ev \<le> 2" "di_touch st" by auto
  define pos where "pos = [of_int x * 65535 / of_int width, of_int y * 65535 / of_int height, pressure * 65535]"
  define type where "type = (if dc_phase ev = 0 then XI_TouchBegin else if dc_phase ev = 2 then XI_TouchEnd else XI_TouchUpdate)"
  define c where "c = (if dc_phase ev = 2 then noContact
      else \<lparr>ct_output = output, ct_contact = dc_detail ev, ct_position = pos\<rparr>)"
  have i: "slot < 20" by (rule touchSlot_range [OF slot])
  note ok = di_wfD(3) [OF wf i]
  show ?thesis
  proof (rule contact_step [OF wf i])
    show "directTouch output ev width height x y pressure st =
        (emit [TouchEvent type (slot + 1) pos] st)\<lparr>di_contacts := (di_contacts st)[slot := c]\<rparr>"
      using False slot by (auto simp: directTouch_def pos_def type_def c_def Let_def)
    show "slotOk slot c (di_touch st) (di_out st @ [TouchEvent type (slot + 1) pos])"
      using ok ph out touchSlot_begin(1) [OF slot] touchSlot_held(1) [OF slot]
      by (cases "dc_phase ev = 0"; cases "dc_phase ev = 2") (auto simp: slotOk_def c_def type_def noContact_def)
    show "ct_contact (di_contacts st ! j) \<noteq> ct_contact c"
      if "j < 20" "j \<noteq> slot" "ct_output c \<noteq> 0" "ct_output (di_contacts st ! j) = ct_output c" for j
    proof (cases "dc_phase ev = 0")
      case True
      then show ?thesis using touchSlot_begin(2) [OF slot True that(1)] that by (simp add: c_def)
    next
      case no: False
      have ne: "dc_phase ev \<noteq> 2" using that(3) by (auto simp: c_def noContact_def)
      then show ?thesis
        using touchSlot_held [OF slot no] di_wfD(4) [OF wf that(1) i] that out by (auto simp: c_def)
    qed
  qed (cases type; simp)+
qed


definition keepsTools :: "(bool \<times> bool \<Rightarrow> bool \<times> bool) \<Rightarrow> bool" where
  "keepsTools stylus \<longleftrightarrow> (\<forall>p e. (p \<longrightarrow> fst (stylus (p, e))) \<and> (e \<longrightarrow> snd (stylus (p, e))))"

lemma device_wf:
  assumes wf: "di_wf st" and "di_pen st \<longrightarrow> pen" "di_eraser st \<longrightarrow> eraser"
  shows "di_wf (st\<lparr>di_pen := pen, di_eraser := eraser\<rparr>)"
proof (rule di_wfI)
  let ?st = "st\<lparr>di_pen := pen, di_eraser := eraser\<rparr>"
  show "toolOk t (di_tablets ?st ! t) (tabletDevice t ?st) (di_out ?st)" if "t < 2" for t
    using di_wfD(5) [OF wf that] assms(2, 3) by (auto simp: toolOk_def tabletDevice_def)
qed (use di_wfD(1-4, 6) [OF wf] in simp_all)

text \<open>Entering or moving a tool once the other tool and other outputs have let go.\<close>

lemma tablet_set_wf:
  assumes wf: "di_wf st" and tool: "tool < 2" and out: "output \<noteq> 0" and dev: "tabletDevice tool st"
    and free: "tb_output (di_tablets st ! (1 - tool)) = 0"
  shows "di_wf ((emit ((if tb_output (di_tablets st ! tool) = 0 then [ProximityIn tool pos] else [])
      @ [TabletMotion tool pos'] @ buttonChanges tool (tb_buttons (di_tablets st ! tool)) new) st)
      \<lparr>di_tablets := (di_tablets st)[tool := \<lparr>tb_output = output, tb_buttons = new, tb_position = pos\<rparr>]\<rparr>)"
  (is "di_wf ((emit ?evs st)\<lparr>di_tablets := (di_tablets st)[tool := ?tb]\<rparr>)")
proof (rule tool_step [OF wf tool refl])
  note ok = di_wfD(5) [OF wf tool]
  have "net (buttonDelta tool (i + 1)) (di_out st @ ?evs) = (if bit new i then 1 else 0)" if "i < 3" for i
    using ok that by (auto simp: toolOk_def)
  then show "toolOk tool ?tb (tabletDevice tool st) (di_out st @ ?evs)"
    using ok out dev by (auto simp: toolOk_def)
qed (use free in simp_all)

lemma release_other_wf:
  assumes wf: "di_wf st" and t: "t < 2" and r_def: "r = (if P then tabletRelease t st else st)"
  shows "di_wf r" "tabletDevice u r = tabletDevice u st" "length (di_tablets r) = 2"
  using tabletRelease_wf [OF wf t] wf di_wfD(2) [OF wf] by (simp_all add: r_def tabletRelease_frame)

lemma directTablet_wf:
  assumes wf: "di_wf st" and out: "output \<noteq> 0" and tool: "dc_eraser ev < 2" and st: "keepsTools stylus"
  shows "di_wf (directTablet stylus degrees output ev width height x y pressure tx ty st)"
proof (cases "dc_proximity ev")
  case False
  then show ?thesis using wf tabletRelease_wf [OF wf tool] by (simp add: directTablet_def Let_def)
next
  case True
  define tool where "tool = dc_eraser ev"
  obtain pen eraser where pe: "(if \<not> di_pen st \<or> \<not> di_eraser st then stylus (di_pen st, di_eraser st)
      else (di_pen st, di_eraser st)) = (pen, eraser)" by (cases "if \<not> di_pen st \<or> \<not> di_eraser st
      then stylus (di_pen st, di_eraser st) else (di_pen st, di_eraser st)")
  define st1 where "st1 = st\<lparr>di_pen := pen, di_eraser := eraser\<rparr>"
  define st2 where "st2 = (if tb_output (di_tablets st1 ! (1 - tool)) \<noteq> 0 then tabletRelease (1 - tool) st1 else st1)"
  define st3 where "st3 = (if tb_output (di_tablets st2 ! tool) \<noteq> 0 \<and> tb_output (di_tablets st2 ! tool) \<noteq> output
      then tabletRelease tool st2 else st2)"
  have t: "tool < 2" "1 - tool < 2" "1 - tool \<noteq> tool" using tool by (auto simp: tool_def less_2_cases_iff)
  have "(di_pen st \<longrightarrow> pen) \<and> (di_eraser st \<longrightarrow> eraser)"
    using pe st unfolding keepsTools_def by (metis fst_conv snd_conv)
  then have wf1: "di_wf st1" unfolding st1_def using device_wf [OF wf] by blast
  note r2 = release_other_wf [OF wf1 t(2) st2_def] and r3 = release_other_wf [OF _ t(1) st3_def]
  have "tb_output (di_tablets st2 ! (1 - tool)) = 0"
    using t di_wfD(2) [OF wf1] by (auto simp: st2_def tabletRelease_frame noTablet_def)
  then have free: "tb_output (di_tablets st3 ! (1 - tool)) = 0"
    using t(3) by (auto simp: st3_def tabletRelease_frame)
  have "di_wf (directTablet stylus degrees output ev width height x y pressure tx ty st)" if "tabletDevice tool st1"
    using tablet_set_wf [OF r3(1) [OF r2(1)] t(1) out _ free] that r2(2) r3(2) [OF r2(1)] True
    unfolding directTablet_def Let_def pe prod.case tool_def [symmetric] st1_def [symmetric] st2_def [symmetric] st3_def [symmetric]
    by simp
  moreover have "di_wf (directTablet stylus degrees output ev width height x y pressure tx ty st)" if "\<not> tabletDevice tool st1"
    using that wf1 True unfolding directTablet_def Let_def pe prod.case tool_def [symmetric] st1_def [symmetric] by simp
  ultimately show ?thesis by blast
qed

lemma releaseContacts_nth:
  assumes "output \<noteq> 0" "i < length (di_contacts st)"
  shows "di_contacts (fold (releaseContact output) xs st) ! i =
     (if i \<in> set xs \<and> ct_output (di_contacts st ! i) = output then noContact else di_contacts st ! i)"
  using assms
proof (induction xs arbitrary: st)
  case (Cons x xs)
  have "length (di_contacts (releaseContact output x st)) = length (di_contacts st)" by (simp add: releaseContact_def)
  moreover have "di_contacts (releaseContact output x st) ! i =
      (if i = x \<and> ct_output (di_contacts st ! i) = output then noContact else di_contacts st ! i)"
    using Cons.prems by (auto simp: releaseContact_def nth_list_update)
  ultimately show ?case using Cons by (auto simp: noContact_def)
qed simp

lemma releaseContacts_frame:
  "di_tablets (fold (releaseContact output) xs st) = di_tablets st"
  "length (di_contacts (fold (releaseContact output) xs st)) = length (di_contacts st)"
  by (induction xs arbitrary: st) (simp_all add: releaseContact_def)

lemma releaseTablets_nth:
  assumes "output \<noteq> 0" "t < length (di_tablets st)"
  shows "di_tablets (fold (releaseTablet output) xs st) ! t =
     (if t \<in> set xs \<and> tb_output (di_tablets st ! t) = output then noTablet else di_tablets st ! t)"
  using assms
proof (induction xs arbitrary: st)
  case (Cons x xs)
  have "length (di_tablets (releaseTablet output x st)) = length (di_tablets st)"
    by (simp add: releaseTablet_def tabletRelease_frame)
  moreover have "di_tablets (releaseTablet output x st) ! t =
      (if t = x \<and> tb_output (di_tablets st ! t) = output then noTablet else di_tablets st ! t)"
    using Cons.prems by (auto simp: releaseTablet_def tabletRelease_def Let_def nth_list_update)
  ultimately show ?case using Cons by (auto simp: noTablet_def)
qed simp

lemma releaseTablets_frame:
  "di_contacts (fold (releaseTablet output) xs st) = di_contacts st"
  "length (di_tablets (fold (releaseTablet output) xs st)) = length (di_tablets st)"
  by (induction xs arbitrary: st) (simp_all add: releaseTablet_def tabletRelease_frame)

section \<open>Properties\<close>

text \<open>
  C22: every touch contact and tablet lease is paired with its events: the number of unfinished
  touch begins, proximity entries and button presses on the event queue is exactly what the
  slots record, no two slots hold the same contact of an output, and at most one tool is in
  proximity.  Direct input keeps this, whatever command arrives.
\<close>

theorem direct_input_paired:
  assumes "di_wf st" "keepsTools stylus"
  shows "di_wf (lorieDirectInput stylus degrees width height output ev x y st)"
  using assms directTouch_wf directTablet_wf
  by (auto simp: lorieDirectInput_def split: option.split floatVal.split)

definition demoInput :: directInput where
  "demoInput = \<lparr>di_contacts = replicate 20 noContact, di_tablets = replicate 2 noTablet,
     di_touch = True, di_pen = True, di_eraser = True, di_out = []\<rparr>"

lemma demoInput_wf: "di_wf demoInput"
  by (rule di_wfI) (simp_all add: demoInput_def slotOk_def toolOk_def noContact_def noTablet_def)

theorem direct_input_paired_witness:
  "di_wf (lorieDirectInput (\<lambda>s. s) (\<lambda>r. r) 100 100 7
      \<lparr>dc_tablet = False, dc_detail = 3, dc_phase = 0, dc_pressure = Finite 1, dc_tiltX = Finite 0,
       dc_tiltY = Finite 0, dc_buttons = 0, dc_eraser = 0, dc_proximity = False\<rparr> 10 20 demoInput)"
  by (rule direct_input_paired [OF demoInput_wf]) (simp add: keepsTools_def)

text \<open>
  releasing an output ends everything it holds: afterwards no contact slot and no tool belongs
  to it and it no longer counts as pressed, the events that end the leases are queued (the pairing
  holds), and leases of other outputs are untouched.
\<close>

theorem direct_input_release:
  assumes wf: "di_wf st" and "output \<noteq> 0"
  shows "di_wf (lorieDirectInputRelease output st) \<and> \<not> lorieDirectInputPressed output (lorieDirectInputRelease output st)
     \<and> (\<forall>i<20. di_contacts (lorieDirectInputRelease output st) ! i =
          (if ct_output (di_contacts st ! i) = output then noContact else di_contacts st ! i))
     \<and> (\<forall>t<2. di_tablets (lorieDirectInputRelease output st) ! t =
          (if tb_output (di_tablets st ! t) = output then noTablet else di_tablets st ! t))"
proof -
  let ?r = "lorieDirectInputRelease output st"
  have len: "length (di_contacts ?r) = 20" "length (di_tablets ?r) = 2"
    using di_wfD(1, 2) [OF wf]
    by (simp_all only: lorieDirectInputRelease_def releaseContacts_frame releaseTablets_frame)
  have c: "di_contacts ?r ! i = (if ct_output (di_contacts st ! i) = output then noContact else di_contacts st ! i)"
    if "i < 20" for i
    using releaseContacts_nth [OF assms(2), of i st "[0..<20]"] that di_wfD(1) [OF wf]
    by (simp only: lorieDirectInputRelease_def releaseTablets_frame) simp
  have t: "di_tablets ?r ! t = (if tb_output (di_tablets st ! t) = output then noTablet else di_tablets st ! t)"
    if "t < 2" for t
    using releaseTablets_nth [OF assms(2), of t "fold (releaseContact output) [0..<20] st" "[0..<2]"] that di_wfD(2) [OF wf]
    by (simp only: lorieDirectInputRelease_def releaseContacts_frame) simp
  have "\<forall>k \<in> set (di_contacts ?r). ct_output k \<noteq> output" "\<forall>k \<in> set (di_tablets ?r). tb_output k \<noteq> output"
    using assms(2) c t len by (auto simp: in_set_conv_nth noContact_def noTablet_def split: if_splits)
  then have "\<not> lorieDirectInputPressed output ?r" by (auto simp: lorieDirectInputPressed_def)
  with c t lorieDirectInputRelease_wf [OF wf] show ?thesis by blast
qed

theorem direct_input_release_witness:
  "\<not> lorieDirectInputPressed 7 (lorieDirectInputRelease 7 demoInput)"
  using direct_input_release [OF demoInput_wf, of 7] by simp

end
