(* ===== verification/Outputs.thy ===== *)
theory Outputs
  imports Lorie_Prelude Window_Size Direct_Input Images
begin

text \<open>
  Outputs and their input (\<open>window_outputs.c\<close>, first half): the selections that bind a host surface
  to a window, the key and button leases each of them holds, the end of a selection, and the
  dispatcher of output commands.  Direct input and the pointer image are the components
  \<open>Direct_Input\<close> and \<open>Images\<close>; events queued for the X devices and calls into other components
  are appended, in order, to \<open>ou_log\<close>.  Windows are looked up in the server, an argument.
\<close>

record LorieShellRect =
  sr_left :: int
  sr_top :: int
  sr_right :: int
  sr_bottom :: int

text \<open>Owner-relative geometry of a dependent output (\<open>family_geometry.h\<close>).\<close>

record LorieFamilyGeometry =
  fg_width :: int
  fg_height :: int
  fg_inputComplete :: bool
  fg_paint :: LorieShellRect
  fg_input :: "LorieShellRect list"

record outputLayer =
  ol_output :: u32
  ol_window :: u32
  ol_x :: int
  ol_y :: int
  ol_width :: int
  ol_height :: int
  ol_alpha :: bool
  ol_bufferId :: nat

record OutputSelection =
  os_id :: u32
  os_window :: u32
  os_changed :: bool
  os_seen :: bool
  os_dead :: bool
  os_resizePending :: bool
  os_geometryPending :: bool
  os_ownsSize :: bool
  os_shell :: bool
  os_parent :: u32
  os_family :: LorieFamilyGeometry
  os_familyPublished :: bool
  os_viewport :: LorieShellRect
  os_presentation :: u32
  os_width :: int
  os_height :: int
  os_contentWidth :: int
  os_contentHeight :: int
  os_keys :: "u8 list"
  os_buttons :: u8
  os_layers :: "outputLayer list"
  os_revision :: nat

datatype outAction =
    KeyEvent nat bool
  | ButtonEvent nat bool
  | PointerMotion int int
  | ScrollMotion rat rat
  | DataPointer u32 u32 nat bool
  | WindowUserInput u32
  | WindowFocus u32
  | WindowBlur u32
  | KeysymEvent u32 bool
  | ShellConfigure u32 int int
  | ShellGeometryChanged
  | ModelObserve
  | ModelInspect u32 u32 nat
  | SetDpi int
  | SetColorScheme int
  | CloseWindow u32 bool
  | FullscreenConfirm u32 u32 bool
  | MaximizedConfirm u32 u32 u32
  | InteractionConfirm u32 u32 u32

text \<open>What of a server window this module reads.\<close>

record xwin =
  xw_x :: int
  xw_y :: int

record outServer =
  sx_hasRoot :: bool
  sx_root :: xwin
  sx_window :: "u32 \<Rightarrow> xwin option"
  sx_shellWindow :: "u32 \<Rightarrow> bool"
  sx_ucs2keysym :: "int \<Rightarrow> u32"
  sx_screenWidth :: int
  sx_screenHeight :: int
  sx_stylus :: "bool \<times> bool \<Rightarrow> bool \<times> bool"
  sx_degrees :: "rat \<Rightarrow> rat"
  sx_callocOk :: bool

record outState =
  ou_selections :: "OutputSelection list"
  ou_direct :: directInput
  ou_cursor :: cursorState
  ou_log :: "outAction list"

definition borrowed :: "OutputSelection \<Rightarrow> bool" where
  "borrowed output \<longleftrightarrow> os_shell output \<or> os_parent output \<noteq> 0"

definition separated :: "OutputSelection list \<Rightarrow> OutputSelection \<Rightarrow> bool" where
  "separated sels output \<longleftrightarrow> (\<exists>child \<in> set sels. \<not> os_dead child \<and> os_parent child = os_id output)"

section \<open>Key and button leases\<close>

definition keyBit :: "u8 list \<Rightarrow> nat \<Rightarrow> bool" where
  "keyBit keys key \<longleftrightarrow> has_flag (keys ! (key div 8)) (push_bit (key mod 8) 1)"

definition setKeyBit :: "u8 list \<Rightarrow> nat \<Rightarrow> bool \<Rightarrow> u8 list" where
  "setKeyBit keys key down =
     keys[key div 8 := (if down then keys ! (key div 8) OR push_bit (key mod 8) 1
                        else keys ! (key div 8) AND NOT (push_bit (key mod 8) 1))]"

text \<open>\<open>others\<close> are the selections in the list other than \<open>output\<close>.\<close>

definition outputKey :: "OutputSelection list \<Rightarrow> nat \<Rightarrow> bool \<Rightarrow> OutputSelection \<Rightarrow> OutputSelection \<times> outAction list" where
  "outputKey others key down output =
     (if keyBit (os_keys output) key = down then (output, [])
      else (output\<lparr>os_keys := setKeyBit (os_keys output) key down\<rparr>,
            if \<exists>other \<in> set others. keyBit (os_keys other) key then [] else [KeyEvent key down]))"

definition buttonBit :: "u8 \<Rightarrow> nat \<Rightarrow> bool" where
  "buttonBit buttons button \<longleftrightarrow> has_flag buttons (push_bit button 1)"

definition setButtonBit :: "u8 \<Rightarrow> nat \<Rightarrow> bool \<Rightarrow> u8" where
  "setButtonBit buttons button down =
     (if down then buttons OR push_bit button 1 else buttons AND NOT (push_bit button 1))"

definition outputButton :: "OutputSelection list \<Rightarrow> nat \<Rightarrow> bool \<Rightarrow> OutputSelection \<Rightarrow> OutputSelection \<times> outAction list" where
  "outputButton others button down output =
     (if buttonBit (os_buttons output) button = down then (output, [])
      else (output\<lparr>os_buttons := setButtonBit (os_buttons output) button down\<rparr>,
            if \<exists>other \<in> set others. buttonBit (os_buttons other) button then [] else [ButtonEvent button down]))"

text \<open>A loop of such steps over several keys or buttons.\<close>

definition thread :: "(nat \<Rightarrow> OutputSelection \<Rightarrow> OutputSelection \<times> outAction list) \<Rightarrow> nat list \<Rightarrow> OutputSelection
    \<Rightarrow> OutputSelection \<times> outAction list" where
  "thread step ks output =
     fold (\<lambda>k (o', e). let (o'', e') = step k o' in (o'', e @ e')) ks (output, [])"

text \<open>
  \<open>releaseInput\<close>: direct input, the pointer of the data exchange, then every key and button.  The
  output is passed by value with the other selections; the caller puts it back.
\<close>

definition releaseInput :: "OutputSelection list \<Rightarrow> OutputSelection \<Rightarrow> outState \<Rightarrow> OutputSelection \<times> outState" where
  "releaseInput others output st =
     (let direct = lorieDirectInputRelease (os_id output) (ou_direct st);
          (o1, e1) = thread (\<lambda>key. outputKey others key False) [8..<256] output;
          (o2, e2) = thread (\<lambda>button. outputButton others button False) [1..<8] o1
      in (o2, st\<lparr>ou_direct := direct,
                 ou_log := ou_log st @ [DataPointer (os_id output) (os_window output) 1 False] @ e1 @ e2\<rparr>))"

definition othersOf :: "OutputSelection list \<Rightarrow> nat \<Rightarrow> OutputSelection list" where
  "othersOf sels i = take i sels @ drop (Suc i) sels"

text \<open>A step on the selection at index \<open>i\<close> that stays in the list.\<close>

definition onSelection ::
    "nat \<Rightarrow> (OutputSelection list \<Rightarrow> OutputSelection \<Rightarrow> outState \<Rightarrow> OutputSelection \<times> outState) \<Rightarrow> outState \<Rightarrow> outState" where
  "onSelection i f st =
     (let sels = ou_selections st; (output, st') = f (othersOf sels i) (sels ! i) st
      in st'\<lparr>ou_selections := sels[i := output]\<rparr>)"

definition lorieWindowGestureAllowed :: "u32 \<Rightarrow> nat \<Rightarrow> outState \<Rightarrow> bool" where
  "lorieWindowGestureAllowed window button st \<longleftrightarrow>
     button \<le> 7 \<and>
     (\<exists>output \<in> set (ou_selections st). \<not> os_dead output \<and> \<not> borrowed output \<and> os_window output = window
        \<and> (if button \<noteq> 0 then buttonBit (os_buttons output) button else os_buttons output \<noteq> 0))"

definition buttonStep :: "nat \<Rightarrow> bool \<Rightarrow> OutputSelection list \<Rightarrow> OutputSelection \<Rightarrow> outState \<Rightarrow> OutputSelection \<times> outState" where
  "buttonStep button down others output st =
     (let (o', e) = outputButton others button down output in (o', st\<lparr>ou_log := ou_log st @ e\<rparr>))"

definition keyStep :: "nat \<Rightarrow> bool \<Rightarrow> OutputSelection list \<Rightarrow> OutputSelection \<Rightarrow> outState \<Rightarrow> OutputSelection \<times> outState" where
  "keyStep key down others output st =
     (let (o', e) = outputKey others key down output in (o', st\<lparr>ou_log := ou_log st @ e\<rparr>))"

definition lorieReleaseOutputButton :: "u32 \<Rightarrow> u32 \<Rightarrow> nat \<Rightarrow> outState \<Rightarrow> outState" where
  "lorieReleaseOutputButton ident window button st =
     (if button < 1 \<or> button > 7 then st
      else case findIndex (\<lambda>o'. os_id o' = ident \<and> os_window o' = window) (ou_selections st) of
        None \<Rightarrow> st
      | Some i \<Rightarrow>
          let st = (if button = 1 then st\<lparr>ou_direct := lorieDirectInputRelease ident (ou_direct st)\<rparr> else st)
          in onSelection i (buttonStep button False) st)"

definition lorieReleaseOutputInput :: "outState \<Rightarrow> outState" where
  "lorieReleaseOutputInput st = fold (\<lambda>i. onSelection i releaseInput) [0..<length (ou_selections st)] st"

section \<open>Coordinates and geometry\<close>

text \<open>The point of the first live selection with that identity and window.\<close>

definition lorieOutputPoint :: "outServer \<Rightarrow> u32 \<Rightarrow> u32 \<Rightarrow> int \<Rightarrow> int \<Rightarrow> outState \<Rightarrow> (int \<times> int) option" where
  "lorieOutputPoint sv ident xid x y st =
     (case find (\<lambda>o'. os_id o' = ident \<and> os_window o' = xid \<and> \<not> os_dead o') (ou_selections st) of
        None \<Rightarrow> None
      | Some o' \<Rightarrow>
          (case (if xid \<noteq> 0 then sx_window sv xid else Some (sx_root sv)) of None \<Rightarrow> None
           | Some w \<Rightarrow>
               let v = os_viewport o'
               in Some (lorieOutputAxis x (xw_x w + (if borrowed o' then sr_left v else 0))
                          (if borrowed o' then sr_right v - sr_left v else os_contentWidth o'),
                        lorieOutputAxis y (xw_y w + (if borrowed o' then sr_top v else 0))
                          (if borrowed o' then sr_bottom v - sr_top v else os_contentHeight o'))))"

definition lorieOutputGeometryChanged :: "outState \<Rightarrow> outState" where
  "lorieOutputGeometryChanged st =
     st\<lparr>ou_log := ou_log st @ [ShellGeometryChanged],
        ou_selections := map (\<lambda>o'. if os_window o' \<noteq> 0 then o'\<lparr>os_geometryPending := True\<rparr> else o') (ou_selections st)\<rparr>"

definition destroySelection :: "OutputSelection list \<Rightarrow> OutputSelection \<Rightarrow> outState \<Rightarrow> OutputSelection \<times> outState" where
  "destroySelection others output st =
     (let (o1, st1) = releaseInput others output st
      in (o1\<lparr>os_dead := True, os_changed := True\<rparr>,
          st1\<lparr>ou_cursor := lorieCursorRelease (os_id output) (ou_cursor st1)\<rparr>))"

definition lorieOutputWindowDestroyed :: "u32 \<Rightarrow> outState \<Rightarrow> outState" where
  "lorieOutputWindowDestroyed ident st =
     fold (\<lambda>i st. if os_window (ou_selections st ! i) = ident then onSelection i destroySelection st else st)
       [0..<length (ou_selections st)] (st\<lparr>ou_log := ou_log st @ [ShellGeometryChanged]\<rparr>)"

section \<open>The end of a selection\<close>

definition unlinkEffects :: "OutputSelection \<Rightarrow> OutputSelection \<Rightarrow> OutputSelection" where
  "unlinkEffects output other =
     (let o1 = (if os_id other = os_parent output then other\<lparr>os_changed := True, os_geometryPending := True\<rparr> else other)
      in if os_parent o1 = os_id output then o1\<lparr>os_dead := True, os_changed := True\<rparr> else o1)"

text \<open>The size of the window passes to the first other selection that shows it in a size of its own.\<close>

fun passSize :: "u32 \<Rightarrow> OutputSelection list \<Rightarrow> OutputSelection list" where
  "passSize window [] = []"
| "passSize window (other # rest) =
     (if \<not> os_dead other \<and> \<not> borrowed other \<and> os_window other = window \<and> os_width other > 0
      then other\<lparr>os_ownsSize := True, os_geometryPending := True\<rparr> # rest
      else other # passSize window rest)"

text \<open>\<open>releaseSelection\<close> of an output already unlinked from the list in the state.\<close>

definition releaseSelection :: "OutputSelection \<Rightarrow> outState \<Rightarrow> outState" where
  "releaseSelection output st =
     (let st1 = st\<lparr>ou_selections := map (unlinkEffects output) (ou_selections st)\<rparr>;
          (o', st2) = releaseInput (ou_selections st1) output st1;
          st3 = st2\<lparr>ou_cursor := lorieCursorRelease (os_id output) (ou_cursor st2)\<rparr>
      in if os_ownsSize output then st3\<lparr>ou_selections := passSize (os_window output) (ou_selections st3)\<rparr> else st3)"

fun releaseAll :: "OutputSelection list \<Rightarrow> outState \<Rightarrow> outState" where
  "releaseAll [] st = st"
| "releaseAll (o' # rest) st =
     (let st' = releaseSelection (ou_selections st ! 0) (st\<lparr>ou_selections := tl (ou_selections st)\<rparr>) in releaseAll rest st')"

text \<open>The selection part of \<open>lorieResetOutputs\<close>: one release per selection, from the front.\<close>

definition resetSelections :: "outState \<Rightarrow> outState" where
  "resetSelections st =
     releaseAll (ou_selections st) (st\<lparr>ou_cursor := lorieCursorSelect 0 0 (ou_cursor st)\<rparr>)"

section \<open>Commands\<close>

datatype LorieOutputOperation =
    LORIE_OUTPUT_BIND | LORIE_OUTPUT_RESIZE | LORIE_OUTPUT_POINTER | LORIE_OUTPUT_KEY
  | LORIE_OUTPUT_RELEASE | LORIE_OUTPUT_FOCUS | LORIE_OUTPUT_TEXT | LORIE_OUTPUT_OBSERVE
  | LORIE_OUTPUT_CLOSE | LORIE_OUTPUT_DPI | LORIE_OUTPUT_FULLSCREEN_CONFIRM | LORIE_OUTPUT_INSPECT
  | LORIE_OUTPUT_SHELL | LORIE_OUTPUT_VIEWPORT | LORIE_OUTPUT_BLUR | LORIE_OUTPUT_MAXIMIZED_CONFIRM
  | LORIE_OUTPUT_SCROLL | LORIE_OUTPUT_TOUCH | LORIE_OUTPUT_TABLET | LORIE_OUTPUT_CANCEL_CONTACTS
  | LORIE_OUTPUT_INTERACTION_CONFIRM | LORIE_OUTPUT_COLOR_SCHEME | LORIE_OUTPUT_UNKNOWN

record LorieOutputCommand =
  oc_operation :: LorieOutputOperation
  oc_down :: bool
  oc_output :: u32
  oc_window :: u32
  oc_x :: int
  oc_y :: int
  oc_detail :: nat
  oc_serial :: u32
  oc_viewport :: LorieShellRect
  oc_horizontal :: floatVal
  oc_vertical :: floatVal
  oc_pressure :: floatVal
  oc_tiltX :: floatVal
  oc_tiltY :: floatVal
  oc_phase :: nat
  oc_buttons :: u8
  oc_eraser :: nat
  oc_proximity :: bool

definition act :: "outAction list \<Rightarrow> outState \<Rightarrow> outState" where
  "act es st = st\<lparr>ou_log := ou_log st @ es\<rparr>"

definition newSelection :: "LorieOutputCommand \<Rightarrow> OutputSelection" where
  "newSelection ev =
     (let zero = \<lparr>sr_left = 0, sr_top = 0, sr_right = 0, sr_bottom = 0\<rparr>
      in \<lparr>os_id = oc_output ev, os_window = oc_window ev, os_changed = True, os_seen = False, os_dead = False,
          os_resizePending = False, os_geometryPending = True, os_ownsSize = False,
          os_shell = (oc_detail ev = 1), os_parent = (if oc_detail ev = 2 then of_int (oc_x ev) else 0),
          os_family = \<lparr>fg_width = 0, fg_height = 0, fg_inputComplete = False, fg_paint = zero, fg_input = []\<rparr>,
          os_familyPublished = False, os_viewport = zero, os_presentation = 0, os_width = 0, os_height = 0,
          os_contentWidth = 0, os_contentHeight = 0, os_keys = replicate 32 0, os_buttons = 0,
          os_layers = [], os_revision = 0\<rparr>)"

definition unlinkAt :: "nat \<Rightarrow> outState \<Rightarrow> outState" where
  "unlinkAt i st = releaseSelection (ou_selections st ! i) (st\<lparr>ou_selections := othersOf (ou_selections st) i\<rparr>)"

definition parentOk :: "OutputSelection list \<Rightarrow> LorieOutputCommand \<Rightarrow> nat option" where
  "parentOk sels ev =
     (case findIndex (\<lambda>o'. os_id o' = of_int (oc_x ev)) sels of None \<Rightarrow> None
      | Some p \<Rightarrow>
          let parent = sels ! p
          in if os_dead parent \<or> borrowed parent \<or> separated sels parent \<or> os_window parent = 0
                \<or> os_window parent \<noteq> oc_window ev then None else Some p)"

text \<open>\<open>pos\<close> is where the list link points: the place of the selection replaced, or the end.\<close>

definition bindOutput :: "outServer \<Rightarrow> LorieOutputCommand \<Rightarrow> outState \<Rightarrow> outState" where
  "bindOutput sv ev st0 =
     (let (st, pos) = (case findIndex (\<lambda>o'. os_id o' = oc_output ev) (ou_selections st0) of
                        None \<Rightarrow> (st0, length (ou_selections st0))
                      | Some i \<Rightarrow> (unlinkAt i st0, i));
          link = (\<lambda>st. if \<not> sx_callocOk sv then st
                         else st\<lparr>ou_selections := take pos (ou_selections st) @ newSelection ev # drop pos (ou_selections st)\<rparr>)
      in if oc_detail ev > 2 \<or> (oc_detail ev = 1 \<and> \<not> sx_shellWindow sv (oc_window ev)) then st
         else if oc_detail ev = 2
         then (case parentOk (ou_selections st) ev of None \<Rightarrow> st
               | Some p \<Rightarrow>
                   link (st\<lparr>ou_selections := (ou_selections st)[p :=
                     (ou_selections st ! p)\<lparr>os_changed := True, os_geometryPending := True\<rparr>]\<rparr>))
         else link st)"

definition viewportOk :: "LorieShellRect \<Rightarrow> bool" where
  "viewportOk v \<longleftrightarrow> \<not> (sr_left v \<ge> sr_right v \<or> sr_top v \<ge> sr_bottom v \<or> sr_left v < -16384 \<or> sr_top v < -16384
                       \<or> sr_right v > 16384 \<or> sr_bottom v > 16384)"

definition setSelection :: "nat \<Rightarrow> OutputSelection \<Rightarrow> outState \<Rightarrow> outState" where
  "setSelection i o' st = st\<lparr>ou_selections := (ou_selections st)[i := o']\<rparr>"

definition resizeOutput :: "nat \<Rightarrow> LorieOutputCommand \<Rightarrow> outState \<Rightarrow> outState" where
  "resizeOutput i ev st =
     (let output = ou_selections st ! i
      in if borrowed output \<or> oc_x ev < 1 \<or> oc_y ev < 1 \<or> oc_x ev > 16384 \<or> oc_y ev > 16384 then st
         else let sized = setSelection i (output\<lparr>os_width := oc_x ev, os_height := oc_y ev, os_resizePending := True\<rparr>) st
              in if os_window output = 0 then sized
                 else sized\<lparr>ou_selections := map (\<lambda>j. let o' = ou_selections sized ! j
                        in if os_window o' = os_window output then o'\<lparr>os_ownsSize := (j = i)\<rparr> else o')
                      [0..<length (ou_selections sized)]\<rparr>)"

definition toDirect :: "LorieOutputCommand \<Rightarrow> directCommand" where
  "toDirect ev = \<lparr>dc_tablet = (oc_operation ev = LORIE_OUTPUT_TABLET), dc_detail = oc_detail ev, dc_phase = oc_phase ev,
     dc_pressure = oc_pressure ev, dc_tiltX = oc_tiltX ev, dc_tiltY = oc_tiltY ev, dc_buttons = oc_buttons ev,
     dc_eraser = oc_eraser ev, dc_proximity = oc_proximity ev\<rparr>"

definition scrollMotion :: "floatVal \<Rightarrow> floatVal \<Rightarrow> outAction list" where
  "scrollMotion h v =
     (case (h, v) of
        (Finite h, Finite v) \<Rightarrow>
          if \<bar>h\<bar> > 32 \<or> \<bar>v\<bar> > 32 then [] else if h \<noteq> 0 \<or> v \<noteq> 0 then [ScrollMotion h v] else []
      | _ \<Rightarrow> [])"

text \<open>Pointer, scroll, touch, tablet, key and text, after the guards and the focus.\<close>

definition inputCommand :: "outServer \<Rightarrow> nat \<Rightarrow> LorieOutputCommand \<Rightarrow> outState \<Rightarrow> outState" where
  "inputCommand sv i ev st =
     (let output = ou_selections st ! i; ident = os_id output; window = os_window output; op = oc_operation ev
      in if op = LORIE_OUTPUT_TOUCH \<or> op = LORIE_OUTPUT_TABLET
         then (case lorieOutputPoint sv ident window (oc_x ev) (oc_y ev) st of None \<Rightarrow> st
               | Some (x, y) \<Rightarrow>
                   let st = st\<lparr>ou_cursor := lorieCursorSelect ident window (ou_cursor st),
                               ou_direct := lorieDirectInput (sx_stylus sv) (sx_degrees sv) (sx_screenWidth sv)
                                 (sx_screenHeight sv) ident (toDirect ev) x y (ou_direct st)\<rparr>
                   in act [DataPointer ident window 1 (lorieDirectInputPressed ident (ou_direct st))] st)
         else if op = LORIE_OUTPUT_POINTER \<or> op = LORIE_OUTPUT_SCROLL
         then let st = (if op = LORIE_OUTPUT_POINTER then act [DataPointer ident window (oc_detail ev) (oc_down ev)] st else st)
              in (case lorieOutputPoint sv ident window (oc_x ev) (oc_y ev) st of None \<Rightarrow> st
                  | Some (x, y) \<Rightarrow>
                      let st = act [PointerMotion x y] (st\<lparr>ou_cursor := lorieCursorSelect ident window (ou_cursor st)\<rparr>)
                      in if op = LORIE_OUTPUT_SCROLL then act (scrollMotion (oc_horizontal ev) (oc_vertical ev)) st
                         else if oc_detail ev \<ge> 1 \<and> oc_detail ev \<le> 7
                         then onSelection i (buttonStep (oc_detail ev) (oc_down ev)) st
                         else st)
         else if op = LORIE_OUTPUT_KEY \<and> oc_detail ev \<ge> 8 \<and> oc_detail ev \<le> 255
         then onSelection i (keyStep (oc_detail ev) (oc_down ev)) st
         else if op = LORIE_OUTPUT_TEXT
         then let keysym = sx_ucs2keysym sv (oc_x ev) in act [KeysymEvent keysym True, KeysymEvent keysym False] st
         else st)"

definition countsAsUserInput :: "LorieOutputCommand \<Rightarrow> bool" where
  "countsAsUserInput ev \<longleftrightarrow>
     (oc_operation ev = LORIE_OUTPUT_KEY \<and> oc_down ev)
     \<or> (oc_operation ev = LORIE_OUTPUT_POINTER \<and> oc_down ev \<and> oc_detail ev \<noteq> 0)
     \<or> (oc_operation ev = LORIE_OUTPUT_TOUCH \<and> oc_phase ev = LORIE_TOUCH_BEGIN)
     \<or> (oc_operation ev = LORIE_OUTPUT_TABLET \<and> oc_down ev)
     \<or> oc_operation ev = LORIE_OUTPUT_TEXT"

definition takesFocus :: "OutputSelection \<Rightarrow> LorieOutputCommand \<Rightarrow> bool" where
  "takesFocus output ev \<longleftrightarrow> os_window output \<noteq> 0 \<and>
     (oc_operation ev = LORIE_OUTPUT_FOCUS \<or> oc_operation ev = LORIE_OUTPUT_KEY \<or> oc_operation ev = LORIE_OUTPUT_TEXT
      \<or> (\<not> os_shell output \<and> oc_down ev))"

text \<open>Commands for a bound, live selection at index \<open>i\<close>.\<close>

definition selectionCommand :: "outServer \<Rightarrow> nat \<Rightarrow> LorieOutputCommand \<Rightarrow> outState \<Rightarrow> outState" where
  "selectionCommand sv i ev st =
     (let output = ou_selections st ! i; op = oc_operation ev
      in if os_shell output \<and> \<not> sx_shellWindow sv (os_window output)
         then onSelection i (\<lambda>others o' st. let (o1, st1) = releaseInput others o' st
                               in (o1\<lparr>os_dead := True, os_changed := True\<rparr>, st1)) st
         else if op = LORIE_OUTPUT_VIEWPORT
         then (if \<not> borrowed output \<or> oc_serial ev = 0 \<or> \<not> viewportOk (oc_viewport ev) then st
               else setSelection i (output\<lparr>os_viewport := oc_viewport ev, os_presentation := oc_serial ev,
                                           os_changed := True\<rparr>) st)
         else if op = LORIE_OUTPUT_RESIZE then resizeOutput i ev st
         else if os_window output \<noteq> 0 \<and> sx_window sv (os_window output) = None then st
         else if op = LORIE_OUTPUT_BLUR
         then let st = onSelection i releaseInput st
              in if os_window output \<noteq> 0 then act [WindowBlur (os_window output)] st else st
         else if op = LORIE_OUTPUT_CANCEL_CONTACTS
         then act [DataPointer (os_id output) (os_window output) 1 (buttonBit (os_buttons output) 1)]
                (st\<lparr>ou_direct := lorieDirectInputRelease (os_id output) (ou_direct st)\<rparr>)
         else let st = (if countsAsUserInput ev then act [WindowUserInput (os_window output)] st else st);
                  st = (if takesFocus output ev then act [WindowFocus (os_window output)] st else st)
              in inputCommand sv i ev st)"

definition lorieOutputCommand :: "outServer \<Rightarrow> LorieOutputCommand \<Rightarrow> outState \<Rightarrow> outState" where
  "lorieOutputCommand sv ev st =
     (let op = oc_operation ev
      in if \<not> sx_hasRoot sv then st
         else if op = LORIE_OUTPUT_SHELL then act [ShellConfigure (oc_output ev) (oc_x ev) (oc_y ev)] st
         else if op = LORIE_OUTPUT_OBSERVE then act [ModelObserve] st
         else if op = LORIE_OUTPUT_INSPECT then act [ModelInspect (oc_output ev) (oc_window ev) (oc_detail ev)] st
         else if op = LORIE_OUTPUT_DPI then act [SetDpi (oc_x ev)] st
         else if op = LORIE_OUTPUT_COLOR_SCHEME then act [SetColorScheme (oc_x ev)] st
         else if op = LORIE_OUTPUT_CLOSE then act [CloseWindow (oc_window ev) (oc_down ev)] st
         else if op = LORIE_OUTPUT_FULLSCREEN_CONFIRM
         then act [FullscreenConfirm (oc_window ev) (of_int (oc_x ev)) (oc_down ev)] st
         else if op = LORIE_OUTPUT_MAXIMIZED_CONFIRM
         then act [MaximizedConfirm (oc_window ev) (of_int (oc_x ev)) (of_int (oc_y ev))] st
         else if op = LORIE_OUTPUT_INTERACTION_CONFIRM
         then act [InteractionConfirm (oc_window ev) (of_int (oc_x ev)) (of_int (oc_y ev))] st
         else if oc_output ev = 0 then st
         else let found = findIndex (\<lambda>o'. os_id o' = oc_output ev) (ou_selections st)
              in if op = LORIE_OUTPUT_RELEASE
                 then (case found of None \<Rightarrow> st | Some i \<Rightarrow> unlinkAt i st)
                 else if op = LORIE_OUTPUT_BIND then bindOutput sv ev st
                 else case found of None \<Rightarrow> st
                      | Some i \<Rightarrow>
                          let output = ou_selections st ! i
                          in if os_dead output \<or> os_window output \<noteq> oc_window ev then st
                             else selectionCommand sv i ev st)"


section \<open>Leases shared between outputs\<close>

text \<open>
  The contract of a leased input (a key or a button): a step sets exactly the lease asked for, and
  queues a device event only when no other output holds it.  The client lemmas show that the
  device events follow the union of all leases.
\<close>

locale input_lease =
  fixes held :: "OutputSelection \<Rightarrow> nat \<Rightarrow> bool"
    and step :: "OutputSelection list \<Rightarrow> nat \<Rightarrow> bool \<Rightarrow> OutputSelection \<Rightarrow> OutputSelection \<times> outAction list"
    and valid :: "nat \<Rightarrow> bool"
    and ok :: "OutputSelection \<Rightarrow> bool"
    and delta :: "nat \<Rightarrow> outAction \<Rightarrow> int"
  assumes step_ok: "valid k \<Longrightarrow> ok x \<Longrightarrow> ok (fst (step others k d x))"
    and step_held: "valid k \<Longrightarrow> valid m \<Longrightarrow> ok x \<Longrightarrow> held (fst (step others k d x)) m = (if m = k then d else held x m)"
    and step_net: "sum_list (map (delta m) (snd (step others k d x))) =
      (if m \<noteq> k \<or> held x k = d \<or> (\<exists>y \<in> set others. held y k) then 0 else if d then 1 else -1)"
begin

definition union :: "OutputSelection list \<Rightarrow> OutputSelection \<Rightarrow> nat \<Rightarrow> int" where
  "union others x m = of_bool ((\<exists>y \<in> set others. held y m) \<or> held x m)"

lemma step_union:
  assumes "valid k" "valid m" "ok x"
  shows "union others x m + sum_list (map (delta m) (snd (step others k d x))) = union others (fst (step others k d x)) m"
  using step_held [OF assms, of others d] step_net [of m others k d x] by (auto simp: union_def)

lemma thread_step:
  assumes "ok x" "\<forall>k \<in> set ks. valid k"
  shows "ok (fst (thread (\<lambda>k. step others k d) ks x))
    \<and> (\<forall>m. valid m \<longrightarrow> held (fst (thread (\<lambda>k. step others k d) ks x)) m = (if m \<in> set ks then d else held x m))
    \<and> (\<forall>m. valid m \<longrightarrow> union others x m + sum_list (map (delta m) (snd (thread (\<lambda>k. step others k d) ks x)))
          = union others (fst (thread (\<lambda>k. step others k d) ks x)) m)"
  using assms(2)
proof (induction ks rule: rev_induct)
  case Nil
  then show ?case using assms(1) by (simp add: thread_def)
next
  case (snoc k ks)
  obtain y e where t: "thread (\<lambda>k. step others k d) ks x = (y, e)" by (cases "thread (\<lambda>k. step others k d) ks x")
  have t': "thread (\<lambda>k. step others k d) (ks @ [k]) x = (fst (step others k d y), e @ snd (step others k d y))"
    using t by (simp add: thread_def case_prod_unfold Let_def)
  note ih = snoc.IH [unfolded t, simplified]
  have k: "valid k" "ok y" using snoc.prems ih by auto
  have "held (fst (step others k d y)) m = (if m \<in> set (ks @ [k]) then d else held x m)" if "valid m" for m
    using that ih snoc.prems step_held [OF k(1) that k(2), of others d] by auto
  moreover have "union others x m + sum_list (map (delta m) (e @ snd (step others k d y))) =
      union others (fst (step others k d y)) m" if "valid m" for m
    using that ih snoc.prems step_union [OF k(1) that k(2), of others d] by (simp add: add.assoc [symmetric])
  ultimately show ?case unfolding t' using step_ok [OF k, of others d] by simp
qed

lemma thread_held:
  assumes "ok x" "\<And>k. k \<in> set ks \<Longrightarrow> valid k" "m \<in> set ks"
  shows "held (fst (thread (\<lambda>k. step others k d) ks x)) m = d"
  using thread_step [OF assms(1), of ks others d] assms(2, 3) by simp

end

fun keyDelta :: "nat \<Rightarrow> outAction \<Rightarrow> int" where
  "keyDelta m (KeyEvent k d) = (if m = k then (if d then 1 else -1) else 0)"
| "keyDelta m _ = 0"

fun buttonDelta' :: "nat \<Rightarrow> outAction \<Rightarrow> int" where
  "buttonDelta' m (ButtonEvent k d) = (if m = k then (if d then 1 else -1) else 0)"
| "buttonDelta' m _ = 0"

lemma bit_set_clear:
  "i < 8 \<Longrightarrow> bit ((w :: u8) OR 2 ^ i) j \<longleftrightarrow> bit w j \<or> j = i"
  "i < 8 \<Longrightarrow> j < 8 \<Longrightarrow> bit ((w :: u8) AND NOT (2 ^ i)) j \<longleftrightarrow> bit w j \<and> j \<noteq> i"
  by (auto simp: bit_simps)

lemma length_setKeyBit [simp]: "length (setKeyBit keys k d) = length keys"
  by (simp add: setKeyBit_def)

lemma keyBit_setKeyBit:
  assumes "length keys = 32" "k < 256" "m < 256"
  shows "keyBit (setKeyBit keys k d) m = (if m = k then d else keyBit keys m)"
proof (cases "m div 8 = k div 8")
  case True
  have "m = k \<longleftrightarrow> m mod 8 = k mod 8" using True by (metis mod_div_mult_eq)
  moreover have "k div 8 < length keys" using assms by simp
  ultimately show ?thesis
    using True by (auto simp: keyBit_def setKeyBit_def has_flag_bit bit_set_clear)
next
  case False
  then show ?thesis by (auto simp: keyBit_def setKeyBit_def)
qed

lemma buttonBit_setButtonBit:
  "k < 8 \<Longrightarrow> m < 8 \<Longrightarrow> buttonBit (setButtonBit b k d) m = (if m = k then d else buttonBit b m)"
  by (auto simp: buttonBit_def setButtonBit_def has_flag_bit bit_set_clear)

interpretation keys: input_lease "\<lambda>x. keyBit (os_keys x)" outputKey "\<lambda>k. 8 \<le> k \<and> k < 256"
    "\<lambda>x. length (os_keys x) = 32" keyDelta
  by unfold_locales (auto simp: outputKey_def keyBit_setKeyBit)

interpretation buttons: input_lease "\<lambda>x. buttonBit (os_buttons x)" outputButton "\<lambda>k. 1 \<le> k \<and> k < 8"
    "\<lambda>x. True" buttonDelta'
  by unfold_locales (auto simp: outputButton_def buttonBit_setButtonBit)


text \<open>
  The lease invariant: the presses of a key or button on the event queue that are not yet released
  are exactly one if some output holds it and none otherwise.
\<close>

definition keyNet :: "nat \<Rightarrow> outAction list \<Rightarrow> int" where
  "keyNet k lg = sum_list (map (keyDelta k) lg)"

definition buttonNet :: "nat \<Rightarrow> outAction list \<Rightarrow> int" where
  "buttonNet b lg = sum_list (map (buttonDelta' b) lg)"

lemma net_append [simp]:
  "keyNet k (a @ b) = keyNet k a + keyNet k b" "buttonNet k (a @ b) = buttonNet k a + buttonNet k b"
  by (simp_all add: keyNet_def buttonNet_def)

definition leasesMatch :: "OutputSelection list \<Rightarrow> outAction list \<Rightarrow> bool" where
  "leasesMatch sels lg \<longleftrightarrow>
     (\<forall>x \<in> set sels. length (os_keys x) = 32)
     \<and> (\<forall>k. 8 \<le> k \<and> k < 256 \<longrightarrow> keyNet k lg = of_bool (\<exists>x \<in> set sels. keyBit (os_keys x) k))
     \<and> (\<forall>b. 1 \<le> b \<and> b < 8 \<longrightarrow> buttonNet b lg = of_bool (\<exists>x \<in> set sels. buttonBit (os_buttons x) b))"

definition lease_wf :: "outState \<Rightarrow> bool" where
  "lease_wf st \<longleftrightarrow> leasesMatch (ou_selections st) (ou_log st)"

text \<open>An action that is neither a key nor a button event.\<close>

definition quiet :: "outAction list \<Rightarrow> bool" where
  "quiet es \<longleftrightarrow> (\<forall>k. keyNet k es = 0) \<and> (\<forall>b. buttonNet b es = 0)"

lemma quiet_simps [simp]:
  "quiet []"
  "quiet (DataPointer a w n d # es) = quiet es" "quiet (PointerMotion x y # es) = quiet es"
  "quiet (ScrollMotion h v # es) = quiet es" "quiet (WindowUserInput w # es) = quiet es"
  "quiet (WindowFocus w # es) = quiet es" "quiet (WindowBlur w # es) = quiet es"
  "quiet (KeysymEvent s d # es) = quiet es" "quiet (ShellConfigure a x y # es) = quiet es"
  "quiet (ShellGeometryChanged # es) = quiet es" "quiet (ModelObserve # es) = quiet es"
  "quiet (ModelInspect a w n # es) = quiet es" "quiet (SetDpi x # es) = quiet es"
  "quiet (SetColorScheme x # es) = quiet es" "quiet (CloseWindow w d # es) = quiet es"
  "quiet (FullscreenConfirm w a d # es) = quiet es" "quiet (MaximizedConfirm w a c # es) = quiet es"
  "quiet (InteractionConfirm w a c # es) = quiet es"
  by (simp_all add: quiet_def keyNet_def buttonNet_def)

lemma lease_quiet:
  assumes "lease_wf st" "quiet es"
  shows "lease_wf (act es st)"
  using assms by (simp add: lease_wf_def leasesMatch_def act_def quiet_def)

text \<open>Selections that agree on what they hold, in a different order or with other fields changed.\<close>

definition sameLeases :: "OutputSelection list \<Rightarrow> OutputSelection list \<Rightarrow> bool" where
  "sameLeases xs ys \<longleftrightarrow> (\<lambda>x. (os_keys x, os_buttons x)) ` set xs = (\<lambda>x. (os_keys x, os_buttons x)) ` set ys"

lemma sameLeases_match:
  assumes "sameLeases xs ys"
  shows "leasesMatch xs lg = leasesMatch ys lg"
proof -
  have ex: "(\<exists>x \<in> set xs. P (os_keys x) (os_buttons x)) \<longleftrightarrow> (\<exists>y \<in> set ys. P (os_keys y) (os_buttons y))" for P
  proof -
    have "(\<exists>x \<in> set zs. P (os_keys x) (os_buttons x)) \<longleftrightarrow> (\<exists>p \<in> (\<lambda>x. (os_keys x, os_buttons x)) ` set zs. P (fst p) (snd p))"
      for zs by auto
    from this [of xs] this [of ys] show ?thesis unfolding assms [unfolded sameLeases_def] by blast
  qed
  have "(\<forall>x \<in> set xs. length (os_keys x) = 32) \<longleftrightarrow> (\<forall>y \<in> set ys. length (os_keys y) = 32)"
    using ex [of "\<lambda>k b. length k \<noteq> 32"] by blast
  then show ?thesis unfolding leasesMatch_def
    using ex [of "\<lambda>k b. keyBit k _"] ex [of "\<lambda>k b. buttonBit b _"] by simp
qed

lemma sameLeases_map: "(\<And>x. os_keys (f x) = os_keys x \<and> os_buttons (f x) = os_buttons x) \<Longrightarrow> sameLeases (map f xs) xs"
  by (simp add: sameLeases_def image_image)

lemma sameLeases_upt:
  assumes "\<And>j. j < length xs \<Longrightarrow> os_keys (f j) = os_keys (xs ! j) \<and> os_buttons (f j) = os_buttons (xs ! j)"
  shows "sameLeases (map f [0..<length xs]) xs"
proof -
  have "map (\<lambda>x. (os_keys x, os_buttons x)) (map f [0..<length xs]) = map (\<lambda>x. (os_keys x, os_buttons x)) xs"
    by (rule nth_equalityI) (simp_all add: assms)
  from arg_cong [OF this, of set] show ?thesis by (simp only: sameLeases_def set_map)
qed

text \<open>What one step on an output has to do: follow the union of the leases.\<close>

definition follows :: "OutputSelection list \<Rightarrow> OutputSelection \<Rightarrow> OutputSelection \<Rightarrow> outAction list \<Rightarrow> bool" where
  "follows others x y es \<longleftrightarrow>
     length (os_keys y) = 32
     \<and> (\<forall>k. 8 \<le> k \<and> k < 256 \<longrightarrow> keys.union others x k + keyNet k es = keys.union others y k)
     \<and> (\<forall>b. 1 \<le> b \<and> b < 8 \<longrightarrow> buttons.union others x b + buttonNet b es = buttons.union others y b)"

lemma set_othersOf: "i < length sels \<Longrightarrow> set sels = insert (sels ! i) (set (othersOf sels i))"
  by (metis id_take_nth_drop othersOf_def set_append list.simps(15) Un_insert_right)

lemma set_update: "i < length sels \<Longrightarrow> set (sels[i := y]) = insert y (set (othersOf sels i))"
  by (simp add: upd_conv_take_nth_drop othersOf_def)

lemma follows_match:
  assumes "leasesMatch sels lg" "set sels = insert x (set others)" "set sels' = insert y (set others)" "follows others x y es"
  shows "leasesMatch sels' (lg @ es)"
proof -
  have k: "of_bool (\<exists>z \<in> insert u (set others). keyBit (os_keys z) k) = keys.union others u k"
    and b: "of_bool (\<exists>z \<in> insert u (set others). buttonBit (os_buttons z) k) = buttons.union others u k" for u k
    by (auto simp: keys.union_def buttons.union_def)
  have len: "\<forall>z \<in> set sels'. length (os_keys z) = 32"
    using assms by (auto simp: leasesMatch_def follows_def)
  have "keyNet m (lg @ es) = of_bool (\<exists>z \<in> set sels'. keyBit (os_keys z) m)" if "8 \<le> m \<and> m < 256" for m
    using that assms(1, 4) unfolding assms(2, 3) leasesMatch_def follows_def k by simp
  moreover have "buttonNet m (lg @ es) = of_bool (\<exists>z \<in> set sels'. buttonBit (os_buttons z) m)" if "1 \<le> m \<and> m < 8" for m
    using that assms(1, 4) unfolding assms(2, 3) leasesMatch_def follows_def b by simp
  ultimately show ?thesis using len unfolding leasesMatch_def by blast
qed

lemma outputKey_follows:
  assumes "length (os_keys x) = 32" "8 \<le> k" "k < 256" "outputKey others k d x = (y, es)"
  shows "follows others x y es"
proof -
  have "os_buttons y = os_buttons x \<and> buttonNet b es = 0" for b
    using assms(4) by (auto simp: outputKey_def buttonNet_def split: if_splits)
  then show ?thesis
    using assms keys.step_ok [of k x others d] keys.step_union [of k _ x others d]
    by (simp add: follows_def keyNet_def buttons.union_def)
qed

lemma outputButton_follows:
  assumes "length (os_keys x) = 32" "1 \<le> k" "k < 8" "outputButton others k d x = (y, es)"
  shows "follows others x y es"
proof -
  have "os_keys y = os_keys x \<and> keyNet b es = 0" for b
    using assms(4) by (auto simp: outputButton_def keyNet_def split: if_splits)
  then show ?thesis
    using assms buttons.step_union [where k = k and x = x and others = others and d = d] by (simp add: follows_def buttonNet_def keys.union_def)
qed

lemma follows_trans: "follows others x y a \<Longrightarrow> follows others y z b \<Longrightarrow> follows others x z (a @ b)"
  by (simp add: follows_def add.assoc [symmetric])

lemma follows_cong:
  "os_keys z = os_keys y \<Longrightarrow> os_buttons z = os_buttons y \<Longrightarrow> follows others x z es = follows others x y es"
  by (simp only: follows_def keys.union_def buttons.union_def)

lemma follows_quiet: "length (os_keys x) = 32 \<Longrightarrow> quiet es \<Longrightarrow> follows others x x es"
  by (simp add: follows_def quiet_def)


lemma thread_Nil: "thread step [] x = (x, [])"
  by (simp add: thread_def)

lemma thread_snoc:
  "thread step (ks @ [k]) x = (let (y, es) = thread step ks x; (z, es') = step k y in (z, es @ es'))"
  by (simp add: thread_def case_prod_unfold Let_def)

lemma thread_follows:
  assumes "\<And>k y z es. k \<in> set ks \<Longrightarrow> length (os_keys y) = 32 \<Longrightarrow> step k y = (z, es) \<Longrightarrow> follows others y z es"
    and "length (os_keys x) = 32" "thread step ks x = (y, es)"
  shows "follows others x y es"
  using assms(1, 3)
proof (induction ks arbitrary: y es rule: rev_induct)
  case Nil
  then show ?case using follows_quiet [OF assms(2)] by (simp add: thread_Nil)
next
  case (snoc k ks)
  obtain z a where t: "thread step ks x = (z, a)" by (cases "thread step ks x")
  obtain b where b: "step k z = (y, b)" and es: "es = a @ b"
    using snoc.prems(2) by (auto simp: thread_snoc t split: prod.splits)
  have f: "follows others x z a" by (rule snoc.IH [OF _ t]) (rule snoc.prems(1), simp_all)
  then have "follows others z y b" by (intro snoc.prems(1) [OF _ _ b]) (simp_all add: follows_def)
  with f show ?case unfolding es by (rule follows_trans)
qed

lemma thread_field:
  assumes "\<And>k x. f (fst (step k x)) = f x"
  shows "f (fst (thread step ks x)) = f x"
  using assms by (induction ks rule: rev_induct) (simp_all add: thread_Nil thread_snoc case_prod_unfold Let_def)

lemma step_fields:
  "os_keys (fst (outputButton others k d x)) = os_keys x" "os_id (fst (outputButton others k d x)) = os_id x"
  "os_id (fst (outputKey others k d x)) = os_id x"
  by (simp_all add: outputButton_def outputKey_def)

text \<open>What stays of an output when its input is released, and that nothing is held afterwards.\<close>

definition cleared :: "OutputSelection \<Rightarrow> bool" where
  "cleared x \<longleftrightarrow> (\<forall>k. 8 \<le> k \<and> k < 256 \<longrightarrow> \<not> keyBit (os_keys x) k) \<and> (\<forall>b. 1 \<le> b \<and> b < 8 \<longrightarrow> \<not> buttonBit (os_buttons x) b)"

lemma releaseInput_follows:
  assumes "length (os_keys x) = 32" "releaseInput others x st = (y, st')"
  obtains es where "ou_log st' = ou_log st @ es" "follows others x y es" "cleared y"
    "ou_selections st' = ou_selections st" "os_id y = os_id x"
proof -
  obtain u a where t1: "thread (\<lambda>key. outputKey others key False) [8..<256] x = (u, a)"
    by (cases "thread (\<lambda>key. outputKey others key False) [8..<256] x")
  obtain v b where t2: "thread (\<lambda>button. outputButton others button False) [1..<8] u = (v, b)"
    by (cases "thread (\<lambda>button. outputButton others button False) [1..<8] u")
  let ?p = "[DataPointer (os_id x) (os_window x) 1 False]"
  have y: "y = v" and lg: "ou_log st' = ou_log st @ ?p @ a @ b" and sel: "ou_selections st' = ou_selections st"
    using assms(2) unfolding releaseInput_def Let_def t1 prod.case t2 by auto
  have f1: "follows others x u a"
  proof (rule thread_follows [OF _ assms(1) t1])
    fix k y z es assume "k \<in> set [8..<256]" "length (os_keys y) = 32" "outputKey others k False y = (z, es)"
    then show "follows others y z es" by (intro outputKey_follows) (simp_all only: set_upt atLeastLessThan_iff)
  qed
  have f2: "follows others u v b"
  proof (rule thread_follows [OF _ _ t2])
    fix k y z es assume "k \<in> set [1..<8]" "length (os_keys y) = 32" "outputButton others k False y = (z, es)"
    then show "follows others y z es" by (intro outputButton_follows) (simp_all only: set_upt atLeastLessThan_iff)
  qed (use f1 in \<open>simp add: follows_def\<close>)
  have "follows others x v (?p @ a @ b)"
    using follows_trans [OF follows_quiet [OF assms(1)] follows_trans [OF f1 f2], of ?p] by simp
  moreover have "os_keys v = os_keys u"
    using thread_field [of os_keys "\<lambda>button. outputButton others button False", OF step_fields(1), of "[1..<8]" u]
    by (simp only: t2 fst_conv)
  moreover have "\<not> keyBit (os_keys u) k" if "8 \<le> k \<and> k < 256" for k
    using keys.thread_held [of x "[8..<256]" k others False] assms(1) that
    unfolding t1 fst_conv set_upt atLeastLessThan_iff by blast
  moreover have "\<not> buttonBit (os_buttons v) k" if "1 \<le> k \<and> k < 8" for k
    using buttons.thread_held [where ks = "[1..<8]" and m = k and others = others and d = False and x = u] that
    unfolding t2 fst_conv set_upt atLeastLessThan_iff by blast
  moreover have "os_id v = os_id x"
    using thread_field [of os_id "\<lambda>button. outputButton others button False", OF step_fields(2), of "[1..<8]" u]
      thread_field [of os_id "\<lambda>key. outputKey others key False", OF step_fields(3), of "[8..<256]" x]
    by (simp only: t1 t2 fst_conv)
  ultimately show thesis using y lg sel by (intro that [of "?p @ a @ b"]) (auto simp: cleared_def)
qed


section \<open>Operations keep the leases\<close>

lemma lease_len: "lease_wf st \<Longrightarrow> i < length (ou_selections st) \<Longrightarrow> length (os_keys (ou_selections st ! i)) = 32"
  by (simp add: lease_wf_def leasesMatch_def)

lemma onSelection_wf:
  assumes "lease_wf st" "i < length (ou_selections st)"
    and "f (othersOf (ou_selections st) i) (ou_selections st ! i) st = (y, st')"
    and "ou_log st' = ou_log st @ es" "follows (othersOf (ou_selections st) i) (ou_selections st ! i) y es"
  shows "lease_wf (onSelection i f st)"
proof -
  have "leasesMatch ((ou_selections st)[i := y]) (ou_log st @ es)"
    by (rule follows_match [OF _ set_othersOf [OF assms(2)] set_update [OF assms(2)] assms(5)])
      (use assms(1) in \<open>simp add: lease_wf_def\<close>)
  then show ?thesis by (simp add: onSelection_def lease_wf_def assms(3, 4))
qed

lemma onSelection_length [simp]: "length (ou_selections (onSelection i f st)) = length (ou_selections st)"
  by (simp add: onSelection_def Let_def split: prod.split)

lemma keyStep_wf:
  assumes "lease_wf st" "i < length (ou_selections st)" "8 \<le> k" "k < 256"
  shows "lease_wf (onSelection i (keyStep k d) st)"
proof -
  let ?o = "othersOf (ou_selections st) i" and ?x = "ou_selections st ! i"
  obtain y es where s: "outputKey ?o k d ?x = (y, es)" by (cases "outputKey ?o k d ?x")
  have "keyStep k d ?o ?x st = (y, st\<lparr>ou_log := ou_log st @ es\<rparr>)" by (simp add: keyStep_def s)
  then show ?thesis
    by (rule onSelection_wf [OF assms(1, 2)])
      (use outputKey_follows [OF lease_len [OF assms(1, 2)] assms(3, 4) s] in simp_all)
qed

lemma buttonStep_wf:
  assumes "lease_wf st" "i < length (ou_selections st)" "1 \<le> k" "k < 8"
  shows "lease_wf (onSelection i (buttonStep k d) st)"
proof -
  let ?o = "othersOf (ou_selections st) i" and ?x = "ou_selections st ! i"
  obtain y es where s: "outputButton ?o k d ?x = (y, es)" by (cases "outputButton ?o k d ?x")
  have "buttonStep k d ?o ?x st = (y, st\<lparr>ou_log := ou_log st @ es\<rparr>)" by (simp add: buttonStep_def s)
  then show ?thesis
    by (rule onSelection_wf [OF assms(1, 2)])
      (use outputButton_follows [OF lease_len [OF assms(1, 2)] assms(3, 4) s] in simp_all)
qed

text \<open>Releasing the input of a selection, possibly changing fields that hold no lease.\<close>

lemma release_step_wf:
  assumes wf: "lease_wf st" and i: "i < length (ou_selections st)"
    and g: "\<And>x. os_keys (g x) = os_keys x \<and> os_buttons (g x) = os_buttons x"
    and h: "\<And>x s. ou_log (h x s) = ou_log s"
    and f: "f = (\<lambda>others x s. let (y, s') = releaseInput others x s in (g y, h x s'))"
  shows "lease_wf (onSelection i f st)"
proof -
  let ?o = "othersOf (ou_selections st) i" and ?x = "ou_selections st ! i"
  obtain y st' where r: "releaseInput ?o ?x st = (y, st')" by (cases "releaseInput ?o ?x st")
  obtain es where es: "ou_log st' = ou_log st @ es" "follows ?o ?x y es"
    by (rule releaseInput_follows [OF lease_len [OF wf i] r]) blast
  have "f ?o ?x st = (g y, h ?x st')" by (simp add: f r)
  then show ?thesis
    by (rule onSelection_wf [OF wf i])
      (use es h follows_cong [of "g y" y] g in simp_all)
qed

lemma release_wf:
  assumes "lease_wf st" "i < length (ou_selections st)"
  shows "lease_wf (onSelection i releaseInput st)"
  by (rule release_step_wf [OF assms, of "\<lambda>x. x" "\<lambda>x s. s"]) (auto simp: fun_eq_iff)

lemma destroy_wf:
  assumes "lease_wf st" "i < length (ou_selections st)"
  shows "lease_wf (onSelection i destroySelection st)"
proof (rule release_step_wf [OF assms])
  show "destroySelection = (\<lambda>others x s. let (y, s') = releaseInput others x s
      in (y\<lparr>os_dead := True, os_changed := True\<rparr>, s'\<lparr>ou_cursor := lorieCursorRelease (os_id x) (ou_cursor s')\<rparr>))"
    by (auto simp: fun_eq_iff destroySelection_def Let_def split: prod.split)
qed simp_all


lemma cleared_match:
  assumes "set sels = insert y (set others)" "cleared y" "length (os_keys y) = 32"
  shows "leasesMatch sels lg = leasesMatch others lg"
  using assms unfolding leasesMatch_def cleared_def by auto

lemma sameLeases_others: "sameLeases xs ys \<Longrightarrow> leasesMatch (x # xs) lg = leasesMatch (x # ys) lg"
  by (rule sameLeases_match) (simp add: sameLeases_def)

lemma passSize_same: "sameLeases (passSize window xs) xs"
  by (induction xs) (auto simp: sameLeases_def)

lemma unlinkEffects_same: "sameLeases (map (unlinkEffects output) xs) xs"
  by (rule sameLeases_map) (simp add: unlinkEffects_def Let_def)

lemma releaseSelection_wf:
  assumes "leasesMatch (output # ou_selections st) (ou_log st)"
  shows "lease_wf (releaseSelection output st)"
proof -
  let ?sels = "map (unlinkEffects output) (ou_selections st)" and ?st1 = "st\<lparr>ou_selections := map (unlinkEffects output) (ou_selections st)\<rparr>"
  have m: "leasesMatch (output # ?sels) (ou_log st)"
    using assms sameLeases_others [OF unlinkEffects_same] by simp
  then have len: "length (os_keys output) = 32" by (simp add: leasesMatch_def)
  obtain y st' where r: "releaseInput ?sels output ?st1 = (y, st')" by (cases "releaseInput ?sels output ?st1")
  obtain es where es: "ou_log st' = ou_log st @ es" "follows ?sels output y es" "cleared y" "ou_selections st' = ?sels"
    by (rule releaseInput_follows [OF len r]) (use that in simp)
  have "leasesMatch (y # ?sels) (ou_log st @ es)"
    by (rule follows_match [OF m _ _ es(2)]) simp_all
  then have rest: "leasesMatch ?sels (ou_log st @ es)"
    using cleared_match [of "y # ?sels" y ?sels] es(2, 3) by (simp add: follows_def)
  show ?thesis
    using rest es sameLeases_match [OF passSize_same]
    by (simp add: releaseSelection_def Let_def r lease_wf_def)
qed

lemma unlinkAt_wf:
  assumes "lease_wf st" "i < length (ou_selections st)"
  shows "lease_wf (unlinkAt i st)"
proof -
  have "sameLeases (ou_selections st ! i # othersOf (ou_selections st) i) (ou_selections st)"
    using set_othersOf [OF assms(2)] by (simp add: sameLeases_def)
  then show ?thesis
    unfolding unlinkAt_def using assms(1) sameLeases_match by (intro releaseSelection_wf) (simp add: lease_wf_def)
qed

lemma newSelection_cleared: "cleared (newSelection ev) \<and> length (os_keys (newSelection ev)) = 32"
  by (auto simp: cleared_def newSelection_def Let_def keyBit_def buttonBit_def has_flag_def)

lemma link_wf:
  assumes "leasesMatch sels lg"
  shows "leasesMatch (take pos sels @ newSelection ev # drop pos sels) lg"
  using cleared_match [of "take pos sels @ newSelection ev # drop pos sels" "newSelection ev" sels lg]
    newSelection_cleared assms
  by (metis append_take_drop_id list.simps(15) set_append Un_insert_right)

lemma update_same:
  assumes "i < length sels" "os_keys y = os_keys (sels ! i)" "os_buttons y = os_buttons (sels ! i)"
  shows "leasesMatch (sels[i := y]) lg = leasesMatch sels lg"
  by (rule sameLeases_match)
    (use assms set_update [OF assms(1), of y] set_othersOf [OF assms(1)] in \<open>simp add: sameLeases_def\<close>)

lemma bindOutput_wf:
  assumes "lease_wf st"
  shows "lease_wf (bindOutput sv ev st)"
proof -
  obtain st1 pos where p: "(case findIndex (\<lambda>o'. os_id o' = oc_output ev) (ou_selections st) of
      None \<Rightarrow> (st, length (ou_selections st)) | Some i \<Rightarrow> (unlinkAt i st, i)) = (st1, pos)"
    by (cases "case findIndex (\<lambda>o'. os_id o' = oc_output ev) (ou_selections st) of
      None \<Rightarrow> (st, length (ou_selections st)) | Some i \<Rightarrow> (unlinkAt i st, i)")
  then have wf1: "leasesMatch (ou_selections st1) (ou_log st1)"
    using assms unlinkAt_wf [OF assms] by (auto simp: lease_wf_def dest!: findIndex_Some split: option.splits)
  have mark: "leasesMatch ((ou_selections st1)[q := (ou_selections st1 ! q)\<lparr>os_changed := True, os_geometryPending := True\<rparr>])
      (ou_log st1)" if "q < length (ou_selections st1)" for q
    using update_same [OF that] wf1 by simp
  have par: "parentOk (ou_selections st1) ev = Some q \<Longrightarrow> q < length (ou_selections st1)" for q
    by (auto simp: parentOk_def Let_def dest: findIndex_Some split: option.splits if_splits)
  show ?thesis
    unfolding bindOutput_def Let_def p prod.case lease_wf_def
    using wf1 link_wf [OF wf1] link_wf [OF mark [OF par]] mark [OF par] by (auto split: option.split)
qed


lemma setSelection_wf:
  assumes "lease_wf st" "i < length (ou_selections st)"
    and "os_keys y = os_keys (ou_selections st ! i)" "os_buttons y = os_buttons (ou_selections st ! i)"
  shows "lease_wf (setSelection i y st)"
  using assms(1) update_same [OF assms(2-4)] by (simp add: lease_wf_def setSelection_def)

lemma resizeOutput_wf:
  assumes "lease_wf st" "i < length (ou_selections st)"
  shows "lease_wf (resizeOutput i ev st)"
proof -
  let ?x = "ou_selections st ! i"
  define sized where "sized = setSelection i (?x\<lparr>os_width := oc_x ev, os_height := oc_y ev, os_resizePending := True\<rparr>) st"
  have wf: "lease_wf sized" unfolding sized_def by (rule setSelection_wf [OF assms]) simp_all
  let ?f = "\<lambda>j. let o' = ou_selections sized ! j in
      if os_window o' = os_window ?x then o'\<lparr>os_ownsSize := (j = i)\<rparr> else o'"
  have "sameLeases (map ?f [0..<length (ou_selections sized)]) (ou_selections sized)"
    by (rule sameLeases_upt) (simp add: Let_def)
  then show ?thesis
    using assms(1) wf sameLeases_match unfolding resizeOutput_def Let_def sized_def [symmetric]
    by (simp add: lease_wf_def)
qed

lemma act_frame [simp, frame_simps]:
  "ou_selections (act es st) = ou_selections st" "ou_direct (act es st) = ou_direct st"
  "ou_cursor (act es st) = ou_cursor st" "ou_log (act es st) = ou_log st @ es"
  by (simp_all add: act_def)

lemma lease_frame [simp]:
  "lease_wf (st\<lparr>ou_direct := d\<rparr>) = lease_wf st" "lease_wf (st\<lparr>ou_cursor := c\<rparr>) = lease_wf st"
  by (simp_all add: lease_wf_def)

lemma quiet_scroll: "quiet (scrollMotion h v)"
  by (simp add: scrollMotion_def split: floatVal.split)

lemma inputCommand_wf:
  assumes "lease_wf st" "i < length (ou_selections st)"
  shows "lease_wf (inputCommand sv i ev st)"
proof -
  have 1: "lease_wf (act es s)" if "lease_wf s" "quiet es" for es s using that by (rule lease_quiet)
  have 2: "lease_wf (onSelection i (buttonStep k d) s)" if "lease_wf s" "ou_selections s = ou_selections st" "1 \<le> k" "k \<le> 7" for s k d
    using that assms(2) by (intro buttonStep_wf) auto
  have 3: "lease_wf (onSelection i (keyStep k d) s)" if "lease_wf s" "ou_selections s = ou_selections st" "8 \<le> k" "k \<le> 255" for s k d
    using that assms(2) by (intro keyStep_wf) auto
  show ?thesis
    unfolding inputCommand_def Let_def using assms(1)
    by (auto intro!: 1 2 3 quiet_scroll split: option.split)
qed

lemma selectionCommand_wf:
  assumes "lease_wf st" "i < length (ou_selections st)"
  shows "lease_wf (selectionCommand sv i ev st)"
proof -
  have dead: "lease_wf (onSelection i (\<lambda>others o' s. let (o1, s1) = releaseInput others o' s
      in (o1\<lparr>os_dead := True, os_changed := True\<rparr>, s1)) st)"
    by (rule release_step_wf [OF assms, of "\<lambda>x. x\<lparr>os_dead := True, os_changed := True\<rparr>" "\<lambda>x s. s"]) simp_all
  have if_wf: "lease_wf a \<Longrightarrow> lease_wf b \<Longrightarrow> lease_wf (if c then a else b)" for a b c by simp
  have input: "lease_wf (inputCommand sv i ev s)" if "lease_wf s" "ou_selections s = ou_selections st" for s
    using that assms(2) by (intro inputCommand_wf) simp_all
  have view: "lease_wf (setSelection i ((ou_selections st ! i)\<lparr>os_viewport := oc_viewport ev,
      os_presentation := oc_serial ev, os_changed := True\<rparr>) st)" by (rule setSelection_wf [OF assms]) simp_all
  show ?thesis
    unfolding selectionCommand_def Let_def
    by (intro if_wf dead [unfolded Let_def] view release_wf [OF assms] resizeOutput_wf [OF assms] input lease_quiet assms(1)
        lease_frame(1) [THEN iffD2]) (simp_all add: assms(1))
qed

section \<open>Identities and size owners\<close>

lemma filter_length_mono: "(\<And>x. x \<in> set xs \<Longrightarrow> p x \<Longrightarrow> q x) \<Longrightarrow> length (filter p xs) \<le> length (filter q xs)"
  by (induction xs) auto


text \<open>
  Output identities are unique, and at most one output of a window decides the window's size.
\<close>

definition shape :: "OutputSelection \<Rightarrow> u32 \<times> u32 \<times> bool" where
  "shape x = (os_id x, os_window x, os_ownsSize x)"

definition owners :: "u32 \<Rightarrow> OutputSelection list \<Rightarrow> nat" where
  "owners w sels = length (filter (\<lambda>x. os_ownsSize x \<and> os_window x = w) sels)"

definition sel_wf :: "OutputSelection list \<Rightarrow> bool" where
  "sel_wf sels \<longleftrightarrow> distinct (map os_id sels) \<and> (\<forall>w. w \<noteq> 0 \<longrightarrow> owners w sels \<le> 1)"

lemma owners_shape: "owners w sels = length (filter (\<lambda>(i, v, s). s \<and> v = w) (map shape sels))"
  by (simp add: owners_def filter_map comp_def shape_def)

lemma ids_shape: "map os_id sels = map fst (map shape sels)"
  by (simp add: shape_def)

lemma sel_wf_shape: "map shape xs = map shape ys \<Longrightarrow> sel_wf xs = sel_wf ys"
  by (simp only: sel_wf_def ids_shape owners_shape)

lemma shape_steps:
  "shape (fst (outputKey others k d x)) = shape x" "shape (fst (outputButton others k d x)) = shape x"
  by (simp_all add: outputKey_def outputButton_def shape_def)

lemma releaseInput_shape: "shape (fst (releaseInput others x st)) = shape x"
proof -
  have "shape (fst (thread (\<lambda>key. outputKey others key False) [8..<256] x)) = shape x"
    and "shape (fst (thread (\<lambda>button. outputButton others button False) [1..<8] u)) = shape u" for u
    by (rule thread_field, rule shape_steps)+
  then show ?thesis by (simp add: releaseInput_def Let_def case_prod_unfold del: upt_rec_numeral)
qed

lemma releaseInput_selections: "ou_selections (snd (releaseInput others x st)) = ou_selections st"
  by (simp add: releaseInput_def Let_def case_prod_unfold del: upt_rec_numeral)

lemma onSelection_shape:
  assumes "i < length (ou_selections st)"
    and "shape (fst (f (othersOf (ou_selections st) i) (ou_selections st ! i) st)) = shape (ou_selections st ! i)"
  shows "map shape (ou_selections (onSelection i f st)) = map shape (ou_selections st)"
  using assms by (simp add: onSelection_def Let_def case_prod_unfold map_update list_update_same_conv)

lemma owners_append [simp]:
  "owners w (a @ b) = owners w a + owners w b" "owners w (x # b) = of_bool (os_ownsSize x \<and> os_window x = w) + owners w b"
  by (simp_all add: owners_def)

lemma passSize_shape:
  "map os_id (passSize v xs) = map os_id xs" "w \<noteq> v \<Longrightarrow> owners w (passSize v xs) = owners w xs"
  "owners v (passSize v xs) \<le> owners v xs + 1"
  by (induction xs) (auto simp: owners_def)

lemma unlinkEffects_shape: "shape (unlinkEffects output x) = shape x"
  by (simp add: unlinkEffects_def shape_def Let_def)

lemma releaseSelection_sel:
  assumes "sel_wf (a @ output # b)" "ou_selections st = a @ b"
  shows "sel_wf (ou_selections (releaseSelection output st))"
proof -
  let ?m = "map (unlinkEffects output) (a @ b)"
  have same: "sel_wf ?m = sel_wf (a @ b)"
    by (rule sel_wf_shape) (simp add: unlinkEffects_shape comp_def)
  have ab: "sel_wf (a @ b)" using assms(1) by (auto simp: sel_wf_def intro: order_trans)
  have cnt: "owners (os_window output) ?m = owners (os_window output) (a @ b)"
    by (simp only: owners_shape map_map comp_def unlinkEffects_shape)
  have none: "os_ownsSize output \<Longrightarrow> os_window output \<noteq> 0 \<Longrightarrow> owners (os_window output) (a @ b) = 0"
    using assms(1) by (auto simp: sel_wf_def dest!: spec [of _ "os_window output"])
  have pass: "os_ownsSize output \<Longrightarrow> sel_wf (passSize (os_window output) ?m)"
  proof -
    assume own: "os_ownsSize output"
    have "owners w (passSize (os_window output) ?m) \<le> 1" if "w \<noteq> 0" for w
    proof (cases "w = os_window output")
      case True
      then show ?thesis
        using passSize_shape(3) [of "os_window output" ?m] cnt none [OF own] that by simp
    next
      case False
      then show ?thesis
        using passSize_shape(2) [of w "os_window output" ?m] ab same that by (simp add: sel_wf_def)
    qed
    then show ?thesis using ab same by (simp add: sel_wf_def passSize_shape(1))
  qed
  show ?thesis
    using ab same pass assms(2)
    by (simp add: releaseSelection_def Let_def case_prod_unfold releaseInput_selections)
qed

lemma unlinkAt_sel:
  assumes "sel_wf (ou_selections st)" "i < length (ou_selections st)"
  shows "sel_wf (ou_selections (unlinkAt i st))"
proof -
  have "sel_wf (take i (ou_selections st) @ ou_selections st ! i # drop (Suc i) (ou_selections st))"
    using assms by (simp add: id_take_nth_drop [symmetric])
  from releaseSelection_sel [OF this] show ?thesis by (simp add: unlinkAt_def othersOf_def)
qed

lemma releaseSelection_ids: "map os_id (ou_selections (releaseSelection output st)) = map os_id (ou_selections st)"
proof -
  have "map os_id (map (unlinkEffects output) xs) = map os_id xs" for xs
    by (simp add: unlinkEffects_def Let_def)
  then show ?thesis
    by (simp add: releaseSelection_def Let_def case_prod_unfold releaseInput_selections passSize_shape(1))
qed

lemma link_sel:
  assumes "sel_wf sels" "oc_output ev \<notin> os_id ` set sels"
  shows "sel_wf (take pos sels @ newSelection ev # drop pos sels)"
proof -
  have new: "os_id (newSelection ev) = oc_output ev" "\<not> os_ownsSize (newSelection ev)"
    by (simp_all add: newSelection_def Let_def)
  obtain a b where ab: "take pos sels = a" "drop pos sels = b" "sels = a @ b"
    by (metis append_take_drop_id)
  show ?thesis using assms new unfolding ab(1, 2) unfolding ab(3) by (auto simp: sel_wf_def)
qed

lemma bindOutput_sel:
  assumes "sel_wf (ou_selections st)"
  shows "sel_wf (ou_selections (bindOutput sv ev st))"
proof -
  obtain st1 pos where p: "(case findIndex (\<lambda>o'. os_id o' = oc_output ev) (ou_selections st) of
      None \<Rightarrow> (st, length (ou_selections st)) | Some i \<Rightarrow> (unlinkAt i st, i)) = (st1, pos)"
    by (cases "case findIndex (\<lambda>o'. os_id o' = oc_output ev) (ou_selections st) of
      None \<Rightarrow> (st, length (ou_selections st)) | Some i \<Rightarrow> (unlinkAt i st, i)")
  have wf1: "sel_wf (ou_selections st1) \<and> oc_output ev \<notin> os_id ` set (ou_selections st1)"
  proof (cases "findIndex (\<lambda>o'. os_id o' = oc_output ev) (ou_selections st)")
    case None
    with p assms show ?thesis by (auto simp: findIndex_None)
  next
    case (Some i)
    then have i: "i < length (ou_selections st)" "os_id (ou_selections st ! i) = oc_output ev" by (auto dest: findIndex_Some)
    have "os_id ` set (ou_selections (unlinkAt i st)) = set (map os_id (othersOf (ou_selections st) i))"
      using releaseSelection_ids [of "ou_selections st ! i" "st\<lparr>ou_selections := othersOf (ou_selections st) i\<rparr>"]
      by (simp add: unlinkAt_def flip: set_map)
    moreover have "distinct (map os_id (take i (ou_selections st) @ ou_selections st ! i # drop (Suc i) (ou_selections st)))"
      using assms i by (simp add: id_take_nth_drop [symmetric] sel_wf_def)
    ultimately show ?thesis using p Some unlinkAt_sel [OF assms i(1)] i(2) by (auto simp: othersOf_def)
  qed
  have mark: "map shape ((ou_selections st1)[q := (ou_selections st1 ! q)\<lparr>os_changed := True, os_geometryPending := True\<rparr>])
      = map shape (ou_selections st1)" for q
    by (cases "q < length (ou_selections st1)") (simp_all add: map_update list_update_same_conv list_update_beyond shape_def)
  then have marked: "sel_wf ((ou_selections st1)[q := (ou_selections st1 ! q)\<lparr>os_changed := True, os_geometryPending := True\<rparr>])"
    and ids: "os_id ` set ((ou_selections st1)[q := (ou_selections st1 ! q)\<lparr>os_changed := True, os_geometryPending := True\<rparr>])
      = os_id ` set (ou_selections st1)" for q
    using wf1 sel_wf_shape [OF mark] by (blast, metis ids_shape set_map mark)
  show ?thesis
    unfolding bindOutput_def Let_def p prod.case
    using wf1 link_sel [of "ou_selections st1"] link_sel [OF marked] ids marked by (auto split: option.split)
qed

lemma resizeOutput_sel:
  assumes "sel_wf (ou_selections st)" "i < length (ou_selections st)"
  shows "sel_wf (ou_selections (resizeOutput i ev st))"
proof -
  let ?x = "ou_selections st ! i"
  define sized where "sized = setSelection i (?x\<lparr>os_width := oc_x ev, os_height := oc_y ev, os_resizePending := True\<rparr>) st"
  let ?n = "length (ou_selections sized)"
  have sh: "map shape (ou_selections sized) = map shape (ou_selections st)"
    using assms(2) by (simp add: sized_def setSelection_def map_update list_update_same_conv shape_def)
  have wf: "sel_wf (ou_selections sized)" using sel_wf_shape [OF sh] assms(1) by simp
  let ?f = "\<lambda>j. let o' = ou_selections sized ! j in
      if os_window o' = os_window ?x then o'\<lparr>os_ownsSize := (j = i)\<rparr> else o'"
  have ids: "map os_id (map ?f [0..<?n]) = map os_id (ou_selections sized)"
    by (rule nth_equalityI) (simp_all add: Let_def)
  have own: "owners w (map ?f [0..<?n]) \<le> 1" if "w \<noteq> 0" for w
  proof (cases "w = os_window ?x")
    case True
    have "owners w (map ?f [0..<?n]) \<le> length (filter (\<lambda>j. j = i) [0..<?n])"
      unfolding owners_def filter_map length_map
      by (rule filter_length_mono) (auto simp: True Let_def split: if_splits)
    also have "\<dots> \<le> 1" using distinct_length_filter [of "[0..<?n]" "\<lambda>j. j = i"]
      by (simp add: card_le_Suc0_iff_eq)
    finally show ?thesis .
  next
    case False
    have "owners w (map ?f [0..<?n]) = owners w (map (\<lambda>j. ou_selections sized ! j) [0..<?n])"
      unfolding owners_def filter_map length_map
      by (intro arg_cong [of _ _ length] filter_cong) (auto simp: False Let_def)
    with wf that show ?thesis by (simp add: map_nth sel_wf_def)
  qed
  show ?thesis
    unfolding resizeOutput_def Let_def sized_def [symmetric]
    using assms(1) wf ids own unfolding Let_def by (auto simp: sel_wf_def)
qed

lemma onSelection_sel:
  assumes "sel_wf (ou_selections st)" "i < length (ou_selections st)"
    and "\<And>others x s. shape (fst (f others x s)) = shape x"
  shows "sel_wf (ou_selections (onSelection i f st))"
  using sel_wf_shape [OF onSelection_shape [OF assms(2), of f]] assms(1, 3) by simp

lemma step_shapes:
  "shape (fst (keyStep k d others x s)) = shape x" "shape (fst (buttonStep k d others x s)) = shape x"
  by (simp_all add: keyStep_def buttonStep_def case_prod_unfold Let_def shape_steps)

lemma inputCommand_sel:
  assumes "sel_wf (ou_selections st)" "i < length (ou_selections st)"
  shows "sel_wf (ou_selections (inputCommand sv i ev st))"
proof -
  have on: "sel_wf (ou_selections (onSelection i f s))"
    if "ou_selections s = ou_selections st" "\<And>others x s. shape (fst (f others x s)) = shape x" for f s
    using that assms by (intro onSelection_sel) simp_all
  show ?thesis
    unfolding inputCommand_def Let_def using assms(1)
    by (auto intro!: on step_shapes split: option.split)
qed

lemma selectionCommand_sel:
  assumes "sel_wf (ou_selections st)" "i < length (ou_selections st)"
  shows "sel_wf (ou_selections (selectionCommand sv i ev st))"
proof -
  have dead: "sel_wf (ou_selections (onSelection i (\<lambda>others o' s. case releaseInput others o' s of
      (o1, s1) \<Rightarrow> (o1\<lparr>os_dead := True, os_changed := True\<rparr>, s1)) st))"
    by (rule onSelection_sel [OF assms])
      (use releaseInput_shape in \<open>simp add: case_prod_unfold shape_def\<close>)
  have view: "sel_wf (ou_selections (setSelection i ((ou_selections st ! i)\<lparr>os_viewport := oc_viewport ev,
      os_presentation := oc_serial ev, os_changed := True\<rparr>) st))"
    using sel_wf_shape [of "ou_selections (setSelection i ((ou_selections st ! i)\<lparr>os_viewport := oc_viewport ev,
      os_presentation := oc_serial ev, os_changed := True\<rparr>) st)" "ou_selections st"] assms
    by (simp add: setSelection_def map_update list_update_same_conv shape_def)
  have if_sel: "sel_wf (ou_selections a) \<Longrightarrow> sel_wf (ou_selections b) \<Longrightarrow> sel_wf (ou_selections (if c then a else b))"
    for a b c by simp
  have input: "sel_wf (ou_selections (inputCommand sv i ev s))" if "ou_selections s = ou_selections st" for s
    using that assms by (intro inputCommand_sel) simp_all
  show ?thesis
    unfolding selectionCommand_def Let_def
    by (intro if_sel dead view resizeOutput_sel [OF assms] input)
      (simp_all add: assms onSelection_sel releaseInput_shape)
qed

section \<open>Properties\<close>



text \<open>An output bound to the root window that holds key 38, whose press is on the queue.\<close>

definition demoCommand :: LorieOutputCommand where
  "demoCommand = \<lparr>oc_operation = LORIE_OUTPUT_KEY, oc_down = True, oc_output = 1, oc_window = 0, oc_x = 0, oc_y = 0,
     oc_detail = 38, oc_serial = 0,
     oc_viewport = \<lparr>sr_left = 0, sr_top = 0, sr_right = 0, sr_bottom = 0\<rparr>, oc_horizontal = Finite 0,
     oc_vertical = Finite 0, oc_pressure = Finite 0, oc_tiltX = Finite 0, oc_tiltY = Finite 0, oc_phase = 0,
     oc_buttons = 0, oc_eraser = 0, oc_proximity = False\<rparr>"

definition demoOutputs :: outState where
  "demoOutputs = \<lparr>ou_selections = [newSelection (demoCommand\<lparr>oc_detail := 0\<rparr>)], ou_direct = demoInput,
     ou_cursor = \<lparr>cs_info = cursorKind 0, cs_pixels = (\<lambda>_. 0), cs_output = 0, cs_window = 0, cs_pending = False\<rparr>,
     ou_log = []\<rparr>"

definition demoServer :: outServer where
  "demoServer = \<lparr>sx_hasRoot = True, sx_root = \<lparr>xw_x = 0, xw_y = 0\<rparr>, sx_window = (\<lambda>_. None), sx_shellWindow = (\<lambda>_. False),
     sx_ucs2keysym = of_int, sx_screenWidth = 100, sx_screenHeight = 100, sx_stylus = (\<lambda>s. s),
     sx_degrees = (\<lambda>r. r), sx_callocOk = True\<rparr>"

lemma demoOutputs_leases: "lease_wf demoOutputs"
proof -
  have "leasesMatch [] []" by (simp add: leasesMatch_def keyNet_def buttonNet_def)
  from link_wf [OF this, of 0] show ?thesis by (simp add: lease_wf_def demoOutputs_def)
qed


text \<open>
  C20: output identities stay unique and at most one output of a window decides its size: every
  command keeps this, also when the deciding output is released and the size passes on.
\<close>

theorem outputs_have_one_size_owner:
  assumes "sel_wf (ou_selections st)"
  shows "sel_wf (ou_selections (lorieOutputCommand sv ev st))"
  unfolding lorieOutputCommand_def Let_def
  using assms unlinkAt_sel [OF assms] bindOutput_sel [OF assms] selectionCommand_sel [OF assms]
  by (auto dest!: findIndex_Some split: option.split)

theorem outputs_have_one_size_owner_witness:
  "sel_wf (ou_selections (lorieOutputCommand demoServer (demoCommand\<lparr>oc_operation := LORIE_OUTPUT_BIND, oc_detail := 0\<rparr>) demoOutputs))"
  by (rule outputs_have_one_size_owner) (simp add: sel_wf_def owners_def demoOutputs_def newSelection_def Let_def)

text \<open>
  input for an output that is not bound, dead or bound to another window changes nothing and
  reaches no device.
\<close>

theorem unbound_output_ignores_input:
  assumes "oc_operation ev \<in> {LORIE_OUTPUT_POINTER, LORIE_OUTPUT_KEY, LORIE_OUTPUT_SCROLL, LORIE_OUTPUT_TOUCH,
      LORIE_OUTPUT_TABLET, LORIE_OUTPUT_TEXT, LORIE_OUTPUT_FOCUS, LORIE_OUTPUT_BLUR, LORIE_OUTPUT_RESIZE}"
    and "sel_wf (ou_selections st)"
    and "\<not> (\<exists>x \<in> set (ou_selections st). os_id x = oc_output ev \<and> \<not> os_dead x \<and> os_window x = oc_window ev)"
  shows "lorieOutputCommand sv ev st = st"
proof (cases "findIndex (\<lambda>o'. os_id o' = oc_output ev) (ou_selections st)")
  case None
  with assms(1) show ?thesis by (auto simp: lorieOutputCommand_def Let_def)
next
  case (Some i)
  then have "i < length (ou_selections st)" "os_id (ou_selections st ! i) = oc_output ev" by (auto dest: findIndex_Some)
  with assms(3) have "os_dead (ou_selections st ! i) \<or> os_window (ou_selections st ! i) \<noteq> oc_window ev"
    by (meson nth_mem)
  with Some assms(1) show ?thesis by (auto simp: lorieOutputCommand_def Let_def)
qed

theorem unbound_output_ignores_input_witness:
  "lorieOutputCommand demoServer (demoCommand\<lparr>oc_window := 9\<rparr>) demoOutputs = demoOutputs"
  by (rule unbound_output_ignores_input)
    (simp_all add: demoCommand_def demoOutputs_def newSelection_def sel_wf_def owners_def Let_def)

end
