(* ===== verification/Shared_Memory.thy ===== *)
theory Shared_Memory
  imports Lorie_Prelude
begin

text \<open>
  System V shared memory for clients on a kernel without it (\<open>shm/shmem.c\<close>): a table of segments,
  identifiers that name the owning process's socket, the exchange of segments between processes
  and the four calls \<open>shmget\<close>, \<open>shmat\<close>, \<open>shmdt\<close> and \<open>shmctl\<close>.  Answers of the kernel are arguments.
  A call that would wait for ever (a mutex that is held, a peer that never answers, the search
  for a key link that never succeeds) has the result \<open>None\<close>.  The mutex is part of the state
  because a fork can inherit it locked.
\<close>

section \<open>State\<close>

abbreviation (input) IPC_PRIVATE :: int where "IPC_PRIVATE \<equiv> 0"
abbreviation (input) IPC_RMID :: int where "IPC_RMID \<equiv> 0"
abbreviation (input) IPC_STAT :: int where "IPC_STAT \<equiv> 2"
abbreviation (input) shm_ENOMEM :: int where "shm_ENOMEM \<equiv> 12"
abbreviation (input) shm_EINVAL :: int where "shm_EINVAL \<equiv> 22"
abbreviation (input) shm_ENOSYS :: int where "shm_ENOSYS \<equiv> 38"

text \<open>An address is a number, \<open>0\<close> the null pointer.\<close>

record shmem_t =
  sg_id :: int
  sg_addr :: nat
  sg_descriptor :: int
  sg_size :: nat
  sg_marked :: bool
  sg_key :: int

text \<open>What a call does outside the process, in order.\<close>

datatype shmEffect =
    Opened int
  | Closed int
  | Mapped nat nat int bool
  | Unmapped nat nat
  | Unlinked int
  | Linked int string
  | Replied int int

record shmState =
  sh_table :: "shmem_t list"
  sh_socketId :: int
  sh_pidSetup :: int
  sh_thread :: nat
  sh_counter :: nat
  sh_locked :: bool
  sh_syscall :: bool
  sh_errno :: int
  sh_log :: "shmEffect list"

text \<open>
  One attempt to fetch a segment from its owner: the results of \<open>socket\<close>, \<open>connect\<close>, \<open>send\<close>, the
  read of the key (\<open>None\<close> when the peer never answers, \<open>Some None\<close> for a short read), the received
  descriptor (\<open>-1\<close> on failure) and the size that ashmem reports.
\<close>

record remoteAnswers =
  ra_socket :: int
  ra_connect :: bool
  ra_send :: bool
  ra_key :: "int option option"
  ra_fd :: int
  ra_size :: int

text \<open>One turn of the key loop: the contents of the link, the owner's answers and the new link.\<close>

record linkAnswers =
  la_link :: "string option"
  la_remote :: remoteAnswers
  la_symlink :: bool

record shmOs =
  so_pid :: int
  so_socket :: int
  so_bind :: "int \<Rightarrow> bool"
  so_listen :: bool
  so_thread :: nat
  so_links :: "linkAnswers list"
  so_pageSize :: nat
  so_open :: int
  so_setName :: int
  so_setSize :: "nat \<Rightarrow> int"
  so_mmap :: "nat \<Rightarrow> nat \<Rightarrow> bool \<Rightarrow> int \<Rightarrow> nat option"
  so_uid :: int
  so_gid :: int

section \<open>Helpers\<close>

definition shmLog :: "shmEffect list \<Rightarrow> shmState \<Rightarrow> shmState" where
  "shmLog es st = st\<lparr>sh_log := sh_log st @ es\<rparr>"

definition android_shmem_sysv_shm_force :: "bool \<Rightarrow> shmState \<Rightarrow> shmState" where
  "android_shmem_sysv_shm_force enable st = st\<lparr>sh_syscall := enable\<rparr>"

text \<open>
  \<open>isProot\<close> on the text of the status file (\<open>None\<close> when it cannot be opened).  The result \<open>None\<close> is
  the call of \<open>sscanf\<close> on a null pointer.
\<close>

fun strstr :: "string \<Rightarrow> string \<Rightarrow> string option" where
  "strstr s p = (if take (length p) s = p then Some s else case s of [] \<Rightarrow> None | c # cs \<Rightarrow> strstr cs p)"

definition isProot :: "string option \<Rightarrow> bool option" where
  "isProot status =
     (case status of None \<Rightarrow> Some False
      | Some buf \<Rightarrow> (case strstr buf ''TracerPid:'' of Some _ \<Rightarrow> Some False | None \<Rightarrow> None))"

definition check_syscall_support :: "string option \<Rightarrow> int \<Rightarrow> shmState \<Rightarrow> shmState option" where
  "check_syscall_support status probeErrno st =
     (case isProot status of None \<Rightarrow> None
      | Some False \<Rightarrow> Some st
      | Some True \<Rightarrow> Some (if probeErrno \<noteq> shm_ENOSYS then st\<lparr>sh_errno := probeErrno, sh_syscall := True\<rparr>
                           else st\<lparr>sh_errno := probeErrno\<rparr>))"

text \<open>A fork leaves the child with the parent's table and possibly with the mutex held.\<close>

definition ashv_check_pid :: "int \<Rightarrow> shmState \<Rightarrow> shmState" where
  "ashv_check_pid mypid st =
     (if sh_pidSetup st = 0 then st\<lparr>sh_pidSetup := mypid\<rparr>
      else if sh_pidSetup st \<noteq> mypid
      then st\<lparr>sh_pidSetup := mypid, sh_socketId := 0, sh_thread := 0, sh_table := [], sh_locked := False\<rparr>
      else st)"

definition shmLock :: "shmState \<Rightarrow> shmState option" where
  "shmLock st = (if sh_locked st then None else Some (st\<lparr>sh_locked := True\<rparr>))"

definition shmUnlock :: "shmState \<Rightarrow> shmState" where
  "shmUnlock st = st\<lparr>sh_locked := False\<rparr>"

text \<open>The C expression is computed in 32 bits and read back as a signed number.\<close>

definition toInt32 :: "int \<Rightarrow> int" where
  "toInt32 i = sint (word_of_int i :: 32 word)"

definition ashv_shmid_from_counter :: "int \<Rightarrow> nat \<Rightarrow> int" where
  "ashv_shmid_from_counter socketId counter = toInt32 (socketId * 0x10000 + int counter)"

definition ashv_socket_id_from_shmid :: "int \<Rightarrow> int" where
  "ashv_socket_id_from_shmid shmid = c_div shmid 0x10000"

definition ashv_find_local_index :: "int \<Rightarrow> shmState \<Rightarrow> nat option" where
  "ashv_find_local_index shmid st = findIndex (\<lambda>s. sg_id s = shmid) (sh_table st)"

text \<open>
  One connection to the listening thread: \<open>request\<close> is what \<open>recv\<close> delivered, \<open>None\<close> when it was
  short.  The reply is the key and the descriptor of the segment, nothing for an unknown one.
\<close>

definition ashv_thread_function :: "int \<Rightarrow> int option \<Rightarrow> shmState \<Rightarrow> ((int \<times> int) option \<times> shmState) option" where
  "ashv_thread_function sendsock request st =
     (case request of None \<Rightarrow> Some (None, shmLog [Opened sendsock, Closed sendsock] st)
      | Some shmid \<Rightarrow>
          (case shmLock (shmLog [Opened sendsock] st) of None \<Rightarrow> None
           | Some st1 \<Rightarrow>
               (case ashv_find_local_index shmid st1 of
                  Some idx \<Rightarrow>
                    let s = sh_table st1 ! idx
                    in Some (Some (sg_key s, sg_descriptor s),
                             shmLog [Replied (sg_key s) (sg_descriptor s), Closed sendsock] (shmUnlock st1))
                | None \<Rightarrow> Some (None, shmLog [Closed sendsock] (shmUnlock st1)))))"

definition android_shmem_delete :: "nat \<Rightarrow> shmState \<Rightarrow> shmState" where
  "android_shmem_delete idx st =
     (let d = sg_descriptor (sh_table st ! idx)
      in shmLog (if d \<noteq> 0 then [Closed d] else [])
           (st\<lparr>sh_table := take idx (sh_table st) @ drop (Suc idx) (sh_table st)\<rparr>))"

text \<open>The result is the index of the new entry, or \<open>None\<close> for \<open>-1\<close>; the outer option is waiting for ever.\<close>

definition ashv_read_remote_segment :: "remoteAnswers \<Rightarrow> int \<Rightarrow> shmState \<Rightarrow> (nat option \<times> shmState) option" where
  "ashv_read_remote_segment r shmid st =
     (if ra_socket r = -1 then Some (None, st)
      else let st1 = shmLog [Opened (ra_socket r)] st; done = shmLog [Closed (ra_socket r)]
      in if \<not> ra_connect r then Some (None, done st1)
      else if \<not> ra_send r then Some (None, done st1)
      else case ra_key r of None \<Rightarrow> None
        | Some None \<Rightarrow> Some (None, done st1)
        | Some (Some key) \<Rightarrow>
            if ra_fd r < 0 then Some (None, done st1)
            else let st2 = done (shmLog [Opened (ra_fd r)] st1)
            in if ra_size r = 0 \<or> ra_size r = -1 then Some (None, st2)
            else Some (Some (length (sh_table st2)),
                   st2\<lparr>sh_table := sh_table st2 @
                     [\<lparr>sg_id = shmid, sg_addr = 0, sg_descriptor = ra_fd r, sg_size = nat (ra_size r mod 2 ^ 64),
                       sg_marked = False, sg_key = key\<rparr>]\<rparr>))"

section \<open>shmget\<close>

text \<open>\<open>atoi\<close> on a link's text: blanks, a sign, digits.\<close>

definition isSpace :: "char \<Rightarrow> bool" where
  "isSpace c \<longleftrightarrow> c = CHR '' '' \<or> (9 \<le> (of_char c :: nat) \<and> of_char c \<le> (13 :: nat))"

definition isDigit :: "char \<Rightarrow> bool" where
  "isDigit c \<longleftrightarrow> 48 \<le> (of_char c :: nat) \<and> of_char c \<le> (57 :: nat)"

definition digitsValue :: "string \<Rightarrow> int" where
  "digitsValue s = foldl (\<lambda>n c. 10 * n + (of_char c - 48)) 0 (takeWhile isDigit s)"

definition atoi :: "string \<Rightarrow> int" where
  "atoi s = (case dropWhile isSpace s of
       [] \<Rightarrow> 0
     | c # cs \<Rightarrow> if c = CHR ''-'' then - digitsValue cs else if c = CHR ''+'' then digitsValue cs
                 else digitsValue (c # cs))"

text \<open>The listening socket: the first free name of 4096 tries.\<close>

definition bindAddress :: "shmOs \<Rightarrow> int option" where
  "bindAddress os = (case filter (so_bind os) (map (\<lambda>i. (so_pid os + int i) mod 0x10000) [0..<4096]) of
       [] \<Rightarrow> None | a # _ \<Rightarrow> Some a)"

definition startListening :: "shmOs \<Rightarrow> shmState \<Rightarrow> bool \<times> shmState" where
  "startListening os st =
     (if sh_thread st \<noteq> 0 then (True, st)
      else if so_socket os = 0 then (False, shmLog [Opened 0] (st\<lparr>sh_errno := shm_EINVAL\<rparr>))
      else let st1 = shmLog (if so_socket os < 0 then [] else [Opened (so_socket os)]) st
      in case bindAddress os of
           None \<Rightarrow> (False, st1\<lparr>sh_socketId := 0, sh_errno := shm_ENOMEM\<rparr>)
         | Some a \<Rightarrow>
             if \<not> so_listen os then (False, st1\<lparr>sh_socketId := a, sh_errno := shm_ENOMEM\<rparr>)
             else (True, st1\<lparr>sh_socketId := a, sh_thread := so_thread os\<rparr>))"

definition nextId :: "shmState \<Rightarrow> int \<times> shmState" where
  "nextId st = (let c = (sh_counter st + 1) mod 0x8000
                in (ashv_shmid_from_counter (sh_socketId st) c, st\<lparr>sh_counter := c\<rparr>))"

text \<open>
  The key loop.  It ends with the identifier of a segment that already exists (\<open>Inl\<close>) or with the
  identifier under which the key was claimed (\<open>Inr\<close>).  \<open>shmid\<close> is the identifier claimed in an
  earlier turn.
\<close>

definition existingSegment :: "linkAnswers \<Rightarrow> shmState \<Rightarrow> (nat option \<times> shmState) option" where
  "existingSegment l st =
     (case la_link l of None \<Rightarrow> Some (None, st)
      | Some path \<Rightarrow>
          let linked = atoi path
          in if linked = 0 then Some (None, st)
             else case ashv_find_local_index linked st of
                    Some idx \<Rightarrow> Some (Some idx, st)
                  | None \<Rightarrow> ashv_read_remote_segment (la_remote l) linked st)"

fun keyLoop :: "int \<Rightarrow> linkAnswers list \<Rightarrow> int option \<Rightarrow> shmState \<Rightarrow> ((int + int) \<times> shmState) option" where
  "keyLoop key [] shmid st = None"
| "keyLoop key (l # ls) shmid st =
     (case existingSegment l st of None \<Rightarrow> None
      | Some (Some idx, st1) \<Rightarrow> Some (Inl (sg_id (sh_table st1 ! idx)), st1)
      | Some (None, st1) \<Rightarrow>
          let st2 = (if la_link l = None then st1 else shmLog [Unlinked key] st1);
              (claimed, st3) = (case shmid of Some i \<Rightarrow> (i, st2) | None \<Rightarrow> nextId st2)
          in if la_symlink l then Some (Inr claimed, shmLog [Linked key (decimal claimed)] st3)
             else keyLoop key ls (Some claimed) st3)"

text \<open>The descriptor of a new region or the negative error, and what happened on the way.\<close>

definition ashmem_create_region :: "shmOs \<Rightarrow> nat \<Rightarrow> int \<times> shmEffect list" where
  "ashmem_create_region os n =
     (if so_open os < 0 then (so_open os, [])
      else if so_setName os < 0 then (so_setName os, [Opened (so_open os), Closed (so_open os)])
      else if so_setSize os n < 0 then (so_setSize os n, [Opened (so_open os), Closed (so_open os)])
      else (so_open os, [Opened (so_open os)]))"

text \<open>\<open>ROUND_UP\<close> in 64 bits.\<close>

definition roundUp :: "nat \<Rightarrow> nat \<Rightarrow> nat" where
  "roundUp n s = ((n + s - 1) mod 2 ^ 64 div s * s) mod 2 ^ 64"

definition createSegment :: "shmOs \<Rightarrow> int \<Rightarrow> nat \<Rightarrow> int option \<Rightarrow> shmState \<Rightarrow> int \<times> shmState" where
  "createSegment os key n claimed st =
     (let (shmid, st1) = (case claimed of Some i \<Rightarrow> (i, st) | None \<Rightarrow> nextId st);
          bytes = roundUp n (so_pageSize os);
          (d, es) = ashmem_create_region os bytes;
          st2 = shmLog es st1
      in if d < 0 then (-1, shmUnlock st2)
         else (shmid, shmUnlock (st2\<lparr>sh_table := sh_table st2 @
                 [\<lparr>sg_id = shmid, sg_addr = 0, sg_descriptor = d, sg_size = bytes, sg_marked = False, sg_key = key\<rparr>]\<rparr>)))"

definition shmget ::
    "(int \<Rightarrow> nat \<Rightarrow> int \<Rightarrow> int) \<Rightarrow> shmOs \<Rightarrow> int \<Rightarrow> nat \<Rightarrow> int \<Rightarrow> shmState \<Rightarrow> (int \<times> shmState) option" where
  "shmget sys os key n flags st =
     (if sh_syscall st then Some (sys key (if n > 2 ^ 63 - 1 then 2 ^ 64 - 1 else n) flags, st)
      else let (ok, st1) = startListening os (ashv_check_pid (so_pid os) st)
      in if \<not> ok then Some (-1, st1)
      else case shmLock st1 of None \<Rightarrow> None
        | Some st2 \<Rightarrow>
            if key = IPC_PRIVATE then Some (createSegment os key n None st2)
            else case keyLoop key (so_links os) None st2 of None \<Rightarrow> None
              | Some (Inl shmid, st3) \<Rightarrow> Some (shmid, shmUnlock st3)
              | Some (Inr shmid, st3) \<Rightarrow> Some (createSegment os key n (Some shmid) st3))"

section \<open>shmat, shmdt and shmctl\<close>

text \<open>The mapped address, \<open>None\<close> for \<open>(void*)-1\<close>.\<close>

definition mapSegment :: "shmOs \<Rightarrow> nat \<Rightarrow> int \<Rightarrow> nat \<Rightarrow> shmState \<Rightarrow> nat option \<times> shmState" where
  "mapSegment os shmaddr shmflg idx st =
     (let s = sh_table st ! idx
      in if sg_addr s \<noteq> 0 then (Some (sg_addr s), st)
         else case so_mmap os shmaddr (sg_size s) (shmflg = 0) (sg_descriptor s) of
           None \<Rightarrow> (None, st)
         | Some a \<Rightarrow> (if a = 0 then None else Some a,
              shmLog [Mapped a (sg_size s) (sg_descriptor s) (shmflg = 0)]
                (st\<lparr>sh_table := (sh_table st)[idx := s\<lparr>sg_addr := a\<rparr>]\<rparr>)))"

definition shmat ::
    "(int \<Rightarrow> nat \<Rightarrow> int \<Rightarrow> nat option) \<Rightarrow> shmOs \<Rightarrow> remoteAnswers \<Rightarrow> int \<Rightarrow> nat \<Rightarrow> int \<Rightarrow> shmState \<Rightarrow>
     (nat option \<times> shmState) option" where
  "shmat sys os r shmid shmaddr shmflg st =
     (if sh_syscall st then Some (sys shmid shmaddr shmflg, st)
      else case shmLock (ashv_check_pid (so_pid os) st) of None \<Rightarrow> None
        | Some st1 \<Rightarrow>
            (case (case ashv_find_local_index shmid st1 of
                     Some idx \<Rightarrow> Some (Some idx, st1)
                   | None \<Rightarrow> if ashv_socket_id_from_shmid shmid \<noteq> sh_socketId st1
                             then ashv_read_remote_segment r shmid st1 else Some (None, st1)) of
               None \<Rightarrow> None
             | Some (None, st2) \<Rightarrow> Some (None, (shmUnlock st2)\<lparr>sh_errno := shm_EINVAL\<rparr>)
             | Some (Some idx, st2) \<Rightarrow>
                 let (a, st3) = mapSegment os shmaddr shmflg idx st2 in Some (a, shmUnlock st3)))"

definition shmdt :: "(nat \<Rightarrow> int) \<Rightarrow> shmOs \<Rightarrow> nat \<Rightarrow> shmState \<Rightarrow> (int \<times> shmState) option" where
  "shmdt sys os shmaddr st =
     (if sh_syscall st then Some (sys shmaddr, st)
      else case shmLock (ashv_check_pid (so_pid os) st) of None \<Rightarrow> None
        | Some st1 \<Rightarrow>
            (case findIndex (\<lambda>s. sg_addr s = shmaddr) (sh_table st1) of
               None \<Rightarrow> Some (0, shmUnlock st1)
             | Some i \<Rightarrow>
                 let s = sh_table st1 ! i;
                     st2 = shmLog [Unmapped (sg_addr s) (sg_size s)]
                             (st1\<lparr>sh_table := (sh_table st1)[i := s\<lparr>sg_addr := 0\<rparr>]\<rparr>);
                     st3 = (if sg_marked s \<or> ashv_socket_id_from_shmid (sg_id s) \<noteq> sh_socketId st2
                            then android_shmem_delete i st2 else st2)
                 in Some (0, shmUnlock st3)))"

record shmStat =
  ss_segsz :: nat
  ss_nattch :: nat
  ss_key :: int
  ss_uid :: int
  ss_gid :: int
  ss_mode :: nat
  ss_seq :: nat

text \<open>The structure written for \<open>IPC_STAT\<close> is the middle component; \<open>hasBuf\<close> tells whether one was passed.\<close>

definition shmctl ::
    "(int \<Rightarrow> int \<Rightarrow> int) \<Rightarrow> shmOs \<Rightarrow> int \<Rightarrow> int \<Rightarrow> bool \<Rightarrow> shmState \<Rightarrow> (int \<times> shmStat option \<times> shmState) option" where
  "shmctl sys os shmid cmd hasBuf st =
     (if sh_syscall st then Some (sys shmid cmd, None, st)
      else let st0 = ashv_check_pid (so_pid os) st
      in if cmd = IPC_RMID
      then (case shmLock st0 of None \<Rightarrow> None
            | Some st1 \<Rightarrow>
                (case ashv_find_local_index shmid st1 of
                   None \<Rightarrow> Some (0, None, shmUnlock st1)
                 | Some idx \<Rightarrow>
                     let s = sh_table st1 ! idx
                     in Some (0, None, shmUnlock
                          (if sg_addr s \<noteq> 0
                           then st1\<lparr>sh_table := (sh_table st1)[idx := s\<lparr>sg_marked := True\<rparr>]\<rparr>
                           else android_shmem_delete idx st1))))
      else if cmd = IPC_STAT
      then if \<not> hasBuf then Some (-1, None, st0\<lparr>sh_errno := shm_EINVAL\<rparr>)
           else (case shmLock st0 of None \<Rightarrow> None
            | Some st1 \<Rightarrow>
                (case ashv_find_local_index shmid st1 of
                   None \<Rightarrow> Some (-1, None, (shmUnlock st1)\<lparr>sh_errno := shm_EINVAL\<rparr>)
                 | Some idx \<Rightarrow>
                     let s = sh_table st1 ! idx
                     in Some (0, Some \<lparr>ss_segsz = sg_size s, ss_nattch = 1, ss_key = sg_key s, ss_uid = so_uid os,
                          ss_gid = so_gid os, ss_mode = 438, ss_seq = 1\<rparr>, shmUnlock st1)))
      else Some (-1, None, st0\<lparr>sh_errno := shm_EINVAL\<rparr>))"

section \<open>Identifiers\<close>

lemma of_char_digit: "d < 10 \<Longrightarrow> (of_char (char_of (48 + d)) :: int) = 48 + int d" for d :: nat
  using of_nat_of_char [of "char_of (48 + d)", where ?'a = int] by (simp del: of_nat_of_char)

lemma isDigit_char_of: "d < 10 \<Longrightarrow> isDigit (char_of (48 + d))" for d :: nat
  by (simp add: isDigit_def)

lemma decimalNat_digits: "\<forall>c \<in> set (decimalNat n). isDigit c"
  by (induction n rule: decimalNat.induct) (subst decimalNat.simps, auto simp: isDigit_char_of)

lemma decimalNat_value: "foldl (\<lambda>n c. 10 * n + (of_char c - 48)) 0 (decimalNat n) = int n"
proof (induction n rule: decimalNat.induct)
  case (1 n)
  show ?case
  proof (cases "n < 10")
    case True
    then show ?thesis by (subst decimalNat.simps) (simp add: of_char_digit)
  next
    case False
    then show ?thesis using 1 by (subst decimalNat.simps) (simp add: of_char_digit zdiv_int zmod_int)
  qed
qed

lemma digitsValue_decimalNat: "digitsValue (decimalNat n) = int n"
  by (simp add: digitsValue_def takeWhile_eq_all_conv [THEN iffD2, OF decimalNat_digits] decimalNat_value)

lemma decimalNat_nonempty: "decimalNat n \<noteq> []"
  by (subst decimalNat.simps) simp

lemma atoi_decimal: "atoi (decimal i) = i"
proof (cases "i < 0")
  case True
  then show ?thesis by (simp add: atoi_def decimal_def isSpace_def digitsValue_decimalNat)
next
  case False
  obtain c cs where c: "decimalNat (nat i) = c # cs" using decimalNat_nonempty by (cases "decimalNat (nat i)") auto
  have "isDigit c" using decimalNat_digits [of "nat i"] c by simp
  then have "\<not> isSpace c" "c \<noteq> CHR ''-''" "c \<noteq> CHR ''+''" by (auto simp: isDigit_def isSpace_def)
  with False c digitsValue_decimalNat [of "nat i"] show ?thesis by (simp add: atoi_def decimal_def)
qed

lemma toInt32_mod: "toInt32 i = (i + 2 ^ 31) mod 2 ^ 32 - 2 ^ 31"
  by (simp add: toInt32_def int_word_sint)

lemma toInt32_eq: "- (2 ^ 31) \<le> i \<Longrightarrow> i < 2 ^ 31 \<Longrightarrow> toInt32 i = i"
  unfolding toInt32_mod by (subst mod_pos_pos_trivial) simp_all

lemma toInt32_wrap: "2 ^ 31 \<le> i \<Longrightarrow> i < 2 ^ 32 \<Longrightarrow> toInt32 i = i - 2 ^ 32"
proof -
  assume a: "2 ^ 31 \<le> i" "i < 2 ^ 32"
  have "toInt32 i = toInt32 (i - 2 ^ 32)" unfolding toInt32_mod by (simp add: mod_eq_dvd_iff)
  also have "\<dots> = i - 2 ^ 32" using a by (intro toInt32_eq) simp_all
  finally show ?thesis .
qed

lemma socket_id_local:
  assumes "0 \<le> s" "s < 0x8000" "c < 0x8000"
  shows "ashv_socket_id_from_shmid (ashv_shmid_from_counter s c) = s"
proof -
  have "ashv_shmid_from_counter s c = s * 0x10000 + int c"
    unfolding ashv_shmid_from_counter_def by (rule toInt32_eq) (use assms in simp_all)
  moreover have "(s * 0x10000 + int c) div 0x10000 = s" using assms(3) by (intro int_div_pos_eq [where r = "int c"]) simp_all
  ultimately show ?thesis using assms by (simp add: ashv_socket_id_from_shmid_def c_div_nonneg)
qed

lemma socket_id_foreign:
  assumes "0x8000 \<le> s" "s < 0x10000" "c < 0x8000"
  shows "ashv_socket_id_from_shmid (ashv_shmid_from_counter s c) \<le> 0"
proof -
  have id: "ashv_shmid_from_counter s c = s * 0x10000 + int c - 2 ^ 32"
    unfolding ashv_shmid_from_counter_def by (rule toInt32_wrap) (use assms in simp_all)
  then have "ashv_shmid_from_counter s c < 0" using assms by simp
  then show ?thesis by (simp add: ashv_socket_id_from_shmid_def c_div_def)
qed

section \<open>Descriptors\<close>

text \<open>How often a descriptor is open, and that every descriptor of the table is open often enough.\<close>

fun fdDelta :: "int \<Rightarrow> shmEffect \<Rightarrow> int" where
  "fdDelta fd (Opened d) = (if d = fd then 1 else 0)"
| "fdDelta fd (Closed d) = (if d = fd then -1 else 0)"
| "fdDelta fd _ = 0"

definition fdNet :: "int \<Rightarrow> shmEffect list \<Rightarrow> int" where
  "fdNet fd es = sum_list (map (fdDelta fd) es)"

definition fdUses :: "int \<Rightarrow> shmem_t list \<Rightarrow> int" where
  "fdUses fd t = int (count_list (map sg_descriptor t) fd)"

definition shm_live :: "shmState \<Rightarrow> bool" where
  "shm_live st \<longleftrightarrow> (\<forall>s \<in> set (sh_table st). 0 \<le> sg_descriptor s)
     \<and> (\<forall>fd > 0. fdUses fd (sh_table st) \<le> fdNet fd (sh_log st))"

lemma fdNet_append [simp]: "fdNet fd (a @ b) = fdNet fd a + fdNet fd b"
  by (simp add: fdNet_def)

lemma fdNet_list [simp]: "fdNet fd [] = 0" "fdNet fd (e # es) = fdDelta fd e + fdNet fd es"
  by (simp_all add: fdNet_def)

lemma fdUses_simps [simp]:
  "fdUses fd [] = 0"
  "fdUses fd (s # t) = (if sg_descriptor s = fd then 1 else 0) + fdUses fd t"
  "fdUses fd (t @ u) = fdUses fd t + fdUses fd u"
  by (simp_all add: fdUses_def)

lemma fdUses_nonneg [simp]: "0 \<le> fdUses fd t"
  by (simp add: fdUses_def)

lemma fdUses_same: "map sg_descriptor t = map sg_descriptor u \<Longrightarrow> fdUses fd t = fdUses fd u"
  by (simp add: fdUses_def)

lemma shmLog_simps [simp]:
  "sh_table (shmLog es st) = sh_table st" "sh_log (shmLog es st) = sh_log st @ es"
  "sh_socketId (shmLog es st) = sh_socketId st" "sh_locked (shmLog es st) = sh_locked st"
  "sh_syscall (shmLog es st) = sh_syscall st" "sh_counter (shmLog es st) = sh_counter st"
  "sh_thread (shmLog es st) = sh_thread st" "sh_pidSetup (shmLog es st) = sh_pidSetup st"
  by (simp_all add: shmLog_def)

lemma shmUnlock_simps [simp]:
  "sh_table (shmUnlock st) = sh_table st" "sh_log (shmUnlock st) = sh_log st"
  "sh_socketId (shmUnlock st) = sh_socketId st" "sh_locked (shmUnlock st) = False"
  by (simp_all add: shmUnlock_def)

lemma shmLock_Some:
  "shmLock st = Some st1 \<longleftrightarrow> \<not> sh_locked st \<and> st1 = st\<lparr>sh_locked := True\<rparr>"
  by (auto simp: shmLock_def)

text \<open>Effects that never close more than they open, with the table unchanged up to the other fields.\<close>

definition harmless :: "shmEffect list \<Rightarrow> bool" where
  "harmless es \<longleftrightarrow> (\<forall>fd. 0 \<le> fdNet fd es)"

lemma live_quiet:
  assumes "shm_live st" "map sg_descriptor (sh_table st') = map sg_descriptor (sh_table st)"
    and "sh_log st' = sh_log st @ es" "harmless es"
  shows "shm_live st'"
proof -
  have n: "0 \<le> sg_descriptor s" if "s \<in> set (sh_table st')" for s
  proof -
    have "sg_descriptor s \<in> set (map sg_descriptor (sh_table st))" using that by (simp flip: assms(2))
    then show ?thesis using assms(1) by (auto simp: shm_live_def)
  qed
  have u: "fdUses fd (sh_table st') \<le> fdNet fd (sh_log st')" if "fd > 0" for fd
  proof -
    have "fdUses fd (sh_table st) \<le> fdNet fd (sh_log st)" using assms(1) that by (simp add: shm_live_def)
    moreover have "0 \<le> fdNet fd es" using assms(4) by (simp add: harmless_def)
    ultimately show ?thesis using fdUses_same [OF assms(2)] assms(3) by simp
  qed
  from n u show ?thesis by (simp add: shm_live_def)
qed

lemma live_new:
  assumes "shm_live st" "0 \<le> d" "sg_descriptor s = d" "sh_table st' = sh_table st @ [s]"
    and "sh_log st' = sh_log st @ es" "\<forall>fd. (if fd = d then 1 else 0) \<le> fdNet fd es"
  shows "shm_live st'"
proof -
  have "fdUses fd (sh_table st') \<le> fdNet fd (sh_log st')" if "fd > 0" for fd
  proof -
    have "fdUses fd (sh_table st) \<le> fdNet fd (sh_log st)" using assms(1) that by (simp add: shm_live_def)
    moreover have "(if fd = d then 1 else 0) \<le> fdNet fd es" using assms(6) by blast
    ultimately show ?thesis using assms(3-5) by (auto split: if_splits)
  qed
  with assms(1-4) show ?thesis by (auto simp: shm_live_def)
qed

lemma live_delete:
  assumes "shm_live st" "idx < length (sh_table st)"
  shows "shm_live (android_shmem_delete idx st)"
proof -
  let ?d = "sg_descriptor (sh_table st ! idx)"
  have t: "sh_table st = take idx (sh_table st) @ sh_table st ! idx # drop (Suc idx) (sh_table st)"
    using assms(2) by (rule id_take_nth_drop)
  have "fdUses fd (sh_table st) = fdUses fd (take idx (sh_table st) @ drop (Suc idx) (sh_table st)) + (if ?d = fd then 1 else 0)" for fd
    by (subst t) simp
  moreover have "set (take idx (sh_table st) @ drop (Suc idx) (sh_table st)) \<subseteq> set (sh_table st)"
    by (auto dest: in_set_takeD in_set_dropD)
  ultimately show ?thesis using assms(1) by (auto simp: shm_live_def android_shmem_delete_def Let_def) 
qed

lemma check_pid_live: "shm_live st \<Longrightarrow> shm_live (ashv_check_pid p st)"
  by (auto simp: ashv_check_pid_def shm_live_def intro: order_trans [OF fdUses_nonneg])

lemma lock_live: "shm_live st \<Longrightarrow> shmLock st = Some st1 \<Longrightarrow> shm_live st1"
  by (auto simp: shmLock_Some shm_live_def)

lemma unlock_live [simp]: "shm_live (shmUnlock st) = shm_live st"
  by (simp add: shm_live_def)

lemma errno_live [simp]: "shm_live (st\<lparr>sh_errno := e\<rparr>) = shm_live st"
  "shm_live (st\<lparr>sh_locked := b\<rparr>) = shm_live st"
  by (simp_all add: shm_live_def)

lemma log_live: "shm_live st \<Longrightarrow> harmless es \<Longrightarrow> shm_live (shmLog es st)"
  by (rule live_quiet [where es = es]) simp_all

lemma listening_live:
  assumes "shm_live st" shows "shm_live (snd (startListening os st))"
proof -
  have "sh_table (snd (startListening os st)) = sh_table st
    \<and> (\<exists>es. sh_log (snd (startListening os st)) = sh_log st @ es \<and> harmless es)"
    by (auto simp: startListening_def harmless_def Let_def split: option.split)
  then show ?thesis using live_quiet [OF assms] by metis
qed

lemma nextId_live: "shm_live st \<Longrightarrow> shm_live (snd (nextId st))"
  by (simp add: nextId_def Let_def shm_live_def)

lemma remote_live:
  assumes "shm_live st" "ashv_read_remote_segment r shmid st = Some (i, st1)"
  shows "shm_live st1"
proof (cases i)
  case None
  with assms(2) have "sh_table st1 = sh_table st \<and> (\<exists>es. sh_log st1 = sh_log st @ es \<and> harmless es)"
    by (auto simp: ashv_read_remote_segment_def harmless_def Let_def split: if_splits option.splits)
  then show ?thesis using live_quiet [OF assms(1)] by metis
next
  case (Some n)
  with assms(2) have "0 \<le> ra_fd r" and t: "\<exists>s. sg_descriptor s = ra_fd r \<and> sh_table st1 = sh_table st @ [s]"
    and "sh_log st1 = sh_log st @ [Opened (ra_socket r), Opened (ra_fd r), Closed (ra_socket r)]"
    by (auto simp: ashv_read_remote_segment_def Let_def split: if_splits option.splits)
  then show ?thesis using live_new [OF assms(1), of "ra_fd r"] by fastforce
qed

lemma existing_live:
  "shm_live st \<Longrightarrow> existingSegment l st = Some (i, st1) \<Longrightarrow> shm_live st1"
  by (auto simp: existingSegment_def Let_def dest: remote_live split: option.splits if_splits)

lemma keyLoop_live: "shm_live st \<Longrightarrow> keyLoop key ls shmid st = Some (v, st1) \<Longrightarrow> shm_live st1"
proof (induction key ls shmid st rule: keyLoop.induct)
  case (2 key l ls shmid st)
  from "2.prems"(2) obtain i sta where e: "existingSegment l st = Some (i, sta)"
    by (auto split: option.splits)
  let ?b = "if la_link l = None then sta else shmLog [Unlinked key] sta"
  let ?c = "case shmid of Some i \<Rightarrow> (i, ?b) | None \<Rightarrow> nextId ?b"
  have a: "shm_live sta" using existing_live [OF "2.prems"(1) e] .
  have "shm_live ?b" using log_live [OF a, of "[Unlinked key]"] a by (simp add: harmless_def)
  then have c: "shm_live (snd ?c)" using nextId_live by (cases shmid) (simp_all only: option.case snd_conv)
  show ?case
  proof (cases i)
    case (Some n)
    with "2.prems"(2) e a show ?thesis by simp
  next
    case None
    obtain k stc where k: "?c = (k, stc)" by (cases ?c)
    have "shm_live (shmLog [Linked key (decimal k)] stc)"
      using log_live c k by (simp add: harmless_def)
    with "2.prems"(2) e None k c "2.IH" [OF e _ refl refl k [symmetric]] show ?thesis
      by (auto split: if_splits)
  qed
qed simp

lemma create_live: 
  assumes "shm_live st" shows "shm_live (snd (createSegment os key n claimed st))"
proof -
  obtain i st1 where i: "(case claimed of Some i \<Rightarrow> (i, st) | None \<Rightarrow> nextId st) = (i, st1)"
    by (cases "case claimed of Some i \<Rightarrow> (i, st) | None \<Rightarrow> nextId st")
  then have l: "shm_live st1" using assms nextId_live [OF assms] by (auto split: option.splits)
  obtain d es where d: "ashmem_create_region os (roundUp n (so_pageSize os)) = (d, es)" by (cases "ashmem_create_region os (roundUp n (so_pageSize os))")
  show ?thesis
  proof (cases "d < 0")
    case True
    have "harmless es" using d True by (auto simp: ashmem_create_region_def harmless_def split: if_splits)
    then show ?thesis using l log_live i d True by (simp add: createSegment_def Let_def)
  next
    case False
    have "es = [Opened d]" using d False by (auto simp: ashmem_create_region_def split: if_splits)
    then show ?thesis using i d False
      by (simp add: createSegment_def Let_def) (rule live_new [OF l, of d], auto)
  qed
qed

lemma shmget_live:
  assumes "shm_live st" "shmget sys os key n flags st = Some (v, st1)"
  shows "shm_live st1"
proof (cases "sh_syscall st")
  case True
  with assms show ?thesis by (simp add: shmget_def)
next
  case False
  obtain ok sta where a: "startListening os (ashv_check_pid (so_pid os) st) = (ok, sta)"
    by (cases "startListening os (ashv_check_pid (so_pid os) st)")
  have la: "shm_live sta" using listening_live [OF check_pid_live [OF assms(1)], of os "so_pid os"] a by simp
  show ?thesis
  proof (cases "ok \<and> \<not> sh_locked sta")
    case False
    with assms(2) \<open>\<not> sh_syscall st\<close> a la show ?thesis by (auto simp: shmget_def shmLock_def split: if_splits)
  next
    case True
    let ?b = "sta\<lparr>sh_locked := True\<rparr>"
    have lb: "shm_live ?b" using la by (simp add: shm_live_def)
    from assms(2) \<open>\<not> sh_syscall st\<close> a True
    have r: "(if key = IPC_PRIVATE then Some (createSegment os key n None ?b)
        else case keyLoop key (so_links os) None ?b of None \<Rightarrow> None
          | Some (Inl shmid, st3) \<Rightarrow> Some (shmid, shmUnlock st3)
          | Some (Inr shmid, st3) \<Rightarrow> Some (createSegment os key n (Some shmid) st3)) = Some (v, st1)"
      by (simp add: shmget_def shmLock_def)
    show ?thesis
    proof (cases "key = IPC_PRIVATE")
      case True
      with r create_live [OF lb, of os key n None] show ?thesis by simp
    next
      case False
      with r obtain w st3 where w: "keyLoop key (so_links os) None ?b = Some (w, st3)"
        by (auto split: option.splits)
      have "shm_live st3" by (rule keyLoop_live [OF lb w])
      with r False w create_live [of st3] show ?thesis by (cases w) (auto, metis snd_conv)
    qed
  qed
qed

lemma map_live:
  assumes "shm_live st" "idx < length (sh_table st)"
  shows "shm_live (snd (mapSegment os shmaddr shmflg idx st))"
proof -
  have "map sg_descriptor ((sh_table st)[idx := (sh_table st ! idx)\<lparr>sg_addr := a\<rparr>]) = map sg_descriptor (sh_table st)" for a
    by (rule map_update_same) simp
  then show ?thesis using assms(1)
    by (auto simp: mapSegment_def Let_def harmless_def split: option.split
        intro!: live_quiet [OF assms(1), where es = "[Mapped _ _ _ _]"])
qed

lemma remote_index:
  "ashv_read_remote_segment r shmid st = Some (Some i, st1) \<Longrightarrow> i < length (sh_table st1)"
  by (auto simp: ashv_read_remote_segment_def Let_def split: if_splits option.splits)

lemma shmat_live:
  assumes "shm_live st" "shmat sys os r shmid shmaddr shmflg st = Some (v, st1)"
  shows "shm_live st1"
proof (cases "sh_syscall st")
  case True
  with assms show ?thesis by (simp add: shmat_def)
next
  case False
  with assms(2) obtain sta where a: "shmLock (ashv_check_pid (so_pid os) st) = Some sta"
    by (auto simp: shmat_def split: option.splits)
  have la: "shm_live sta" by (rule lock_live [OF check_pid_live [OF assms(1)] a])
  let ?f = "case ashv_find_local_index shmid sta of Some idx \<Rightarrow> Some (Some idx, sta)
      | None \<Rightarrow> if ashv_socket_id_from_shmid shmid \<noteq> sh_socketId sta
                then ashv_read_remote_segment r shmid sta else Some (None, sta)"
  from assms(2) False a obtain i stb where b: "?f = Some (i, stb)" by (auto simp: shmat_def split: option.splits)
  have lb: "shm_live stb \<and> (\<forall>k. i = Some k \<longrightarrow> k < length (sh_table stb))"
    using b la remote_live [OF la] remote_index
    by (auto simp: ashv_find_local_index_def dest: findIndex_Some split: option.splits if_splits)
  show ?thesis
  proof (cases i)
    case None
    with assms(2) False a b lb show ?thesis by (auto simp: shmat_def)
  next
    case (Some k)
    with assms(2) False a b lb map_live [of stb k os shmaddr shmflg] show ?thesis
      by (auto simp: shmat_def split: prod.splits)
  qed
qed

lemma shmdt_live:
  assumes "shm_live st" "shmdt sys os shmaddr st = Some (v, st1)"
  shows "shm_live st1"
proof (cases "sh_syscall st")
  case True
  with assms show ?thesis by (simp add: shmdt_def)
next
  case False
  with assms(2) obtain sta where a: "shmLock (ashv_check_pid (so_pid os) st) = Some sta"
    by (auto simp: shmdt_def split: option.splits)
  have la: "shm_live sta" by (rule lock_live [OF check_pid_live [OF assms(1)] a])
  show ?thesis
  proof (cases "findIndex (\<lambda>s. sg_addr s = shmaddr) (sh_table sta)")
    case None
    with assms(2) False a la show ?thesis by (auto simp: shmdt_def)
  next
    case (Some i)
    let ?s = "sh_table sta ! i"
    let ?b = "shmLog [Unmapped (sg_addr ?s) (sg_size ?s)] (sta\<lparr>sh_table := (sh_table sta)[i := ?s\<lparr>sg_addr := 0\<rparr>]\<rparr>)"
    have i: "i < length (sh_table sta)" using findIndex_Some [OF Some] by simp
    have "map sg_descriptor ((sh_table sta)[i := ?s\<lparr>sg_addr := 0\<rparr>]) = map sg_descriptor (sh_table sta)"
      by (simp add: map_update_same)
    then have lb: "shm_live ?b" by (intro live_quiet [OF la, where es = "[Unmapped (sg_addr ?s) (sg_size ?s)]"]) (simp_all add: harmless_def)
    have "st1 = shmUnlock ?b \<or> st1 = shmUnlock (android_shmem_delete i ?b)"
      using assms(2) False a Some by (auto simp: shmdt_def Let_def split: if_splits)
    then show ?thesis using lb live_delete [OF lb, of i] i by auto
  qed
qed

lemma shmctl_live:
  assumes "shm_live st" "shmctl sys os shmid cmd hasBuf st = Some (v, b, st1)"
  shows "shm_live st1"
proof -
  let ?a = "ashv_check_pid (so_pid os) st"
  have la: "shm_live ?a" "shm_live (?a\<lparr>sh_locked := True\<rparr>)"
    using check_pid_live [OF assms(1), of "so_pid os"] by (simp_all add: shm_live_def)
  have m: "shm_live (?a\<lparr>sh_table := (sh_table ?a)[i := (sh_table ?a ! i)\<lparr>sg_marked := True\<rparr>], sh_locked := c\<rparr>)"
    if "i < length (sh_table ?a)" for i c
  proof (rule live_quiet [OF la(1), where es = "[]"])
    show "map sg_descriptor (sh_table (?a\<lparr>sh_table := (sh_table ?a)[i := (sh_table ?a ! i)\<lparr>sg_marked := True\<rparr>], sh_locked := c\<rparr>))
        = map sg_descriptor (sh_table ?a)"
      by (simp add: map_update_same)
  qed (simp_all add: harmless_def)
  show ?thesis
    using assms la m live_delete [OF la(2)]
    by (auto simp: shmctl_def shmLock_def ashv_find_local_index_def shmUnlock_def Let_def dest: findIndex_Some
        split: if_splits option.splits)
qed

lemma serve_live:
  "shm_live st \<Longrightarrow> ashv_thread_function sock request st = Some (v, st1) \<Longrightarrow> shm_live st1"
  by (rule live_quiet [where es = "drop (length (sh_log st)) (sh_log st1)"], assumption)
    (auto simp: ashv_thread_function_def shmLock_def harmless_def Let_def split: option.splits if_splits)

section \<open>Segments as a map\<close>

text \<open>The abstract view: which segment an identifier names.\<close>

definition segmentsOf :: "shmem_t list \<Rightarrow> int \<Rightarrow> shmem_t option" where
  "segmentsOf t = map_of (map (\<lambda>s. (sg_id s, s)) t)"

abbreviation segments :: "shmState \<Rightarrow> int \<Rightarrow> shmem_t option" where
  "segments st \<equiv> segmentsOf (sh_table st)"

text \<open>The process works on its own table, holds no lock, and identifiers and addresses are unambiguous.\<close>

definition shm_ready :: "shmOs \<Rightarrow> shmState \<Rightarrow> bool" where
  "shm_ready os st \<longleftrightarrow> \<not> sh_syscall st \<and> \<not> sh_locked st \<and> sh_pidSetup st = so_pid os \<and> so_pid os \<noteq> 0"

definition tableOk :: "shmem_t list \<Rightarrow> bool" where
  "tableOk t \<longleftrightarrow> distinct (map sg_id t) \<and> distinct (map sg_addr (filter (\<lambda>s. sg_addr s \<noteq> 0) t))"

definition shm_ok :: "shmOs \<Rightarrow> shmState \<Rightarrow> bool" where
  "shm_ok os st \<longleftrightarrow> shm_ready os st \<and> tableOk (sh_table st)"

lemma ready_check_pid: "shm_ready os st \<Longrightarrow> ashv_check_pid (so_pid os) st = st"
  by (simp add: shm_ready_def ashv_check_pid_def)

lemma ready_lock: "shm_ready os st \<Longrightarrow> shmLock st = Some (st\<lparr>sh_locked := True\<rparr>)"
  by (simp add: shm_ready_def shmLock_def)

lemma segmentsOf_None: "segmentsOf t i = None \<longleftrightarrow> i \<notin> sg_id ` set t"
  by (force simp: segmentsOf_def map_of_eq_None_iff)

lemma segmentsOf_Some: "distinct (map sg_id t) \<Longrightarrow> segmentsOf t i = Some s \<longleftrightarrow> s \<in> set t \<and> sg_id s = i"
proof -
  assume "distinct (map sg_id t)"
  then have "distinct (map fst (map (\<lambda>s. (sg_id s, s)) t))" by (simp add: comp_def)
  then show ?thesis by (auto simp: segmentsOf_def map_of_eq_Some_iff)
qed

lemma segmentsOf_append: "segmentsOf (t @ u) = segmentsOf u ++ segmentsOf t"
  by (simp add: segmentsOf_def)

lemma segmentsOf_replace:
  assumes "distinct (map sg_id (ys @ s # zs))" "sg_id s' = sg_id s"
  shows "segmentsOf (ys @ s' # zs) = (segmentsOf (ys @ s # zs))(sg_id s \<mapsto> s')"
proof
  fix i
  have "segmentsOf ys (sg_id s) = None" using assms(1) by (auto simp: segmentsOf_None)
  then show "segmentsOf (ys @ s' # zs) i = ((segmentsOf (ys @ s # zs))(sg_id s \<mapsto> s')) i"
    using assms(2) by (auto simp: segmentsOf_def map_add_def split: option.splits)
qed

lemma segmentsOf_delete:
  assumes "distinct (map sg_id (ys @ s # zs))"
  shows "segmentsOf (ys @ zs) = (segmentsOf (ys @ s # zs))(sg_id s := None)"
proof
  fix i
  have "segmentsOf ys (sg_id s) = None" "segmentsOf zs (sg_id s) = None" using assms by (auto simp: segmentsOf_None)
  then show "segmentsOf (ys @ zs) i = ((segmentsOf (ys @ s # zs))(sg_id s := None)) i"
    by (auto simp: segmentsOf_def map_add_def split: option.splits)
qed

lemma find_id_split:
  assumes "ashv_find_local_index shmid st = Some idx"
  obtains ys s zs where "sh_table st = ys @ s # zs" "length ys = idx" "sg_id s = shmid"
  using assms unfolding ashv_find_local_index_def by (auto elim: findIndex_split)

lemma find_id_None: "ashv_find_local_index shmid st = None \<longleftrightarrow> segments st shmid = None"
  by (auto simp: ashv_find_local_index_def findIndex_None segmentsOf_None)

lemma find_id_segment:
  assumes "distinct (map sg_id (sh_table st))" "ashv_find_local_index shmid st = Some idx"
  shows "segments st shmid = Some (sh_table st ! idx) \<and> idx < length (sh_table st)"
  using findIndex_Some [OF assms(2) [unfolded ashv_find_local_index_def]] segmentsOf_Some [OF assms(1)] by auto

text \<open>Removal and detaching on maps.\<close>

definition specRemove :: "int \<Rightarrow> (int \<Rightarrow> shmem_t option) \<Rightarrow> int \<Rightarrow> shmem_t option" where
  "specRemove i m = (case m i of None \<Rightarrow> m
     | Some s \<Rightarrow> if sg_addr s \<noteq> 0 then m(i \<mapsto> s\<lparr>sg_marked := True\<rparr>) else m(i := None))"

definition specDetach :: "int \<Rightarrow> nat \<Rightarrow> (int \<Rightarrow> shmem_t option) \<Rightarrow> int \<Rightarrow> shmem_t option" where
  "specDetach sock a m = (\<lambda>i. case m i of None \<Rightarrow> None
     | Some s \<Rightarrow> if sg_addr s \<noteq> a then Some s
                 else if sg_marked s \<or> ashv_socket_id_from_shmid i \<noteq> sock then None else Some (s\<lparr>sg_addr := 0\<rparr>))"

locale segment_life =
  fixes seg :: "'s \<Rightarrow> int \<Rightarrow> shmem_t option" and inv :: "'s \<Rightarrow> bool" and sock :: "'s \<Rightarrow> int"
    and remove :: "int \<Rightarrow> 's \<Rightarrow> 's" and detach :: "nat \<Rightarrow> 's \<Rightarrow> 's"
  assumes remove_seg: "inv st \<Longrightarrow> seg (remove i st) = specRemove i (seg st)"
    and detach_seg: "inv st \<Longrightarrow> a \<noteq> 0 \<Longrightarrow> seg (detach a st) = specDetach (sock st) a (seg st)"
    and remove_inv: "inv st \<Longrightarrow> inv (remove i st)"
    and detach_inv: "inv st \<Longrightarrow> a \<noteq> 0 \<Longrightarrow> inv (detach a st)"
    and apart: "inv st \<Longrightarrow> seg st i = Some s \<Longrightarrow> seg st j = Some t \<Longrightarrow> sg_addr s = sg_addr t \<Longrightarrow> sg_addr s \<noteq> 0 \<Longrightarrow> i = j"
begin

lemma removed_until_detached:
  assumes "inv st" "seg st i = Some s" "sg_addr s \<noteq> 0"
  shows "seg (remove i st) = (seg st)(i \<mapsto> s\<lparr>sg_marked := True\<rparr>)
    \<and> seg (detach (sg_addr s) (remove i st)) = (seg st)(i := None)"
proof -
  have r: "seg (remove i st) = (seg st)(i \<mapsto> s\<lparr>sg_marked := True\<rparr>)"
    using remove_seg [OF assms(1)] assms(2, 3) by (simp add: specRemove_def)
  moreover have "seg (detach (sg_addr s) (remove i st)) j = ((seg st)(i := None)) j" for j
    using detach_seg [OF remove_inv [OF assms(1)] assms(3)] r apart [OF assms(1, 2) _ _ assms(3)]
    by (auto simp: specDetach_def split: option.split)
  ultimately show ?thesis by blast
qed

lemma unattached_goes_at_once:
  assumes "inv st" "seg st i = Some s" "sg_addr s = 0"
  shows "seg (remove i st) = (seg st)(i := None)"
  using remove_seg [OF assms(1)] assms(2, 3) by (simp add: specRemove_def)

end

text \<open>The calls as functions on states.\<close>

definition removeCall :: "shmOs \<Rightarrow> int \<Rightarrow> shmState \<Rightarrow> shmState" where
  "removeCall os i st = (case shmctl (\<lambda>_ _. 0) os i IPC_RMID False st of None \<Rightarrow> st | Some (_, _, st1) \<Rightarrow> st1)"

definition detachCall :: "shmOs \<Rightarrow> nat \<Rightarrow> shmState \<Rightarrow> shmState" where
  "detachCall os a st = (case shmdt (\<lambda>_. 0) os a st of None \<Rightarrow> st | Some (_, st1) \<Rightarrow> st1)"

lemma shmctl_remove:
  assumes "shm_ready os st"
  shows "shmctl sys os i IPC_RMID b st = Some (0, None, removeCall os i st)"
  using assms [unfolded shm_ready_def]
  by (simp add: removeCall_def shmctl_def ready_check_pid [OF assms] ready_lock [OF assms] Let_def split: option.split)

lemma shmdt_detach:
  assumes "shm_ready os st"
  shows "shmdt sys os a st = Some (0, detachCall os a st)"
  using assms [unfolded shm_ready_def]
  by (simp add: detachCall_def shmdt_def ready_check_pid [OF assms] ready_lock [OF assms] Let_def split: option.split)

lemma tableOk_replace:
  assumes "tableOk (ys @ s # zs)" "sg_id s' = sg_id s" "sg_addr s' = sg_addr s \<or> sg_addr s' = 0"
  shows "tableOk (ys @ s' # zs)"
proof (cases "sg_addr s' = sg_addr s")
  case True
  with assms(1, 2) show ?thesis by (cases "sg_addr s = 0") (simp_all add: tableOk_def)
next
  case False
  with assms show ?thesis by (simp add: tableOk_def split: if_splits)
qed

lemma tableOk_delete: "tableOk (ys @ s # zs) \<Longrightarrow> tableOk (ys @ zs)"
  by (auto simp: tableOk_def split: if_splits)

lemma delete_table:
  "sh_table st = ys @ s # zs \<Longrightarrow> sh_table (android_shmem_delete (length ys) st) = ys @ zs"
  by (simp add: android_shmem_delete_def Let_def)

lemma delete_frame [simp]:
  "sh_syscall (android_shmem_delete i st) = sh_syscall st" "sh_socketId (android_shmem_delete i st) = sh_socketId st"
  "sh_pidSetup (android_shmem_delete i st) = sh_pidSetup st"
  by (simp_all add: android_shmem_delete_def Let_def)

lemma removeCall_known:
  assumes "shm_ready os st" "sh_table st = ys @ s # zs" "sg_id s = i" "\<forall>y \<in> set ys. sg_id y \<noteq> i"
  shows "sh_table (removeCall os i st) = (if sg_addr s \<noteq> 0 then ys @ s\<lparr>sg_marked := True\<rparr> # zs else ys @ zs)
    \<and> sh_log (removeCall os i st) = sh_log st @ (if sg_addr s = 0 \<and> sg_descriptor s \<noteq> 0 then [Closed (sg_descriptor s)] else [])
    \<and> shm_ready os (removeCall os i st) \<and> sh_socketId (removeCall os i st) = sh_socketId st"
proof -
  have "findIndex (\<lambda>s. sg_id s = i) (ys @ s # zs) = Some (length ys)"
    using assms(3, 4) by (intro findIndex_at) auto
  then show ?thesis using assms(2) assms(1) [unfolded shm_ready_def]
    by (simp add: removeCall_def shmctl_def ready_check_pid [OF assms(1)] ready_lock [OF assms(1)] shm_ready_def ashv_find_local_index_def Let_def
        android_shmem_delete_def shmUnlock_def shmLog_def)
qed

lemma removeCall_unknown:
  assumes "shm_ready os st" "segments st i = None"
  shows "removeCall os i st = st"
proof -
  have "ashv_find_local_index i (st\<lparr>sh_locked := True\<rparr>) = None" using assms(2) by (simp add: find_id_None)
  then show ?thesis using assms(1) [unfolded shm_ready_def]
    by (simp add: removeCall_def shmctl_def ready_check_pid [OF assms(1)] ready_lock [OF assms(1)] shmUnlock_def)
qed

lemma detachCall_known:
  assumes "shm_ready os st" "sh_table st = ys @ s # zs" "sg_addr s = a" "\<forall>y \<in> set ys. sg_addr y \<noteq> a"
  shows "sh_table (detachCall os a st) =
      (if sg_marked s \<or> ashv_socket_id_from_shmid (sg_id s) \<noteq> sh_socketId st then ys @ zs else ys @ s\<lparr>sg_addr := 0\<rparr> # zs)
    \<and> sh_log (detachCall os a st) = sh_log st @ Unmapped a (sg_size s) #
        (if (sg_marked s \<or> ashv_socket_id_from_shmid (sg_id s) \<noteq> sh_socketId st) \<and> sg_descriptor s \<noteq> 0
         then [Closed (sg_descriptor s)] else [])
    \<and> shm_ready os (detachCall os a st) \<and> sh_socketId (detachCall os a st) = sh_socketId st"
proof -
  have "findIndex (\<lambda>s. sg_addr s = a) (ys @ s # zs) = Some (length ys)"
    using assms(3, 4) by (intro findIndex_at) auto
  then show ?thesis using assms(2, 3) assms(1) [unfolded shm_ready_def]
    by (simp add: detachCall_def shmdt_def ready_check_pid [OF assms(1)] ready_lock [OF assms(1)] shm_ready_def Let_def
        android_shmem_delete_def shmUnlock_def shmLog_def)
qed

lemma detachCall_unknown:
  assumes "shm_ready os st" "\<forall>s \<in> set (sh_table st). sg_addr s \<noteq> a"
  shows "detachCall os a st = st"
proof -
  have "findIndex (\<lambda>s. sg_addr s = a) (sh_table st) = None" using assms(2) by (simp add: findIndex_None)
  then show ?thesis using assms(1) [unfolded shm_ready_def]
    by (simp add: detachCall_def shmdt_def ready_check_pid [OF assms(1)] ready_lock [OF assms(1)] shmUnlock_def)
qed

lemma tableOk_apart:
  assumes "tableOk t" "s \<in> set t" "u \<in> set t" "sg_addr s = sg_addr u" "sg_addr s \<noteq> 0"
  shows "s = u"
  using assms by (auto simp: tableOk_def distinct_map inj_on_def)

lemma detach_spec:
  assumes "shm_ok os st" "a \<noteq> 0"
  shows "segments (detachCall os a st) = specDetach (sh_socketId st) a (segments st) \<and> shm_ok os (detachCall os a st)"
proof (cases "\<exists>s \<in> set (sh_table st). sg_addr s = a")
  case False
  then have "detachCall os a st = st" using assms(1) by (intro detachCall_unknown) (auto simp: shm_ok_def)
  moreover have "specDetach (sh_socketId st) a (segments st) i = segments st i" for i
  proof (cases "segments st i")
    case (Some s)
    then have "s \<in> set (sh_table st)" using segmentsOf_Some assms(1) by (simp add: shm_ok_def tableOk_def)
    with False Some show ?thesis by (simp add: specDetach_def)
  qed (simp add: specDetach_def)
  ultimately show ?thesis using assms(1) by auto
next
  case True
  then obtain ys s zs where t: "sh_table st = ys @ s # zs" "sg_addr s = a" "\<forall>y \<in> set ys. sg_addr y \<noteq> a"
    using split_list_first_prop [OF True] by blast
  have ok: "tableOk (ys @ s # zs)" "shm_ready os st" using assms(1) t(1) by (auto simp: shm_ok_def)
  then have d: "distinct (map sg_id (ys @ s # zs))" by (simp add: tableOk_def)
  note k = detachCall_known [OF ok(2) t]
  have other: "sg_addr u \<noteq> a" if "u \<in> set (ys @ s # zs)" "u \<noteq> s" for u
    using tableOk_apart [OF ok(1) that(1), of s] that(2) t(2) assms(2) by auto
  have "specDetach (sh_socketId st) a (segmentsOf (ys @ s # zs)) i = segments (detachCall os a st) i" for i
  proof (cases "i = sg_id s")
    case True
    have "segmentsOf (ys @ s # zs) (sg_id s) = Some s" using segmentsOf_Some [OF d] by simp
    with True k t(2) show ?thesis
      by (simp add: specDetach_def segmentsOf_delete [OF d] segmentsOf_replace [OF d, of "s\<lparr>sg_addr := 0\<rparr>"])
  next
    case False
    have "sg_addr u \<noteq> a" if "segmentsOf (ys @ s # zs) i = Some u" for u
      using that segmentsOf_Some [OF d] other False by auto
    with False k show ?thesis
      by (auto simp: specDetach_def segmentsOf_delete [OF d] segmentsOf_replace [OF d, of "s\<lparr>sg_addr := 0\<rparr>"] split: option.split)
  qed
  moreover have "shm_ok os (detachCall os a st)"
    using k tableOk_delete [OF ok(1)] tableOk_replace [OF ok(1), of "s\<lparr>sg_addr := 0\<rparr>"] by (simp add: shm_ok_def)
  ultimately show ?thesis using t(1) by auto
qed

lemma remove_spec:
  assumes "shm_ok os st"
  shows "segments (removeCall os i st) = specRemove i (segments st) \<and> shm_ok os (removeCall os i st)
    \<and> sh_socketId (removeCall os i st) = sh_socketId st"
proof (cases "segments st i")
  case None
  then show ?thesis using assms removeCall_unknown by (simp add: specRemove_def shm_ok_def)
next
  case (Some s)
  have ok: "tableOk (sh_table st)" "shm_ready os st" using assms by (auto simp: shm_ok_def)
  then have "s \<in> set (sh_table st)" "sg_id s = i" using Some segmentsOf_Some by (auto simp: tableOk_def)
  then obtain ys zs where t: "sh_table st = ys @ s # zs" by (meson split_list)
  have d: "distinct (map sg_id (ys @ s # zs))" using ok t by (simp add: tableOk_def)
  then have "\<forall>y \<in> set ys. sg_id y \<noteq> i" using \<open>sg_id s = i\<close> by (auto simp: image_iff)
  note k = removeCall_known [OF ok(2) t \<open>sg_id s = i\<close> this]
  have "segments (removeCall os i st) = specRemove i (segments st)"
    using k Some t \<open>sg_id s = i\<close> segmentsOf_delete [OF d] segmentsOf_replace [OF d, of "s\<lparr>sg_marked := True\<rparr>"]
    by (simp add: specRemove_def)
  moreover have "shm_ok os (removeCall os i st)"
    using k ok t tableOk_delete [of ys s zs] tableOk_replace [of ys s zs "s\<lparr>sg_marked := True\<rparr>"] by (simp add: shm_ok_def)
  ultimately show ?thesis using k by blast
qed

interpretation shm: segment_life segments "shm_ok os" sh_socketId "removeCall os" "detachCall os" for os
proof
  fix st i j a s t
  assume ok: "shm_ok os st"
  show "segments (removeCall os i st) = specRemove i (segments st)" "shm_ok os (removeCall os i st)"
    using remove_spec [OF ok] by blast+
  show "segments (detachCall os a st) = specDetach (sh_socketId st) a (segments st)" "shm_ok os (detachCall os a st)"
    if "a \<noteq> 0" using detach_spec [OF ok that] by blast+
  show "i = j" if "segments st i = Some s" "segments st j = Some t" "sg_addr s = sg_addr t" "sg_addr s \<noteq> 0"
    using that ok tableOk_apart [of "sh_table st" s t] segmentsOf_Some [of "sh_table st"]
    by (auto simp: shm_ok_def tableOk_def)
qed

section \<open>Returning\<close>

lemma remote_returns:
  "ra_key r \<noteq> None \<Longrightarrow> \<exists>v. ashv_read_remote_segment r shmid st = Some v"
  by (auto simp: ashv_read_remote_segment_def Let_def split: option.split)

lemma existing_returns:
  "ra_key (la_remote l) \<noteq> None \<Longrightarrow> \<exists>i st1. existingSegment l st = Some (i, st1)"
  using remote_returns [of "la_remote l"] by (auto simp: existingSegment_def Let_def split: option.split)

lemma keyLoop_returns:
  assumes "\<forall>l \<in> set ls. ra_key (la_remote l) \<noteq> None" "\<exists>l \<in> set ls. la_symlink l"
  shows "\<exists>v st1. keyLoop key ls shmid st = Some (v, st1)"
  using assms
proof (induction key ls shmid st rule: keyLoop.induct)
  case (2 key l ls shmid st)
  obtain i sta where e: "existingSegment l st = Some (i, sta)"
    using existing_returns [of l st] "2.prems"(1) by auto
  let ?b = "if la_link l = None then sta else shmLog [Unlinked key] sta"
  obtain k stc where k: "(case shmid of Some i \<Rightarrow> (i, ?b) | None \<Rightarrow> nextId ?b) = (k, stc)"
    by (cases "case shmid of Some i \<Rightarrow> (i, ?b) | None \<Rightarrow> nextId ?b")
  show ?case
  proof (cases "i = None \<and> \<not> la_symlink l")
    case True
    then have "\<exists>v st1. keyLoop key ls (Some k) stc = Some (v, st1)"
      using "2.IH" [OF e _ refl refl k [symmetric]] "2.prems" by auto
    with True e k show ?thesis by simp
  next
    case False
    with e k show ?thesis by (cases i) simp_all
  qed
qed simp

lemma create_unlocks: "\<not> sh_locked (snd (createSegment os key n claimed st))"
  by (simp add: createSegment_def Let_def split: prod.split)

lemma check_pid_unlocked:
  "sh_locked st \<longrightarrow> sh_pidSetup st \<noteq> 0 \<and> sh_pidSetup st \<noteq> p \<Longrightarrow> \<not> sh_locked (ashv_check_pid p st)"
  by (auto simp: ashv_check_pid_def)

lemma listening_unlocked: "sh_locked (snd (startListening os st)) = sh_locked st"
  by (simp add: startListening_def Let_def split: option.split)

section \<open>Properties\<close>

text \<open>
  C30: a shared-memory identifier survives the trip through the key link as text, and it leads back
  to the socket of the process that made it exactly when that socket's number is below 0x8000.
  Socket numbers are the low 16 bits of a process id, so for the upper half the owner takes its
  own segments for foreign ones.
\<close>

theorem shm_ids_name_their_owner:
  assumes "0 < s" "s < 0x10000" "c < 0x8000"
  shows "atoi (decimal (ashv_shmid_from_counter s c)) = ashv_shmid_from_counter s c
    \<and> (ashv_socket_id_from_shmid (ashv_shmid_from_counter s c) = s \<longleftrightarrow> s < 0x8000)"
proof (cases "s < 0x8000")
  case True
  with assms socket_id_local [of s c] show ?thesis by (simp add: atoi_decimal)
next
  case False
  with assms socket_id_foreign [of s c] show ?thesis by (simp add: atoi_decimal)
qed

theorem shm_ids_name_their_owner_witness:
  "ashv_socket_id_from_shmid (ashv_shmid_from_counter 0x1234 5) = 0x1234
   \<and> ashv_socket_id_from_shmid (ashv_shmid_from_counter 0x9234 5) \<noteq> 0x9234"
  using shm_ids_name_their_owner [of "0x1234" 5] shm_ids_name_their_owner [of "0x9234" 5] by simp

text \<open>The states a process can reach, whatever the kernel and the other processes answer.\<close>

definition shmStart :: shmState where
  "shmStart = \<lparr>sh_table = [], sh_socketId = 0, sh_pidSetup = 0, sh_thread = 0, sh_counter = 0, sh_locked = False,
     sh_syscall = False, sh_errno = 0, sh_log = []\<rparr>"

inductive shmReachable :: "shmState \<Rightarrow> bool" where
  reach_start: "shmReachable shmStart"
| reach_get: "shmReachable st \<Longrightarrow> shmget sys os key n flags st = Some (v, st1) \<Longrightarrow> shmReachable st1"
| reach_at: "shmReachable st \<Longrightarrow> shmat sysA os r shmid shmaddr shmflg st = Some (w, st1) \<Longrightarrow> shmReachable st1"
| reach_dt: "shmReachable st \<Longrightarrow> shmdt sysD os shmaddr st = Some (v, st1) \<Longrightarrow> shmReachable st1"
| reach_ctl: "shmReachable st \<Longrightarrow> shmctl sysC os shmid cmd hasBuf st = Some (v, b, st1) \<Longrightarrow> shmReachable st1"
| reach_serve: "shmReachable st \<Longrightarrow> ashv_thread_function sock request st = Some (z, st1) \<Longrightarrow> shmReachable st1"
| reach_fork: "shmReachable st \<Longrightarrow> shmReachable (st\<lparr>sh_locked := held\<rparr>)"

text \<open>
  C29: in every reachable state, forks included, the descriptor of every segment in the table is
  open: it was opened more often than it was closed, once for each entry that uses it.
\<close>

theorem shm_descriptors_stay_open:
  assumes "shmReachable st"
  shows "shm_live st"
  using assms
proof (induction rule: shmReachable.induct)
  case reach_start
  show ?case by (simp add: shm_live_def shmStart_def)
next
  case (reach_fork st held)
  then show ?case by simp
qed (auto intro: shmget_live shmat_live shmdt_live shmctl_live serve_live)

text \<open>A kernel that grants everything, to a process with id 100.\<close>

definition demoKernel :: shmOs where
  "demoKernel = \<lparr>so_pid = 100, so_socket = 3, so_bind = (\<lambda>_. True), so_listen = True, so_thread = 1,
     so_links = [\<lparr>la_link = None, la_remote = \<lparr>ra_socket = -1, ra_connect = False, ra_send = False, ra_key = Some None,
        ra_fd = -1, ra_size = 0\<rparr>, la_symlink = True\<rparr>],
     so_pageSize = 4096, so_open = 7, so_setName = 0, so_setSize = (\<lambda>_. 0), so_mmap = (\<lambda>_ _ _ _. Some 4096),
     so_uid = 0, so_gid = 0\<rparr>"

definition demoSegment :: shmem_t where
  "demoSegment = \<lparr>sg_id = 6553601, sg_addr = 0, sg_descriptor = 7, sg_size = 8192, sg_marked = False, sg_key = 0\<rparr>"

lemma demo_bind: "bindAddress demoKernel = Some 100"
  unfolding bindAddress_def demoKernel_def by (subst upt_conv_Cons) simp_all

lemma demo_id: "ashv_shmid_from_counter 100 1 = 6553601"
  by (simp add: ashv_shmid_from_counter_def toInt32_eq)

definition demoShm :: shmState where
  "demoShm = shmStart\<lparr>sh_table := [demoSegment], sh_socketId := 100, sh_pidSetup := 100, sh_thread := 1, sh_counter := 1,
     sh_log := [Opened 3, Opened 7]\<rparr>"

lemma demo_get: "shmget (\<lambda>_ _ _. 0) demoKernel 0 5000 0 shmStart = Some (6553601, demoShm)"
proof -
  have k: "so_pid demoKernel = 100" "so_socket demoKernel = 3" "so_listen demoKernel" "so_thread demoKernel = 1"
    "so_pageSize demoKernel = 4096" "so_open demoKernel = 7" "so_setName demoKernel = 0" "so_setSize demoKernel = (\<lambda>_. 0)"
    by (simp_all add: demoKernel_def)
  show ?thesis
    by (simp add: shmget_def startListening_def demo_bind k ashv_check_pid_def shmStart_def shmLock_def createSegment_def
        nextId_def ashmem_create_region_def roundUp_def demoShm_def demoSegment_def shmLog_def shmUnlock_def
        demo_id [unfolded One_nat_def] Let_def)
qed

theorem shm_descriptors_stay_open_witness: "shm_live demoShm \<and> sh_table demoShm = [demoSegment]"
proof
  show "shm_live demoShm"
    by (rule shm_descriptors_stay_open [OF reach_get [OF reach_start demo_get]])
qed (simp add: demoShm_def)

text \<open>
  C5: a segment removed while it is attached stays usable, only marked; the detach of its address
  then deletes exactly this segment, unmaps it once and closes its descriptor once.
\<close>

theorem shm_removed_until_detached:
  assumes "shm_ok os st" "segments st i = Some s" "sg_addr s \<noteq> 0" "sg_descriptor s \<noteq> 0"
  shows "\<exists>st1 st2. shmctl sys os i IPC_RMID b st = Some (0, None, st1)
    \<and> segments st1 = (segments st)(i \<mapsto> s\<lparr>sg_marked := True\<rparr>) \<and> sh_log st1 = sh_log st
    \<and> shmdt sysD os (sg_addr s) st1 = Some (0, st2) \<and> segments st2 = (segments st)(i := None)
    \<and> sh_log st2 = sh_log st @ [Unmapped (sg_addr s) (sg_size s), Closed (sg_descriptor s)]"
proof -
  have ready: "shm_ready os st" and ok: "tableOk (sh_table st)" using assms(1) by (auto simp: shm_ok_def)
  let ?st1 = "removeCall os i st" and ?s = "s\<lparr>sg_marked := True\<rparr>"
  have "s \<in> set (sh_table st)" and id: "sg_id s = i"
    using assms(2) segmentsOf_Some ok by (auto simp: tableOk_def)
  then obtain ys zs where t: "sh_table st = ys @ s # zs" by (meson split_list)
  have nid: "\<forall>y \<in> set ys. sg_id y \<noteq> i" using ok t id by (auto simp: tableOk_def image_iff)
  note k = removeCall_known [OF ready t id nid]
  have "sg_addr y \<noteq> sg_addr s" if y: "y \<in> set ys" for y
  proof
    assume "sg_addr y = sg_addr s"
    then have "s = y" by (intro tableOk_apart [OF ok]) (use y t assms(3) in simp_all)
    then show False using nid y id by simp
  qed
  then have "sh_log (detachCall os (sg_addr s) ?st1) = sh_log st @ [Unmapped (sg_addr s) (sg_size s), Closed (sg_descriptor s)]"
    using detachCall_known [of os ?st1 ys ?s zs "sg_addr s"] k assms(3, 4) by simp
  moreover have "shm_ready os ?st1" "sh_log ?st1 = sh_log st" using k assms(3) by simp_all
  ultimately show ?thesis
    using shm.removed_until_detached [OF assms(1-3)] shmctl_remove [OF ready, of sys i b]
      shmdt_detach [of os ?st1 sysD "sg_addr s"] by (intro exI conjI) simp_all
qed

definition demoAttached :: shmState where
  "demoAttached = demoShm\<lparr>sh_table := [demoSegment\<lparr>sg_addr := 4096\<rparr>]\<rparr>"

theorem shm_removed_until_detached_witness:
  "\<exists>st1 st2. shmctl (\<lambda>_ _. 0) demoKernel 6553601 IPC_RMID False demoAttached = Some (0, None, st1)
    \<and> shmdt (\<lambda>_. 0) demoKernel 4096 st1 = Some (0, st2)
    \<and> sh_log st2 = [Opened 3, Opened 7, Unmapped 4096 8192, Closed 7]"
proof -
  have "shm_ok demoKernel demoAttached" "segments demoAttached 6553601 = Some (demoSegment\<lparr>sg_addr := 4096\<rparr>)"
    by (simp_all add: shm_ok_def shm_ready_def tableOk_def demoKernel_def demoAttached_def demoShm_def demoSegment_def
        shmStart_def segmentsOf_def)
  from shm_removed_until_detached [OF this, of "\<lambda>_ _. 0" False "\<lambda>_. 0"] show ?thesis
    by (auto simp: demoSegment_def demoAttached_def demoShm_def)
qed

text \<open>
  creating a private segment that gets a fresh identifier adds exactly this segment, of the
  size rounded up to pages, and asking for its status afterwards reports that size and key and
  changes nothing.
\<close>

theorem shm_create_then_stat:
  assumes "shm_ready os st" "sh_thread st \<noteq> 0" "0 \<le> so_open os" "0 \<le> so_setName os" "\<forall>m. 0 \<le> so_setSize os m"
    and "fst (nextId st) = i" "segments st i = None"
  shows "\<exists>st1 stat. shmget sys os IPC_PRIVATE n flags st = Some (i, st1)
    \<and> segments st1 = (segments st)(i \<mapsto> \<lparr>sg_id = i, sg_addr = 0, sg_descriptor = so_open os,
         sg_size = roundUp n (so_pageSize os), sg_marked = False, sg_key = IPC_PRIVATE\<rparr>)
    \<and> shmctl sysC os i IPC_STAT True st1 = Some (0, Some stat, st1)
    \<and> ss_segsz stat = roundUp n (so_pageSize os) \<and> ss_key stat = IPC_PRIVATE"
proof -
  let ?new = "\<lparr>sg_id = i, sg_addr = 0, sg_descriptor = so_open os, sg_size = roundUp n (so_pageSize os),
    sg_marked = False, sg_key = IPC_PRIVATE\<rparr>"
  let ?st1 = "shmLog [Opened (so_open os)]
    (st\<lparr>sh_counter := (sh_counter st + 1) mod 0x8000, sh_table := sh_table st @ [?new]\<rparr>)"
  have fresh: "i \<notin> sg_id ` set (sh_table st)" using assms(7) by (simp add: segmentsOf_None)
  have "\<not> so_setSize os (roundUp n (so_pageSize os)) < 0" by (simp add: not_less assms(5))
  then have get: "shmget sys os IPC_PRIVATE n flags st = Some (i, ?st1)"
    using assms(2-4, 6) assms(1) [unfolded shm_ready_def] ready_check_pid [OF assms(1)]
    by (simp add: shmget_def startListening_def shmLock_def createSegment_def nextId_def ashmem_create_region_def
        shmLog_def shmUnlock_def Let_def)
  have seg: "segments ?st1 = (segments st)(i \<mapsto> ?new)"
  proof
    fix j
    show "segments ?st1 j = ((segments st)(i \<mapsto> ?new)) j"
      using assms(7) by (auto simp: segmentsOf_def map_add_def split: option.splits)
  qed
  have r: "shm_ready os ?st1" using assms(1) by (simp add: shm_ready_def)
  have "ashv_find_local_index i (?st1\<lparr>sh_locked := True\<rparr>) = Some (length (sh_table st))"
    unfolding ashv_find_local_index_def using fresh findIndex_at [of "sh_table st" "\<lambda>s. sg_id s = i" ?new "[]"]
    by (auto simp: image_iff)
  then have "\<exists>stat. shmctl sysC os i IPC_STAT True ?st1 = Some (0, Some stat, ?st1)
      \<and> ss_segsz stat = roundUp n (so_pageSize os) \<and> ss_key stat = IPC_PRIVATE"
    using ready_check_pid [OF r] ready_lock [OF r] r [unfolded shm_ready_def]
    by (simp add: shmctl_def shmUnlock_def shmLog_def Let_def)
  with get seg show ?thesis by blast
qed

theorem shm_create_then_stat_witness:
  "\<exists>st1 stat. shmget (\<lambda>_ _ _. 0) demoKernel IPC_PRIVATE 5000 0 demoShm = Some (6553602, st1)
    \<and> shmctl (\<lambda>_ _. 0) demoKernel 6553602 IPC_STAT True st1 = Some (0, Some stat, st1) \<and> ss_segsz stat = 8192"
proof -
  have i: "fst (nextId demoShm) = 6553602" "segments demoShm 6553602 = None"
    by (simp_all add: nextId_def demoShm_def shmStart_def ashv_shmid_from_counter_def toInt32_eq segmentsOf_def
        demoSegment_def)
  have "shm_ready demoKernel demoShm" "sh_thread demoShm \<noteq> 0" "0 \<le> so_open demoKernel" "0 \<le> so_setName demoKernel"
    "\<forall>m. 0 \<le> so_setSize demoKernel m" "so_pageSize demoKernel = 4096"
    by (simp_all add: shm_ready_def demoKernel_def demoShm_def shmStart_def)
  from shm_create_then_stat [OF this(1-5) i, of "\<lambda>_ _ _. 0" 5000 0 "\<lambda>_ _. 0"] this(6) show ?thesis
    by (auto simp: roundUp_def)
qed

lemma lock_free: "\<not> sh_locked st \<Longrightarrow> shmLock st = Some (st\<lparr>sh_locked := True\<rparr>)"
  by (simp add: shmLock_def)

lemma shmget_returns:
  assumes "\<not> sh_syscall st" "\<not> sh_locked (ashv_check_pid (so_pid os) st)"
    and "\<forall>l \<in> set (so_links os). ra_key (la_remote l) \<noteq> None" "\<exists>l \<in> set (so_links os). la_symlink l"
  shows "\<exists>v st1. shmget sys os key n flags st = Some (v, st1) \<and> \<not> sh_locked st1"
proof -
  obtain ok sta where a: "startListening os (ashv_check_pid (so_pid os) st) = (ok, sta)"
    by (cases "startListening os (ashv_check_pid (so_pid os) st)")
  have free: "\<not> sh_locked sta" using listening_unlocked [of os "ashv_check_pid (so_pid os) st"] a assms(2) by simp
  let ?b = "sta\<lparr>sh_locked := True\<rparr>"
  obtain w stc where w: "keyLoop key (so_links os) None ?b = Some (w, stc)"
    using keyLoop_returns [OF assms(3, 4)] by blast
  have "\<exists>v st1. createSegment os key n claimed stx = (v, st1) \<and> \<not> sh_locked st1" for claimed stx
    using create_unlocks [of os key n claimed stx] by (cases "createSegment os key n claimed stx") simp
  then show ?thesis
    using assms(1) a free w by (cases w) (auto simp: shmget_def lock_free)
qed

lemma shmat_returns:
  assumes "\<not> sh_syscall st" "\<not> sh_locked (ashv_check_pid (so_pid os) st)" "ra_key r \<noteq> None"
  shows "\<exists>v st1. shmat sys os r shmid shmaddr shmflg st = Some (v, st1) \<and> \<not> sh_locked st1"
  using assms(1) lock_free [OF assms(2)]
    remote_returns [OF assms(3), of shmid "(ashv_check_pid (so_pid os) st)\<lparr>sh_locked := True\<rparr>"]
  by (auto simp: shmat_def split: option.splits prod.split)

text \<open>
  unless the kernel has the calls itself, every call returns and leaves the mutex free, also the
  first call of a forked child that inherited the mutex locked, provided that the peers it asks
  answer and that creating the key link succeeds at some turn.
\<close>

theorem shm_calls_return:
  assumes "\<not> sh_syscall st" "sh_locked st \<longrightarrow> sh_pidSetup st \<noteq> 0 \<and> sh_pidSetup st \<noteq> so_pid os"
    and "ra_key r \<noteq> None" "\<forall>l \<in> set (so_links os). ra_key (la_remote l) \<noteq> None" "\<exists>l \<in> set (so_links os). la_symlink l"
  shows "(\<exists>v st1. shmget sys os key n flags st = Some (v, st1) \<and> \<not> sh_locked st1)
    \<and> (\<exists>v st1. shmat sysA os r shmid shmaddr shmflg st = Some (v, st1) \<and> \<not> sh_locked st1)
    \<and> (\<exists>v st1. shmdt sysD os shmaddr st = Some (v, st1) \<and> \<not> sh_locked st1)
    \<and> (\<exists>v buf st1. shmctl sysC os shmid cmd hasBuf st = Some (v, buf, st1) \<and> \<not> sh_locked st1)"
proof -
  have free: "\<not> sh_locked (ashv_check_pid (so_pid os) st)" by (rule check_pid_unlocked [OF assms(2)])
  have "\<exists>v st1. shmdt sysD os shmaddr st = Some (v, st1) \<and> \<not> sh_locked st1"
    using assms(1) lock_free [OF free] by (auto simp: shmdt_def Let_def split: option.split)
  moreover have "\<exists>v buf st1. shmctl sysC os shmid cmd hasBuf st = Some (v, buf, st1) \<and> \<not> sh_locked st1"
    using assms(1) free lock_free [OF free] by (auto simp: shmctl_def Let_def split: option.split)
  ultimately show ?thesis using shmget_returns [OF assms(1) free assms(4, 5)] shmat_returns [OF assms(1) free assms(3)] by blast
qed

theorem shm_calls_return_witness:
  "\<exists>v st1. shmget (\<lambda>_ _ _. 0) demoKernel 5 100 0 (demoShm\<lparr>sh_pidSetup := 99, sh_locked := True\<rparr>) = Some (v, st1)
     \<and> \<not> sh_locked st1"
  using shm_calls_return [of "demoShm\<lparr>sh_pidSetup := 99, sh_locked := True\<rparr>" demoKernel
      "la_remote (hd (so_links demoKernel))" "\<lambda>_ _ _. 0" 5 100 0]
  by (simp add: demoShm_def shmStart_def demoKernel_def)


definition demoStale :: shmOs where
  "demoStale = demoKernel\<lparr>so_links := [\<lparr>la_link = Some (decimal 6553601), la_remote = \<lparr>ra_socket = 9, ra_connect = True,
     ra_send = True, ra_key = None, ra_fd = -1, ra_size = 0\<rparr>, la_symlink = True\<rparr>]\<rparr>"


text \<open>
  the check for proot never succeeds: a status file with a tracer line is taken for "no proot",
  and one without it passes a null pointer on, so the kernel's own calls are never switched on.
\<close>

theorem proot_never_detected:
  "isProot status \<noteq> Some True \<and> (\<exists>buf. isProot (Some (''TracerPid: 7'' @ buf)) = Some False)
   \<and> isProot (Some ''Name: x'') = None
   \<and> (case check_syscall_support status e st of None \<Rightarrow> True | Some st1 \<Rightarrow> st1 = st)"
proof -
  have "isProot status \<noteq> Some True" by (auto simp: isProot_def split: option.split)
  then show ?thesis
    by (auto simp: isProot_def check_syscall_support_def strstr.simps split: option.split bool.split)
qed

end
