(* ===== verification/Window_Model.thy ===== *)
theory Window_Model
  imports Window_State Window_Size Window_Family Images
begin

text \<open>
  The window model (\<open>window_model.c\<close>): the records of the application windows that the host shows,
  their publication, the window-manager requests of clients and the host's confirmations, and
  the focus rules.  The X server's part of the state (window tree, properties, focus, grabs) is
  read from the same state; functions of the server (\<open>MakeAtom\<close>, \<open>dixLookupWindow\<close>, the clock,
  \<open>UnmapWindow\<close>) are the argument \<open>env\<close>.  What is sent or called outside the component goes to a
  log.  Loops over sibling and child pointers return \<open>None\<close> when they would not end.
\<close>

section \<open>State\<close>

text \<open>Property data of format 8 holds one byte per element.\<close>

record xprop =
  pr_type :: string
  pr_format :: nat
  pr_data :: "u32 list"

datatype focusWin = FocusNull | FocusPointerRoot | FocusNone | FocusWindow wptr

record WindowRecord =
  wr_id :: XID
  wr_seen :: bool
  wr_mapped :: bool
  wr_changed :: bool
  wr_published :: bool
  wr_destroyed :: bool
  wr_fullscreen :: LorieFullscreenState
  wr_maximized :: LorieMaximizedState
  wr_interaction :: LorieWindowInteraction
  wr_title :: "u8 list"
  wr_hasIcon :: bool
  wr_role :: LorieWindowRole
  wr_icon :: "u32 list"

record windowInfo =
  wi_window :: XID
  wi_mapped :: bool
  wi_hasIcon :: bool
  wi_role :: LorieWindowRole
  wi_hostManaged :: bool
  wi_fullscreenSerial :: u32
  wi_maximized :: LorieMaximizedState
  wi_interaction :: LorieWindowInteraction
  wi_fullscreenRequested :: bool
  wi_fullscreenActual :: bool
  wi_parent :: XID
  wi_width :: int
  wi_height :: int
  wi_constraints :: LorieWindowConstraints
  wi_title :: "u8 list"
  wi_instance :: "u8 list"
  wi_className :: "u8 list"
  wi_icon :: "u32 list"

record LorieInspectionNode =
  in_id :: XID
  in_parent :: XID
  in_transientFor :: XID
  in_leader :: XID
  in_x :: int
  in_y :: int
  in_width :: int
  in_height :: int
  in_flags :: u32
  in_type :: nat
  in_title :: "u8 list"

record LorieInspectionResult =
  ir_window :: XID
  ir_focus :: XID
  ir_focusKind :: nat
  ir_count :: nat
  ir_screenWidth :: int
  ir_screenHeight :: int
  ir_found :: bool
  ir_truncated :: bool

datatype wmEffect =
    SendWindowInfo windowInfo
  | SendWindowRemoved XID
  | SendWindowsDone
  | SendGesture XID u32
  | SendInspectionNode u32 LorieInspectionNode
  | SendInspectionDone u32 LorieInspectionResult
  | ShellGeometryChanged
  | OutputGeometryChanged
  | OutputWindowDestroyed XID
  | FreeWindow XID
  | SendManagerMessage u32 XID
  | SendProtocol wptr string
  | CloseDownClient nat
  | RaiseWindow wptr
  | SetInputFocus "wptr option"
  | UnmapWindow wptr
  | DeactivateGrab nat

record wmState =
  wm_store :: wstore
  wm_root :: wptr
  wm_props :: "wptr \<Rightarrow> string \<Rightarrow> xprop option"
  wm_focus :: focusWin
  wm_grab :: "nat \<Rightarrow> wptr option"
  wm_considered :: "wptr \<Rightarrow> bool"
  wm_records :: "WindowRecord list"
  wm_dirty :: bool
  wm_observing :: bool
  wm_manager :: XID
  wm_stateSerial :: u32
  wm_lastInputWindow :: XID
  wm_lastInputTime :: u32
  wm_log :: "wmEffect list"

text \<open>
  The server around the component.  \<open>we_find\<close> is \<open>dixLookupWindow\<close>, \<open>we_changeOk\<close> the result of
  \<open>dixChangeWindowProperty\<close>, \<open>we_unmap\<close> what unmapping a window does to the tree and the grabs.
\<close>

record wmEnv =
  we_atom :: "string \<Rightarrow> u32"
  we_find :: "XID \<Rightarrow> wptr option"
  we_client :: "wptr \<Rightarrow> nat"
  we_now :: u32
  we_callocOk :: bool
  we_changeOk :: "wptr \<Rightarrow> string \<Rightarrow> bool"
  we_unmap :: "wptr \<Rightarrow> wstore \<times> (nat \<Rightarrow> wptr option) \<Rightarrow> wstore \<times> (nat \<Rightarrow> wptr option)"

definition emitWm :: "wmEffect \<Rightarrow> wmState \<Rightarrow> wmState" where
  "emitWm e st = st\<lparr>wm_log := wm_log st @ [e]\<rparr>"

section \<open>Properties of windows\<close>

definition nextStateSerial :: "wmState \<Rightarrow> u32 \<times> wmState" where
  "nextStateSerial st = (let s = bumpSerial (wm_stateSerial st) in (s, st\<lparr>wm_stateSerial := s\<rparr>))"

definition property :: "wmState \<Rightarrow> wptr \<Rightarrow> string \<Rightarrow> xprop option" where
  "property st w name = wm_props st w name"

definition reference :: "wmState \<Rightarrow> wptr \<Rightarrow> string \<Rightarrow> XID" where
  "reference st w name =
     (case property st w name of None \<Rightarrow> 0
      | Some v \<Rightarrow> if pr_type v = ''WINDOW'' \<and> pr_format v = 32 \<and> length (pr_data v) = 1 then hd (pr_data v) else 0)"

definition normalHints :: "wmState \<Rightarrow> wptr \<Rightarrow> hints" where
  "normalHints st w =
     (case property st w ''WM_NORMAL_HINTS'' of None \<Rightarrow> None
      | Some v \<Rightarrow> if pr_type v = ''WM_SIZE_HINTS'' \<and> pr_format v = 32 then Some (pr_data v) else None)"

definition lorieWindowConstraints :: "wmState \<Rightarrow> wptr \<Rightarrow> LorieWindowConstraints" where
  "lorieWindowConstraints st w = lorieWindowSizeHints (normalHints st w)"

definition hasAtom :: "wmEnv \<Rightarrow> wmState \<Rightarrow> wptr \<Rightarrow> string \<Rightarrow> string \<Rightarrow> bool" where
  "hasAtom env st w name item =
     (case property st w name of None \<Rightarrow> False
      | Some v \<Rightarrow> pr_type v = ''ATOM'' \<and> pr_format v = 32 \<and> list_ex (\<lambda>a. a = we_atom env item) (pr_data v))"

definition lookup :: "wmEnv \<Rightarrow> XID \<Rightarrow> wptr option" where
  "lookup env i = (if i \<noteq> 0 then we_find env i else None)"

definition lorieWindowUserInput :: "wmEnv \<Rightarrow> XID \<Rightarrow> wmState \<Rightarrow> wmState" where
  "lorieWindowUserInput env window st =
     (if wm_manager st = 0 then st else st\<lparr>wm_lastInputWindow := window, wm_lastInputTime := we_now env\<rparr>)"

definition urgent :: "wmState \<Rightarrow> wptr \<Rightarrow> bool" where
  "urgent st w =
     (case property st w ''WM_HINTS'' of None \<Rightarrow> False
      | Some v \<Rightarrow> pr_type v = ''WM_HINTS'' \<and> pr_format v = 32 \<and> pr_data v \<noteq> [] \<and> has_flag (hd (pr_data v)) 256)"

definition transientFor :: "wmEnv \<Rightarrow> wmState \<Rightarrow> wptr \<Rightarrow> wptr option" where
  "transientFor env st w = lookup env (reference st w ''WM_TRANSIENT_FOR'')"

definition lorieWindowInitialDialogParent :: "wmEnv \<Rightarrow> wptr \<Rightarrow> wmState \<Rightarrow> wptr option \<times> wmState" where
  "lorieWindowInitialDialogParent env w st =
     (if wm_considered st w then (None, st)
      else let st1 = st\<lparr>wm_considered := (wm_considered st)(w := True)\<rparr>; s = wm_store st
      in if wm_manager st = 0 \<or> w_overrideRedirect (s w) \<or> w_class (s w) \<noteq> InputOutput
            \<or> w_parent (s w) \<noteq> Some (wm_root st)
            \<or> \<not> hasAtom env st w ''_NET_WM_WINDOW_TYPE'' ''_NET_WM_WINDOW_TYPE_DIALOG'' then (None, st1)
      else case transientFor env st w of None \<Rightarrow> (None, st1)
        | Some parent \<Rightarrow>
            if parent = w \<or> parent = wm_root st \<or> \<not> w_realized (s parent) \<or> w_class (s parent) \<noteq> InputOutput
            then (None, st1)
            else if lorieWindowPositionSpecified (normalHints st w) then (None, st1)
            else (Some parent, st1))"

section \<open>Families\<close>

definition lorieWindowBelongsTo :: "wmEnv \<Rightarrow> wmState \<Rightarrow> wptr \<Rightarrow> wptr \<Rightarrow> bool" where
  "lorieWindowBelongsTo env st w owner =
     lorieWindowFamilyContains (\<lambda>v. w_parent (wm_store st v)) (Some w) owner (wm_root st) (transientFor env st)"

definition focusIn :: "wmEnv \<Rightarrow> wmState \<Rightarrow> wptr \<Rightarrow> bool" where
  "focusIn env st owner = (case wm_focus st of FocusWindow f \<Rightarrow> lorieWindowBelongsTo env st f owner | _ \<Rightarrow> False)"

definition familyMember :: "wmEnv \<Rightarrow> wmState \<Rightarrow> wptr \<Rightarrow> wptr \<Rightarrow> bool" where
  "familyMember env st w owner =
     (if lorieWindowBelongsTo env st w owner then True
      else let transient = reference st w ''WM_TRANSIENT_FOR''
      in if transient \<noteq> 0 \<and> transient \<noteq> w_id (wm_store st (wm_root st)) then False
      else if \<not> w_overrideRedirect (wm_store st w) \<and> \<not> hasAtom env st w ''_NET_WM_STATE'' ''_NET_WM_STATE_MODAL'' then False
      else let group = reference st w ''WM_CLIENT_LEADER''
      in if group = 0 \<or> group \<noteq> reference st owner ''WM_CLIENT_LEADER'' then False
      else focusIn env st owner)"

text \<open>
  The windows that \<open>visitFamily\<close> hands to its callback, in order, from a child and its siblings on.
  The callbacks change neither the tree nor the membership.
\<close>

partial_function (option) visitSiblings ::
    "wstore \<Rightarrow> (wptr \<Rightarrow> wptr \<Rightarrow> bool) \<Rightarrow> wptr \<Rightarrow> wptr option \<Rightarrow> wptr list option" where
  "visitSiblings s member owner child =
     (if child = None then Some []
      else let c = the child
      in if \<not> w_realized (s c) \<or> c = owner \<or> member c owner
         then Option.bind (visitSiblings s member owner (w_prevSib (s c)))
                (\<lambda>rest. Some ((if w_realized (s c) \<and> w_class (s c) = InputOutput \<and> member c owner then [c] else []) @ rest))
         else Option.bind (visitSiblings s member owner (w_lastChild (s c)))
                (\<lambda>inside. Option.bind (visitSiblings s member owner (w_prevSib (s c)))
                  (\<lambda>rest. Some (inside @ rest))))"

definition lorieWindowFamily :: "wmEnv \<Rightarrow> wmState \<Rightarrow> wptr \<Rightarrow> wptr list option" where
  "lorieWindowFamily env st owner =
     visitSiblings (wm_store st) (familyMember env st) owner (w_lastChild (wm_store st (wm_root st)))"

section \<open>Inspection\<close>

definition cbytes :: "xprop \<Rightarrow> u8 list" where
  "cbytes v = map ucast (pr_data v)"

text \<open>A zero-filled character array of \<open>n\<close> bytes with at most \<open>n - 1\<close> bytes copied into it.\<close>

definition cbuffer :: "nat \<Rightarrow> u8 list \<Rightarrow> u8 list" where
  "cbuffer n bs = (let t = take (n - 1) bs in t @ replicate (n - length t) 0)"

definition windowTitle :: "wmState \<Rightarrow> wptr \<Rightarrow> nat \<Rightarrow> u8 list" where
  "windowTitle st w n =
     (let value = (case property st w ''_NET_WM_NAME'' of
                     Some v \<Rightarrow> if pr_format v = 8 then Some v else property st w ''WM_NAME''
                   | None \<Rightarrow> property st w ''WM_NAME'')
      in case value of Some v \<Rightarrow> if pr_format v = 8 then cbuffer n (cbytes v) else replicate n 0
         | None \<Rightarrow> replicate n 0)"

definition inspectionNames :: "string list" where
  "inspectionNames = [''_NET_WM_WINDOW_TYPE_NORMAL'', ''_NET_WM_WINDOW_TYPE_DIALOG'', ''_NET_WM_WINDOW_TYPE_MENU'',
     ''_NET_WM_WINDOW_TYPE_DROPDOWN_MENU'', ''_NET_WM_WINDOW_TYPE_POPUP_MENU'', ''_NET_WM_WINDOW_TYPE_TOOLTIP'',
     ''_NET_WM_WINDOW_TYPE_SPLASH'', ''_NET_WM_WINDOW_TYPE_UTILITY'']"

definition inspectionType :: "wmEnv \<Rightarrow> wmState \<Rightarrow> wptr \<Rightarrow> nat" where
  "inspectionType env st w =
     (case findIndex (hasAtom env st w ''_NET_WM_WINDOW_TYPE'') inspectionNames of
        Some i \<Rightarrow> i + 1
      | None \<Rightarrow> if property st w ''_NET_WM_WINDOW_TYPE'' \<noteq> None then 9 else 0)"

definition inspectNode :: "wmEnv \<Rightarrow> u32 \<Rightarrow> wptr \<Rightarrow> wmState \<Rightarrow> wmState" where
  "inspectNode env serial w st =
     (let s = wm_store st
      in emitWm (SendInspectionNode serial
        \<lparr>in_id = w_id (s w), in_parent = (case w_parent (s w) of None \<Rightarrow> 0 | Some p \<Rightarrow> w_id (s p)),
         in_transientFor = reference st w ''WM_TRANSIENT_FOR'', in_leader = reference st w ''WM_CLIENT_LEADER'',
         in_x = w_x (s w), in_y = w_y (s w), in_width = w_width (s w), in_height = w_height (s w),
         in_flags = (if w_mapped (s w) then 1 else 0) OR (if w_realized (s w) then 2 else 0)
           OR (if w_class (s w) = InputOnly then 4 else 0) OR (if w_overrideRedirect (s w) then 8 else 0)
           OR (if hasAtom env st w ''_NET_WM_STATE'' ''_NET_WM_STATE_MODAL'' then 16 else 0),
         in_type = inspectionType env st w, in_title = windowTitle st w 192\<rparr>) st)"

definition focusKind :: "wmState \<Rightarrow> nat \<times> XID" where
  "focusKind st = (case wm_focus st of FocusPointerRoot \<Rightarrow> (1, 0) | FocusNull \<Rightarrow> (0, 0) | FocusNone \<Rightarrow> (0, 0)
     | FocusWindow f \<Rightarrow> (2, w_id (wm_store st f)))"

definition lorieWindowInspect :: "wmEnv \<Rightarrow> u32 \<Rightarrow> XID \<Rightarrow> nat \<Rightarrow> wmState \<Rightarrow> wmState option" where
  "lorieWindowInspect env serial i limit st =
     (let root = wm_root st; s = wm_store st;
          owner = (case lookup env i of Some w \<Rightarrow> if w = root then None else Some w | None \<Rightarrow> None);
          result = \<lparr>ir_window = i, ir_focus = snd (focusKind st), ir_focusKind = fst (focusKind st), ir_count = 0,
            ir_screenWidth = w_width (s root), ir_screenHeight = w_height (s root), ir_found = owner \<noteq> None,
            ir_truncated = False\<rparr>
      in case owner of None \<Rightarrow> Some (emitWm (SendInspectionDone serial result) st)
         | Some ow \<Rightarrow>
             let n = (if limit < 1 \<or> limit > 256 then 256 else limit)
             in map_option (\<lambda>(ws, walk).
                  emitWm (SendInspectionDone serial (result\<lparr>ir_count := walk_count walk, ir_truncated := walk_truncated walk\<rparr>))
                    (fold (inspectNode env serial) ws st))
                  (lorieInspectFamily s (Some root) (Some ow) n (familyMember env st)))"

section \<open>Records and their publication\<close>

definition isApplication :: "wmEnv \<Rightarrow> wmState \<Rightarrow> wptr \<Rightarrow> bool" where
  "isApplication env st w =
     (if w = wm_root st \<or> w_class (wm_store st w) \<noteq> InputOutput \<or> w_overrideRedirect (wm_store st w)
         \<or> reference st w ''WM_TRANSIENT_FOR'' \<noteq> 0 then False
      else if hasAtom env st w ''_NET_WM_WINDOW_TYPE'' ''_NET_WM_WINDOW_TYPE_DESKTOP''
         \<or> hasAtom env st w ''_NET_WM_WINDOW_TYPE'' ''_NET_WM_WINDOW_TYPE_DOCK'' then False
      else if hasAtom env st w ''_NET_WM_WINDOW_TYPE'' ''_NET_WM_WINDOW_TYPE_SPLASH'' then True
      else if property st w ''WM_STATE'' \<noteq> None then True
      else w_parent (wm_store st w) = Some (wm_root st)
         \<and> (property st w ''WM_CLASS'' \<noteq> None \<or> property st w ''WM_NAME'' \<noteq> None \<or> property st w ''_NET_WM_NAME'' \<noteq> None))"

text \<open>The record a live window with this identifier has in the list: its position.\<close>

definition liveRecord :: "XID \<Rightarrow> wmState \<Rightarrow> nat option" where
  "liveRecord i st = findIndex (\<lambda>r. \<not> wr_destroyed r \<and> wr_id r = i) (wm_records st)"

definition startsMinimized :: "wmState \<Rightarrow> wptr \<Rightarrow> bool" where
  "startsMinimized st w =
     (case property st w ''WM_HINTS'' of None \<Rightarrow> False
      | Some v \<Rightarrow> pr_type v = ''WM_HINTS'' \<and> pr_format v = 32 \<and> 3 \<le> length (pr_data v)
          \<and> has_flag (pr_data v ! 0) 2 \<and> pr_data v ! 2 = 3)"

definition newRecord :: "wmEnv \<Rightarrow> wptr \<Rightarrow> wmState \<Rightarrow> WindowRecord \<times> wmState" where
  "newRecord env w st =
     (let managed = wm_manager st \<noteq> 0;
          fs0 = \<lparr>fs_serial = 0, fs_requested = False, fs_actual = False\<rparr>;
          fs1 = (if managed \<and> hasAtom env st w ''_NET_WM_STATE'' ''_NET_WM_STATE_FULLSCREEN''
                 then snd (lorieFullscreenRequest fs0 1) else fs0);
          (a, st1) = nextStateSerial st;
          axes = (if managed
                  then (if hasAtom env st w ''_NET_WM_STATE'' ''_NET_WM_STATE_MAXIMIZED_HORZ'' then LORIE_MAXIMIZED_HORIZONTAL else 0)
                    OR (if hasAtom env st w ''_NET_WM_STATE'' ''_NET_WM_STATE_MAXIMIZED_VERT'' then LORIE_MAXIMIZED_VERTICAL else 0)
                  else 0);
          (b, st2) = nextStateSerial st1;
          (c, st3) = nextStateSerial st2
      in (\<lparr>wr_id = w_id (wm_store st w), wr_seen = False, wr_mapped = False, wr_changed = False, wr_published = False,
           wr_destroyed = False, wr_fullscreen = fs1\<lparr>fs_serial := a\<rparr>,
           wr_maximized = \<lparr>mx_serial = b, mx_requested = axes, mx_actual = 0\<rparr>,
           wr_interaction = \<lparr>ia_serial = c,
             ia_action = (if managed \<and> startsMinimized st w then LORIE_INTERACTION_MINIMIZE else LORIE_INTERACTION_NONE),
             ia_attention = (managed \<and> (urgent st w \<or> hasAtom env st w ''_NET_WM_STATE'' ''_NET_WM_STATE_DEMANDS_ATTENTION'')),
             ia_actual = 0\<rparr>,
           wr_title = replicate 256 0, wr_hasIcon = False, wr_role = LORIE_WINDOW_APPLICATION,
           wr_icon = replicate 4096 0\<rparr>, st3))"

text \<open>The result is the position of the record in the list; a new record goes to the front.\<close>

definition recordFor :: "wmEnv \<Rightarrow> wptr \<Rightarrow> wmState \<Rightarrow> nat option \<times> wmState" where
  "recordFor env w st =
     (if \<not> isApplication env st w then (None, st)
      else case liveRecord (w_id (wm_store st w)) st of
        Some i \<Rightarrow> (Some i, st)
      | None \<Rightarrow>
          if \<not> w_realized (wm_store st w) \<or> \<not> we_callocOk env then (None, st)
          else let (r, st1) = newRecord env w st in (Some 0, st1\<lparr>wm_records := r # wm_records st1\<rparr>))"

definition onRecord :: "nat \<Rightarrow> (WindowRecord \<Rightarrow> WindowRecord) \<Rightarrow> wmState \<Rightarrow> wmState" where
  "onRecord i f st = st\<lparr>wm_records := (wm_records st)[i := f (wm_records st ! i)]\<rparr>"

definition cstr :: "u8 list \<Rightarrow> u8 list" where
  "cstr = takeWhile (\<lambda>b. b \<noteq> 0)"

text \<open>The two strings of \<open>WM_CLASS\<close>, each ended by a zero byte and shorter than its field.\<close>

definition classStrings :: "xprop option \<Rightarrow> u8 list \<times> u8 list" where
  "classStrings value =
     (case value of None \<Rightarrow> ([], [])
      | Some v \<Rightarrow>
          if pr_data v \<noteq> [] \<and> pr_type v = ''STRING'' \<and> pr_format v = 8
          then let bytes = cbytes v; first = length (cstr bytes);
                   inst = (if first < 128 \<and> first < length bytes then take first bytes else [])
               in if first < length bytes
                  then let remaining = length bytes - first - 1;
                           second = length (cstr (drop (first + 1) bytes))
                       in (inst, if second < 128 \<and> second < remaining then take second (drop (first + 1) bytes) else [])
                  else (inst, [])
          else ([], []))"

definition windowIconOf :: "wmState \<Rightarrow> wptr \<Rightarrow> bool \<times> u32 list" where
  "windowIconOf st w =
     lorieWindowIcon (case property st w ''_NET_WM_ICON'' of None \<Rightarrow> None
       | Some v \<Rightarrow> if pr_type v = ''CARDINAL'' \<and> pr_format v = 32 then Some (pr_data v) else None)"

definition windowRoleOf :: "wmEnv \<Rightarrow> wmState \<Rightarrow> wptr \<Rightarrow> LorieWindowRole" where
  "windowRoleOf env st w =
     lorieWindowRole (hasAtom env st w ''_NET_WM_WINDOW_TYPE'' ''_NET_WM_WINDOW_TYPE_SPLASH'')
       (hasAtom env st w ''_NET_WM_WINDOW_TYPE'' ''_NET_WM_WINDOW_TYPE_DIALOG'')
       (property st w ''_NET_WM_WINDOW_TYPE'' \<noteq> None) (property st w ''WM_CLASS'' \<noteq> None) (property st w ''WM_STATE'' \<noteq> None)"

definition infoOf :: "wmState \<Rightarrow> wptr \<Rightarrow> WindowRecord \<Rightarrow> windowInfo" where
  "infoOf st w r =
     \<lparr>wi_window = wr_id r, wi_mapped = wr_mapped r, wi_hasIcon = wr_hasIcon r, wi_role = wr_role r,
      wi_hostManaged = (wm_manager st \<noteq> 0), wi_fullscreenSerial = fs_serial (wr_fullscreen r),
      wi_maximized = wr_maximized r, wi_interaction = wr_interaction r,
      wi_fullscreenRequested = fs_requested (wr_fullscreen r), wi_fullscreenActual = fs_actual (wr_fullscreen r),
      wi_parent = reference st w ''WM_TRANSIENT_FOR'', wi_width = w_width (wm_store st w), wi_height = w_height (wm_store st w),
      wi_constraints = lorieWindowConstraints st w, wi_title = wr_title r,
      wi_instance = fst (classStrings (property st w ''WM_CLASS'')), wi_className = snd (classStrings (property st w ''WM_CLASS'')),
      wi_icon = wr_icon r\<rparr>"

definition publishWindow :: "wmEnv \<Rightarrow> wptr \<Rightarrow> wmState \<Rightarrow> wmState" where
  "publishWindow env w st0 =
     (case recordFor env w st0 of (None, st) \<Rightarrow> st
      | (Some i, st1) \<Rightarrow>
          let st = onRecord i (\<lambda>r. r\<lparr>wr_seen := True\<rparr>) st1;
              r = wm_records st ! i;
              title = windowTitle st w 256;
              (hasIcon, icon) = windowIconOf st w;
              role = windowRoleOf env st w;
              mapped = w_realized (wm_store st w)
          in if \<not> wr_published r \<or> wr_changed r \<or> wr_mapped r \<noteq> mapped \<or> cstr (wr_title r) \<noteq> cstr title
                \<or> wr_role r \<noteq> role \<or> wr_hasIcon r \<noteq> hasIcon \<or> wr_icon r \<noteq> icon
             then let r1 = r\<lparr>wr_mapped := mapped, wr_title := title, wr_hasIcon := hasIcon, wr_role := role, wr_icon := icon\<rparr>
                  in onRecord i (\<lambda>_. r1\<lparr>wr_published := True, wr_changed := False\<rparr>)
                       (emitWm (SendWindowInfo (infoOf st w r1)) st)
             else st)"

text \<open>The windows \<open>walk\<close> passes to \<open>publishWindow\<close>, which does not change the tree.\<close>

partial_function (option) walkSiblings :: "wstore \<Rightarrow> wptr option \<Rightarrow> wptr list option" where
  "walkSiblings s child =
     (case child of None \<Rightarrow> Some []
      | Some c \<Rightarrow>
          Option.bind (walkSiblings s (w_lastChild (s c)))
            (\<lambda>inside. Option.bind (walkSiblings s (w_prevSib (s c))) (\<lambda>rest. Some (c # inside @ rest))))"

text \<open>Unlinking records from the list, each with the removal it announces.\<close>

fun dropRecords :: "(WindowRecord \<Rightarrow> bool) \<Rightarrow> (WindowRecord \<Rightarrow> bool) \<Rightarrow> WindowRecord list \<Rightarrow> WindowRecord list \<times> wmEffect list" where
  "dropRecords gone announce [] = ([], [])"
| "dropRecords gone announce (r # rs) =
     (let (keep, es) = dropRecords gone announce rs
      in if gone r then (keep, if announce r then SendWindowRemoved (wr_id r) # es else es) else (r # keep, es))"

definition lorieWindowModelRefresh :: "wmEnv \<Rightarrow> wmState \<Rightarrow> wmState option" where
  "lorieWindowModelRefresh env st =
     (if \<not> wm_observing st \<or> \<not> wm_dirty st then Some st
      else let (live, gone) = dropRecords wr_destroyed wr_published (wm_records st);
               st1 = st\<lparr>wm_dirty := False, wm_records := map (\<lambda>r. r\<lparr>wr_seen := False\<rparr>) live, wm_log := wm_log st @ gone\<rparr>
      in map_option (\<lambda>ws.
           let st2 = fold (publishWindow env) ws st1;
               (kept, lost) = dropRecords (\<lambda>r. \<not> wr_seen r) (\<lambda>_. True) (wm_records st2)
           in st2\<lparr>wm_records := kept, wm_log := wm_log st2 @ lost @ [SendWindowsDone]\<rparr>)
         (walkSiblings (wm_store st1) (w_lastChild (wm_store st1 (wm_root st1)))))"

definition lorieWindowModelReset :: "wmState \<Rightarrow> wmState" where
  "lorieWindowModelReset st =
     st\<lparr>wm_records := map (\<lambda>r. r\<lparr>wr_published := False\<rparr>) (wm_records st), wm_observing := False, wm_dirty := True\<rparr>"

definition lorieWindowModelObserve :: "wmState \<Rightarrow> wmState" where
  "lorieWindowModelObserve st = (lorieWindowModelReset st)\<lparr>wm_observing := True\<rparr>"

section \<open>Changes of properties\<close>

definition markChanged :: "XID \<Rightarrow> wmState \<Rightarrow> wmState" where
  "markChanged i st = st\<lparr>wm_records := map (\<lambda>r. if wr_id r = i then r\<lparr>wr_changed := True\<rparr> else r) (wm_records st)\<rparr>"

text \<open>New hints of a window: each of its records gets a fresh serial.\<close>

fun hintRecords :: "XID \<Rightarrow> bool \<Rightarrow> WindowRecord list \<Rightarrow> u32 \<Rightarrow> WindowRecord list \<times> u32" where
  "hintRecords i att [] serial = ([], serial)"
| "hintRecords i att (r # rs) serial =
     (if wr_id r = i
      then let s = bumpSerial serial; (rs', serial') = hintRecords i att rs s
           in (r\<lparr>wr_interaction := (wr_interaction r)\<lparr>ia_attention := att, ia_action := LORIE_INTERACTION_NONE, ia_serial := s\<rparr>,
                 wr_changed := True\<rparr> # rs', serial')
      else let (rs', serial') = hintRecords i att rs serial in (r # rs', serial'))"

definition propertyChanged :: "wptr \<Rightarrow> string \<Rightarrow> wmState \<Rightarrow> wmState" where
  "propertyChanged w name st =
     (let i = w_id (wm_store st w);
          st1 = (if wm_manager st \<noteq> 0 \<and> name = ''WM_HINTS''
                 then let (rs, serial) = hintRecords i (urgent st w) (wm_records st) (wm_stateSerial st)
                      in st\<lparr>wm_records := rs, wm_stateSerial := serial\<rparr>
                 else st);
          st2 = (if name = ''WM_CLASS'' \<or> name = ''WM_NORMAL_HINTS'' then markChanged i st1 else st1)
      in emitWm OutputGeometryChanged (st2\<lparr>wm_dirty := True\<rparr>))"

text \<open>\<open>dixChangeWindowProperty\<close> and \<open>DeleteProperty\<close>: the server calls back when a property has changed.\<close>

definition changeProperty :: "wmEnv \<Rightarrow> wptr \<Rightarrow> string \<Rightarrow> xprop \<Rightarrow> wmState \<Rightarrow> bool \<times> wmState" where
  "changeProperty env w name v st =
     (if we_changeOk env w name
      then (True, propertyChanged w name (st\<lparr>wm_props := (wm_props st)(w := (wm_props st w)(name \<mapsto> v))\<rparr>))
      else (False, st))"

definition deleteProperty :: "wptr \<Rightarrow> string \<Rightarrow> wmState \<Rightarrow> wmState" where
  "deleteProperty w name st =
     (if wm_props st w name = None then st
      else propertyChanged w name (st\<lparr>wm_props := (wm_props st)(w := (wm_props st w)(name := None))\<rparr>))"

section \<open>Confirmations by the host\<close>

definition stateAtoms :: "wmState \<Rightarrow> wptr \<Rightarrow> u32 list" where
  "stateAtoms st w =
     (case property st w ''_NET_WM_STATE'' of None \<Rightarrow> []
      | Some v \<Rightarrow> if pr_type v = ''ATOM'' \<and> pr_format v = 32 then pr_data v else [])"

definition atomList :: "u32 list \<Rightarrow> xprop" where
  "atomList as = \<lparr>pr_type = ''ATOM'', pr_format = 32, pr_data = as\<rparr>"

definition confirmRecord :: "wmEnv \<Rightarrow> XID \<Rightarrow> wmState \<Rightarrow> (wptr \<times> nat) option \<times> wmState" where
  "confirmRecord env i st =
     (case lookup env i of None \<Rightarrow> (None, st)
      | Some w \<Rightarrow> (case recordFor env w st of (None, st1) \<Rightarrow> (None, st1) | (Some k, st1) \<Rightarrow> (Some (w, k), st1)))"

definition lorieWindowFullscreenConfirm :: "wmEnv \<Rightarrow> XID \<Rightarrow> u32 \<Rightarrow> bool \<Rightarrow> wmState \<Rightarrow> wmState" where
  "lorieWindowFullscreenConfirm env i serial fullscreen st =
     (if wm_manager st = 0 then st
      else case confirmRecord env i st of (None, st1) \<Rightarrow> st1
        | (Some (w, k), st1) \<Rightarrow>
            if serial \<noteq> fs_serial (wr_fullscreen (wm_records st1 ! k)) \<or> \<not> we_callocOk env then st1
            else let fs = we_atom env ''_NET_WM_STATE_FULLSCREEN'';
                     as = filter (\<lambda>a. a \<noteq> fs) (stateAtoms st1 w) @ (if fullscreen then [fs] else []);
                     (ok, st2) = changeProperty env w ''_NET_WM_STATE'' (atomList as) st1
                 in if ok
                    then (onRecord k (\<lambda>r. r\<lparr>wr_fullscreen := snd (lorieFullscreenConfirm (wr_fullscreen r) serial fullscreen),
                            wr_changed := True\<rparr>) st2)\<lparr>wm_dirty := True\<rparr>
                    else st2)"

definition lorieWindowMaximizedConfirm :: "wmEnv \<Rightarrow> XID \<Rightarrow> u32 \<Rightarrow> u32 \<Rightarrow> wmState \<Rightarrow> wmState" where
  "lorieWindowMaximizedConfirm env i serial axes st =
     (if wm_manager st = 0 \<or> has_flag axes (NOT 3) then st
      else case confirmRecord env i st of (None, st1) \<Rightarrow> st1
        | (Some (w, k), st1) \<Rightarrow>
            if serial \<noteq> mx_serial (wr_maximized (wm_records st1 ! k)) \<or> \<not> we_callocOk env then st1
            else let h = we_atom env ''_NET_WM_STATE_MAXIMIZED_HORZ''; v = we_atom env ''_NET_WM_STATE_MAXIMIZED_VERT'';
                     as = filter (\<lambda>a. a \<noteq> h \<and> a \<noteq> v) (stateAtoms st1 w)
                          @ (if has_flag axes LORIE_MAXIMIZED_HORIZONTAL then [h] else [])
                          @ (if has_flag axes LORIE_MAXIMIZED_VERTICAL then [v] else []);
                     (ok, st2) = changeProperty env w ''_NET_WM_STATE'' (atomList as) st1
                 in if ok
                    then (onRecord k (\<lambda>r. r\<lparr>wr_maximized := snd (lorieMaximizedConfirm (wr_maximized r) serial axes),
                            wr_changed := True\<rparr>) st2)\<lparr>wm_dirty := True\<rparr>
                    else st2)"

definition activeProperty :: "XID \<Rightarrow> xprop" where
  "activeProperty i = \<lparr>pr_type = ''WINDOW'', pr_format = 32, pr_data = [i]\<rparr>"

definition lorieWindowInteractionConfirm :: "wmEnv \<Rightarrow> XID \<Rightarrow> u32 \<Rightarrow> u32 \<Rightarrow> wmState \<Rightarrow> wmState" where
  "lorieWindowInteractionConfirm env i serial flags0 st =
     (if wm_manager st = 0 \<or> has_flag flags0 (NOT 7) then st
      else case confirmRecord env i st of (None, st1) \<Rightarrow> st1
        | (Some (w, k), st1) \<Rightarrow>
            if ia_serial (wr_interaction (wm_records st1 ! k)) \<noteq> serial \<or> \<not> we_callocOk env then st1
            else let hidden = we_atom env ''_NET_WM_STATE_HIDDEN''; attention = we_atom env ''_NET_WM_STATE_DEMANDS_ATTENTION'';
                     flags = (if has_flag flags0 LORIE_STATE_ACTIVE then flags0 AND NOT LORIE_STATE_ATTENTION else flags0);
                     as = filter (\<lambda>a. a \<noteq> hidden \<and> a \<noteq> attention) (stateAtoms st1 w)
                          @ (if has_flag flags LORIE_STATE_MINIMIZED then [hidden] else [])
                          @ (if has_flag flags LORIE_STATE_ATTENTION then [attention] else []);
                     st2 = snd (changeProperty env w ''_NET_WM_STATE'' (atomList as) st1);
                     st3 = snd (changeProperty env w ''WM_STATE''
                       \<lparr>pr_type = ''WM_STATE'', pr_format = 32, pr_data = [if has_flag flags LORIE_STATE_MINIMIZED then 3 else 1, 0]\<rparr> st2);
                     root = wm_root st3;
                     st4 = (if has_flag flags LORIE_STATE_ACTIVE \<or> reference st3 root ''_NET_ACTIVE_WINDOW'' = i
                            then snd (changeProperty env root ''_NET_ACTIVE_WINDOW''
                                   (activeProperty (if has_flag flags LORIE_STATE_ACTIVE then i else 0)) st3)
                            else st3)
                 in (onRecord k (\<lambda>r. r\<lparr>wr_interaction := (wr_interaction r)\<lparr>ia_actual := ucast flags, ia_action := LORIE_INTERACTION_NONE,
                        ia_attention := has_flag flags LORIE_STATE_ATTENTION\<rparr>, wr_changed := True\<rparr>) st4)\<lparr>wm_dirty := True\<rparr>)"

section \<open>Requests of clients\<close>

text \<open>The fields of a \<open>SendEvent\<close> request that the handler reads; types are atoms.\<close>

record xSendEvent =
  xe_destination :: XID
  xe_clientMessage :: bool
  xe_window :: XID
  xe_type :: u32
  xe_longs0 :: u32
  xe_longs1 :: u32
  xe_longs2 :: u32
  xe_longs3 :: u32

datatype sendResult = SendSuccess | SendPrevious

definition touchRecord :: "nat \<Rightarrow> (WindowRecord \<Rightarrow> WindowRecord) \<Rightarrow> wmState \<Rightarrow> wmState" where
  "touchRecord k f st = (onRecord k (\<lambda>r. (f r)\<lparr>wr_changed := True\<rparr>) st)\<lparr>wm_dirty := True\<rparr>"

definition activationRequest :: "wmEnv \<Rightarrow> wptr \<Rightarrow> nat \<Rightarrow> xSendEvent \<Rightarrow> wmState \<Rightarrow> wmState" where
  "activationRequest env w k e st =
     (let allowed = (case lookup env (wm_lastInputWindow st) of None \<Rightarrow> False
            | Some input \<Rightarrow> we_client env input = we_client env w
                \<and> lorieActivationTimestamp (xe_longs1 e) (wm_lastInputTime st) (we_now env));
          (serial, st1) = nextStateSerial (st\<lparr>wm_lastInputTime := 0\<rparr>)
      in touchRecord k (\<lambda>r. r\<lparr>wr_interaction := (wr_interaction r)\<lparr>
             ia_action := (if allowed then LORIE_INTERACTION_ACTIVATE else LORIE_INTERACTION_NONE),
             ia_attention := (if allowed then ia_attention (wr_interaction r) else True), ia_serial := serial\<rparr>\<rparr>) st1)"

definition minimizeRequest :: "nat \<Rightarrow> xSendEvent \<Rightarrow> wmState \<Rightarrow> wmState" where
  "minimizeRequest k e st =
     (if xe_longs0 e = 3
      then let (serial, st1) = nextStateSerial st
           in touchRecord k (\<lambda>r. r\<lparr>wr_interaction := (wr_interaction r)\<lparr>ia_action := LORIE_INTERACTION_MINIMIZE,
                ia_serial := serial\<rparr>\<rparr>) st1
      else st)"

definition stateFullscreen :: "wmEnv \<Rightarrow> nat \<Rightarrow> xSendEvent \<Rightarrow> wmState \<Rightarrow> wmState" where
  "stateFullscreen env k e st =
     (let fs = we_atom env ''_NET_WM_STATE_FULLSCREEN'';
          (ok, f) = lorieFullscreenRequest (wr_fullscreen (wm_records st ! k)) (xe_longs0 e)
      in if (xe_longs1 e = fs \<or> xe_longs2 e = fs) \<and> ok
         then let (serial, st1) = nextStateSerial st
              in touchRecord k (\<lambda>r. r\<lparr>wr_fullscreen := f\<lparr>fs_serial := serial\<rparr>\<rparr>) st1
         else st)"

definition stateAttention :: "wmEnv \<Rightarrow> nat \<Rightarrow> xSendEvent \<Rightarrow> wmState \<Rightarrow> wmState" where
  "stateAttention env k e st =
     (let a = we_atom env ''_NET_WM_STATE_DEMANDS_ATTENTION''
      in if (xe_longs1 e = a \<or> xe_longs2 e = a) \<and> xe_longs0 e \<le> 2
         then let (serial, st1) = nextStateSerial st
              in touchRecord k (\<lambda>r. r\<lparr>wr_interaction := (wr_interaction r)\<lparr>
                   ia_attention := (if xe_longs0 e = 2 then \<not> ia_attention (wr_interaction r) else xe_longs0 e = 1),
                   ia_action := LORIE_INTERACTION_NONE, ia_serial := serial\<rparr>\<rparr>) st1
         else st)"

definition stateMaximized :: "wmEnv \<Rightarrow> nat \<Rightarrow> xSendEvent \<Rightarrow> wmState \<Rightarrow> wmState" where
  "stateMaximized env k e st =
     (let h = we_atom env ''_NET_WM_STATE_MAXIMIZED_HORZ''; v = we_atom env ''_NET_WM_STATE_MAXIMIZED_VERT'';
          axes = (if xe_longs1 e = h \<or> xe_longs2 e = h then LORIE_MAXIMIZED_HORIZONTAL else 0)
              OR (if xe_longs1 e = v \<or> xe_longs2 e = v then LORIE_MAXIMIZED_VERTICAL else 0);
          (ok, m) = lorieMaximizedRequest (wr_maximized (wm_records st ! k)) (xe_longs0 e) axes
      in if ok
         then let (serial, st1) = nextStateSerial st
              in touchRecord k (\<lambda>r. r\<lparr>wr_maximized := m\<lparr>mx_serial := serial\<rparr>\<rparr>) st1
         else st)"

text \<open>\<open>gesture\<close> is \<open>lorieWindowGestureAllowed\<close>; messages for another handler are passed on to it.\<close>

definition sendEvent :: "wmEnv \<Rightarrow> (XID \<Rightarrow> u32 \<Rightarrow> bool) \<Rightarrow> xSendEvent \<Rightarrow> wmState \<Rightarrow> sendResult \<times> wmState" where
  "sendEvent env gesture e st =
     (if wm_manager st \<noteq> 0 \<and> xe_destination e = w_id (wm_store st (wm_root st)) \<and> xe_clientMessage e
      then let (found, st1) = confirmRecord env (xe_window e) st; type = xe_type e
      in if type = we_atom env ''_NET_ACTIVE_WINDOW'' \<or> type = we_atom env ''WM_CHANGE_STATE''
         then (SendSuccess, case found of None \<Rightarrow> st1
                | Some (w, k) \<Rightarrow> if type = we_atom env ''_NET_ACTIVE_WINDOW'' then activationRequest env w k e st1
                                 else minimizeRequest k e st1)
      else if type = we_atom env ''_NET_WM_MOVERESIZE''
         then (SendSuccess, case found of None \<Rightarrow> st1
                | Some (w, k) \<Rightarrow>
                    let r = wm_records st1 ! k; direction = xe_longs2 e
                    in if direction = 11 \<or> (direction \<le> 8 \<and> gesture (wr_id r) (xe_longs3 e))
                       then emitWm (SendGesture (wr_id r) direction) st1 else st1)
      else if type \<noteq> we_atom env ''_NET_WM_STATE'' then (SendPrevious, st1)
      else (SendSuccess, case found of None \<Rightarrow> st1
             | Some (w, k) \<Rightarrow> stateMaximized env k e (stateAttention env k e (stateFullscreen env k e st1)))
      else (SendPrevious, st))"

section \<open>The window-manager role\<close>

datatype selectionKind = SelectionSetOwner | SelectionWindowDestroy | SelectionClientClose

text \<open>\<open>ours\<close>: the change is about the window-manager selection; \<open>window\<close> is its new owner window.\<close>

definition managerChanged :: "bool \<Rightarrow> selectionKind \<Rightarrow> XID \<Rightarrow> wmState \<Rightarrow> wmState" where
  "managerChanged ours kind window st0 =
     (let st = emitWm ShellGeometryChanged st0
      in if wm_manager st = 0 \<or> \<not> ours then st
      else let destroyed = (kind = SelectionWindowDestroy)
      in if \<not> destroyed \<and> (kind \<noteq> SelectionSetOwner \<or> window = wm_manager st) then st
      else let old = wm_manager st; root = wm_root st;
               st1 = st\<lparr>wm_manager := 0\<rparr>;
               st2 = (if reference st1 root ''_NET_SUPPORTING_WM_CHECK'' = old
                      then deleteProperty root ''_NET_SUPPORTED'' (deleteProperty root ''_NET_SUPPORTING_WM_CHECK'' st1)
                      else st1);
               st3 = (if \<not> destroyed then emitWm (FreeWindow old) st2 else st2)
           in st3\<lparr>wm_records := map (\<lambda>r. r\<lparr>wr_changed := True\<rparr>) (wm_records st3), wm_dirty := True\<rparr>)"

text \<open>The lookup of the selection: absent, owned by a window (\<open>0\<close> for none), or an error.\<close>

datatype managerLookup = ManagerAbsent | ManagerOwner XID | ManagerError

definition lorieWindowManagerExternal :: "managerLookup \<Rightarrow> wmState \<Rightarrow> bool" where
  "lorieWindowManagerExternal l st = (case l of ManagerOwner w \<Rightarrow> w \<noteq> 0 \<and> w \<noteq> wm_manager st | _ \<Rightarrow> False)"

record managerAnswers =
  ma_enabled :: "string option"
  ma_lookup :: managerLookup
  ma_allocated :: bool
  ma_granted :: bool
  ma_window :: "(wptr \<times> XID) option"

definition supportedAtoms :: "wmEnv \<Rightarrow> u32 list" where
  "supportedAtoms env = map (we_atom env) [''_NET_SUPPORTING_WM_CHECK'', ''_NET_WM_STATE'', ''_NET_WM_STATE_FULLSCREEN'',
     ''_NET_WM_STATE_MAXIMIZED_HORZ'', ''_NET_WM_STATE_MAXIMIZED_VERT'', ''_NET_WM_MOVERESIZE'', ''_NET_ACTIVE_WINDOW'',
     ''_NET_WM_STATE_DEMANDS_ATTENTION'', ''_NET_WM_STATE_HIDDEN'']"

definition managerFree :: "managerAnswers \<Rightarrow> bool" where
  "managerFree a = (case ma_lookup a of ManagerAbsent \<Rightarrow> ma_allocated a \<and> ma_granted a | ManagerOwner w \<Rightarrow> w = 0
     | ManagerError \<Rightarrow> False)"

definition lorieWindowManagerReady :: "wmEnv \<Rightarrow> managerAnswers \<Rightarrow> wmState \<Rightarrow> wmState" where
  "lorieWindowManagerReady env a st =
     (if ma_enabled a \<noteq> Some ''1'' \<or> \<not> managerFree a then st
      else case ma_window a of None \<Rightarrow> st
        | Some (owner, i) \<Rightarrow>
            let st1 = managerChanged True SelectionSetOwner i (st\<lparr>wm_manager := i\<rparr>);
                root = wm_root st1; check = ''_NET_SUPPORTING_WM_CHECK'';
                st2 = snd (changeProperty env root check (activeProperty i) st1);
                st3 = snd (changeProperty env owner check (activeProperty i) st2);
                st4 = snd (changeProperty env owner ''_NET_WM_NAME''
                        \<lparr>pr_type = ''UTF8_STRING'', pr_format = 8, pr_data = map (\<lambda>c. of_char c) ''MagicDesk''\<rparr> st3);
                st5 = snd (changeProperty env root ''_NET_SUPPORTED'' (atomList (supportedAtoms env)) st4)
            in emitWm (SendManagerMessage (we_atom env ''WM_S0'') i) st5)"

section \<open>Closing and focus\<close>

definition clientMessage :: "wptr \<Rightarrow> string \<Rightarrow> wmState \<Rightarrow> wmState" where
  "clientMessage w protocol st = emitWm (SendProtocol w protocol) st"

definition lorieWindowClose :: "wmEnv \<Rightarrow> XID \<Rightarrow> bool \<Rightarrow> wmState \<Rightarrow> wmState" where
  "lorieWindowClose env i force st =
     (case lookup env i of None \<Rightarrow> st
      | Some w \<Rightarrow>
          if \<not> isApplication env st w then st
          else if \<not> force \<and> hasAtom env st w ''WM_PROTOCOLS'' ''WM_DELETE_WINDOW'' then clientMessage w ''WM_DELETE_WINDOW'' st
          else emitWm (CloseDownClient (we_client env w)) st)"

definition acceptsFocus :: "wmState \<Rightarrow> wptr \<Rightarrow> bool" where
  "acceptsFocus st w =
     (case property st w ''WM_HINTS'' of None \<Rightarrow> True
      | Some v \<Rightarrow> pr_format v \<noteq> 32 \<or> length (pr_data v) < 2 \<or> \<not> has_flag (pr_data v ! 0) 1 \<or> pr_data v ! 1 \<noteq> 0)"

definition raiseWindow :: "wmState \<Rightarrow> wptr \<Rightarrow> wmState" where
  "raiseWindow st w = emitWm (RaiseWindow w) st"

definition focusTarget :: "wmEnv \<Rightarrow> wptr \<Rightarrow> wmState \<Rightarrow> wmState" where
  "focusTarget env t st1 =
     (let st2 = (if acceptsFocus st1 t then emitWm (SetInputFocus (Some t)) st1 else st1);
          st3 = (if hasAtom env st2 t ''WM_PROTOCOLS'' ''WM_TAKE_FOCUS'' then clientMessage t ''WM_TAKE_FOCUS'' st2 else st2)
      in emitWm ShellGeometryChanged st3)"

text \<open>
  Devices are numbered as in \<open>lorieWindowBlur\<close>: the master keyboard, the master pointer, the
  keyboard and the pointer of the program.
\<close>

definition lorieWindowFocus :: "wmEnv \<Rightarrow> wptr option \<Rightarrow> wmState \<Rightarrow> wmState option" where
  "lorieWindowFocus env window st =
     (case window of None \<Rightarrow> Some st
      | Some w \<Rightarrow>
          if \<not> w_realized (wm_store st w) then Some st
          else if wm_grab st 0 \<noteq> None \<or> wm_grab st 2 \<noteq> None then Some st
          else if focusIn env st w then Some st
          else Option.bind (lorieWindowFamily env st w) (\<lambda>ws.
            let modal = (\<lambda>v. hasAtom env st v ''_NET_WM_STATE'' ''_NET_WM_STATE_MODAL'')
            in map_option (\<lambda>(target, st1).
                 case target of None \<Rightarrow> st1 | Some t \<Rightarrow> focusTarget env t st1)
               (lorieWindowActivationApply (\<lambda>s v. w_parent (wm_store s v)) raiseWindow
                  (collectActivation w modal ws) (wm_root st) st)))"

definition cancelPopup :: "wmEnv \<Rightarrow> wptr \<Rightarrow> nat \<Rightarrow> wmState \<Rightarrow> wmState" where
  "cancelPopup env w device st =
     (case (case wm_grab st device of None \<Rightarrow> None
            | Some g \<Rightarrow> lorieWindowGrabPopup (wm_store st) (Some g) w (wm_root st) (familyMember env st)) of
        None \<Rightarrow> st
      | Some p \<Rightarrow>
          if \<not> hasAtom env st p ''_NET_WM_WINDOW_TYPE'' ''_NET_WM_WINDOW_TYPE_DND''
             \<and> \<not> hasAtom env st p ''_NET_WM_WINDOW_TYPE'' ''_NET_WM_WINDOW_TYPE_TOOLTIP''
          then let (s, g) = we_unmap env p (wm_store st, wm_grab st)
               in emitWm (UnmapWindow p) (st\<lparr>wm_store := s, wm_grab := g\<rparr>)
          else st)"

definition blurDevice :: "wmEnv \<Rightarrow> wptr \<Rightarrow> nat \<Rightarrow> wmState \<Rightarrow> wmState" where
  "blurDevice env w device st =
     (let st1 = cancelPopup env w device st
      in case wm_grab st1 device of None \<Rightarrow> st1
         | Some g \<Rightarrow> if familyMember env st1 g w
                     then emitWm (DeactivateGrab device) (st1\<lparr>wm_grab := (wm_grab st1)(device := None)\<rparr>) else st1)"

definition lorieWindowBlur :: "wmEnv \<Rightarrow> wptr option \<Rightarrow> wmState \<Rightarrow> wmState" where
  "lorieWindowBlur env window st =
     (case window of None \<Rightarrow> st
      | Some w \<Rightarrow>
          let st1 = fold (blurDevice env w) [0, 1, 2, 3] st
          in if focusIn env st1 w then emitWm (SetInputFocus None) st1 else st1)"

section \<open>Hooks on the screen\<close>

definition onVisibility :: "wmState \<Rightarrow> wmState" where
  "onVisibility st = emitWm OutputGeometryChanged (st\<lparr>wm_dirty := True\<rparr>)"

definition onDestroy :: "wptr \<Rightarrow> wmState \<Rightarrow> wmState" where
  "onDestroy w st =
     (let i = w_id (wm_store st w)
      in emitWm (OutputWindowDestroyed i)
           (st\<lparr>wm_dirty := True,
               wm_records := map (\<lambda>r. if wr_id r = i then r\<lparr>wr_destroyed := True\<rparr> else r) (wm_records st)\<rparr>))"

definition onPosition :: "wptr \<Rightarrow> wmState \<Rightarrow> wmState" where
  "onPosition w st = emitWm OutputGeometryChanged (markChanged (w_id (wm_store st w)) (st\<lparr>wm_dirty := True\<rparr>))"

definition onRestack :: "wmState \<Rightarrow> wmState" where
  "onRestack st = emitWm ShellGeometryChanged (st\<lparr>wm_dirty := True\<rparr>)"

definition onShape :: "wmState \<Rightarrow> wmState" where
  "onShape st = emitWm ShellGeometryChanged st"

section \<open>The pointer loops follow the tree\<close>

fun familyTree :: "wstore \<Rightarrow> (wptr \<Rightarrow> wptr \<Rightarrow> bool) \<Rightarrow> wptr \<Rightarrow> wtree \<Rightarrow> wptr list"
and familyTrees :: "wstore \<Rightarrow> (wptr \<Rightarrow> wptr \<Rightarrow> bool) \<Rightarrow> wptr \<Rightarrow> wtree list \<Rightarrow> wptr list" where
  "familyTree s member owner (WNode c cs) =
     (if \<not> w_realized (s c) then []
      else if member c owner then (if w_class (s c) = InputOutput then [c] else [])
      else if c = owner then [] else familyTrees s member owner cs)"
| "familyTrees s member owner [] = []"
| "familyTrees s member owner (c # cs) = familyTree s member owner c @ familyTrees s member owner cs"

lemma visitSiblings_tree:
  "laid s t \<Longrightarrow> visitSiblings s member owner (w_lastChild (s (rt t))) = Some (familyTrees s member owner (subtrees t))"
  "laids s p cs \<Longrightarrow> visitSiblings s member owner (headOf cs) = Some (familyTrees s member owner cs)"
proof (induction s t and s p cs rule: laid_laids.induct)
  case (2 s w)
  show ?case by (subst visitSiblings.simps) simp
next
  case (3 s w c cs)
  obtain v us where c: "c = WNode v us" by (cases c)
  show ?case using 3 by (subst visitSiblings.simps) (simp add: c Let_def)
qed simp

lemma walkSiblings_tree:
  "laid s t \<Longrightarrow> walkSiblings s (w_lastChild (s (rt t))) = Some (pres (subtrees t))"
  "laids s p cs \<Longrightarrow> walkSiblings s (headOf cs) = Some (pres cs)"
proof (induction s t and s p cs rule: laid_laids.induct)
  case (2 s w)
  show ?case by (subst walkSiblings.simps) simp
next
  case (3 s w c cs)
  obtain v us where c: "c = WNode v us" by (cases c)
  show ?case using 3 by (subst walkSiblings.simps) (simp add: c)
qed simp

lemma familyTree_in:
  "set (familyTree s member owner t) \<subseteq> {w \<in> set (pre t). w_realized (s w) \<and> w_class (s w) = InputOutput \<and> member w owner}"
  "set (familyTrees s member owner cs) \<subseteq> {w \<in> set (pres cs). w_realized (s w) \<and> w_class (s w) = InputOutput \<and> member w owner}"
  by (induction s member owner t and s member owner cs rule: familyTree_familyTrees.induct) auto

lemma familyTree_distinct:
  "distinct (pre t) \<Longrightarrow> distinct (familyTree s member owner t)"
  "distinct (pres cs) \<Longrightarrow> distinct (familyTrees s member owner cs)"
proof (induction s member owner t and s member owner cs rule: familyTree_familyTrees.induct)
  case (3 s member owner c cs)
  then show ?case using familyTree_in [of s member owner] by fastforce
qed auto

section \<open>The host's picture\<close>

text \<open>What the host knows: the last announcement of every window that was not taken back.\<close>

fun applyView :: "wmEffect \<Rightarrow> (XID \<Rightarrow> windowInfo option) \<Rightarrow> XID \<Rightarrow> windowInfo option" where
  "applyView (SendWindowInfo i) m = m(wi_window i \<mapsto> i)"
| "applyView (SendWindowRemoved x) m = m(x := None)"
| "applyView _ m = m"

definition hostView :: "wmEffect list \<Rightarrow> (XID \<Rightarrow> windowInfo option) \<Rightarrow> XID \<Rightarrow> windowInfo option" where
  "hostView es m = fold applyView es m"

definition infoShows :: "windowInfo \<Rightarrow> WindowRecord \<Rightarrow> bool" where
  "infoShows i r \<longleftrightarrow> wi_window i = wr_id r \<and> wi_mapped i = wr_mapped r \<and> wi_title i = wr_title r
     \<and> wi_hasIcon i = wr_hasIcon r \<and> wi_role i = wr_role r \<and> wi_icon i = wr_icon r
     \<and> (\<not> wr_changed r \<longrightarrow> wi_fullscreenSerial i = fs_serial (wr_fullscreen r)
          \<and> wi_fullscreenRequested i = fs_requested (wr_fullscreen r) \<and> wi_fullscreenActual i = fs_actual (wr_fullscreen r)
          \<and> wi_maximized i = wr_maximized r \<and> wi_interaction i = wr_interaction r)"

definition recordsShown :: "(XID \<Rightarrow> windowInfo option) \<Rightarrow> WindowRecord list \<Rightarrow> bool" where
  "recordsShown m rs \<longleftrightarrow> (\<forall>r \<in> set rs. wr_published r \<longrightarrow> (\<exists>i. m (wr_id r) = Some i \<and> infoShows i r))
     \<and> (\<forall>x. m x \<noteq> None \<longrightarrow> (\<exists>r \<in> set rs. wr_id r = x \<and> wr_published r))
     \<and> distinct (map wr_id (filter wr_published rs)) \<and> distinct (map wr_id (filter (\<lambda>r. \<not> wr_destroyed r) rs))"

lemma hostView_simps [simp]:
  "hostView [] m = m" "hostView (e # es) m = hostView es (applyView e m)" "hostView (es @ fs) m = hostView fs (hostView es m)"
  by (simp_all add: hostView_def)

lemma dropRecords_eq:
  "dropRecords gone announce rs =
     (filter (\<lambda>r. \<not> gone r) rs, map (\<lambda>r. SendWindowRemoved (wr_id r)) (filter (\<lambda>r. gone r \<and> announce r) rs))"
  by (induction rs) (simp_all add: Let_def)

lemma hostView_removed:
  "hostView (map (\<lambda>r. SendWindowRemoved (wr_id r)) rs) m x = (if x \<in> wr_id ` set rs then None else m x)"
  by (induction rs arbitrary: m) auto

lemma distinct_map_filter_sub:
  "distinct (map f (filter P rs)) \<Longrightarrow> (\<And>r. r \<in> set rs \<Longrightarrow> Q r \<Longrightarrow> P r) \<Longrightarrow> distinct (map f (filter Q rs))"
proof -
  assume a: "distinct (map f (filter P rs))" and b: "\<And>r. r \<in> set rs \<Longrightarrow> Q r \<Longrightarrow> P r"
  have "filter Q rs = filter Q (filter P rs)" using b by (simp add: filter_filter) (rule filter_cong, auto)
  then show ?thesis using distinct_map_filter [OF a, of Q] by (simp only:)
qed

text \<open>Taking records out of the list, announcing those the host knows, keeps the picture right.\<close>

lemma recordsShown_drop:
  assumes "recordsShown m rs" "\<forall>r \<in> set rs. gone r \<and> wr_published r \<longrightarrow> announce r"
    and "\<forall>r \<in> set rs. gone r \<and> announce r \<and> \<not> wr_published r \<longrightarrow> m (wr_id r) = None"
  shows "recordsShown (hostView (snd (dropRecords gone announce rs)) m) (fst (dropRecords gone announce rs))"
proof -
  let ?m = "hostView (map (\<lambda>r. SendWindowRemoved (wr_id r)) (filter (\<lambda>r. gone r \<and> announce r) rs)) m"
  have uniq: "a = b" if "a \<in> set rs" "b \<in> set rs" "wr_published a" "wr_published b" "wr_id a = wr_id b" for a b
    using that assms(1) by (auto simp: recordsShown_def distinct_map inj_on_def)
  have "\<exists>i. ?m (wr_id r) = Some i \<and> infoShows i r" if r: "r \<in> set rs" "\<not> gone r" "wr_published r" for r
  proof -
    obtain i where i: "m (wr_id r) = Some i" "infoShows i r" using assms(1) r by (auto simp: recordsShown_def)
    have "wr_id r \<notin> wr_id ` set (filter (\<lambda>r. gone r \<and> announce r) rs)"
    proof
      assume "wr_id r \<in> wr_id ` set (filter (\<lambda>r. gone r \<and> announce r) rs)"
      then obtain q where q: "q \<in> set rs" "gone q" "announce q" "wr_id q = wr_id r" by auto
      show False
      proof (cases "wr_published q")
        case True
        with uniq [OF q(1) r(1)] q r show False by simp
      next
        case False
        with assms(3) q i(1) show False by auto
      qed
    qed
    with i show ?thesis by (simp add: hostView_removed)
  qed
  moreover have "\<exists>r \<in> set (filter (\<lambda>r. \<not> gone r) rs). wr_id r = x \<and> wr_published r" if x: "?m x \<noteq> None" for x
  proof -
    have "m x \<noteq> None" and n: "x \<notin> wr_id ` set (filter (\<lambda>r. gone r \<and> announce r) rs)"
      using x by (auto simp: hostView_removed split: if_splits)
    then obtain r where "r \<in> set rs" "wr_id r = x" "wr_published r" using assms(1) by (auto simp: recordsShown_def)
    with n assms(2) show ?thesis by auto
  qed
  moreover have "distinct (map wr_id (filter wr_published (filter (\<lambda>r. \<not> gone r) rs)))"
    "distinct (map wr_id (filter (\<lambda>r. \<not> wr_destroyed r) (filter (\<lambda>r. \<not> gone r) rs)))"
    using assms(1) by (auto simp: recordsShown_def intro: distinct_map_filter_sub)
  ultimately show ?thesis by (simp add: dropRecords_eq recordsShown_def)
qed

section \<open>One pass over the tree\<close>

text \<open>Two states with the same tree and properties answer all questions about windows alike.\<close>

definition sameServer :: "wmState \<Rightarrow> wmState \<Rightarrow> bool" where
  "sameServer st st1 \<longleftrightarrow> wm_store st1 = wm_store st \<and> wm_root st1 = wm_root st \<and> wm_props st1 = wm_props st
     \<and> wm_manager st1 = wm_manager st"

lemma sameServer_questions:
  assumes "sameServer st st1"
  shows "isApplication env st1 w = isApplication env st w" "windowTitle st1 w n = windowTitle st w n"
    "windowRoleOf env st1 w = windowRoleOf env st w" "windowIconOf st1 w = windowIconOf st w" "wm_store st1 = wm_store st"
proof -
  have "property st1 = property st" using assms by (simp add: sameServer_def property_def fun_eq_iff)
  then show "isApplication env st1 w = isApplication env st w" "windowTitle st1 w n = windowTitle st w n"
    "windowRoleOf env st1 w = windowRoleOf env st w" "windowIconOf st1 w = windowIconOf st w" "wm_store st1 = wm_store st"
    using assms by (simp_all add: sameServer_def isApplication_def reference_def hasAtom_def windowTitle_def
        windowRoleOf_def windowIconOf_def cong: option.case_cong if_cong)
qed

definition recordCurrent :: "wmEnv \<Rightarrow> wmState \<Rightarrow> wptr \<Rightarrow> WindowRecord \<Rightarrow> bool" where
  "recordCurrent env st w r \<longleftrightarrow> wr_mapped r = w_realized (wm_store st w) \<and> cstr (wr_title r) = cstr (windowTitle st w 256)
     \<and> wr_role r = windowRoleOf env st w \<and> (wr_hasIcon r, wr_icon r) = windowIconOf st w"

lemma recordFor_cases:
  obtains (none) "recordFor env w st = (None, st)"
      "\<not> isApplication env st w \<or> (w_id (wm_store st w) \<notin> wr_id ` {r \<in> set (wm_records st). \<not> wr_destroyed r}
         \<and> (\<not> w_realized (wm_store st w) \<or> \<not> we_callocOk env))"
  | (old) i where "recordFor env w st = (Some i, st)" "isApplication env st w" "i < length (wm_records st)"
      "wr_id (wm_records st ! i) = w_id (wm_store st w)" "\<not> wr_destroyed (wm_records st ! i)"
  | (new) r serial where "recordFor env w st = (Some 0, st\<lparr>wm_stateSerial := serial, wm_records := r # wm_records st\<rparr>)"
      "isApplication env st w" "w_realized (wm_store st w)" "wr_id r = w_id (wm_store st w)" "\<not> wr_destroyed r"
      "\<not> wr_published r" "\<not> wr_seen r"
      "w_id (wm_store st w) \<notin> wr_id ` {r \<in> set (wm_records st). \<not> wr_destroyed r}"
proof (cases "isApplication env st w")
  case False
  then show ?thesis by (intro none) (simp_all add: recordFor_def)
next
  case app: True
  show ?thesis
  proof (cases "liveRecord (w_id (wm_store st w)) st")
    case (Some i)
    then have "i < length (wm_records st) \<and> \<not> wr_destroyed (wm_records st ! i) \<and> wr_id (wm_records st ! i) = w_id (wm_store st w)"
      unfolding liveRecord_def by (auto dest: findIndex_Some)
    with Some app show ?thesis by (intro old [of i]) (simp_all add: recordFor_def)
  next
    case None
    then have fresh: "w_id (wm_store st w) \<notin> wr_id ` {r \<in> set (wm_records st). \<not> wr_destroyed r}"
      unfolding liveRecord_def findIndex_None by auto
    show ?thesis
    proof (cases "w_realized (wm_store st w) \<and> we_callocOk env")
      case False
      with None app fresh show ?thesis by (intro none) (auto simp: recordFor_def)
    next
      case True
      obtain r st1 where n: "newRecord env w st = (r, st1)" by (cases "newRecord env w st")
      then have "wr_id r = w_id (wm_store st w)" "\<not> wr_destroyed r" "\<not> wr_published r" "\<not> wr_seen r"
        "\<exists>serial. st1 = st\<lparr>wm_stateSerial := serial\<rparr>"
        by (auto simp: newRecord_def nextStateSerial_def Let_def)
      with n None app True fresh show ?thesis by (auto intro!: new simp: recordFor_def)
    qed
  qed
qed

lemma publish_shape:
  assumes "recordFor env w st = (Some i, st1)" "i < length (wm_records st1)"
  obtains r1 es where "publishWindow env w st = st1\<lparr>wm_records := (wm_records st1)[i := r1], wm_log := wm_log st1 @ es\<rparr>"
    "wr_id r1 = wr_id (wm_records st1 ! i)" "wr_destroyed r1 = wr_destroyed (wm_records st1 ! i)"
    "wr_seen r1" "wr_published r1" "\<not> wr_changed r1" "recordCurrent env st1 w r1"
    "(es = [] \<and> r1 = (wm_records st1 ! i)\<lparr>wr_seen := True\<rparr>) \<or> (\<exists>info. es = [SendWindowInfo info] \<and> infoShows info r1)"
proof -
  let ?r = "(wm_records st1 ! i)\<lparr>wr_seen := True\<rparr>"
  let ?st = "onRecord i (\<lambda>r. r\<lparr>wr_seen := True\<rparr>) st1"
  have same: "sameServer st1 ?st" by (simp add: sameServer_def onRecord_def)
  note q = sameServer_questions [OF same]
  have r: "wm_records ?st ! i = ?r" using assms(2) by (simp add: onRecord_def)
  obtain hasIcon icon where ic: "windowIconOf st1 w = (hasIcon, icon)" by (cases "windowIconOf st1 w")
  let ?stale = "\<not> wr_published ?r \<or> wr_changed ?r \<or> wr_mapped ?r \<noteq> w_realized (wm_store st1 w)
    \<or> cstr (wr_title ?r) \<noteq> cstr (windowTitle st1 w 256) \<or> wr_role ?r \<noteq> windowRoleOf env st1 w
    \<or> wr_hasIcon ?r \<noteq> hasIcon \<or> wr_icon ?r \<noteq> icon"
  let ?r1 = "?r\<lparr>wr_mapped := w_realized (wm_store st1 w), wr_title := windowTitle st1 w 256, wr_hasIcon := hasIcon,
      wr_role := windowRoleOf env st1 w, wr_icon := icon\<rparr>"
  have p: "publishWindow env w st =
    (if ?stale then onRecord i (\<lambda>_. ?r1\<lparr>wr_published := True, wr_changed := False\<rparr>) (emitWm (SendWindowInfo (infoOf ?st w ?r1)) ?st)
     else ?st)"
    by (simp add: publishWindow_def assms(1) r q ic Let_def)
  show ?thesis
  proof (cases ?stale)
    case True
    have "infoShows (infoOf ?st w ?r1) (?r1\<lparr>wr_published := True, wr_changed := False\<rparr>)"
      by (simp add: infoShows_def infoOf_def)
    with p True show ?thesis
      by (intro that [where ?r1.0 = "?r1\<lparr>wr_published := True, wr_changed := False\<rparr>" and es = "[SendWindowInfo (infoOf ?st w ?r1)]"])
        (simp_all add: onRecord_def emitWm_def recordCurrent_def ic)
  next
    case False
    with p ic show ?thesis
      by (intro that [where ?r1.0 = ?r and es = "[]"]) (simp_all add: onRecord_def recordCurrent_def)
  qed
qed

text \<open>The record at position \<open>i\<close> is replaced by one that is announced, or only marked as seen.\<close>

lemma recordsShown_replace:
  assumes "recordsShown m (a @ r # b)" "\<forall>q \<in> set (a @ r # b). \<not> wr_destroyed q"
    and "wr_id r1 = wr_id r" "\<not> wr_destroyed r1" "wr_published r1" "infoShows info r1"
  shows "recordsShown (m(wr_id r \<mapsto> info)) (a @ r1 # b)"
proof -
  have "filter (\<lambda>q. \<not> wr_destroyed q) (a @ r # b) = a @ r # b" using assms(2) by (simp add: filter_id_conv)
  then have d: "distinct (map wr_id (a @ r # b))" using assms(1) by (simp add: recordsShown_def)
  have n: "wr_id q \<noteq> wr_id r" if "q \<in> set a \<union> set b" for q using that d by (auto simp: image_iff)
  have "\<exists>i. (m(wr_id r \<mapsto> info)) (wr_id q) = Some i \<and> infoShows i q" if "q \<in> set (a @ r1 # b)" "wr_published q" for q
    using that assms(1, 3, 6) n by (auto simp: recordsShown_def)
  moreover have "\<exists>q \<in> set (a @ r1 # b). wr_id q = x \<and> wr_published q" if "(m(wr_id r \<mapsto> info)) x \<noteq> None" for x
  proof (cases "x = wr_id r")
    case True
    with assms(3, 5) show ?thesis by auto
  next
    case False
    with that assms(1) have "\<exists>q \<in> set (a @ r # b). wr_id q = x \<and> wr_published q" by (auto simp: recordsShown_def)
    with False show ?thesis by auto
  qed
  moreover have "distinct (map wr_id (a @ r1 # b))" using d assms(3) by simp
  then have "distinct (map wr_id (filter P (a @ r1 # b)))" for P by (rule distinct_map_filter)
  ultimately show ?thesis unfolding recordsShown_def by blast
qed

lemma recordsShown_seen:
  assumes "recordsShown m (a @ r # b)"
  shows "recordsShown m (a @ r\<lparr>wr_seen := True\<rparr> # b)"
proof -
  have "infoShows i (r\<lparr>wr_seen := True\<rparr>) = infoShows i r" for i by (simp add: infoShows_def)
  then show ?thesis using assms by (auto simp: recordsShown_def)
qed

lemma recordsShown_new:
  assumes "recordsShown m rs" "\<not> wr_published r" "\<not> wr_destroyed r" "wr_id r \<notin> wr_id ` {q \<in> set rs. \<not> wr_destroyed q}"
  shows "recordsShown m (r # rs)"
  using assms by (auto simp: recordsShown_def)

text \<open>
  After the windows \<open>ws\<close>: the identifiers of the records, that every record seen is published and
  current for one of them, and that every application among them has been seen.
\<close>

definition passSets :: "wmEnv \<Rightarrow> wmState \<Rightarrow> XID set \<Rightarrow> wptr list \<Rightarrow> WindowRecord list \<Rightarrow> bool" where
  "passSets env st0 ids ws rs \<longleftrightarrow>
     ids \<subseteq> wr_id ` set rs
     \<and> wr_id ` set rs \<subseteq> ids \<union> (\<lambda>w. w_id (wm_store st0 w)) ` {w \<in> set ws. w_realized (wm_store st0 w)}
     \<and> (\<forall>r \<in> set rs. wr_seen r \<longrightarrow> wr_published r \<and> \<not> wr_changed r
          \<and> (\<exists>w \<in> set ws. isApplication env st0 w \<and> wr_id r = w_id (wm_store st0 w) \<and> recordCurrent env st0 w r
               \<and> (w_realized (wm_store st0 w) \<or> w_id (wm_store st0 w) \<in> ids)))
     \<and> (\<forall>w \<in> set ws. isApplication env st0 w \<and> (w_realized (wm_store st0 w) \<or> w_id (wm_store st0 w) \<in> ids)
          \<longrightarrow> (\<exists>r \<in> set rs. wr_id r = w_id (wm_store st0 w) \<and> wr_seen r))"

lemma passSets_add:
  assumes "passSets env st0 ids ws rs" "set rs - {r} \<subseteq> set rs1" "set rs1 \<subseteq> insert r1 (set rs - {r})" "r1 \<in> set rs1"
    and "wr_id r1 = w_id (wm_store st0 w)" "wr_id r = w_id (wm_store st0 w)" "wr_seen r1" "wr_published r1" "\<not> wr_changed r1"
    and "recordCurrent env st0 w r1" "isApplication env st0 w" "w_realized (wm_store st0 w) \<or> w_id (wm_store st0 w) \<in> ids"
  shows "passSets env st0 ids (ws @ [w]) rs1"
proof -
  let ?id = "\<lambda>w. w_id (wm_store st0 w)"
  have le: "q \<in> set rs1" if "q \<in> set rs" "q \<noteq> r" for q using assms(2) that by blast
  have ge: "q = r1 \<or> q \<in> set rs" if "q \<in> set rs1" for q using assms(3) that by blast
  have c1: "ids \<subseteq> wr_id ` set rs1"
  proof
    fix x
    assume "x \<in> ids"
    then obtain q where q: "q \<in> set rs" "wr_id q = x" using assms(1) by (auto simp: passSets_def)
    have "wr_id r1 = wr_id r" using assms(5, 6) by simp
    then show "x \<in> wr_id ` set rs1" using le [OF q(1)] q(2) assms(4) by (cases "q = r") (metis imageI)+
  qed
  have c2: "wr_id ` set rs1 \<subseteq> ids \<union> ?id ` {v \<in> set (ws @ [w]). w_realized (wm_store st0 v)}"
  proof
    fix x
    assume "x \<in> wr_id ` set rs1"
    then obtain q where q: "q \<in> set rs1" "x = wr_id q" by blast
    show "x \<in> ids \<union> ?id ` {v \<in> set (ws @ [w]). w_realized (wm_store st0 v)}"
    proof (cases "q = r1")
      case True
      with q assms(5, 12) show ?thesis by auto
    next
      case False
      then have "x \<in> ids \<union> ?id ` {w \<in> set ws. w_realized (wm_store st0 w)}"
        using ge [OF q(1)] q(2) assms(1) by (auto simp: passSets_def)
      then show ?thesis by auto
    qed
  qed
  have c3: "wr_published q \<and> \<not> wr_changed q
      \<and> (\<exists>v \<in> set (ws @ [w]). isApplication env st0 v \<and> wr_id q = ?id v \<and> recordCurrent env st0 v q
           \<and> (w_realized (wm_store st0 v) \<or> ?id v \<in> ids))" if "q \<in> set rs1" "wr_seen q" for q
  proof (cases "q = r1")
    case True
    with assms(5-12) show ?thesis by auto
  next
    case False
    with ge [OF that(1)] that(2) assms(1) show ?thesis by (fastforce simp: passSets_def)
  qed
  have c4: "\<exists>q \<in> set rs1. wr_id q = ?id v \<and> wr_seen q"
    if "v \<in> set (ws @ [w])" "isApplication env st0 v" "w_realized (wm_store st0 v) \<or> ?id v \<in> ids" for v
  proof (cases "?id v = ?id w")
    case True
    with assms(4, 5, 7) show ?thesis by auto
  next
    case False
    with that have "v \<in> set ws" by auto
    with that assms(1) obtain q where q: "q \<in> set rs" "wr_id q = ?id v" "wr_seen q" unfolding passSets_def by blast
    from q(2) False assms(6) have "q \<noteq> r" by auto
    with le q show ?thesis by blast
  qed
  show ?thesis unfolding passSets_def
  proof (intro conjI ballI impI)
    show "\<exists>q \<in> set rs1. wr_id q = ?id v \<and> wr_seen q"
      if "v \<in> set (ws @ [w])" "isApplication env st0 v \<and> (w_realized (wm_store st0 v) \<or> ?id v \<in> ids)" for v
      using c4 that by blast
  qed (use c1 c2 c3 in simp_all)
qed

lemma passSets_skip:
  assumes "passSets env st0 ids ws rs" "\<not> (isApplication env st0 w \<and> (w_realized (wm_store st0 w) \<or> w_id (wm_store st0 w) \<in> ids))"
  shows "passSets env st0 ids (ws @ [w]) rs"
  using assms unfolding passSets_def by auto

definition passOk ::
    "wmEnv \<Rightarrow> wmState \<Rightarrow> wmEffect list \<Rightarrow> (XID \<Rightarrow> windowInfo option) \<Rightarrow> XID set \<Rightarrow> wptr list \<Rightarrow> wmState \<Rightarrow> bool" where
  "passOk env st0 L m ids ws st \<longleftrightarrow>
     sameServer st0 st \<and> (\<forall>r \<in> set (wm_records st). \<not> wr_destroyed r)
     \<and> (\<exists>es. wm_log st = L @ es \<and> recordsShown (hostView es m) (wm_records st))
     \<and> passSets env st0 ids ws (wm_records st)"

lemma publish_pass_known:
  assumes "sameServer st0 st" "\<forall>r \<in> set rs. \<not> wr_destroyed r" "recordsShown (hostView es m) rs" "ids \<subseteq> wr_id ` set rs"
    and "rs = a @ r # b" "wr_id r1 = wr_id r" "wr_destroyed r1 = wr_destroyed r" "wr_seen r1" "wr_published r1" "\<not> wr_changed r1"
    and "(fs = [] \<and> r1 = r\<lparr>wr_seen := True\<rparr>) \<or> (\<exists>info. fs = [SendWindowInfo info] \<and> infoShows info r1)"
  shows "recordsShown (hostView (es @ fs) m) (a @ r1 # b)"
proof -
  have sh: "recordsShown (hostView es m) (a @ r # b)" "\<forall>q \<in> set (a @ r # b). \<not> wr_destroyed q" using assms(2, 3, 5) by auto
  then have nd: "\<not> wr_destroyed r1" using assms(7) by simp
  from assms(11) show ?thesis
  proof
    assume "fs = [] \<and> r1 = r\<lparr>wr_seen := True\<rparr>"
    with recordsShown_seen [OF sh(1)] show ?thesis by simp
  next
    assume "\<exists>info. fs = [SendWindowInfo info] \<and> infoShows info r1"
    then obtain info where info: "fs = [SendWindowInfo info]" "infoShows info r1" by blast
    then have "wi_window info = wr_id r" using assms(6) by (simp add: infoShows_def)
    with info recordsShown_replace [OF sh assms(6) nd assms(9) info(2)] show ?thesis by simp
  qed
qed

lemma publish_pass:
  assumes "passOk env st0 L m ids ws st" "we_callocOk env" "w_id (wm_store st0 w) \<notin> (\<lambda>w. w_id (wm_store st0 w)) ` set ws"
  shows "passOk env st0 L m ids (ws @ [w]) (publishWindow env w st)"
proof -
  let ?id = "\<lambda>w. w_id (wm_store st0 w)"
  have same: "sameServer st0 st" and nd: "\<forall>r \<in> set (wm_records st). \<not> wr_destroyed r"
    and ps: "passSets env st0 ids ws (wm_records st)" using assms(1) by (simp_all add: passOk_def)
  then have sub: "ids \<subseteq> wr_id ` set (wm_records st)" by (simp add: passSets_def)
  note q = sameServer_questions [OF same]
  obtain es where es: "wm_log st = L @ es" "recordsShown (hostView es m) (wm_records st)" using assms(1) by (auto simp: passOk_def)
  have live: "{r \<in> set (wm_records st). \<not> wr_destroyed r} = set (wm_records st)" using nd by auto
  have result: "passOk env st0 L m ids (ws @ [w]) (publishWindow env w st)"
    if "wm_records (publishWindow env w st) = a @ r1 # b" "wm_log (publishWindow env w st) = wm_log st @ fs"
      "sameServer st (publishWindow env w st)" "\<forall>q \<in> set a \<union> set b. \<not> wr_destroyed q" "\<not> wr_destroyed r1"
      "recordsShown (hostView (es @ fs) m) (a @ r1 # b)" "passSets env st0 ids (ws @ [w]) (a @ r1 # b)" for a r1 b fs
    unfolding passOk_def using that es(1) same by (auto simp: sameServer_def)
  show ?thesis
  proof (cases rule: recordFor_cases [of env w st])
    case none
    then have "publishWindow env w st = st" by (simp add: publishWindow_def)
    moreover have "\<not> (isApplication env st0 w \<and> (w_realized (wm_store st0 w) \<or> ?id w \<in> ids))"
      using none(2) assms(2) sub q live by auto
    ultimately show ?thesis using assms(1) passSets_skip [OF ps] by (simp add: passOk_def)
  next
    case (old i)
    from publish_shape [OF old(1, 3)] obtain r1 fs where
      p: "publishWindow env w st = st\<lparr>wm_records := (wm_records st)[i := r1], wm_log := wm_log st @ fs\<rparr>"
      and r1: "wr_id r1 = wr_id (wm_records st ! i)" "wr_destroyed r1 = wr_destroyed (wm_records st ! i)" "wr_seen r1"
        "wr_published r1" "\<not> wr_changed r1" "recordCurrent env st w r1"
        "(fs = [] \<and> r1 = (wm_records st ! i)\<lparr>wr_seen := True\<rparr>) \<or> (\<exists>info. fs = [SendWindowInfo info] \<and> infoShows info r1)" .
    obtain a b r where ab: "wm_records st = a @ r # b" "length a = i" "wm_records st ! i = r"
    proof
      show "wm_records st = take i (wm_records st) @ wm_records st ! i # drop (Suc i) (wm_records st)"
        using old(3) by (rule id_take_nth_drop)
    qed (use old(3) in simp_all)
    have upd: "(wm_records st)[i := r1] = a @ r1 # b" using ab(1) ab(2) [symmetric] by simp
    have sh: "recordsShown (hostView (es @ fs) m) (a @ r1 # b)"
      using r1 by (intro publish_pass_known [OF same nd es(2) sub ab(1)]) (simp_all add: ab(3))
    have id: "wr_id r1 = ?id w" "wr_id r = ?id w" using old(4) r1(1) ab(3) q(5) by auto
    have "wr_id r \<in> ids \<union> ?id ` {w \<in> set ws. w_realized (wm_store st0 w)}" using ps ab(1) by (auto simp: passSets_def)
    then have from_ids: "w_realized (wm_store st0 w) \<or> ?id w \<in> ids" using id(2) assms(3) by auto
    have "filter (\<lambda>q. \<not> wr_destroyed q) (wm_records st) = wm_records st" using nd by (simp add: filter_id_conv)
    then have "distinct (map wr_id (a @ r # b))" using es(2) ab(1) by (simp add: recordsShown_def)
    then have "r \<notin> set a" "r \<notin> set b" by auto
    then have "passSets env st0 ids (ws @ [w]) (a @ r1 # b)"
      using id r1 from_ids old(2) q ab(1)
      by (intro passSets_add [OF ps, where r = r and ?r1.0 = r1]) (auto simp: recordCurrent_def)
    then show ?thesis using p upd sh nd ab(1) r1(2) ab(3) by (intro result [where ?r1.0 = r1 and a = a and b = b and fs = fs]) (auto simp: sameServer_def)
  next
    case (new r serial)
    let ?st1 = "st\<lparr>wm_stateSerial := serial, wm_records := r # wm_records st\<rparr>"
    have same1: "sameServer st0 ?st1" using same by (simp add: sameServer_def)
    have "0 < length (wm_records ?st1)" by simp
    from publish_shape [OF new(1) this] obtain r1 fs where
      p: "publishWindow env w st = ?st1\<lparr>wm_records := (wm_records ?st1)[0 := r1], wm_log := wm_log ?st1 @ fs\<rparr>"
      and r1: "wr_id r1 = wr_id (wm_records ?st1 ! 0)" "wr_destroyed r1 = wr_destroyed (wm_records ?st1 ! 0)" "wr_seen r1"
        "wr_published r1" "\<not> wr_changed r1" "recordCurrent env ?st1 w r1"
        "(fs = [] \<and> r1 = (wm_records ?st1 ! 0)\<lparr>wr_seen := True\<rparr>) \<or> (\<exists>info. fs = [SendWindowInfo info] \<and> infoShows info r1)" .
    have sh0: "recordsShown (hostView es m) (r # wm_records st)"
      using new q(5) by (intro recordsShown_new [OF es(2)]) simp_all
    have sh: "recordsShown (hostView (es @ fs) m) ([] @ r1 # wm_records st)"
      using r1 new(5) nd sub by (intro publish_pass_known [OF same1 _ sh0, where r = r]) auto
    have "r \<notin> set (wm_records st)" using new(8) new(4) live by (auto simp: image_iff)
    then have "passSets env st0 ids (ws @ [w]) ([] @ r1 # wm_records st)"
      using new(2-4) r1 q(1) sameServer_questions [OF same1]
      by (intro passSets_add [OF ps, where r = r and ?r1.0 = r1]) (auto simp: recordCurrent_def)
    then show ?thesis using p sh nd r1(2) new(5)
      by (intro result [where ?r1.0 = r1 and a = "[]" and b = "wm_records st" and fs = fs]) (auto simp: sameServer_def)
  qed
qed

lemma publish_all:
  assumes "passOk env st0 L m ids ws st" "we_callocOk env" "distinct (map (\<lambda>w. w_id (wm_store st0 w)) (ws @ vs))"
  shows "passOk env st0 L m ids (ws @ vs) (fold (publishWindow env) vs st)"
  using assms
proof (induction vs arbitrary: ws st)
  case (Cons v vs)
  have "passOk env st0 L m ids (ws @ [v]) (publishWindow env v st)"
    using Cons.prems by (intro publish_pass) auto
  from Cons.IH [OF this Cons.prems(2)] Cons.prems(3) show ?case by simp
qed simp

lemma recordsShown_map:
  assumes "recordsShown m rs" "\<And>r. wr_id (f r) = wr_id r" "\<And>r. wr_published (f r) = wr_published r"
    and "\<And>r. wr_destroyed (f r) = wr_destroyed r" "\<And>i r. infoShows i r \<Longrightarrow> infoShows i (f r)"
  shows "recordsShown m (map f rs)"
proof -
  have "map wr_id (filter wr_published (map f rs)) = map wr_id (filter wr_published rs)"
    "map wr_id (filter (\<lambda>r. \<not> wr_destroyed r) (map f rs)) = map wr_id (filter (\<lambda>r. \<not> wr_destroyed r) rs)"
    using assms(2-4) by (simp_all add: filter_map comp_def)
  moreover have "\<exists>i. m (wr_id (f r)) = Some i \<and> infoShows i (f r)" if "r \<in> set rs" "wr_published (f r)" for r
    using that assms unfolding recordsShown_def by metis
  ultimately show ?thesis using assms unfolding recordsShown_def by simp
qed

lemma recordsShown_unpublished:
  assumes "recordsShown m rs" "\<forall>r \<in> set rs. \<not> wr_destroyed r" "r \<in> set rs" "\<not> wr_published r"
  shows "m (wr_id r) = None"
proof (rule ccontr)
  assume "m (wr_id r) \<noteq> None"
  then obtain q where q: "q \<in> set rs" "wr_id q = wr_id r" "wr_published q" using assms(1) by (auto simp: recordsShown_def)
  have "filter (\<lambda>q. \<not> wr_destroyed q) rs = rs" using assms(2) by (simp add: filter_id_conv)
  then have "inj_on wr_id (set rs)" using assms(1) by (simp add: recordsShown_def distinct_map)
  then have "q = r" using q assms(3) by (simp add: inj_on_def)
  with q assms(4) show False by simp
qed

text \<open>The windows a pass shows: applications that are on the screen or already have a record.\<close>

definition shownWindows :: "wmEnv \<Rightarrow> wmState \<Rightarrow> wptr list \<Rightarrow> wptr set" where
  "shownWindows env st ws = {w \<in> set ws. isApplication env st w \<and> (w_realized (wm_store st w)
     \<or> w_id (wm_store st w) \<in> wr_id ` {r \<in> set (wm_records st). \<not> wr_destroyed r})}"

lemma passSets_seen:
  assumes "passSets env st (wr_id ` {r \<in> set (wm_records st). \<not> wr_destroyed r}) ws rs" "r \<in> set rs" "wr_seen r"
  obtains w where "w \<in> shownWindows env st ws" "wr_id r = w_id (wm_store st w)" "recordCurrent env st w r"
    "wr_published r" "\<not> wr_changed r"
proof -
  have "wr_published r \<and> \<not> wr_changed r \<and> (\<exists>w \<in> set ws. isApplication env st w \<and> wr_id r = w_id (wm_store st w)
      \<and> recordCurrent env st w r \<and> (w_realized (wm_store st w)
           \<or> w_id (wm_store st w) \<in> wr_id ` {r \<in> set (wm_records st). \<not> wr_destroyed r}))"
    using assms(1) [unfolded passSets_def, THEN conjunct2, THEN conjunct2, THEN conjunct1] assms(2, 3) by simp
  then obtain w where "w \<in> set ws" "isApplication env st w" "wr_id r = w_id (wm_store st w)" "recordCurrent env st w r"
    "w_realized (wm_store st w) \<or> w_id (wm_store st w) \<in> wr_id ` {r \<in> set (wm_records st). \<not> wr_destroyed r}"
    and "wr_published r" "\<not> wr_changed r" by blast
  then show thesis by (intro that [of w]) (simp_all add: shownWindows_def)
qed

lemma passSets_shown:
  assumes "passSets env st (wr_id ` {r \<in> set (wm_records st). \<not> wr_destroyed r}) ws rs" "w \<in> shownWindows env st ws"
  obtains r where "r \<in> set rs" "wr_id r = w_id (wm_store st w)" "wr_seen r"
proof -
  have "\<exists>r \<in> set rs. wr_id r = w_id (wm_store st w) \<and> wr_seen r"
    using assms(1) [unfolded passSets_def, THEN conjunct2, THEN conjunct2, THEN conjunct2] assms(2) [unfolded shownWindows_def]
    by simp
  then show thesis using that by blast
qed

lemma refresh_pass:
  assumes "recordsShown m (wm_records st)" "distinct (map (\<lambda>w. w_id (wm_store st w)) ws)" "we_callocOk env"
    and "dropRecords wr_destroyed wr_published (wm_records st) = (live, gone)"
    and "st1 = st\<lparr>wm_dirty := False, wm_records := map (\<lambda>r. r\<lparr>wr_seen := False\<rparr>) live, wm_log := wm_log st @ gone\<rparr>"
  shows "passOk env st (wm_log st @ gone) (hostView gone m) (wr_id ` {r \<in> set (wm_records st). \<not> wr_destroyed r}) ws
    (fold (publishWindow env) ws st1)"
proof -
  have live: "live = filter (\<lambda>r. \<not> wr_destroyed r) (wm_records st)" using assms(4) by (simp add: dropRecords_eq)
  have "recordsShown (hostView gone m) live"
    using recordsShown_drop [OF assms(1), of wr_destroyed wr_published] assms(4) by simp
  then have "recordsShown (hostView gone m) (wm_records st1)"
    unfolding assms(5) by (simp, intro recordsShown_map) (simp_all add: infoShows_def)
  moreover have "passSets env st (wr_id ` {r \<in> set (wm_records st). \<not> wr_destroyed r}) [] (wm_records st1)"
    by (auto simp: passSets_def assms(5) live image_image)
  ultimately have "passOk env st (wm_log st @ gone) (hostView gone m) (wr_id ` {r \<in> set (wm_records st). \<not> wr_destroyed r}) [] st1"
    by (auto simp: passOk_def sameServer_def assms(5) live)
  from publish_all [OF this assms(3), of ws] assms(2) show ?thesis by simp
qed

section \<open>Between two refreshes\<close>

text \<open>A record changed so that whatever the host knew of it is still right, or is marked as outdated.\<close>

definition recordKept :: "WindowRecord \<Rightarrow> WindowRecord \<Rightarrow> bool" where
  "recordKept r q \<longleftrightarrow> wr_id q = wr_id r \<and> wr_published q = wr_published r \<and> (wr_destroyed r \<longrightarrow> wr_destroyed q)
     \<and> (\<forall>i. infoShows i r \<longrightarrow> infoShows i q)"

lemma recordKept_refl [simp]: "recordKept r r"
  by (simp add: recordKept_def)

lemma recordKept_ids:
  assumes "list_all2 recordKept rs qs"
  shows "map wr_id (filter wr_published qs) = map wr_id (filter wr_published rs)
    \<and> set (map wr_id (filter (\<lambda>r. \<not> wr_destroyed r) qs)) \<subseteq> set (map wr_id (filter (\<lambda>r. \<not> wr_destroyed r) rs))
    \<and> (distinct (map wr_id (filter (\<lambda>r. \<not> wr_destroyed r) rs)) \<longrightarrow> distinct (map wr_id (filter (\<lambda>r. \<not> wr_destroyed r) qs)))"
  using assms by (induction rule: list_all2_induct) (auto simp: recordKept_def)

lemma recordsShown_kept:
  assumes "recordsShown m rs" "list_all2 recordKept rs qs"
  shows "recordsShown m qs"
proof -
  have "\<exists>i. m (wr_id q) = Some i \<and> infoShows i q" if q: "q \<in> set qs" "wr_published q" for q
  proof -
    obtain n where n: "n < length qs" "qs ! n = q" using q(1) by (auto simp: in_set_conv_nth)
    then have r: "rs ! n \<in> set rs" "recordKept (rs ! n) q" using assms(2) by (auto simp: list_all2_conv_all_nth)
    then show ?thesis using assms(1) q unfolding recordsShown_def recordKept_def by metis
  qed
  moreover have "\<exists>q \<in> set qs. wr_id q = x \<and> wr_published q" if x: "m x \<noteq> None" for x
  proof -
    obtain r where r: "r \<in> set rs" "wr_id r = x" "wr_published r" using x assms(1) by (auto simp: recordsShown_def)
    obtain n where n: "n < length rs" "rs ! n = r" using r(1) by (auto simp: in_set_conv_nth)
    then have "qs ! n \<in> set qs" "recordKept r (qs ! n)" using assms(2) by (auto simp: list_all2_conv_all_nth)
    with r show ?thesis by (auto simp: recordKept_def)
  qed
  ultimately show ?thesis using recordKept_ids [OF assms(2)] assms(1) unfolding recordsShown_def by simp
qed

lemma recordKept_changed:
  "wr_id (f r) = wr_id r \<Longrightarrow> wr_published (f r) = wr_published r \<Longrightarrow> wr_destroyed (f r) = wr_destroyed r \<Longrightarrow> wr_changed (f r) \<Longrightarrow>
   wr_mapped (f r) = wr_mapped r \<Longrightarrow> wr_title (f r) = wr_title r \<Longrightarrow> wr_hasIcon (f r) = wr_hasIcon r \<Longrightarrow>
   wr_role (f r) = wr_role r \<Longrightarrow> wr_icon (f r) = wr_icon r \<Longrightarrow> recordKept r (f r)"
  by (simp add: recordKept_def infoShows_def)

lemma kept_map: "(\<And>r. recordKept r (f r)) \<Longrightarrow> list_all2 recordKept rs (map f rs)"
  by (simp add: list_all2_conv_all_nth)

lemma kept_update: "(\<And>r. recordKept r (f r)) \<Longrightarrow> list_all2 recordKept rs (rs[i := f (rs ! i)])"
  by (cases "i < length rs") (simp_all add: list_all2_conv_all_nth nth_list_update)

definition viewKept :: "wmState \<Rightarrow> wmState \<Rightarrow> bool" where
  "viewKept st st1 \<longleftrightarrow> (\<exists>es. wm_log st1 = wm_log st @ es \<and> (\<forall>m. hostView es m = m))
     \<and> (\<forall>m. recordsShown m (wm_records st) \<longrightarrow> recordsShown m (wm_records st1))"

lemma viewKept_refl [simp]: "viewKept st st"
  by (simp add: viewKept_def)

lemma viewKept_trans [trans]: "viewKept st st1 \<Longrightarrow> viewKept st1 st2 \<Longrightarrow> viewKept st st2"
proof -
  assume a: "viewKept st st1" "viewKept st1 st2"
  then obtain es fs where "wm_log st1 = wm_log st @ es" "\<forall>m. hostView es m = m" "wm_log st2 = wm_log st1 @ fs" "\<forall>m. hostView fs m = m"
    by (auto simp: viewKept_def)
  then have "wm_log st2 = wm_log st @ (es @ fs) \<and> (\<forall>m. hostView (es @ fs) m = m)" by simp
  with a show ?thesis unfolding viewKept_def by blast
qed

lemma viewKept_records:
  "wm_log st1 = wm_log st \<Longrightarrow> list_all2 recordKept (wm_records st) (wm_records st1) \<Longrightarrow> viewKept st st1"
  by (auto simp: viewKept_def intro: recordsShown_kept)

lemma viewKept_same: "wm_log st1 = wm_log st \<Longrightarrow> wm_records st1 = wm_records st \<Longrightarrow> viewKept st st1"
  by (rule viewKept_records) (simp_all add: list_all2_refl)

lemma viewKept_emit: "(\<And>m. applyView e m = m) \<Longrightarrow> viewKept st (emitWm e st)"
  by (simp add: viewKept_def emitWm_def)

lemma viewKept_recordFor:
  "recordFor env w st = (i, st1) \<Longrightarrow> viewKept st st1"
proof (cases rule: recordFor_cases [of env w st])
  case (new r serial)
  assume "recordFor env w st = (i, st1)"
  with new(1) have st1: "st1 = st\<lparr>wm_stateSerial := serial, wm_records := r # wm_records st\<rparr>" by simp
  have "recordsShown m (r # wm_records st)" if "recordsShown m (wm_records st)" for m
    using that new(4-8) by (intro recordsShown_new) simp_all
  then show ?thesis by (simp add: viewKept_def st1)
qed simp_all

lemma viewKept_touch:
  assumes "\<And>r. recordKept r ((f r)\<lparr>wr_changed := True\<rparr>)"
  shows "viewKept st (touchRecord k f st)"
  unfolding touchRecord_def onRecord_def
  by (rule viewKept_records) (simp_all add: kept_update [of "\<lambda>r. (f r)\<lparr>wr_changed := True\<rparr>", OF assms])

lemma viewKept_serial: "nextStateSerial st = (s, st1) \<Longrightarrow> viewKept st st1"
  by (auto simp: nextStateSerial_def Let_def intro: viewKept_same)

lemma hintRecords_kept: "list_all2 recordKept rs (fst (hintRecords i att rs serial))"
proof (induction rs arbitrary: serial)
  case (Cons r rs)
  show ?case
  proof (cases "wr_id r = i")
    case True
    obtain qs t where q: "hintRecords i att rs (bumpSerial serial) = (qs, t)" by (cases "hintRecords i att rs (bumpSerial serial)")
    with Cons.IH [of "bumpSerial serial"] True show ?thesis by (simp add: Let_def recordKept_def infoShows_def)
  next
    case False
    obtain qs t where q: "hintRecords i att rs serial = (qs, t)" by (cases "hintRecords i att rs serial")
    with Cons.IH [of serial] False show ?thesis by simp
  qed
qed simp

lemma viewKept_dirty: "viewKept st (st\<lparr>wm_dirty := b\<rparr>)"
  by (rule viewKept_same) simp_all

lemma viewKept_mark: "viewKept st (markChanged i st)"
  unfolding markChanged_def
  by (rule viewKept_records) (simp_all add: kept_map recordKept_def infoShows_def)

lemma viewKept_propertyChanged: "viewKept st (propertyChanged w name st)"
proof -
  let ?i = "w_id (wm_store st w)"
  define sta where "sta = (if wm_manager st \<noteq> 0 \<and> name = ''WM_HINTS''
    then let (rs, serial) = hintRecords ?i (urgent st w) (wm_records st) (wm_stateSerial st)
         in st\<lparr>wm_records := rs, wm_stateSerial := serial\<rparr> else st)"
  define stb where "stb = (if name = ''WM_CLASS'' \<or> name = ''WM_NORMAL_HINTS'' then markChanged ?i sta else sta)"
  obtain rs serial where h: "hintRecords ?i (urgent st w) (wm_records st) (wm_stateSerial st) = (rs, serial)"
    by (cases "hintRecords ?i (urgent st w) (wm_records st) (wm_stateSerial st)")
  have "viewKept st (st\<lparr>wm_records := rs, wm_stateSerial := serial\<rparr>)"
    using hintRecords_kept [of "wm_records st" ?i "urgent st w" "wm_stateSerial st"] h by (intro viewKept_records) simp_all
  then have "viewKept st sta" by (simp add: sta_def h)
  also have "viewKept sta stb" by (simp add: stb_def viewKept_mark)
  also have "viewKept stb (stb\<lparr>wm_dirty := True\<rparr>)" by (rule viewKept_dirty)
  also have "viewKept (stb\<lparr>wm_dirty := True\<rparr>) (emitWm OutputGeometryChanged (stb\<lparr>wm_dirty := True\<rparr>))"
    by (rule viewKept_emit) simp
  also have "emitWm OutputGeometryChanged (stb\<lparr>wm_dirty := True\<rparr>) = propertyChanged w name st"
    by (simp add: propertyChanged_def Let_def stb_def sta_def)
  finally show ?thesis .
qed

lemma viewKept_changeProperty: "viewKept st (snd (changeProperty env w name v st))"
proof -
  let ?st = "st\<lparr>wm_props := (wm_props st)(w := (wm_props st w)(name \<mapsto> v))\<rparr>"
  have "viewKept st ?st" by (rule viewKept_same) simp_all
  also have "viewKept ?st (propertyChanged w name ?st)" by (rule viewKept_propertyChanged)
  finally show ?thesis by (simp add: changeProperty_def)
qed

lemma viewKept_deleteProperty: "viewKept st (deleteProperty w name st)"
proof -
  let ?st = "st\<lparr>wm_props := (wm_props st)(w := (wm_props st w)(name := None))\<rparr>"
  have "viewKept st ?st" by (rule viewKept_same) simp_all
  also have "viewKept ?st (propertyChanged w name ?st)" by (rule viewKept_propertyChanged)
  finally show ?thesis by (simp add: deleteProperty_def)
qed

lemma viewKept_confirmRecord: "viewKept st (snd (confirmRecord env i st))"
  by (auto simp: confirmRecord_def split: option.split prod.split dest: viewKept_recordFor)

lemma viewKept_onRecord: "(\<And>r. recordKept r (f r)) \<Longrightarrow> viewKept st (onRecord k f st)"
  unfolding onRecord_def by (rule viewKept_records) (simp_all add: kept_update)

lemmas viewKept_intros = viewKept_trans [OF viewKept_changeProperty] viewKept_trans [OF viewKept_onRecord] viewKept_dirty

lemma viewKept_fullscreenConfirm: "viewKept st (lorieWindowFullscreenConfirm env i serial fullscreen st)"
proof -
  obtain f st1 where c: "confirmRecord env i st = (f, st1)" by (cases "confirmRecord env i st")
  have k: "viewKept st st1" using viewKept_confirmRecord [of st env i] c by simp
  have "viewKept st1 (lorieWindowFullscreenConfirm env i serial fullscreen st)" if "wm_manager st \<noteq> 0"
  proof (cases f)
    case (Some p)
    obtain w n where p: "p = (w, n)" by (cases p)
    let ?fs = "we_atom env ''_NET_WM_STATE_FULLSCREEN''"
    let ?as = "filter (\<lambda>a. a \<noteq> ?fs) (stateAtoms st1 w) @ (if fullscreen then [?fs] else [])"
    obtain ok st2 where st2: "changeProperty env w ''_NET_WM_STATE'' (atomList ?as) st1 = (ok, st2)"
      by (cases "changeProperty env w ''_NET_WM_STATE'' (atomList ?as) st1")
    have "viewKept st1 st2" using viewKept_changeProperty [of st1 env w "''_NET_WM_STATE''" "atomList ?as"] st2 by simp
    moreover have "viewKept st2 ((onRecord n (\<lambda>r. r\<lparr>wr_fullscreen := snd (lorieFullscreenConfirm (wr_fullscreen r) serial fullscreen),
        wr_changed := True\<rparr>) st2)\<lparr>wm_dirty := True\<rparr>)"
      by (rule viewKept_trans [OF viewKept_onRecord viewKept_dirty]) (simp add: recordKept_def infoShows_def)
    ultimately show ?thesis
      using that c Some p st2 viewKept_trans by (simp add: lorieWindowFullscreenConfirm_def Let_def)
  qed (use that c in \<open>simp add: lorieWindowFullscreenConfirm_def\<close>)
  then show ?thesis using k viewKept_trans by (cases "wm_manager st = 0") (auto simp: lorieWindowFullscreenConfirm_def)
qed

lemma viewKept_maximizedConfirm: "viewKept st (lorieWindowMaximizedConfirm env i serial axes st)"
proof -
  obtain f st1 where c: "confirmRecord env i st = (f, st1)" by (cases "confirmRecord env i st")
  have k: "viewKept st st1" using viewKept_confirmRecord [of st env i] c by simp
  have "viewKept st1 (lorieWindowMaximizedConfirm env i serial axes st)" if "\<not> (wm_manager st = 0 \<or> has_flag axes (NOT 3))"
  proof (cases f)
    case (Some p)
    obtain w n where p: "p = (w, n)" by (cases p)
    let ?h = "we_atom env ''_NET_WM_STATE_MAXIMIZED_HORZ''" and ?v = "we_atom env ''_NET_WM_STATE_MAXIMIZED_VERT''"
    let ?as = "filter (\<lambda>a. a \<noteq> ?h \<and> a \<noteq> ?v) (stateAtoms st1 w) @ (if has_flag axes LORIE_MAXIMIZED_HORIZONTAL then [?h] else [])
      @ (if has_flag axes LORIE_MAXIMIZED_VERTICAL then [?v] else [])"
    obtain ok st2 where st2: "changeProperty env w ''_NET_WM_STATE'' (atomList ?as) st1 = (ok, st2)"
      by (cases "changeProperty env w ''_NET_WM_STATE'' (atomList ?as) st1")
    have "viewKept st1 st2" using viewKept_changeProperty [of st1 env w "''_NET_WM_STATE''" "atomList ?as"] st2 by simp
    moreover have "viewKept st2 ((onRecord n (\<lambda>r. r\<lparr>wr_maximized := snd (lorieMaximizedConfirm (wr_maximized r) serial axes),
        wr_changed := True\<rparr>) st2)\<lparr>wm_dirty := True\<rparr>)"
      by (rule viewKept_trans [OF viewKept_onRecord viewKept_dirty]) (simp add: recordKept_def infoShows_def)
    ultimately show ?thesis
      using that c Some p st2 viewKept_trans by (simp add: lorieWindowMaximizedConfirm_def Let_def)
  qed (use that c in \<open>simp add: lorieWindowMaximizedConfirm_def\<close>)
  then show ?thesis using k viewKept_trans
    by (cases "wm_manager st = 0 \<or> has_flag axes (NOT 3)") (auto simp: lorieWindowMaximizedConfirm_def)
qed

lemma viewKept_interactionConfirm: "viewKept st (lorieWindowInteractionConfirm env i serial flags st)"
proof -
  obtain f st1 where c: "confirmRecord env i st = (f, st1)" by (cases "confirmRecord env i st")
  have k: "viewKept st st1" using viewKept_confirmRecord [of st env i] c by simp
  have "viewKept st1 (lorieWindowInteractionConfirm env i serial flags st)" if "\<not> (wm_manager st = 0 \<or> has_flag flags (NOT 7))"
  proof (cases f)
    case (Some p)
    obtain w n where p: "p = (w, n)" by (cases p)
    define fl where "fl = (if has_flag flags LORIE_STATE_ACTIVE then flags AND NOT LORIE_STATE_ATTENTION else flags)"
    define as where "as = filter (\<lambda>a. a \<noteq> we_atom env ''_NET_WM_STATE_HIDDEN'' \<and> a \<noteq> we_atom env ''_NET_WM_STATE_DEMANDS_ATTENTION'')
        (stateAtoms st1 w) @ (if has_flag fl LORIE_STATE_MINIMIZED then [we_atom env ''_NET_WM_STATE_HIDDEN''] else [])
        @ (if has_flag fl LORIE_STATE_ATTENTION then [we_atom env ''_NET_WM_STATE_DEMANDS_ATTENTION''] else [])"
    define st2 where "st2 = snd (changeProperty env w ''_NET_WM_STATE'' (atomList as) st1)"
    define st3 where "st3 = snd (changeProperty env w ''WM_STATE''
      \<lparr>pr_type = ''WM_STATE'', pr_format = 32, pr_data = [if has_flag fl LORIE_STATE_MINIMIZED then 3 else 1, 0]\<rparr> st2)"
    define st4 where "st4 = (if has_flag fl LORIE_STATE_ACTIVE \<or> reference st3 (wm_root st3) ''_NET_ACTIVE_WINDOW'' = i
      then snd (changeProperty env (wm_root st3) ''_NET_ACTIVE_WINDOW'' (activeProperty (if has_flag fl LORIE_STATE_ACTIVE then i else 0)) st3)
      else st3)"
    have "lorieWindowInteractionConfirm env i serial flags st =
      (if ia_serial (wr_interaction (wm_records st1 ! n)) \<noteq> serial \<or> \<not> we_callocOk env then st1
       else (onRecord n (\<lambda>r. r\<lparr>wr_interaction := (wr_interaction r)\<lparr>ia_actual := ucast fl, ia_action := LORIE_INTERACTION_NONE,
          ia_attention := has_flag fl LORIE_STATE_ATTENTION\<rparr>, wr_changed := True\<rparr>) st4)\<lparr>wm_dirty := True\<rparr>)"
      using that c Some p unfolding lorieWindowInteractionConfirm_def Let_def
      by (simp only: prod.case option.case if_False flip: fl_def as_def st2_def st3_def st4_def)
    moreover have k4: "viewKept st1 st2" "viewKept st2 st3" "viewKept st3 st4"
      by (simp_all add: st2_def st3_def st4_def viewKept_changeProperty)
    have k5: "viewKept st4 ((onRecord n (\<lambda>r. r\<lparr>wr_interaction := (wr_interaction r)\<lparr>ia_actual := ucast fl,
        ia_action := LORIE_INTERACTION_NONE, ia_attention := has_flag fl LORIE_STATE_ATTENTION\<rparr>, wr_changed := True\<rparr>) st4)\<lparr>wm_dirty := True\<rparr>)"
      by (rule viewKept_trans [OF viewKept_onRecord viewKept_dirty]) (simp add: recordKept_def infoShows_def)
    ultimately show ?thesis using viewKept_trans [OF viewKept_trans [OF viewKept_trans [OF k4(1, 2)] k4(3)] k5] by simp
  qed (use that c in \<open>simp add: lorieWindowInteractionConfirm_def\<close>)
  then have go: "\<not> (wm_manager st = 0 \<or> has_flag flags (NOT 7)) \<Longrightarrow> ?thesis" using viewKept_trans [OF k] by blast
  have "lorieWindowInteractionConfirm env i serial flags st = st" if "wm_manager st = 0 \<or> has_flag flags (NOT 7)"
    unfolding lorieWindowInteractionConfirm_def using that by (simp only: if_True)
  with go show ?thesis by fastforce
qed

lemma viewKept_touchSerial:
  assumes "\<And>r s. recordKept r ((f s r)\<lparr>wr_changed := True\<rparr>)"
  shows "viewKept st (let (serial, st1) = nextStateSerial st in touchRecord k (f serial) st1)"
proof -
  obtain s st1 where n: "nextStateSerial st = (s, st1)" by (cases "nextStateSerial st")
  have "viewKept st st1" by (rule viewKept_serial [OF n])
  also have "viewKept st1 (touchRecord k (f s) st1)" by (rule viewKept_touch) (rule assms)
  finally show ?thesis by (simp add: n)
qed

lemma viewKept_requests:
  "viewKept st (minimizeRequest k e st)" "viewKept st (stateAttention env k e st)"
  "viewKept st (stateFullscreen env k e st)" "viewKept st (stateMaximized env k e st)"
  by (auto simp: minimizeRequest_def stateAttention_def stateFullscreen_def stateMaximized_def Let_def
      recordKept_def infoShows_def split: prod.split
      intro!: viewKept_touchSerial [unfolded Let_def] viewKept_trans [OF viewKept_serial viewKept_touch])

lemma viewKept_activation: "viewKept st (activationRequest env w k e st)"
proof -
  let ?st = "st\<lparr>wm_lastInputTime := 0\<rparr>"
  have "viewKept st ?st" by (rule viewKept_same) simp_all
  also have "viewKept ?st (activationRequest env w k e st)"
    unfolding activationRequest_def Let_def
    by (rule viewKept_touchSerial [unfolded Let_def]) (simp add: recordKept_def infoShows_def)
  finally show ?thesis .
qed

lemma viewKept_sendEvent: "viewKept st (snd (sendEvent env gesture e st))"
proof -
  obtain f st1 where c: "confirmRecord env (xe_window e) st = (f, st1)" by (cases "confirmRecord env (xe_window e) st")
  have k: "viewKept st st1" using viewKept_confirmRecord [of st env "xe_window e"] c by simp
  have s: "viewKept st1 (stateMaximized env n e (stateAttention env n e (stateFullscreen env n e st1)))" for n
    using viewKept_trans [OF viewKept_trans [OF viewKept_requests(3) viewKept_requests(2)] viewKept_requests(4)] .
  have "viewKept st1 (emitWm (SendGesture x d) st1)" for x d by (rule viewKept_emit) simp
  with s viewKept_activation [of st1] viewKept_requests(1) [of st1]
  have "viewKept st1 (snd (sendEvent env gesture e st))" if "wm_manager st \<noteq> 0 \<and> xe_destination e = w_id (wm_store st (wm_root st)) \<and> xe_clientMessage e"
    unfolding sendEvent_def using that c by (cases f) (auto simp: Let_def)
  with viewKept_trans [OF k] show ?thesis by (cases "wm_manager st \<noteq> 0 \<and> xe_destination e = w_id (wm_store st (wm_root st)) \<and> xe_clientMessage e")
      (auto simp: sendEvent_def)
qed

lemma viewKept_managerChanged: "viewKept st (managerChanged ours kind window st)"
proof -
  let ?a = "emitWm ShellGeometryChanged st"
  let ?b = "?a\<lparr>wm_manager := 0\<rparr>"
  let ?c = "if reference ?b (wm_root ?a) ''_NET_SUPPORTING_WM_CHECK'' = wm_manager ?a
    then deleteProperty (wm_root ?a) ''_NET_SUPPORTED'' (deleteProperty (wm_root ?a) ''_NET_SUPPORTING_WM_CHECK'' ?b) else ?b"
  let ?d = "if kind \<noteq> SelectionWindowDestroy then emitWm (FreeWindow (wm_manager ?a)) ?c else ?c"
  let ?e = "?d\<lparr>wm_records := map (\<lambda>r. r\<lparr>wr_changed := True\<rparr>) (wm_records ?d), wm_dirty := True\<rparr>"
  have a: "viewKept st ?a" by (rule viewKept_emit) simp
  also have "viewKept ?a ?b" by (rule viewKept_same) simp_all
  also have "viewKept ?b ?c" using viewKept_trans [OF viewKept_deleteProperty viewKept_deleteProperty] by simp
  also have "viewKept ?c ?d" using viewKept_emit [of "FreeWindow (wm_manager ?a)" ?c] by simp
  also have "viewKept ?d ?e" by (rule viewKept_records) (simp_all add: kept_map recordKept_def infoShows_def)
  finally have e: "viewKept st ?e" .
  have "managerChanged ours kind window st = ?a \<or> managerChanged ours kind window st = ?e"
    unfolding managerChanged_def Let_def by metis
  then show ?thesis using a e by fastforce
qed

lemma viewKept_managerReady: "viewKept st (lorieWindowManagerReady env a st)"
proof (cases "ma_enabled a \<noteq> Some ''1'' \<or> \<not> managerFree a \<or> ma_window a = None")
  case True
  then show ?thesis by (auto simp: lorieWindowManagerReady_def)
next
  case False
  then obtain owner i where w: "ma_window a = Some (owner, i)" by auto
  from False have nc: "\<not> (ma_enabled a \<noteq> Some ''1'' \<or> \<not> managerFree a)" by simp
  define st1 where "st1 = managerChanged True SelectionSetOwner i (st\<lparr>wm_manager := i\<rparr>)"
  define st2 where "st2 = snd (changeProperty env (wm_root st1) ''_NET_SUPPORTING_WM_CHECK'' (activeProperty i) st1)"
  define st3 where "st3 = snd (changeProperty env owner ''_NET_SUPPORTING_WM_CHECK'' (activeProperty i) st2)"
  define st4 where "st4 = snd (changeProperty env owner ''_NET_WM_NAME''
    \<lparr>pr_type = ''UTF8_STRING'', pr_format = 8, pr_data = map (\<lambda>c. of_char c) ''MagicDesk''\<rparr> st3)"
  define st5 where "st5 = snd (changeProperty env (wm_root st1) ''_NET_SUPPORTED'' (atomList (supportedAtoms env)) st4)"
  have "viewKept st (st\<lparr>wm_manager := i\<rparr>)" by (rule viewKept_same) simp_all
  also have "viewKept (st\<lparr>wm_manager := i\<rparr>) st1" unfolding st1_def by (rule viewKept_managerChanged)
  also have "viewKept st1 st2" unfolding st2_def by (rule viewKept_changeProperty)
  also have "viewKept st2 st3" unfolding st3_def by (rule viewKept_changeProperty)
  also have "viewKept st3 st4" unfolding st4_def by (rule viewKept_changeProperty)
  also have "viewKept st4 st5" unfolding st5_def by (rule viewKept_changeProperty)
  also have "viewKept st5 (emitWm (SendManagerMessage (we_atom env ''WM_S0'') i) st5)" by (rule viewKept_emit) simp
  also have "emitWm (SendManagerMessage (we_atom env ''WM_S0'') i) st5 = lorieWindowManagerReady env a st"
    unfolding lorieWindowManagerReady_def if_not_P [OF nc] w Let_def
    by (simp only: option.case prod.case flip: st1_def st2_def st3_def st4_def st5_def)
  finally show ?thesis .
qed

lemma viewKept_close: "viewKept st (lorieWindowClose env i force st)"
  using viewKept_emit by (simp add: lorieWindowClose_def clientMessage_def split: option.split)

lemma viewKept_raise:
  "raiseMembers par raiseWindow root ms st = Some st1 \<Longrightarrow> viewKept st st1"
proof (induction ms arbitrary: st)
  case (Cons w ms)
  then obtain t where "raiseMembers par raiseWindow root ms (raiseWindow st t) = Some st1" by (auto split: option.splits)
  then have "viewKept (raiseWindow st t) st1" by (rule Cons.IH)
  moreover have "viewKept st (raiseWindow st t)" unfolding raiseWindow_def by (rule viewKept_emit) simp
  ultimately show ?case using viewKept_trans by blast
qed simp

lemma viewKept_focusTarget: "viewKept st (focusTarget env t st)"
proof -
  define st2 where "st2 = (if acceptsFocus st t then emitWm (SetInputFocus (Some t)) st else st)"
  define st3 where "st3 = (if hasAtom env st2 t ''WM_PROTOCOLS'' ''WM_TAKE_FOCUS'' then clientMessage t ''WM_TAKE_FOCUS'' st2 else st2)"
  have "viewKept st st2" unfolding st2_def using viewKept_emit [of "SetInputFocus (Some t)" st] by simp
  also have "viewKept st2 st3" unfolding st3_def clientMessage_def using viewKept_emit [of "SendProtocol t ''WM_TAKE_FOCUS''" st2] by simp
  also have "viewKept st3 (emitWm ShellGeometryChanged st3)" by (rule viewKept_emit) simp
  finally show ?thesis by (simp only: focusTarget_def Let_def flip: st2_def st3_def)
qed

lemma viewKept_focus: "lorieWindowFocus env window st = Some st1 \<Longrightarrow> viewKept st st1"
proof -
  assume f: "lorieWindowFocus env window st = Some st1"
  show ?thesis
  proof (cases "st1 = st")
    case False
    with f obtain w ws where ws: "window = Some w" "lorieWindowFamily env st w = Some ws"
      by (auto simp: lorieWindowFocus_def bind_eq_Some_conv split: option.splits if_splits)
    let ?act = "collectActivation w (\<lambda>v. hasAtom env st v ''_NET_WM_STATE'' ''_NET_WM_STATE_MODAL'') ws"
    let ?app = "lorieWindowActivationApply (\<lambda>s v. w_parent (wm_store s v)) raiseWindow ?act (wm_root st) st"
    from f ws False obtain target sta where t: "?app = Some (target, sta)"
      "st1 = (case target of None \<Rightarrow> sta | Some t \<Rightarrow> focusTarget env t sta)"
      by (auto simp: lorieWindowFocus_def Let_def split: if_splits)
    have "viewKept st sta" using t(1) viewKept_raise by (auto simp: lorieWindowActivationApply_def split: if_splits)
    with t(2) viewKept_focusTarget [of sta] viewKept_trans show ?thesis by (auto split: option.splits)
  qed simp
qed

lemma viewKept_blurDevice: "viewKept st (blurDevice env w device st)"
proof -
  let ?st1 = "cancelPopup env w device st"
  have "viewKept st (emitWm (UnmapWindow p) (st\<lparr>wm_store := s, wm_grab := g\<rparr>))" for p s g
    by (rule viewKept_trans [OF viewKept_same viewKept_emit]) simp_all
  then have "viewKept st ?st1" by (auto simp: cancelPopup_def Let_def split: option.split prod.split)
  moreover have "viewKept ?st1 (emitWm (DeactivateGrab device) (?st1\<lparr>wm_grab := (wm_grab ?st1)(device := None)\<rparr>))"
    by (rule viewKept_trans [OF viewKept_same viewKept_emit]) simp_all
  ultimately show ?thesis using viewKept_trans by (auto simp: blurDevice_def Let_def split: option.split)
qed

lemma viewKept_fold: "(\<And>x s. viewKept s (f x s)) \<Longrightarrow> viewKept st (fold f xs st)"
proof (induction xs arbitrary: st)
  case (Cons x xs)
  from Cons.prems have "viewKept st (f x st)" .
  also from Cons have "viewKept (f x st) (fold f xs (f x st))" by blast
  finally show ?case by simp
qed simp

lemma viewKept_blur: "viewKept st (lorieWindowBlur env window st)"
proof (cases window)
  case (Some w)
  have "viewKept st (fold (blurDevice env w) [0, 1, 2, 3] st)" by (rule viewKept_fold) (rule viewKept_blurDevice)
  moreover have "viewKept s (emitWm (SetInputFocus None) s)" for s by (rule viewKept_emit) simp
  ultimately show ?thesis using Some viewKept_trans unfolding lorieWindowBlur_def Let_def by auto
qed (simp add: lorieWindowBlur_def)

lemma viewKept_inspect: "lorieWindowInspect env serial i limit st = Some st1 \<Longrightarrow> viewKept st st1"
proof -
  assume r: "lorieWindowInspect env serial i limit st = Some st1"
  have n: "viewKept s (inspectNode env serial w s)" for w s
    unfolding inspectNode_def Let_def by (rule viewKept_emit) simp
  have "\<exists>result ws. st1 = emitWm (SendInspectionDone serial result) (fold (inspectNode env serial) ws st)"
  proof (cases "case lookup env i of Some w \<Rightarrow> if w = wm_root st then None else Some w | None \<Rightarrow> None")
    case None
    with r have "\<exists>result. st1 = emitWm (SendInspectionDone serial result) (fold (inspectNode env serial) [] st)"
      by (auto simp: lorieWindowInspect_def Let_def)
    then show ?thesis by blast
  next
    case (Some ow)
    with r show ?thesis by (auto simp: lorieWindowInspect_def Let_def)
  qed
  then obtain result ws where st1: "st1 = emitWm (SendInspectionDone serial result) (fold (inspectNode env serial) ws st)" by blast
  have "viewKept st (fold (inspectNode env serial) ws st)" by (rule viewKept_fold) (rule n)
  then show ?thesis unfolding st1 by (rule viewKept_trans) (rule viewKept_emit, simp)
qed

section \<open>Properties\<close>

text \<open>
  C4: a refresh brings the host up to date: it ends, and afterwards the host knows exactly the
  application windows of the tree that are mapped or were known before, each with its current
  mapping, title, role and icon and with the negotiated states of its record, every record is
  published, and windows that went away were taken back.
\<close>

theorem window_refresh_shows_applications:
  assumes "wm_observing st" "wm_dirty st" "recordsShown m (wm_records st)" "laid (wm_store st) (WNode (wm_root st) cs)"
    and "distinct (map (\<lambda>w. w_id (wm_store st w)) (pres cs))" "we_callocOk env"
  shows "\<exists>st1 es. lorieWindowModelRefresh env st = Some st1 \<and> wm_log st1 = wm_log st @ es
    \<and> recordsShown (hostView es m) (wm_records st1)
    \<and> (\<forall>r \<in> set (wm_records st1). wr_published r \<and> \<not> wr_changed r \<and> \<not> wr_destroyed r)
    \<and> dom (hostView es m) = (\<lambda>w. w_id (wm_store st w)) ` shownWindows env st (pres cs)
    \<and> (\<forall>w \<in> shownWindows env st (pres cs). \<exists>i. hostView es m (w_id (wm_store st w)) = Some i
        \<and> wi_mapped i = w_realized (wm_store st w) \<and> cstr (wi_title i) = cstr (windowTitle st w 256)
        \<and> wi_role i = windowRoleOf env st w \<and> (wi_hasIcon i, wi_icon i) = windowIconOf st w)"
proof -
  let ?id = "\<lambda>w. w_id (wm_store st w)" and ?ids = "wr_id ` {r \<in> set (wm_records st). \<not> wr_destroyed r}"
  obtain live gone where d: "dropRecords wr_destroyed wr_published (wm_records st) = (live, gone)"
    by (cases "dropRecords wr_destroyed wr_published (wm_records st)")
  define sta where "sta = st\<lparr>wm_dirty := False, wm_records := map (\<lambda>r. r\<lparr>wr_seen := False\<rparr>) live, wm_log := wm_log st @ gone\<rparr>"
  define stb where "stb = fold (publishWindow env) (pres cs) sta"
  have pass: "passOk env st (wm_log st @ gone) (hostView gone m) ?ids (pres cs) stb"
    unfolding stb_def by (rule refresh_pass [OF assms(3, 5, 6) d sta_def])
  then obtain es where es: "wm_log stb = (wm_log st @ gone) @ es" "recordsShown (hostView (gone @ es) m) (wm_records stb)"
    and nd: "\<forall>r \<in> set (wm_records stb). \<not> wr_destroyed r" and ps: "passSets env st ?ids (pres cs) (wm_records stb)"
    by (auto simp: passOk_def)
  obtain kept lost where k: "dropRecords (\<lambda>r. \<not> wr_seen r) (\<lambda>_. True) (wm_records stb) = (kept, lost)"
    by (cases "dropRecords (\<lambda>r. \<not> wr_seen r) (\<lambda>_. True) (wm_records stb)")
  have kept: "set kept = {r \<in> set (wm_records stb). wr_seen r}" using k by (auto simp: dropRecords_eq)
  let ?st1 = "stb\<lparr>wm_records := kept, wm_log := wm_log stb @ lost @ [SendWindowsDone]\<rparr>"
  let ?v = "hostView (gone @ es @ lost @ [SendWindowsDone]) m"
  have "walkSiblings (wm_store st) (w_lastChild (wm_store st (wm_root st))) = Some (pres cs)"
    using walkSiblings_tree(1) [OF assms(4)] by simp
  then have run: "lorieWindowModelRefresh env st = Some ?st1"
    using assms(1, 2) d k by (simp add: lorieWindowModelRefresh_def Let_def flip: sta_def stb_def)
  have shown: "recordsShown ?v kept"
    using recordsShown_drop [OF es(2), of "\<lambda>r. \<not> wr_seen r" "\<lambda>_. True"] k recordsShown_unpublished [OF es(2) nd] by simp
  have good: "wr_published r \<and> \<not> wr_changed r \<and> \<not> wr_destroyed r" if "r \<in> set kept" for r
    using that kept nd by (auto elim: passSets_seen [OF ps])
  have mem: "r \<in> set kept \<Longrightarrow> \<exists>w \<in> shownWindows env st (pres cs). wr_id r = ?id w \<and> recordCurrent env st w r" for r
    using kept by (auto elim!: passSets_seen [OF ps])
  have inv: "\<exists>r \<in> set kept. wr_id r = ?id w" if "w \<in> shownWindows env st (pres cs)" for w
    using kept by (auto intro: passSets_shown [OF ps that])
  have "dom ?v = wr_id ` set kept" using shown good by (fastforce simp: recordsShown_def)
  also have "\<dots> = ?id ` shownWindows env st (pres cs)" using mem inv by (auto simp: image_iff) metis+
  finally have dom: "dom ?v = ?id ` shownWindows env st (pres cs)" .
  have "\<exists>i. ?v (?id w) = Some i \<and> wi_mapped i = w_realized (wm_store st w) \<and> cstr (wi_title i) = cstr (windowTitle st w 256)
      \<and> wi_role i = windowRoleOf env st w \<and> (wi_hasIcon i, wi_icon i) = windowIconOf st w"
    if w: "w \<in> shownWindows env st (pres cs)" for w
  proof -
    obtain r where r: "r \<in> set kept" "wr_id r = ?id w" using inv [OF w] by blast
    obtain v where v: "v \<in> shownWindows env st (pres cs)" "wr_id r = ?id v" "recordCurrent env st v r" using mem [OF r(1)] by blast
    have "v = w" using v r(2) w assms(5) by (simp add: shownWindows_def distinct_map inj_on_def)
    moreover obtain i where "?v (wr_id r) = Some i" "infoShows i r" using shown good [OF r(1)] r(1) by (auto simp: recordsShown_def)
    ultimately show ?thesis using v r(2) by (auto simp: infoShows_def recordCurrent_def)
  qed
  then show ?thesis using run shown good dom es(1) by (intro exI [of _ ?st1] exI [of _ "gone @ es @ lost @ [SendWindowsDone]"]) simp
qed

text \<open>One mapped application window with the identifier 7 under the root, and a server around it.\<close>

definition demoEnv :: wmEnv where
  "demoEnv = \<lparr>we_atom = (\<lambda>s. of_nat (length s)), we_find = (\<lambda>i. if i = 7 then Some 1 else None), we_client = (\<lambda>w. w), we_now = 500,
     we_callocOk = True, we_changeOk = (\<lambda>_ _. True), we_unmap = (\<lambda>_ s. s)\<rparr>"

definition demoWm :: wmState where
  "demoWm = \<lparr>wm_store = (\<lambda>_. plainWindow)(0 := plainWindow\<lparr>w_id := 1, w_lastChild := Some 1\<rparr>,
       1 := plainWindow\<lparr>w_id := 7, w_parent := Some 0, w_realized := True\<rparr>),
     wm_root = 0, wm_props = (\<lambda>w. if w = 1 then [''WM_NAME'' \<mapsto> \<lparr>pr_type = ''STRING'', pr_format = 8, pr_data = [65]\<rparr>] else Map.empty),
     wm_focus = FocusNull, wm_grab = (\<lambda>_. None), wm_considered = (\<lambda>_. False), wm_records = [], wm_dirty = True,
     wm_observing = True, wm_manager = 9, wm_stateSerial = 0, wm_lastInputWindow = 0, wm_lastInputTime = 0, wm_log = []\<rparr>"

lemma demoWm_application: "isApplication demoEnv demoWm 1"
  by (simp add: isApplication_def demoWm_def demoEnv_def plainWindow_def reference_def property_def hasAtom_def)

theorem window_refresh_shows_applications_witness:
  "\<exists>st1 es. lorieWindowModelRefresh demoEnv demoWm = Some st1 \<and> wm_log st1 = es \<and> dom (hostView es Map.empty) = {7}"
proof -
  have t: "laid (wm_store demoWm) (WNode (wm_root demoWm) [WNode 1 []])" "pres [WNode 1 []] = [1]"
    by (simp_all add: demoWm_def plainWindow_def)
  have "recordsShown Map.empty (wm_records demoWm)" by (simp add: demoWm_def recordsShown_def)
  from window_refresh_shows_applications [OF _ _ this t(1), of demoEnv]
  obtain st1 es where r: "lorieWindowModelRefresh demoEnv demoWm = Some st1" "wm_log st1 = wm_log demoWm @ es"
    "dom (hostView es Map.empty) = (\<lambda>w. w_id (wm_store demoWm w)) ` shownWindows demoEnv demoWm [1]"
    unfolding t(2) by (auto simp: demoWm_def demoEnv_def)
  have "shownWindows demoEnv demoWm [1] = {1}" using demoWm_application by (auto simp: shownWindows_def demoWm_def)
  with r show ?thesis by (auto simp: demoWm_def)
qed

text \<open>Everything that can happen between two refreshes.\<close>

datatype wmOp =
    OpFullscreenConfirm XID u32 bool
  | OpMaximizedConfirm XID u32 u32
  | OpInteractionConfirm XID u32 u32
  | OpSendEvent xSendEvent
  | OpManagerChanged bool selectionKind XID
  | OpManagerReady managerAnswers
  | OpUserInput XID
  | OpClose XID bool
  | OpFocus "wptr option"
  | OpBlur "wptr option"
  | OpInspect u32 XID nat
  | OpPropertyChanged wptr string
  | OpVisibility
  | OpDestroy wptr
  | OpPosition wptr
  | OpRestack
  | OpShape

fun runOp :: "wmEnv \<Rightarrow> (XID \<Rightarrow> u32 \<Rightarrow> bool) \<Rightarrow> wmOp \<Rightarrow> wmState \<Rightarrow> wmState option" where
  "runOp env gesture (OpFullscreenConfirm i s b) st = Some (lorieWindowFullscreenConfirm env i s b st)"
| "runOp env gesture (OpMaximizedConfirm i s a) st = Some (lorieWindowMaximizedConfirm env i s a st)"
| "runOp env gesture (OpInteractionConfirm i s f) st = Some (lorieWindowInteractionConfirm env i s f st)"
| "runOp env gesture (OpSendEvent e) st = Some (snd (sendEvent env gesture e st))"
| "runOp env gesture (OpManagerChanged ours kind w) st = Some (managerChanged ours kind w st)"
| "runOp env gesture (OpManagerReady a) st = Some (lorieWindowManagerReady env a st)"
| "runOp env gesture (OpUserInput i) st = Some (lorieWindowUserInput env i st)"
| "runOp env gesture (OpClose i force) st = Some (lorieWindowClose env i force st)"
| "runOp env gesture (OpFocus w) st = lorieWindowFocus env w st"
| "runOp env gesture (OpBlur w) st = Some (lorieWindowBlur env w st)"
| "runOp env gesture (OpInspect s i n) st = lorieWindowInspect env s i n st"
| "runOp env gesture (OpPropertyChanged w name) st = Some (propertyChanged w name st)"
| "runOp env gesture OpVisibility st = Some (onVisibility st)"
| "runOp env gesture (OpDestroy w) st = Some (onDestroy w st)"
| "runOp env gesture (OpPosition w) st = Some (onPosition w st)"
| "runOp env gesture OpRestack st = Some (onRestack st)"
| "runOp env gesture OpShape st = Some (onShape st)"

lemma viewKept_hooks:
  "viewKept st (onVisibility st)" "viewKept st (onDestroy w st)" "viewKept st (onPosition w st)"
  "viewKept st (onRestack st)" "viewKept st (onShape st)"
proof -
  show "viewKept st (onVisibility st)" "viewKept st (onRestack st)" "viewKept st (onShape st)"
    unfolding onVisibility_def onRestack_def onShape_def
    by (rule viewKept_trans [OF viewKept_dirty viewKept_emit], simp)+ (rule viewKept_emit, simp)
  show "viewKept st (onPosition w st)"
    unfolding onPosition_def
    by (rule viewKept_trans [OF viewKept_dirty viewKept_trans [OF viewKept_mark viewKept_emit]]) simp
  have "viewKept st (st\<lparr>wm_dirty := True, wm_records := map (\<lambda>r. if wr_id r = i then r\<lparr>wr_destroyed := True\<rparr> else r) (wm_records st)\<rparr>)" for i
    by (rule viewKept_records) (simp_all add: kept_map recordKept_def infoShows_def)
  then show "viewKept st (onDestroy w st)"
    unfolding onDestroy_def Let_def by (rule viewKept_trans) (rule viewKept_emit, simp)
qed

lemma runOp_viewKept: "runOp env gesture op st = Some st1 \<Longrightarrow> viewKept st st1"
proof (cases op)
  case (OpUserInput i)
  moreover assume "runOp env gesture op st = Some st1"
  ultimately show ?thesis by (auto simp: lorieWindowUserInput_def intro: viewKept_same)
qed (auto simp: viewKept_fullscreenConfirm viewKept_maximizedConfirm viewKept_interactionConfirm viewKept_sendEvent
    viewKept_managerChanged viewKept_managerReady viewKept_close viewKept_blur viewKept_propertyChanged viewKept_hooks
    intro: viewKept_focus viewKept_inspect)



lemma recordFor_frame:
  "recordFor env w st = (i, st1) \<Longrightarrow> wm_lastInputTime st1 = wm_lastInputTime st \<and> wm_lastInputWindow st1 = wm_lastInputWindow st
     \<and> sameServer st st1 \<and> (\<forall>k. i = Some k \<longrightarrow> k < length (wm_records st1))"
  by (cases rule: recordFor_cases [of env w st]) (auto simp: sameServer_def)

lemma confirmRecord_frame:
  assumes "confirmRecord env x st = (f, st1)"
  shows "wm_lastInputTime st1 = wm_lastInputTime st \<and> wm_lastInputWindow st1 = wm_lastInputWindow st \<and> sameServer st st1
    \<and> (\<forall>w k. f = Some (w, k) \<longrightarrow> k < length (wm_records st1))"
proof (cases "lookup env x")
  case None
  with assms show ?thesis by (auto simp: confirmRecord_def sameServer_def)
next
  case (Some w)
  obtain i sta where r: "recordFor env w st = (i, sta)" by (cases "recordFor env w st")
  with assms Some recordFor_frame [OF r] show ?thesis by (auto simp: confirmRecord_def split: option.splits)
qed

definition asksActivation :: "wmEnv \<Rightarrow> xSendEvent \<Rightarrow> wmState \<Rightarrow> bool" where
  "asksActivation env e st \<longleftrightarrow> wm_manager st \<noteq> 0 \<and> xe_destination e = w_id (wm_store st (wm_root st)) \<and> xe_clientMessage e
     \<and> xe_type e = we_atom env ''_NET_ACTIVE_WINDOW''"

lemma sendEvent_activation:
  assumes "asksActivation env e st" "confirmRecord env (xe_window e) st = (Some (w, k), sta)"
  shows "sendEvent env gesture e st = (SendSuccess, activationRequest env w k e sta)"
  using assms by (simp add: asksActivation_def sendEvent_def Let_def)

lemma activationRequest_result:
  assumes "k < length (wm_records st)"
  shows "wm_lastInputTime (activationRequest env w k e st) = 0
    \<and> (let r = wr_interaction (wm_records (activationRequest env w k e st) ! k);
           allowed = (\<exists>input. lookup env (wm_lastInputWindow st) = Some input \<and> we_client env input = we_client env w
              \<and> lorieActivationTimestamp (xe_longs1 e) (wm_lastInputTime st) (we_now env))
       in ia_action r = (if allowed then LORIE_INTERACTION_ACTIVATE else LORIE_INTERACTION_NONE) \<and> (allowed \<or> ia_attention r))"
  using assms
  by (auto simp: activationRequest_def touchRecord_def onRecord_def nextStateSerial_def Let_def split: option.split)


definition demoActivate :: xSendEvent where
  "demoActivate = \<lparr>xe_destination = 1, xe_clientMessage = True, xe_window = 7, xe_type = we_atom demoEnv ''_NET_ACTIVE_WINDOW'',
     xe_longs0 = 2, xe_longs1 = 450, xe_longs2 = 0, xe_longs3 = 0\<rparr>"

definition demoInputWm :: wmState where
  "demoInputWm = demoWm\<lparr>wm_lastInputWindow := 7, wm_lastInputTime := 400\<rparr>"

lemma demo_confirm:
  assumes "wm_store st = wm_store demoWm" "wm_root st = 0" "wm_props st = wm_props demoWm" "wm_manager st = 9"
  shows "\<exists>k sta. confirmRecord demoEnv 7 st = (Some (1, k), sta)"
proof -
  have same: "sameServer demoWm st" using assms by (simp add: sameServer_def demoWm_def)
  have app: "isApplication demoEnv st 1" using demoWm_application sameServer_questions [OF same] by simp
  have "lookup demoEnv 7 = Some 1" by (simp add: lookup_def demoEnv_def)
  moreover have "w_realized (wm_store st 1)" "we_callocOk demoEnv" using assms(1) by (simp_all add: demoWm_def demoEnv_def)
  ultimately show ?thesis using app by (auto simp: confirmRecord_def recordFor_def split: option.split prod.split)
qed


lemma propertyChanged_frame [simp]:
  "wm_props (propertyChanged w name st) = wm_props st" "wm_store (propertyChanged w name st) = wm_store st"
  "wm_root (propertyChanged w name st) = wm_root st" "wm_manager (propertyChanged w name st) = wm_manager st"
  by (simp_all add: propertyChanged_def emitWm_def markChanged_def Let_def split: prod.split)

lemma changeProperty_state:
  assumes "we_changeOk env w ''_NET_WM_STATE''" "changeProperty env w ''_NET_WM_STATE'' (atomList as) st = (ok, st1)"
  shows "ok \<and> stateAtoms st1 w = as \<and> wm_records st1 = wm_records st"
  using assms by (auto simp: changeProperty_def stateAtoms_def property_def atomList_def propertyChanged_def emitWm_def Let_def)

lemma hasAtom_stateAtoms: "hasAtom env st w ''_NET_WM_STATE'' item \<longleftrightarrow> we_atom env item \<in> set (stateAtoms st w)"
  by (auto simp: hasAtom_def stateAtoms_def list_ex_iff split: option.split)

text \<open>
  a confirmation from the host takes effect exactly when it answers the current request of the
  window: then the state property lists the atom exactly if the window is fullscreen, all other
  atoms are kept in order, and wish and actual state agree; a stale one changes neither the
  properties nor the record.
\<close>

theorem fullscreen_confirm_effect:
  assumes "wm_manager st \<noteq> 0" "confirmRecord env i st = (Some (w, k), sta)" "we_callocOk env" "we_changeOk env w ''_NET_WM_STATE''"
    and "st1 = lorieWindowFullscreenConfirm env i serial fullscreen st"
  shows "if serial = fs_serial (wr_fullscreen (wm_records sta ! k))
    then hasAtom env st1 w ''_NET_WM_STATE'' ''_NET_WM_STATE_FULLSCREEN'' = fullscreen
      \<and> filter (\<lambda>a. a \<noteq> we_atom env ''_NET_WM_STATE_FULLSCREEN'') (stateAtoms st1 w)
          = filter (\<lambda>a. a \<noteq> we_atom env ''_NET_WM_STATE_FULLSCREEN'') (stateAtoms st w)
      \<and> fs_requested (wr_fullscreen (wm_records st1 ! k)) = fullscreen \<and> fs_actual (wr_fullscreen (wm_records st1 ! k)) = fullscreen
      \<and> wr_changed (wm_records st1 ! k) \<and> wm_dirty st1
    else st1 = sta \<and> wm_props st1 = wm_props st"
proof -
  have frame: "sameServer st sta" "k < length (wm_records sta)" using confirmRecord_frame [OF assms(2)] by auto
  then have props: "wm_props sta = wm_props st" by (simp add: sameServer_def)
  show ?thesis
  proof (cases "serial = fs_serial (wr_fullscreen (wm_records sta ! k))")
    case True
    let ?fs = "we_atom env ''_NET_WM_STATE_FULLSCREEN''"
    let ?as = "filter (\<lambda>a. a \<noteq> ?fs) (stateAtoms sta w) @ (if fullscreen then [?fs] else [])"
    obtain ok stb where b: "changeProperty env w ''_NET_WM_STATE'' (atomList ?as) sta = (ok, stb)"
      by (cases "changeProperty env w ''_NET_WM_STATE'' (atomList ?as) sta")
    note c = changeProperty_state [OF assms(4) b]
    have st1: "st1 = (onRecord k (\<lambda>r. r\<lparr>wr_fullscreen := snd (lorieFullscreenConfirm (wr_fullscreen r) serial fullscreen),
        wr_changed := True\<rparr>) stb)\<lparr>wm_dirty := True\<rparr>"
      using assms(1-3, 5) True b c by (simp add: lorieWindowFullscreenConfirm_def Let_def)
    have atoms: "stateAtoms st1 w = ?as" using c by (simp add: st1 onRecord_def stateAtoms_def property_def)
    have "stateAtoms sta w = stateAtoms st w" by (simp add: stateAtoms_def property_def props)
    moreover have "hasAtom env st1 w ''_NET_WM_STATE'' ''_NET_WM_STATE_FULLSCREEN'' = fullscreen"
      by (simp add: hasAtom_stateAtoms atoms)
    ultimately show ?thesis
      using True c frame(2) atoms by (simp add: st1 onRecord_def lorieFullscreenConfirm_def)
  next
    case False
    with assms(1, 2, 5) props show ?thesis by (simp add: lorieWindowFullscreenConfirm_def)
  qed
qed

theorem fullscreen_confirm_effect_witness:
  "\<exists>serial. hasAtom demoEnv (lorieWindowFullscreenConfirm demoEnv 7 serial True demoWm) 1 ''_NET_WM_STATE'' ''_NET_WM_STATE_FULLSCREEN''"
proof -
  obtain k sta where a: "confirmRecord demoEnv 7 demoWm = (Some (1, k), sta)"
    using demo_confirm [of demoWm] by (auto simp: demoWm_def)
  have "wm_manager demoWm \<noteq> 0" "we_callocOk demoEnv" "we_changeOk demoEnv 1 ''_NET_WM_STATE''" by (simp_all add: demoWm_def demoEnv_def)
  from fullscreen_confirm_effect [OF this(1) a this(2, 3) refl, of "fs_serial (wr_fullscreen (wm_records sta ! k))" True] show ?thesis by auto
qed

text \<open>
  C32: when another window manager takes the selection the model gives the role up at once: it no
  longer counts as manager, its advertisement on the root window is gone if it was still its own,
  every window will be announced again, and requests sent to the root window from then on reach
  the other manager unchanged.
\<close>

theorem manager_role_yields:
  assumes "wm_manager st \<noteq> 0" "window \<noteq> wm_manager st" "st1 = managerChanged True SelectionSetOwner window st"
  shows "wm_manager st1 = 0 \<and> wm_dirty st1 \<and> (\<forall>r \<in> set (wm_records st1). wr_changed r)
    \<and> (reference st (wm_root st) ''_NET_SUPPORTING_WM_CHECK'' = wm_manager st \<longrightarrow>
         property st1 (wm_root st) ''_NET_SUPPORTING_WM_CHECK'' = None \<and> property st1 (wm_root st) ''_NET_SUPPORTED'' = None)
    \<and> (reference st (wm_root st) ''_NET_SUPPORTING_WM_CHECK'' \<noteq> wm_manager st \<longrightarrow> wm_props st1 = wm_props st)
    \<and> sendEvent env gesture e st1 = (SendPrevious, st1)"
proof -
  let ?a = "(emitWm ShellGeometryChanged st)\<lparr>wm_manager := 0\<rparr>"
  have del: "wm_props (deleteProperty w name s) = (wm_props s)(w := (wm_props s w)(name := None))" for w name s
    by (auto simp: deleteProperty_def fun_eq_iff)
  have man: "wm_manager (deleteProperty w name s) = wm_manager s" for w name s by (simp add: deleteProperty_def)
  have ref: "reference ?a (wm_root st) name = reference st (wm_root st) name" for name
    by (simp add: reference_def property_def emitWm_def)
  have m: "wm_manager st1 = 0" using assms man by (simp add: managerChanged_def emitWm_def Let_def)
  moreover have "wm_dirty st1" "\<forall>r \<in> set (wm_records st1). wr_changed r" using assms by (auto simp: managerChanged_def emitWm_def Let_def)
  moreover have "property st1 (wm_root st) ''_NET_SUPPORTING_WM_CHECK'' = None \<and> property st1 (wm_root st) ''_NET_SUPPORTED'' = None"
    if "reference st (wm_root st) ''_NET_SUPPORTING_WM_CHECK'' = wm_manager st"
    using assms that ref by (simp add: managerChanged_def emitWm_def property_def del Let_def)
  moreover have "wm_props st1 = wm_props st" if "reference st (wm_root st) ''_NET_SUPPORTING_WM_CHECK'' \<noteq> wm_manager st"
    using assms that ref by (simp add: managerChanged_def emitWm_def Let_def)
  moreover have "sendEvent env gesture e st1 = (SendPrevious, st1)" using m by (simp add: sendEvent_def)
  ultimately show ?thesis by blast
qed

theorem manager_role_yields_witness:
  "wm_manager (managerChanged True SelectionSetOwner 4 demoWm) = 0
   \<and> wm_props (managerChanged True SelectionSetOwner 4 demoWm) = wm_props demoWm"
  using manager_role_yields [OF _ _ refl, of demoWm 4] by (simp add: demoWm_def reference_def property_def)

text \<open>
  C28: the windows handed out as a family are found by walking the pointers of the tree: the walk
  ends, every window it reports is a mapped member of the family that draws, none is reported
  twice, and nothing inside a reported window or inside the owner is reported separately.
\<close>

theorem window_family_lists_members:
  assumes "laid (wm_store st) (WNode (wm_root st) cs)" "distinct (pres cs)"
  shows "\<exists>ws. lorieWindowFamily env st owner = Some ws \<and> ws = familyTrees (wm_store st) (familyMember env st) owner cs
    \<and> distinct ws \<and> (\<forall>w \<in> set ws. w \<in> set (pres cs) \<and> w_realized (wm_store st w) \<and> w_class (wm_store st w) = InputOutput
        \<and> familyMember env st w owner)"
proof -
  have "lorieWindowFamily env st owner = Some (familyTrees (wm_store st) (familyMember env st) owner cs)"
    using visitSiblings_tree(1) [OF assms(1)] by (simp add: lorieWindowFamily_def)
  then show ?thesis using familyTree_distinct(2) [OF assms(2)] familyTree_in(2) [of "wm_store st" "familyMember env st" owner cs]
    by auto
qed

theorem window_family_lists_members_witness:
  "lorieWindowFamily demoEnv demoWm 1 = Some [1]"
proof -
  have "laid (wm_store demoWm) (WNode (wm_root demoWm) [WNode 1 []])" "distinct (pres [WNode 1 []])"
    by (simp_all add: demoWm_def plainWindow_def)
  note r = window_family_lists_members [OF this, of demoEnv 1]
  have "familyMember demoEnv demoWm 1 1"
    by (simp add: familyMember_def lorieWindowBelongsTo_def lorieWindowFamilyContains_def demoWm_def numeral_eq_Suc)
  moreover have "w_realized (wm_store demoWm 1)" "w_class (wm_store demoWm 1) = InputOutput" by (simp_all add: demoWm_def plainWindow_def)
  ultimately show ?thesis using r by simp
qed

end
