(* ===== verification/Family_Geometry.thy ===== *)
theory Family_Geometry
  imports Window_Model Outputs
begin

text \<open>
  The geometry of a window family (\<open>window_family_geometry.c\<close>): the rectangle its windows paint and
  the region where they take input, relative to the owner.  Regions and their operations belong
  to the X server; they are the argument \<open>rg\<close>, a record of functions over an unspecified type of
  regions, and \<open>regionLaws\<close> states what the code relies on.
\<close>

section \<open>Regions of the server\<close>

record 'r regionServer =
  rg_null :: 'r
  rg_translate :: "int \<Rightarrow> int \<Rightarrow> 'r \<Rightarrow> 'r"
  rg_intersect :: "'r \<Rightarrow> 'r \<Rightarrow> 'r"
  rg_union :: "'r \<Rightarrow> 'r \<Rightarrow> 'r"
  rg_rects :: "'r \<Rightarrow> LorieShellRect list"
  rg_winSize :: "wptr \<Rightarrow> 'r"
  rg_inputShape :: "wptr \<Rightarrow> 'r option"

abbreviation (input) LORIE_SHELL_INPUT_LIMIT :: nat where "LORIE_SHELL_INPUT_LIMIT \<equiv> 128"
abbreviation (input) LORIE_MAX_FAMILY_LAYERS :: nat where "LORIE_MAX_FAMILY_LAYERS \<equiv> 256"

section \<open>Collecting a family\<close>

abbreviation noRect :: LorieShellRect where
  "noRect \<equiv> \<lparr>sr_left = 0, sr_top = 0, sr_right = 0, sr_bottom = 0\<rparr>"

record 'r FamilyGeometry =
  gy_geometry :: LorieFamilyGeometry
  gy_input :: 'r
  gy_count :: nat
  gy_painted :: bool

definition memberRect :: "wstore \<Rightarrow> wptr \<Rightarrow> wptr \<Rightarrow> LorieShellRect" where
  "memberRect s owner w =
     (let x = w_x (s w) - w_x (s owner); y = w_y (s w) - w_y (s owner)
      in \<lparr>sr_left = x, sr_top = y, sr_right = x + w_width (s w), sr_bottom = y + w_height (s w)\<rparr>)"

definition joinRect :: "LorieShellRect \<Rightarrow> LorieShellRect \<Rightarrow> LorieShellRect" where
  "joinRect a b = \<lparr>sr_left = min (sr_left a) (sr_left b), sr_top = min (sr_top a) (sr_top b),
     sr_right = max (sr_right a) (sr_right b), sr_bottom = max (sr_bottom a) (sr_bottom b)\<rparr>"

definition memberInput :: "'r regionServer \<Rightarrow> wstore \<Rightarrow> wptr \<Rightarrow> wptr \<Rightarrow> 'r" where
  "memberInput rg s owner w =
     (let region = rg_translate rg (- w_x (s w)) (- w_y (s w)) (rg_winSize rg w);
          region = (case rg_inputShape rg w of None \<Rightarrow> region | Some sh \<Rightarrow> rg_intersect rg region sh)
      in rg_translate rg (w_x (s w) - w_x (s owner)) (w_y (s w) - w_y (s owner)) region)"

definition collect :: "'r regionServer \<Rightarrow> wstore \<Rightarrow> wptr \<Rightarrow> bool \<Rightarrow> wptr \<Rightarrow> 'r FamilyGeometry \<Rightarrow> 'r FamilyGeometry" where
  "collect rg s owner childrenOnly w family =
     (if childrenOnly \<and> w = owner then family
      else let family = family\<lparr>gy_count := gy_count family + 1\<rparr>; g = gy_geometry family
      in if gy_count family > LORIE_MAX_FAMILY_LAYERS then family\<lparr>gy_geometry := g\<lparr>fg_inputComplete := False\<rparr>\<rparr>
      else let paint = memberRect s owner w;
               g = g\<lparr>fg_paint := (if \<not> gy_painted family then paint else joinRect (fg_paint g) paint)\<rparr>
      in family\<lparr>gy_geometry := g, gy_painted := True,
                gy_input := rg_union rg (gy_input family) (memberInput rg s owner w)\<rparr>)"

definition startGeometry :: "'r regionServer \<Rightarrow> wstore \<Rightarrow> wptr \<Rightarrow> 'r FamilyGeometry" where
  "startGeometry rg s owner =
     \<lparr>gy_geometry = \<lparr>fg_width = w_width (s owner), fg_height = w_height (s owner), fg_inputComplete = True,
        fg_paint = noRect, fg_input = []\<rparr>,
      gy_input = rg_null rg, gy_count = 0, gy_painted = False\<rparr>"

definition finishGeometry :: "'r regionServer \<Rightarrow> 'r FamilyGeometry \<Rightarrow> LorieFamilyGeometry" where
  "finishGeometry rg family =
     (let g = gy_geometry family; rects = rg_rects rg (gy_input family);
          g = (if length rects > LORIE_SHELL_INPUT_LIMIT then g\<lparr>fg_inputComplete := False\<rparr> else g)
      in if fg_inputComplete g then g\<lparr>fg_input := rects\<rparr> else g)"

text \<open>\<open>None\<close> when the walk over the window tree does not end.\<close>

definition lorieWindowFamilyGeometry ::
    "'r regionServer \<Rightarrow> wmEnv \<Rightarrow> wmState \<Rightarrow> wptr \<Rightarrow> bool \<Rightarrow> LorieFamilyGeometry option" where
  "lorieWindowFamilyGeometry rg env st owner childrenOnly =
     map_option (\<lambda>ws. finishGeometry rg (fold (collect rg (wm_store st) owner childrenOnly) ws (startGeometry rg (wm_store st) owner)))
       (if w_realized (wm_store st owner) then lorieWindowFamily env st owner else Some [])"

section \<open>What the geometry says\<close>

definition inRect :: "int \<times> int \<Rightarrow> LorieShellRect \<Rightarrow> bool" where
  "inRect p r \<longleftrightarrow> sr_left r \<le> fst p \<and> fst p < sr_right r \<and> sr_top r \<le> snd p \<and> snd p < sr_bottom r"

definition rectPoints :: "LorieShellRect list \<Rightarrow> (int \<times> int) set" where
  "rectPoints rs = {p. \<exists>r \<in> set rs. inRect p r}"

abbreviation regionPoints :: "'r regionServer \<Rightarrow> 'r \<Rightarrow> (int \<times> int) set" where
  "regionPoints rg r \<equiv> rectPoints (rg_rects rg r)"

definition shiftPoint :: "int \<Rightarrow> int \<Rightarrow> int \<times> int \<Rightarrow> int \<times> int" where
  "shiftPoint dx dy p = (fst p + dx, snd p + dy)"

text \<open>Coordinates of a region are 16 bits wide; a translation that leaves the range is clipped.\<close>

definition shortPoint :: "int \<times> int \<Rightarrow> bool" where
  "shortPoint p \<longleftrightarrow> - 32768 \<le> fst p \<and> fst p < 32767 \<and> - 32768 \<le> snd p \<and> snd p < 32767"

definition regionLaws :: "'r regionServer \<Rightarrow> bool" where
  "regionLaws rg \<longleftrightarrow>
     regionPoints rg (rg_null rg) = {}
     \<and> (\<forall>a b. regionPoints rg (rg_intersect rg a b) = regionPoints rg a \<inter> regionPoints rg b)
     \<and> (\<forall>a b. regionPoints rg (rg_union rg a b) = regionPoints rg a \<union> regionPoints rg b)
     \<and> (\<forall>a dx dy. (\<forall>p \<in> regionPoints rg a. shortPoint (shiftPoint dx dy p))
          \<longrightarrow> regionPoints rg (rg_translate rg dx dy a) = shiftPoint dx dy ` regionPoints rg a)"

text \<open>The points, relative to the owner, where a window takes input.\<close>

definition takesInput :: "'r regionServer \<Rightarrow> wstore \<Rightarrow> wptr \<Rightarrow> wptr \<Rightarrow> (int \<times> int) set" where
  "takesInput rg s owner w =
     {p. shiftPoint (w_x (s owner)) (w_y (s owner)) p \<in> regionPoints rg (rg_winSize rg w)
       \<and> (case rg_inputShape rg w of None \<Rightarrow> True
          | Some sh \<Rightarrow> shiftPoint (w_x (s owner) - w_x (s w)) (w_y (s owner) - w_y (s w)) p \<in> regionPoints rg sh)}"

definition fitsShort :: "'r regionServer \<Rightarrow> wstore \<Rightarrow> wptr \<Rightarrow> wptr \<Rightarrow> bool" where
  "fitsShort rg s owner w \<longleftrightarrow>
     (\<forall>p \<in> regionPoints rg (rg_winSize rg w).
        shortPoint (shiftPoint (- w_x (s w)) (- w_y (s w)) p) \<and> shortPoint (shiftPoint (- w_x (s owner)) (- w_y (s owner)) p))"

definition rectIn :: "LorieShellRect \<Rightarrow> LorieShellRect \<Rightarrow> bool" where
  "rectIn a b \<longleftrightarrow> sr_left b \<le> sr_left a \<and> sr_top b \<le> sr_top a \<and> sr_right a \<le> sr_right b \<and> sr_bottom a \<le> sr_bottom b"

lemma shiftPoint_shiftPoint [simp]: "shiftPoint a b (shiftPoint c d p) = shiftPoint (a + c) (b + d) p"
  by (simp add: shiftPoint_def)

lemma shiftPoint_0 [simp]: "shiftPoint 0 0 p = p"
  by (simp add: shiftPoint_def)

lemma shiftPoint_image: "shiftPoint a b ` A = {p. shiftPoint (- a) (- b) p \<in> A}"
proof -
  have "p \<in> shiftPoint a b ` A" if "shiftPoint (- a) (- b) p \<in> A" for p
    using imageI [OF that, of "shiftPoint a b"] by simp
  then show ?thesis by auto
qed

lemma memberInput_points:
  assumes "regionLaws rg" "fitsShort rg s owner w"
  shows "regionPoints rg (memberInput rg s owner w) = takesInput rg s owner w"
proof -
  let ?W = "regionPoints rg (rg_winSize rg w)"
  let ?a = "rg_translate rg (- w_x (s w)) (- w_y (s w)) (rg_winSize rg w)"
  let ?b = "case rg_inputShape rg w of None \<Rightarrow> ?a | Some sh \<Rightarrow> rg_intersect rg ?a sh"
  have a: "regionPoints rg ?a = shiftPoint (- w_x (s w)) (- w_y (s w)) ` ?W"
    using assms by (simp add: regionLaws_def fitsShort_def)
  have b: "regionPoints rg ?b = regionPoints rg ?a \<inter> (case rg_inputShape rg w of None \<Rightarrow> UNIV | Some sh \<Rightarrow> regionPoints rg sh)"
    using assms(1) by (cases "rg_inputShape rg w") (simp_all add: regionLaws_def)
  have "\<forall>p \<in> regionPoints rg ?b. shortPoint (shiftPoint (w_x (s w) - w_x (s owner)) (w_y (s w) - w_y (s owner)) p)"
    using assms(2) unfolding a b fitsShort_def by (auto simp: shiftPoint_def)
  then have "regionPoints rg (memberInput rg s owner w)
    = shiftPoint (w_x (s w) - w_x (s owner)) (w_y (s w) - w_y (s owner)) ` regionPoints rg ?b"
    using assms(1) by (simp add: regionLaws_def memberInput_def Let_def)
  then show ?thesis unfolding a b takesInput_def shiftPoint_image by (auto split: option.splits)
qed

lemma joinRect_least: "rectIn (joinRect a b) r \<longleftrightarrow> rectIn a r \<and> rectIn b r"
  by (auto simp: rectIn_def joinRect_def)

text \<open>What has been collected after some of the windows.\<close>

definition collected :: "'r regionServer \<Rightarrow> wstore \<Rightarrow> wptr \<Rightarrow> wptr list \<Rightarrow> 'r FamilyGeometry \<Rightarrow> bool" where
  "collected rg s owner ws f \<longleftrightarrow>
     gy_count f = length ws \<and> gy_painted f = (ws \<noteq> []) \<and> fg_inputComplete (gy_geometry f) = (length ws \<le> 256)
     \<and> fg_width (gy_geometry f) = w_width (s owner) \<and> fg_height (gy_geometry f) = w_height (s owner)
     \<and> fg_input (gy_geometry f) = [] \<and> (ws = [] \<longrightarrow> fg_paint (gy_geometry f) = noRect)
     \<and> (ws \<noteq> [] \<longrightarrow> (\<forall>r. rectIn (fg_paint (gy_geometry f)) r \<longleftrightarrow> (\<forall>w \<in> set (take 256 ws). rectIn (memberRect s owner w) r)))
     \<and> regionPoints rg (gy_input f) = (\<Union>w \<in> set (take 256 ws). takesInput rg s owner w)"

lemma collected_start: "regionLaws rg \<Longrightarrow> collected rg s owner [] (startGeometry rg s owner)"
  by (simp add: collected_def startGeometry_def regionLaws_def)

lemma collected_step:
  assumes "regionLaws rg" "fitsShort rg s owner w" "collected rg s owner ws f" "\<not> (childrenOnly \<and> w = owner)"
  shows "collected rg s owner (ws @ [w]) (collect rg s owner childrenOnly w f)"
proof (cases "length ws < 256")
  case True
  have "regionPoints rg (rg_union rg a b) = regionPoints rg a \<union> regionPoints rg b" for a b
    using assms(1) by (simp add: regionLaws_def)
  with True assms(3,4) show ?thesis
    using memberInput_points [OF assms(1,2)]
    by (cases "ws = []") (auto simp: collected_def collect_def Let_def joinRect_least)
next
  case False
  with assms(3,4) show ?thesis by (auto simp: collected_def collect_def Let_def)
qed

lemma collected_fold:
  assumes "regionLaws rg" "\<forall>w \<in> set ws. fitsShort rg s owner w"
  shows "collected rg s owner (filter (\<lambda>w. \<not> (childrenOnly \<and> w = owner)) ws)
    (fold (collect rg s owner childrenOnly) ws (startGeometry rg s owner))"
  using assms(2)
proof (induction ws rule: rev_induct)
  case Nil
  then show ?case using collected_start [OF assms(1)] by simp
next
  case (snoc w ws)
  show ?case
  proof (cases "childrenOnly \<and> w = owner")
    case True
    with snoc show ?thesis by (simp add: collect_def)
  next
    case False
    then show ?thesis using collected_step [OF assms(1) _ _ False] snoc by simp
  qed
qed

text \<open>
  C40: the geometry of a mapped owner: the size is the owner's, the paint rectangle is the smallest
  one around the members (at most the first 256, without the owner when only its dependents
  count), and when the input is reported as complete its at most 128 rectangles cover exactly the
  points where some member takes input, its own input shape taken into account; when it is not,
  no rectangle is reported.  More than 256 members are never reported as complete.
\<close>

theorem family_geometry_exact:
  assumes "regionLaws rg" "w_realized (wm_store st owner)" "lorieWindowFamily env st owner = Some ws"
    and "\<forall>w \<in> set ws. fitsShort rg (wm_store st) owner w"
    and "members = filter (\<lambda>w. \<not> (childrenOnly \<and> w = owner)) ws"
  shows "\<exists>g. lorieWindowFamilyGeometry rg env st owner childrenOnly = Some g
    \<and> fg_width g = w_width (wm_store st owner) \<and> fg_height g = w_height (wm_store st owner)
    \<and> (members \<noteq> [] \<longrightarrow> (\<forall>r. rectIn (fg_paint g) r \<longleftrightarrow> (\<forall>w \<in> set (take 256 members). rectIn (memberRect (wm_store st) owner w) r)))
    \<and> length (fg_input g) \<le> 128
    \<and> (if fg_inputComplete g then length members \<le> 256 \<and> rectPoints (fg_input g) = (\<Union>w \<in> set members. takesInput rg (wm_store st) owner w)
       else fg_input g = [])"
proof -
  let ?f = "fold (collect rg (wm_store st) owner childrenOnly) ws (startGeometry rg (wm_store st) owner)"
  have c: "collected rg (wm_store st) owner members ?f"
    using collected_fold [OF assms(1,4)] assms(5) by simp
  have "lorieWindowFamilyGeometry rg env st owner childrenOnly = Some (finishGeometry rg ?f)"
    using assms(2,3) by (simp add: lorieWindowFamilyGeometry_def)
  with c show ?thesis by (auto simp: collected_def finishGeometry_def Let_def)
qed

text \<open>Regions as lists of boxes.\<close>

definition boxMeet :: "LorieShellRect \<Rightarrow> LorieShellRect \<Rightarrow> LorieShellRect" where
  "boxMeet a b = \<lparr>sr_left = max (sr_left a) (sr_left b), sr_top = max (sr_top a) (sr_top b),
     sr_right = min (sr_right a) (sr_right b), sr_bottom = min (sr_bottom a) (sr_bottom b)\<rparr>"

definition boxShift :: "int \<Rightarrow> int \<Rightarrow> LorieShellRect \<Rightarrow> LorieShellRect" where
  "boxShift dx dy a = \<lparr>sr_left = sr_left a + dx, sr_top = sr_top a + dy, sr_right = sr_right a + dx, sr_bottom = sr_bottom a + dy\<rparr>"

definition boxServer :: "(wptr \<Rightarrow> LorieShellRect list) \<Rightarrow> LorieShellRect list regionServer" where
  "boxServer win = \<lparr>rg_null = [], rg_translate = (\<lambda>dx dy. map (boxShift dx dy)),
     rg_intersect = (\<lambda>as bs. concat (map (\<lambda>a. map (boxMeet a) bs) as)), rg_union = (@), rg_rects = id,
     rg_winSize = win, rg_inputShape = (\<lambda>_. None)\<rparr>"

lemma inRect_boxShift: "inRect p (boxShift dx dy b) \<longleftrightarrow> inRect (shiftPoint (- dx) (- dy) p) b"
  by (auto simp: inRect_def boxShift_def shiftPoint_def)

lemma inRect_boxMeet: "inRect p (boxMeet a b) \<longleftrightarrow> inRect p a \<and> inRect p b"
  by (auto simp: inRect_def boxMeet_def)

lemma boxServer_laws: "regionLaws (boxServer win)"
proof -
  have t: "rectPoints (map (boxShift dx dy) a) = shiftPoint dx dy ` rectPoints a" for dx dy a
    unfolding shiftPoint_image by (auto simp: rectPoints_def inRect_boxShift)
  have m: "rectPoints (concat (map (\<lambda>a. map (boxMeet a) bs) as)) = rectPoints as \<inter> rectPoints bs" for as bs
    by (auto simp: rectPoints_def inRect_boxMeet)
  have u: "rectPoints [] = {}" "rectPoints (as @ bs) = rectPoints as \<union> rectPoints bs" for as bs
    by (auto simp: rectPoints_def)
  show ?thesis by (simp add: regionLaws_def boxServer_def t m u)
qed

theorem family_geometry_exact_witness:
  "\<exists>g. lorieWindowFamilyGeometry (boxServer (\<lambda>_. [\<lparr>sr_left = 0, sr_top = 0, sr_right = 4, sr_bottom = 3\<rparr>])) demoEnv demoWm 1 False = Some g
     \<and> (fg_inputComplete g \<longrightarrow> (3, 2) \<in> rectPoints (fg_input g))"
proof -
  let ?rg = "boxServer (\<lambda>_. [\<lparr>sr_left = 0, sr_top = 0, sr_right = 4, sr_bottom = 3\<rparr>])"
  have fam: "lorieWindowFamily demoEnv demoWm 1 = Some [1]"
    using visitSiblings_tree(1) [of "wm_store demoWm" "WNode 0 [WNode 1 []]" "familyMember demoEnv demoWm" 1]
    by (simp add: lorieWindowFamily_def demoWm_def plainWindow_def familyMember_def lorieWindowBelongsTo_def
        lorieWindowFamilyContains_def numeral_eq_Suc)
  have "\<forall>w \<in> set [1]. fitsShort ?rg (wm_store demoWm) 1 w"
    by (auto simp: fitsShort_def boxServer_def rectPoints_def inRect_def shortPoint_def shiftPoint_def demoWm_def plainWindow_def)
  from family_geometry_exact [OF boxServer_laws _ fam this refl, of False]
  obtain g where "lorieWindowFamilyGeometry ?rg demoEnv demoWm 1 False = Some g"
    "fg_inputComplete g \<Longrightarrow> rectPoints (fg_input g) = takesInput ?rg (wm_store demoWm) 1 1"
    by (auto simp: demoWm_def plainWindow_def split: if_splits)
  moreover have "(3, 2) \<in> takesInput ?rg (wm_store demoWm) 1 1"
    by (simp add: takesInput_def boxServer_def rectPoints_def inRect_def shiftPoint_def demoWm_def plainWindow_def)
  ultimately show ?thesis by blast
qed

end
