(* ===== verification/Window_Shell.thy ===== *)
theory Window_Shell
  imports Family_Geometry
begin

text \<open>
  Desktop and dock windows (\<open>window_shell.c\<close>): one output at a time owns the shell; while it does,
  the shell windows of the tree are recorded and announced to it with their geometry, struts and
  input region.  The window tree, the properties and the window-manager role are those of
  \<open>Window_Model\<close>; what is sent or called outside the component goes to \<open>sl_log\<close>.
\<close>

record LorieShellInfo =
  si_role :: nat
  si_mapped :: bool
  si_inputComplete :: bool
  si_x :: int
  si_y :: int
  si_width :: int
  si_height :: int
  si_paint :: LorieShellRect
  si_strut :: "u32 list"
  si_input :: "LorieShellRect list"

record ShellRecord =
  sh_window :: XID
  sh_seen :: bool
  sh_info :: LorieShellInfo

datatype shellEffect =
    ShellStateEvent u32 bool
  | ShellInfoEvent u32 XID LorieShellInfo
  | ShellRemovedEvent u32 XID
  | ShellConfigureNotify int int
  | ShellDoneEvent

record shellState =
  sl_records :: "ShellRecord list"
  sl_owner :: u32
  sl_dirty :: bool
  sl_log :: "shellEffect list"

text \<open>What the component reads of the rest of the server.\<close>

record 'r shellServer =
  sv_env :: wmEnv
  sv_wm :: wmState
  sv_manager :: managerLookup
  sv_regions :: "'r regionServer"
  sv_screenWidth :: int
  sv_screenHeight :: int

abbreviation (input) LORIE_SHELL_DESKTOP :: nat where "LORIE_SHELL_DESKTOP \<equiv> 1"
abbreviation (input) LORIE_SHELL_DOCK :: nat where "LORIE_SHELL_DOCK \<equiv> 2"

definition shellEmit :: "shellEffect \<Rightarrow> shellState \<Rightarrow> shellState" where
  "shellEmit e st = st\<lparr>sl_log := sl_log st @ [e]\<rparr>"

section \<open>Shell windows\<close>

fun firstRole :: "u32 \<Rightarrow> u32 \<Rightarrow> u32 list \<Rightarrow> nat" where
  "firstRole dock desktop [] = 0"
| "firstRole dock desktop (a # as) =
     (if a = dock then LORIE_SHELL_DOCK else if a = desktop then LORIE_SHELL_DESKTOP else firstRole dock desktop as)"

definition role :: "wmEnv \<Rightarrow> wmState \<Rightarrow> wptr \<Rightarrow> nat" where
  "role env st w =
     (case property st w ''_NET_WM_WINDOW_TYPE'' of None \<Rightarrow> 0
      | Some v \<Rightarrow>
          if w_class (wm_store st w) \<noteq> InputOutput \<or> w_overrideRedirect (wm_store st w) \<or> pr_format v \<noteq> 32 \<or> pr_type v \<noteq> ''ATOM''
          then 0
          else firstRole (we_atom env ''_NET_WM_WINDOW_TYPE_DOCK'') (we_atom env ''_NET_WM_WINDOW_TYPE_DESKTOP'') (pr_data v))"

text \<open>A cardinal property of exactly \<open>n\<close> words.\<close>

definition cardinals :: "wmState \<Rightarrow> wptr \<Rightarrow> string \<Rightarrow> nat \<Rightarrow> u32 list option" where
  "cardinals st w name n =
     (case property st w name of None \<Rightarrow> None
      | Some v \<Rightarrow> if pr_type v = ''CARDINAL'' \<and> pr_format v = 32 \<and> length (pr_data v) = n then Some (pr_data v) else None)"

definition strutOf :: "'r shellServer \<Rightarrow> wptr \<Rightarrow> u32 list" where
  "strutOf sv w =
     (case cardinals (sv_wm sv) w ''_NET_WM_STRUT_PARTIAL'' 12 of Some ds \<Rightarrow> ds
      | None \<Rightarrow>
          (case cardinals (sv_wm sv) w ''_NET_WM_STRUT'' 4 of
             Some ds \<Rightarrow> (ds @ replicate 8 0)[5 := of_int (sv_screenHeight sv - 1), 7 := of_int (sv_screenHeight sv - 1),
                 9 := of_int (sv_screenWidth sv - 1), 11 := of_int (sv_screenWidth sv - 1)]
           | None \<Rightarrow> replicate 12 0))"

definition shellInfo :: "'r shellServer \<Rightarrow> wptr \<Rightarrow> LorieShellInfo option" where
  "shellInfo sv w =
     (let s = wm_store (sv_wm sv) w;
          info = \<lparr>si_role = role (sv_env sv) (sv_wm sv) w, si_mapped = w_realized s, si_inputComplete = True,
                  si_x = w_x s, si_y = w_y s, si_width = w_width s, si_height = w_height s,
                  si_paint = \<lparr>sr_left = 0, sr_top = 0, sr_right = w_width s, sr_bottom = w_height s\<rparr>,
                  si_strut = strutOf sv w, si_input = []\<rparr>
      in if w_realized s
         then map_option (\<lambda>g. info\<lparr>si_paint := fg_paint g, si_inputComplete := fg_inputComplete g, si_input := fg_input g\<rparr>)
                (lorieWindowFamilyGeometry (sv_regions sv) (sv_env sv) (sv_wm sv) w False)
         else Some info)"

section \<open>Operations\<close>

definition lorieShellReset :: "shellState \<Rightarrow> shellState" where
  "lorieShellReset st = st\<lparr>sl_records := [], sl_owner := 0, sl_dirty := False\<rparr>"

definition lorieShellGeometryChanged :: "shellState \<Rightarrow> shellState" where
  "lorieShellGeometryChanged st = (if sl_owner st \<noteq> 0 then st\<lparr>sl_dirty := True\<rparr> else st)"

abbreviation external :: "'r shellServer \<Rightarrow> bool" where
  "external sv \<equiv> lorieWindowManagerExternal (sv_manager sv) (sv_wm sv)"

definition lorieShellWindow :: "'r shellServer \<Rightarrow> XID \<Rightarrow> shellState \<Rightarrow> bool" where
  "lorieShellWindow sv window st \<longleftrightarrow>
     sl_owner st \<noteq> 0 \<and> \<not> external sv \<and> list_ex (\<lambda>r. sh_window r = window) (sl_records st)"

definition lorieShellConfigure :: "'r shellServer \<Rightarrow> u32 \<Rightarrow> int \<Rightarrow> int \<Rightarrow> shellState \<Rightarrow> shellState" where
  "lorieShellConfigure sv i width height st =
     (if i = 0 then st
      else if sl_owner st \<noteq> 0 \<and> sl_owner st \<noteq> i then shellEmit (ShellStateEvent i False) st
      else if width = 0 \<and> height = 0 then shellEmit (ShellStateEvent i False) (lorieShellReset st)
      else if width < 1 \<or> height < 1 \<or> width > 16384 \<or> height > 16384 \<or> external sv
      then shellEmit (ShellStateEvent i False) (if sl_owner st = i then lorieShellReset st else st)
      else shellEmit (ShellStateEvent i True) (shellEmit (ShellConfigureNotify width height) (st\<lparr>sl_owner := i, sl_dirty := True\<rparr>)))"

text \<open>A new record goes to the front of the list; an unchanged one is not announced again.\<close>

definition shellPublish :: "'r shellServer \<Rightarrow> wptr \<Rightarrow> shellState \<Rightarrow> shellState option" where
  "shellPublish sv w st =
     (let i = w_id (wm_store (sv_wm sv) w); known = findIndex (\<lambda>r. sh_window r = i) (sl_records st)
      in if role (sv_env sv) (sv_wm sv) w = 0 then Some st
         else if known = None \<and> (\<not> w_realized (wm_store (sv_wm sv) w) \<or> length (sl_records st) \<ge> 32) then Some st
         else if known = None \<and> \<not> we_callocOk (sv_env sv) then Some st
         else map_option (\<lambda>info.
           case known of
             None \<Rightarrow> shellEmit (ShellInfoEvent (sl_owner st) i info)
                       (st\<lparr>sl_records := \<lparr>sh_window = i, sh_seen = True, sh_info = info\<rparr> # sl_records st\<rparr>)
           | Some k \<Rightarrow>
               let r = sl_records st ! k; st1 = st\<lparr>sl_records := (sl_records st)[k := r\<lparr>sh_seen := True, sh_info := info\<rparr>]\<rparr>
               in if sh_info r \<noteq> info then shellEmit (ShellInfoEvent (sl_owner st) i info) st1 else st1)
         (shellInfo sv w))"

fun shellPublishAll :: "'r shellServer \<Rightarrow> wptr list \<Rightarrow> shellState \<Rightarrow> shellState option" where
  "shellPublishAll sv [] st = Some st"
| "shellPublishAll sv (w # ws) st = Option.bind (shellPublish sv w st) (shellPublishAll sv ws)"

definition lorieShellRefresh :: "'r shellServer \<Rightarrow> shellState \<Rightarrow> shellState option" where
  "lorieShellRefresh sv st =
     (if sl_owner st = 0 \<or> \<not> sl_dirty st then Some st
      else if external sv then Some (shellEmit (ShellStateEvent (sl_owner st) False) (lorieShellReset st))
      else let st1 = st\<lparr>sl_dirty := False, sl_records := map (\<lambda>r. r\<lparr>sh_seen := False\<rparr>) (sl_records st)\<rparr>;
               s = wm_store (sv_wm sv)
      in Option.bind (walkSiblings s (w_lastChild (s (wm_root (sv_wm sv))))) (\<lambda>ws.
         map_option (\<lambda>st2.
           st2\<lparr>sl_records := filter sh_seen (sl_records st2),
               sl_log := sl_log st2 @ map (\<lambda>r. ShellRemovedEvent (sl_owner st2) (sh_window r)) (filter (\<lambda>r. \<not> sh_seen r) (sl_records st2))
                 @ [ShellDoneEvent]\<rparr>)
         (shellPublishAll sv ws st1)))"

section \<open>What the owner of the shell knows\<close>

text \<open>The owner and the shell windows it has been told of, after one more message.\<close>

fun hostShell :: "shellEffect \<Rightarrow> u32 \<times> (XID \<rightharpoonup> LorieShellInfo) \<Rightarrow> u32 \<times> (XID \<rightharpoonup> LorieShellInfo)" where
  "hostShell (ShellStateEvent i available) (own, m) =
     (if available then (i, m) else if i = own then (0, Map.empty) else (own, m))"
| "hostShell (ShellInfoEvent i w info) (own, m) = (own, if i = own then m(w \<mapsto> info) else m)"
| "hostShell (ShellRemovedEvent i w) (own, m) = (own, if i = own then m(w := None) else m)"
| "hostShell (ShellConfigureNotify _ _) v = v"
| "hostShell ShellDoneEvent v = v"

definition recMap :: "ShellRecord list \<Rightarrow> XID \<rightharpoonup> bool \<times> LorieShellInfo" where
  "recMap rs = map_of (map (\<lambda>r. (sh_window r, (sh_seen r, sh_info r))) rs)"

text \<open>What the owner should know.\<close>

definition shellView :: "shellState \<Rightarrow> u32 \<times> (XID \<rightharpoonup> LorieShellInfo)" where
  "shellView st = (sl_owner st, map_option snd \<circ> recMap (sl_records st))"

definition shellShown :: "u32 \<times> (XID \<rightharpoonup> LorieShellInfo) \<Rightarrow> shellState \<Rightarrow> bool" where
  "shellShown v st \<longleftrightarrow> v = shellView st
     \<and> distinct (map sh_window (sl_records st)) \<and> length (sl_records st) \<le> 32
     \<and> (sl_owner st = 0 \<longrightarrow> sl_records st = [])"

lemma recMap_Nil [simp]: "recMap [] = Map.empty"
  by (simp add: recMap_def)

lemma recMap_Cons [simp]: "recMap (r # rs) = (recMap rs)(sh_window r \<mapsto> (sh_seen r, sh_info r))"
  by (simp add: recMap_def)

lemma recMap_None: "recMap rs i = None \<longleftrightarrow> i \<notin> sh_window ` set rs"
  by (induction rs) auto

lemma dom_recMap: "dom (recMap rs) = sh_window ` set rs"
  by (auto simp: dom_def recMap_None)

lemma recMap_nth: "distinct (map sh_window rs) \<Longrightarrow> k < length rs \<Longrightarrow> recMap rs (sh_window (rs ! k)) = Some (sh_seen (rs ! k), sh_info (rs ! k))"
  unfolding recMap_def by (rule map_of_is_SomeI) (auto simp: comp_def)

lemma recMap_update:
  "distinct (map sh_window rs) \<Longrightarrow> k < length rs \<Longrightarrow> sh_window r = sh_window (rs ! k) \<Longrightarrow>
   recMap (rs[k := r]) = (recMap rs)(sh_window r \<mapsto> (sh_seen r, sh_info r))"
proof (induction rs arbitrary: k)
  case (Cons a rs)
  show ?case
  proof (cases k)
    case (Suc l)
    with Cons have "sh_window a \<noteq> sh_window r" by auto
    with Cons Suc show ?thesis by (auto simp: fun_eq_iff)
  qed (use Cons in \<open>auto simp: fun_eq_iff\<close>)
qed simp

lemma recMap_filter:
  "distinct (map sh_window rs) \<Longrightarrow> recMap (filter sh_seen rs) = (\<lambda>i. case recMap rs i of Some (True, x) \<Rightarrow> Some (True, x) | _ \<Rightarrow> None)"
proof (induction rs)
  case (Cons r rs)
  then have "recMap rs (sh_window r) = None" by (simp add: recMap_None)
  with Cons show ?case by (auto simp: fun_eq_iff)
qed simp

lemma hostShell_removed:
  "distinct (map sh_window rs) \<Longrightarrow>
   fold hostShell (map (\<lambda>r. ShellRemovedEvent own (sh_window r)) (filter (\<lambda>r. \<not> sh_seen r) rs)) (own, m)
     = (own, \<lambda>i. case recMap rs i of Some (False, x) \<Rightarrow> None | _ \<Rightarrow> m i)"
proof (induction rs arbitrary: m)
  case (Cons r rs)
  then have "recMap rs (sh_window r) = None" by (simp add: recMap_None)
  with Cons show ?case by (auto simp: fun_eq_iff split: option.splits bool.splits)
qed (simp add: fun_eq_iff)

text \<open>The effect of one window on the records, and on what the owner knows.\<close>

definition admitted :: "'r shellServer \<Rightarrow> wptr \<Rightarrow> shellState \<Rightarrow> bool" where
  "admitted sv w st \<longleftrightarrow> role (sv_env sv) (sv_wm sv) w \<noteq> 0
     \<and> (recMap (sl_records st) (w_id (wm_store (sv_wm sv) w)) = None \<longrightarrow>
          w_realized (wm_store (sv_wm sv) w) \<and> length (sl_records st) < 32 \<and> we_callocOk (sv_env sv))"

lemma shellPublish_unfold:
  assumes "distinct (map sh_window (sl_records st))"
  shows "shellPublish sv w st = (if \<not> admitted sv w st then Some st
    else map_option (\<lambda>info.
      let i = w_id (wm_store (sv_wm sv) w)
      in case findIndex (\<lambda>r. sh_window r = i) (sl_records st) of
           None \<Rightarrow> shellEmit (ShellInfoEvent (sl_owner st) i info)
                     (st\<lparr>sl_records := \<lparr>sh_window = i, sh_seen = True, sh_info = info\<rparr> # sl_records st\<rparr>)
         | Some k \<Rightarrow>
             let r = sl_records st ! k; st1 = st\<lparr>sl_records := (sl_records st)[k := r\<lparr>sh_seen := True, sh_info := info\<rparr>]\<rparr>
             in if sh_info r \<noteq> info then shellEmit (ShellInfoEvent (sl_owner st) i info) st1 else st1) (shellInfo sv w))"
proof -
  have "findIndex (\<lambda>r. sh_window r = i) (sl_records st) = None \<longleftrightarrow> recMap (sl_records st) i = None" for i
    by (auto simp: findIndex_None recMap_None)
  then show ?thesis by (auto simp: shellPublish_def admitted_def Let_def)
qed

lemma shellPublish_effect:
  assumes "distinct (map sh_window (sl_records st))" "length (sl_records st) \<le> 32" "shellPublish sv w st = Some st1"
  shows "distinct (map sh_window (sl_records st1)) \<and> length (sl_records st1) \<le> 32 \<and> sl_owner st1 = sl_owner st
    \<and> recMap (sl_records st1) = (if admitted sv w st
        then (recMap (sl_records st))(w_id (wm_store (sv_wm sv) w) \<mapsto> (True, the (shellInfo sv w))) else recMap (sl_records st))
    \<and> (\<exists>es. sl_log st1 = sl_log st @ es
        \<and> fold hostShell es (shellView st) = shellView st1)"
proof (cases "admitted sv w st")
  case False
  with assms show ?thesis using exI [of "\<lambda>es. sl_log st = sl_log st @ es \<and> fold hostShell es v = v" "[]" for v]
    by (simp add: shellPublish_unfold)
next
  case True
  let ?i = "w_id (wm_store (sv_wm sv) w)"
  from True assms obtain info where info: "shellInfo sv w = Some info" by (auto simp: shellPublish_unfold)
  show ?thesis
  proof (cases "findIndex (\<lambda>r. sh_window r = ?i) (sl_records st)")
    case None
    then have "?i \<notin> sh_window ` set (sl_records st)" by (auto simp: findIndex_None)
    with True have "length (sl_records st) < 32" by (simp add: admitted_def recMap_None)
    with None True assms info \<open>?i \<notin> _\<close> show ?thesis
      by (auto simp: shellPublish_unfold shellEmit_def shellView_def fun_eq_iff Let_def)
  next
    case (Some k)
    note k = findIndex_Some [OF Some]
    let ?r = "(sl_records st ! k)\<lparr>sh_seen := True, sh_info := info\<rparr>"
    have upd: "recMap ((sl_records st)[k := ?r]) = (recMap (sl_records st))(?i \<mapsto> (True, info))"
      using recMap_update [OF assms(1), of k ?r] k by simp
    have old: "recMap (sl_records st) ?i = Some (sh_seen (sl_records st ! k), sh_info (sl_records st ! k))"
      using recMap_nth [OF assms(1), of k] k by simp
    have same: "map sh_window ((sl_records st)[k := ?r]) = map sh_window (sl_records st)" by (rule map_update_same) simp
    show ?thesis using Some True assms info same old
      by (auto simp: shellPublish_unfold shellEmit_def shellView_def upd fun_eq_iff Let_def)
  qed
qed

lemma shellPublishAll_effect:
  assumes "shellPublishAll sv ws st = Some st1" "distinct (map sh_window (sl_records st))" "length (sl_records st) \<le> 32"
  shows "distinct (map sh_window (sl_records st1)) \<and> length (sl_records st1) \<le> 32 \<and> sl_owner st1 = sl_owner st
    \<and> (\<exists>es. sl_log st1 = sl_log st @ es
        \<and> fold hostShell es (shellView st) = shellView st1)"
  using assms
proof (induction ws arbitrary: st)
  case (Cons w ws)
  then obtain st2 where st2: "shellPublish sv w st = Some st2" "shellPublishAll sv ws st2 = Some st1"
    by (auto simp: bind_eq_Some_conv)
  note a = shellPublish_effect [OF Cons.prems(2,3) st2(1)]
  then obtain es where es: "sl_log st2 = sl_log st @ es" "fold hostShell es (shellView st) = shellView st2" by blast
  from a Cons.IH [OF st2(2)] obtain es2 where es2: "sl_log st1 = sl_log st2 @ es2" "fold hostShell es2 (shellView st2) = shellView st1"
    by blast
  have "fold hostShell (es @ es2) (shellView st) = shellView st1" using es(2) es2(2) by simp
  with a Cons.IH [OF st2(2)] es(1) es2(1) show ?case by (metis append.assoc)
qed (auto intro: exI [of _ "[]"])

datatype shellOp = OpConfigure u32 int int | OpGeometryChanged | OpRefresh

fun runShell :: "'r shellServer \<Rightarrow> shellOp \<Rightarrow> shellState \<Rightarrow> shellState option" where
  "runShell sv (OpConfigure i width height) st = Some (lorieShellConfigure sv i width height st)"
| "runShell sv OpGeometryChanged st = Some (lorieShellGeometryChanged st)"
| "runShell sv OpRefresh st = lorieShellRefresh sv st"

lemma shellShown_configure:
  assumes "shellShown v st"
  shows "\<exists>es. sl_log (lorieShellConfigure sv i width height st) = sl_log st @ es
    \<and> shellShown (fold hostShell es v) (lorieShellConfigure sv i width height st)"
  using assms
  by (auto simp: lorieShellConfigure_def shellShown_def shellView_def lorieShellReset_def shellEmit_def)

text \<open>The end of a refresh: windows that were not seen are taken back.\<close>

lemma shellShown_finish:
  assumes "distinct (map sh_window (sl_records st))" "length (sl_records st) \<le> 32" "sl_owner st \<noteq> 0"
  shows "shellShown (fold hostShell (map (\<lambda>r. ShellRemovedEvent (sl_owner st) (sh_window r)) (filter (\<lambda>r. \<not> sh_seen r) (sl_records st))
      @ [ShellDoneEvent]) (shellView st)) (st\<lparr>sl_records := filter sh_seen (sl_records st), sl_log := l\<rparr>)"
proof -
  have len: "length (filter sh_seen (sl_records st)) \<le> 32" using assms(2) length_filter_le le_trans by blast
  have "(case recMap (sl_records st) i of Some (False, x) \<Rightarrow> None | _ \<Rightarrow> map_option snd (recMap (sl_records st) i))
    = map_option snd (case recMap (sl_records st) i of Some (True, x) \<Rightarrow> Some (True, x) | _ \<Rightarrow> None)" for i
    by (auto split: option.splits bool.splits prod.splits)
  then show ?thesis using assms len
    by (simp add: shellShown_def shellView_def hostShell_removed recMap_filter distinct_map_filter comp_def)
qed

lemma lorieShellRefresh_Some:
  assumes "lorieShellRefresh sv st = Some st1" "sl_owner st \<noteq> 0" "sl_dirty st" "\<not> external sv"
  obtains ws st2 where
    "walkSiblings (wm_store (sv_wm sv)) (w_lastChild (wm_store (sv_wm sv) (wm_root (sv_wm sv)))) = Some ws"
    "shellPublishAll sv ws (st\<lparr>sl_dirty := False, sl_records := map (\<lambda>r. r\<lparr>sh_seen := False\<rparr>) (sl_records st)\<rparr>) = Some st2"
    "st1 = st2\<lparr>sl_records := filter sh_seen (sl_records st2), sl_log := sl_log st2 @
       map (\<lambda>r. ShellRemovedEvent (sl_owner st2) (sh_window r)) (filter (\<lambda>r. \<not> sh_seen r) (sl_records st2)) @ [ShellDoneEvent]\<rparr>"
  using assms by (auto simp: lorieShellRefresh_def Let_def bind_eq_Some_conv)

lemma recMap_unseen: "recMap (map (\<lambda>r. r\<lparr>sh_seen := False\<rparr>) rs) = map_option (\<lambda>(_, x). (False, x)) \<circ> recMap rs"
  by (induction rs) (auto simp: fun_eq_iff)

lemma shellView_unseen:
  "shellView (st\<lparr>sl_dirty := d, sl_records := map (\<lambda>r. r\<lparr>sh_seen := False\<rparr>) (sl_records st)\<rparr>) = shellView st"
  by (auto simp: shellView_def recMap_unseen fun_eq_iff option.map_comp comp_def case_prod_beta)

lemma shellShown_refresh:
  assumes "shellShown v st" "lorieShellRefresh sv st = Some st1"
  shows "\<exists>es. sl_log st1 = sl_log st @ es \<and> shellShown (fold hostShell es v) st1"
proof (cases "sl_owner st = 0 \<or> \<not> sl_dirty st \<or> external sv")
  case True
  with assms show ?thesis
    by (auto simp: lorieShellRefresh_def shellEmit_def lorieShellReset_def shellShown_def shellView_def fun_eq_iff split: if_splits)
next
  case False
  let ?s = "st\<lparr>sl_dirty := False, sl_records := map (\<lambda>r. r\<lparr>sh_seen := False\<rparr>) (sl_records st)\<rparr>"
  from False obtain ws st2 where r: "shellPublishAll sv ws ?s = Some st2"
    "st1 = st2\<lparr>sl_records := filter sh_seen (sl_records st2), sl_log := sl_log st2 @
       map (\<lambda>r. ShellRemovedEvent (sl_owner st2) (sh_window r)) (filter (\<lambda>r. \<not> sh_seen r) (sl_records st2)) @ [ShellDoneEvent]\<rparr>"
    using lorieShellRefresh_Some [OF assms(2)] by blast
  have "distinct (map sh_window (sl_records ?s))" "length (sl_records ?s) \<le> 32"
    using assms(1) by (simp_all add: shellShown_def comp_def)
  note p = shellPublishAll_effect [OF r(1) this]
  then obtain es where es: "sl_log st2 = sl_log st @ es" "fold hostShell es (shellView ?s) = shellView st2" by auto
  have own: "sl_owner st2 \<noteq> 0" using p False by simp
  have "v = shellView ?s" using assms(1) by (simp add: shellShown_def shellView_unseen)
  with es shellShown_finish [OF _ _ own] p show ?thesis unfolding r(2)
    by (intro exI [of _ "es @ map (\<lambda>r. ShellRemovedEvent (sl_owner st2) (sh_window r)) (filter (\<lambda>r. \<not> sh_seen r) (sl_records st2))
      @ [ShellDoneEvent]"]) simp
qed

text \<open>
  C38: the output that owns the shell always knows exactly the recorded shell windows, each as it is
  recorded: whatever is configured, changed or refreshed, the messages sent bring the receiver to
  the new records, no window is recorded twice, there are at most 32 of them and none when nobody
  owns the shell.
\<close>

theorem shell_picture_exact:
  assumes "shellShown v st" "runShell sv op st = Some st1"
  shows "\<exists>es. sl_log st1 = sl_log st @ es \<and> shellShown (fold hostShell es v) st1"
proof (cases op)
  case (OpConfigure i width height)
  with assms show ?thesis using shellShown_configure [OF assms(1)] by auto
next
  case OpGeometryChanged
  with assms show ?thesis
    by (auto simp: lorieShellGeometryChanged_def shellShown_def shellView_def intro!: exI [of _ "[]"])
next
  case OpRefresh
  with assms show ?thesis using shellShown_refresh by simp
qed

text \<open>The windows a pass shows: shell windows that are mapped or already known.\<close>

definition shellWindows :: "'r shellServer \<Rightarrow> XID set \<Rightarrow> wptr list \<Rightarrow> wptr set" where
  "shellWindows sv known ws =
     {w \<in> set ws. role (sv_env sv) (sv_wm sv) w \<noteq> 0 \<and> (w_realized (wm_store (sv_wm sv) w) \<or> w_id (wm_store (sv_wm sv) w) \<in> known)}"

lemma admitted_iff:
  assumes "distinct (map sh_window (sl_records st))" "we_callocOk (sv_env sv)"
    and "card (dom (recMap (sl_records st)) \<union> (\<lambda>w. w_id (wm_store (sv_wm sv) w)) ` shellWindows sv (dom (recMap (sl_records st))) (w # ws)) \<le> 32"
  shows "admitted sv w st \<longleftrightarrow> w \<in> shellWindows sv (dom (recMap (sl_records st))) (w # ws)"
proof -
  let ?K = "dom (recMap (sl_records st))" and ?id = "\<lambda>w. w_id (wm_store (sv_wm sv) w)"
  have "length (sl_records st) = card ?K" using assms(1) distinct_card [OF assms(1)] by (simp add: dom_recMap)
  moreover have "card ?K < 32" if "?id w \<notin> ?K" "w \<in> shellWindows sv ?K (w # ws)"
  proof -
    have fin: "finite (?K \<union> ?id ` shellWindows sv ?K (w # ws))" by (simp add: dom_recMap shellWindows_def)
    have "?K \<subset> ?K \<union> ?id ` shellWindows sv ?K (w # ws)" using that by blast
    from psubset_card_mono [OF fin this] show ?thesis using assms(3) by simp
  qed
  ultimately show ?thesis using assms(2) by (auto simp: admitted_def shellWindows_def domIff)
qed

lemma shellPublishAll_pass:
  assumes "distinct (map sh_window (sl_records st))" "length (sl_records st) \<le> 32" "we_callocOk (sv_env sv)"
    and "distinct (map (\<lambda>w. w_id (wm_store (sv_wm sv) w)) ws)" "\<forall>w \<in> set ws. shellInfo sv w \<noteq> None"
    and "card (dom (recMap (sl_records st)) \<union> (\<lambda>w. w_id (wm_store (sv_wm sv) w)) ` shellWindows sv (dom (recMap (sl_records st))) ws) \<le> 32"
  shows "\<exists>st1. shellPublishAll sv ws st = Some st1
    \<and> (\<forall>w \<in> shellWindows sv (dom (recMap (sl_records st))) ws.
         recMap (sl_records st1) (w_id (wm_store (sv_wm sv) w)) = Some (True, the (shellInfo sv w)))
    \<and> (\<forall>i. i \<notin> (\<lambda>w. w_id (wm_store (sv_wm sv) w)) ` shellWindows sv (dom (recMap (sl_records st))) ws
         \<longrightarrow> recMap (sl_records st1) i = recMap (sl_records st) i)"
  using assms
proof (induction ws arbitrary: st)
  case Nil
  then show ?case by (simp add: shellWindows_def)
next
  case (Cons w ws)
  let ?id = "\<lambda>w. w_id (wm_store (sv_wm sv) w)"
  let ?K = "dom (recMap (sl_records st))"
  have "shellPublish sv w st \<noteq> None" using Cons.prems(1,5) by (simp add: shellPublish_unfold)
  then obtain st2 where st2: "shellPublish sv w st = Some st2" by blast
  note e = shellPublish_effect [OF Cons.prems(1,2) st2]
  note ad = admitted_iff [OF Cons.prems(1,3,6)]
  have rec: "recMap (sl_records st2) = (if w \<in> shellWindows sv ?K (w # ws)
      then (recMap (sl_records st))(?id w \<mapsto> (True, the (shellInfo sv w))) else recMap (sl_records st))"
    using e unfolding ad by blast
  have dom: "dom (recMap (sl_records st2)) = ?K \<union> (if w \<in> shellWindows sv ?K (w # ws) then {?id w} else {})"
    unfolding rec by auto
  have other: "?id v \<noteq> ?id w" if "v \<in> set ws" for v
    using Cons.prems(4) imageI [OF that, of ?id] by auto
  have rest: "shellWindows sv (dom (recMap (sl_records st2))) ws = shellWindows sv ?K ws"
    using other unfolding dom shellWindows_def by auto
  have cons: "shellWindows sv ?K (w # ws) = (if w \<in> shellWindows sv ?K (w # ws) then {w} else {}) \<union> shellWindows sv ?K ws"
    by (auto simp: shellWindows_def)
  have "dom (recMap (sl_records st2)) \<union> ?id ` shellWindows sv ?K ws = ?K \<union> ?id ` shellWindows sv ?K (w # ws)"
    unfolding dom using arg_cong [OF cons, of "image ?id"] by auto
  with Cons.prems(6) have "card (dom (recMap (sl_records st2)) \<union> ?id ` shellWindows sv (dom (recMap (sl_records st2))) ws) \<le> 32"
    unfolding rest by simp
  with Cons.IH [of st2] e Cons.prems(3-5) obtain st1 where st1: "shellPublishAll sv ws st2 = Some st1"
    "\<forall>v \<in> shellWindows sv ?K ws. recMap (sl_records st1) (?id v) = Some (True, the (shellInfo sv v))"
    "\<forall>i. i \<notin> ?id ` shellWindows sv ?K ws \<longrightarrow> recMap (sl_records st1) i = recMap (sl_records st2) i"
    unfolding rest by auto
  have new: "?id w \<notin> ?id ` shellWindows sv ?K ws" using other [symmetric] by (fastforce simp: shellWindows_def)
  have "shellPublishAll sv (w # ws) st = Some st1" using st2 st1(1) by simp
  moreover have "recMap (sl_records st1) (?id v) = Some (True, the (shellInfo sv v))" if "v \<in> shellWindows sv ?K (w # ws)" for v
  proof (cases "v \<in> shellWindows sv ?K ws")
    case False
    with that have "v = w" by (auto simp: shellWindows_def)
    with that st1(3) new show ?thesis by (simp add: rec)
  qed (use st1(2) in blast)
  moreover have "recMap (sl_records st1) i = recMap (sl_records st) i" if i: "i \<notin> ?id ` shellWindows sv ?K (w # ws)" for i
  proof -
    have "i \<notin> ?id ` shellWindows sv ?K ws" using i by (auto simp: shellWindows_def)
    moreover have "i \<noteq> ?id w" if "w \<in> shellWindows sv ?K (w # ws)" using that i by blast
    ultimately show ?thesis using st1(3) by (auto simp: rec)
  qed
  ultimately show ?case by blast
qed

lemma shellPublish_dirty: "shellPublish sv w st = Some st1 \<Longrightarrow> sl_dirty st1 = sl_dirty st"
  by (auto simp: shellPublish_def shellEmit_def Let_def split: if_splits option.splits)

lemma shellPublishAll_dirty: "shellPublishAll sv ws st = Some st1 \<Longrightarrow> sl_dirty st1 = sl_dirty st"
  by (induction ws arbitrary: st) (auto simp: bind_eq_Some_conv dest: shellPublish_dirty)

lemma shellInfo_total: "laid (wm_store (sv_wm sv)) (WNode (wm_root (sv_wm sv)) cs) \<Longrightarrow> shellInfo sv w \<noteq> None"
  using visitSiblings_tree(1) [of "wm_store (sv_wm sv)" "WNode (wm_root (sv_wm sv)) cs"]
  by (auto simp: shellInfo_def lorieWindowFamilyGeometry_def lorieWindowFamily_def Let_def)

text \<open>
  C39: a refresh of the shell ends and tells the owner of exactly the shell windows of the tree that
  are mapped or were known before, each with its present role, geometry, struts and input, provided
  that there are at most 32 of them together with those known before.
\<close>

theorem shell_refresh_complete:
  assumes "shellShown v st" "sl_owner st \<noteq> 0" "sl_dirty st" "\<not> external sv"
    and "laid (wm_store (sv_wm sv)) (WNode (wm_root (sv_wm sv)) cs)" "we_callocOk (sv_env sv)"
    and "distinct (map (\<lambda>w. w_id (wm_store (sv_wm sv) w)) (pres cs))" "known = sh_window ` set (sl_records st)"
    and "card (known \<union> (\<lambda>w. w_id (wm_store (sv_wm sv) w)) ` shellWindows sv known (pres cs)) \<le> 32"
  shows "\<exists>st1 es m. lorieShellRefresh sv st = Some st1 \<and> \<not> sl_dirty st1 \<and> sl_log st1 = sl_log st @ es \<and> fold hostShell es v = (sl_owner st, m)
    \<and> dom m = (\<lambda>w. w_id (wm_store (sv_wm sv) w)) ` shellWindows sv known (pres cs)
    \<and> (\<forall>w \<in> shellWindows sv known (pres cs). m (w_id (wm_store (sv_wm sv) w)) = shellInfo sv w)"
proof -
  let ?id = "\<lambda>w. w_id (wm_store (sv_wm sv) w)"
  let ?s = "st\<lparr>sl_dirty := False, sl_records := map (\<lambda>r. r\<lparr>sh_seen := False\<rparr>) (sl_records st)\<rparr>"
  have walk: "walkSiblings (wm_store (sv_wm sv)) (w_lastChild (wm_store (sv_wm sv) (wm_root (sv_wm sv)))) = Some (pres cs)"
    using walkSiblings_tree(1) [OF assms(5)] by simp
  have s: "distinct (map sh_window (sl_records ?s))" "length (sl_records ?s) \<le> 32" "dom (recMap (sl_records ?s)) = known"
    using assms(1,8) by (simp_all add: shellShown_def comp_def dom_recMap image_image)
  have info: "\<forall>w \<in> set (pres cs). shellInfo sv w \<noteq> None" using shellInfo_total [OF assms(5)] by blast
  from shellPublishAll_pass [OF s(1,2) assms(6,7) info] assms(9) obtain st2 where st2: "shellPublishAll sv (pres cs) ?s = Some st2"
    and on: "\<And>w. w \<in> shellWindows sv known (pres cs) \<Longrightarrow> recMap (sl_records st2) (?id w) = Some (True, the (shellInfo sv w))"
    and off: "\<And>i. i \<notin> ?id ` shellWindows sv known (pres cs) \<Longrightarrow> recMap (sl_records st2) i = recMap (sl_records ?s) i"
    unfolding s(3) by blast
  have dist: "distinct (map sh_window (sl_records st2))" and own: "sl_owner st2 = sl_owner st"
    using shellPublishAll_effect [OF st2 s(1,2)] by simp_all
  define st1 where "st1 = st2\<lparr>sl_records := filter sh_seen (sl_records st2), sl_log := sl_log st2 @
       map (\<lambda>r. ShellRemovedEvent (sl_owner st2) (sh_window r)) (filter (\<lambda>r. \<not> sh_seen r) (sl_records st2)) @ [ShellDoneEvent]\<rparr>"
  have r: "lorieShellRefresh sv st = Some st1"
    using assms(2-4) walk st2 by (simp add: lorieShellRefresh_def st1_def Let_def)
  then obtain es where es: "sl_log st1 = sl_log st @ es" "shellShown (fold hostShell es v) st1"
    using shellShown_refresh [OF assms(1)] by blast
  let ?m = "map_option snd \<circ> recMap (filter sh_seen (sl_records st2))"
  have view: "fold hostShell es v = (sl_owner st, ?m)" using es(2) own by (simp add: shellShown_def shellView_def st1_def)
  have m: "?m i = (if i \<in> ?id ` shellWindows sv known (pres cs) then map_option snd (recMap (sl_records st2) i) else None)" for i
    using on off [of i] by (auto simp: recMap_filter [OF dist] recMap_unseen split: option.splits bool.splits)
  have "?m (?id w) = shellInfo sv w" if "w \<in> shellWindows sv known (pres cs)" for w
    using on [OF that] that info unfolding m by (auto simp: shellWindows_def)
  moreover have "dom ?m = ?id ` shellWindows sv known (pres cs)"
    using on unfolding dom_def m by auto
  moreover have "\<not> sl_dirty st1" unfolding st1_def using st2 shellPublishAll_dirty [OF st2] by simp
  ultimately show ?thesis using r es(1) view by blast
qed

theorem shell_picture_exact_witness:
  "\<exists>es. sl_log (lorieShellConfigure \<lparr>sv_env = demoEnv, sv_wm = demoWm, sv_manager = ManagerAbsent, sv_regions = boxServer (\<lambda>_. []),
      sv_screenWidth = 800, sv_screenHeight = 600\<rparr> 3 800 600 \<lparr>sl_records = [], sl_owner = 0, sl_dirty = False, sl_log = []\<rparr>) = es
    \<and> fst (fold hostShell es (0, Map.empty)) = 3"
proof -
  let ?sv = "\<lparr>sv_env = demoEnv, sv_wm = demoWm, sv_manager = ManagerAbsent, sv_regions = boxServer (\<lambda>_. []),
      sv_screenWidth = 800, sv_screenHeight = 600\<rparr>"
  let ?st = "\<lparr>sl_records = [], sl_owner = 0, sl_dirty = False, sl_log = []\<rparr>"
  have "shellShown (0, Map.empty) ?st" by (simp add: shellShown_def shellView_def fun_eq_iff)
  from shell_picture_exact [OF this, of ?sv "OpConfigure 3 800 600"]
  show ?thesis by (auto simp: shellShown_def shellView_def lorieShellConfigure_def lorieWindowManagerExternal_def shellEmit_def)
qed

text \<open>The window of the demonstration as a dock.\<close>

definition dockWm :: wmState where
  "dockWm = demoWm\<lparr>wm_props := (\<lambda>w. if w = 1 then [''_NET_WM_WINDOW_TYPE'' \<mapsto> \<lparr>pr_type = ''ATOM'', pr_format = 32, pr_data = [24]\<rparr>] else Map.empty)\<rparr>"

theorem shell_refresh_complete_witness:
  "\<exists>st1 m. lorieShellRefresh \<lparr>sv_env = demoEnv, sv_wm = dockWm, sv_manager = ManagerAbsent, sv_regions = boxServer (\<lambda>_. []),
      sv_screenWidth = 800, sv_screenHeight = 600\<rparr> \<lparr>sl_records = [], sl_owner = 3, sl_dirty = True, sl_log = []\<rparr> = Some st1
    \<and> fold hostShell (sl_log st1) (3, Map.empty) = (3, m) \<and> dom m = {7}"
proof -
  let ?sv = "\<lparr>sv_env = demoEnv, sv_wm = dockWm, sv_manager = ManagerAbsent, sv_regions = boxServer (\<lambda>_. []),
      sv_screenWidth = 800, sv_screenHeight = 600\<rparr>"
  let ?st = "\<lparr>sl_records = [], sl_owner = 3, sl_dirty = True, sl_log = []\<rparr>"
  have s: "shellShown (3, Map.empty) ?st" by (simp add: shellShown_def shellView_def fun_eq_iff)
  have t: "laid (wm_store (sv_wm ?sv)) (WNode (wm_root (sv_wm ?sv)) [WNode 1 []])" "pres [WNode 1 []] = [1]"
    by (simp_all add: dockWm_def demoWm_def plainWindow_def)
  have w: "shellWindows ?sv {} [1] = {1}"
    by (auto simp: shellWindows_def role_def dockWm_def demoWm_def demoEnv_def plainWindow_def property_def)
  have i: "w_id (wm_store dockWm 1) = 7" by (simp add: dockWm_def demoWm_def)
  have h: "sl_owner ?st \<noteq> 0" "sl_dirty ?st" "\<not> external ?sv" "we_callocOk (sv_env ?sv)"
    "distinct (map (\<lambda>w. w_id (wm_store (sv_wm ?sv) w)) (pres [WNode 1 []]))" "{} = sh_window ` set (sl_records ?st)"
    "card ({} \<union> (\<lambda>w. w_id (wm_store (sv_wm ?sv) w)) ` shellWindows ?sv {} (pres [WNode 1 []])) \<le> 32"
    using t(2) w by (simp_all add: demoEnv_def lorieWindowManagerExternal_def)
  from shell_refresh_complete [OF s h(1-3) t(1) h(4-7)]
  obtain st1 es m where r: "lorieShellRefresh ?sv ?st = Some st1" "sl_log st1 = sl_log ?st @ es"
    "fold hostShell es (3, Map.empty) = (sl_owner ?st, m)"
    "dom m = (\<lambda>w. w_id (wm_store (sv_wm ?sv) w)) ` shellWindows ?sv {} (pres [WNode 1 []])" by metis
  have "dom m = {7}" using r(4) i unfolding t(2) w by simp
  then show ?thesis using r(1-3) by auto
qed

end
