(* ===== verification/Screen.thy ===== *)
theory Screen
  imports Complex_Main Lorie_Prelude Window_Family
begin

text \<open>
  The virtual screen: modes of any size (\<open>screen_mode.h\<close>), the RandR side of \<open>InitOutput.c\<close>
  (\<open>lorieCvt\<close>, \<open>lorieConfigureNotify\<close>, \<open>lorieRRScreenSetSize\<close>) and the VidMode view of the same
  mode (\<open>vidmode.c\<close>).  The timing generator \<open>libxcvt_gen_mode_info\<close> is the argument \<open>gen\<close>; what
  the RandR code of the server answers is the record \<open>rrServer\<close>.
\<close>

section \<open>Modes\<close>

record modeInfo =
  mi_hdisplay :: int
  mi_vdisplay :: int
  mi_dot_clock :: int
  mi_hsync_start :: int
  mi_hsync_end :: int
  mi_htotal :: int
  mi_vsync_start :: int
  mi_vsync_end :: int
  mi_vtotal :: int
  mi_mode_flags :: int

type_synonym modeGen = "int \<Rightarrow> int \<Rightarrow> int \<Rightarrow> modeInfo option"

definition lorieVirtualMode :: "modeGen \<Rightarrow> int \<Rightarrow> int \<Rightarrow> int \<Rightarrow> modeInfo option" where
  "lorieVirtualMode gen width height framerate =
     (if width < 1 \<or> height < 1 \<or> width > 32767 \<or> height > 32767 then None
      else map_option (\<lambda>mode. mode\<lparr>mi_hdisplay := width, mi_vdisplay := height\<rparr>)
             (gen ((width + 7) AND NOT 7) height framerate))"

text \<open>The fields of \<open>xRRModeInfo\<close>: sizes and sync positions are 16 bits wide.\<close>

record rrMode =
  rm_name :: string
  rm_width :: int
  rm_height :: int
  rm_dotClock :: int
  rm_hSyncStart :: int
  rm_hSyncEnd :: int
  rm_hTotal :: int
  rm_vSyncStart :: int
  rm_vSyncEnd :: int
  rm_vTotal :: int
  rm_modeFlags :: int

definition card16 :: "int \<Rightarrow> int" where
  "card16 i = i mod 2 ^ 16"

record rrServer =
  rs_gen :: modeGen
  rs_modeGet :: "rrMode \<Rightarrow> bool"
  rs_output :: bool
  rs_resolution :: int

definition lorieCvt :: "rrServer \<Rightarrow> int \<Rightarrow> int \<Rightarrow> int \<Rightarrow> rrMode option" where
  "lorieCvt sv width height framerate =
     (case lorieVirtualMode (rs_gen sv) width height framerate of None \<Rightarrow> None
      | Some info \<Rightarrow>
          let mode = \<lparr>rm_name = decimal (mi_hdisplay info) @ ''x'' @ decimal (mi_vdisplay info),
                rm_width = card16 (mi_hdisplay info), rm_height = card16 (mi_vdisplay info),
                rm_dotClock = mi_dot_clock info * 1000, rm_hSyncStart = card16 (mi_hsync_start info),
                rm_hSyncEnd = card16 (mi_hsync_end info), rm_hTotal = card16 (mi_htotal info),
                rm_vSyncStart = card16 (mi_vsync_start info), rm_vSyncEnd = card16 (mi_vsync_end info),
                rm_vTotal = card16 (mi_vtotal info), rm_modeFlags = mi_mode_flags info\<rparr>
          in if rs_modeGet sv mode then Some mode else None)"

section \<open>The screen\<close>

datatype screenEffect =
    VblanksDrained
  | ScreenPixmapCreated nat int int
  | DamageMoved nat
  | PixmapCopied nat nat int int
  | PixmapDestroyed nat
  | RootBufferRegistered nat
  | RootResized int int
  | SizeNotified

record screenState =
  sc_width :: int
  sc_height :: int
  sc_rootName :: string
  sc_outputName :: string
  sc_framerate :: int
  sc_vblankInterval :: int
  sc_crtcMode :: "rrMode option"
  sc_outputMode :: "rrMode option"
  sc_mmWidth :: int
  sc_mmHeight :: int
  sc_pixmap :: "nat option"
  sc_nextPixmap :: nat
  sc_pixmapSize :: "nat \<Rightarrow> int \<times> int"
  sc_windowPixmap :: "wptr \<Rightarrow> nat"
  sc_log :: "screenEffect list"

definition millimetres :: "rrServer \<Rightarrow> int \<Rightarrow> int" where
  "millimetres sv pixels = (pixels * 254) div (10 * rs_resolution sv)"

text \<open>
  \<open>TraverseTree\<close> with \<open>lorieSetPixmapVisitWindow\<close>: the children of a window are visited only when
  the window itself showed the old screen pixmap.
\<close>

fun retarget :: "nat \<Rightarrow> nat \<Rightarrow> wtree \<Rightarrow> (wptr \<Rightarrow> nat) \<Rightarrow> wptr \<Rightarrow> nat"
and retargets :: "nat \<Rightarrow> nat \<Rightarrow> wtree list \<Rightarrow> (wptr \<Rightarrow> nat) \<Rightarrow> wptr \<Rightarrow> nat" where
  "retarget old new (WNode w cs) pix = (if pix w = old then retargets old new cs (pix(w := new)) else pix)"
| "retargets old new [] pix = pix"
| "retargets old new (c # cs) pix = retargets old new cs (retarget old new c pix)"

definition lorieRRScreenSetSize :: "rrServer \<Rightarrow> wtree \<Rightarrow> int \<Rightarrow> int \<Rightarrow> screenState \<Rightarrow> screenState" where
  "lorieRRScreenSetSize sv tree width height st =
     (let new = sc_nextPixmap st; old = sc_pixmap st;
          st1 = st\<lparr>sc_width := width, sc_height := height, sc_mmWidth := millimetres sv width, sc_mmHeight := millimetres sv height,
                   sc_pixmap := Some new, sc_nextPixmap := new + 1, sc_pixmapSize := (sc_pixmapSize st)(new := (width, height)),
                   sc_log := sc_log st @ [VblanksDrained, ScreenPixmapCreated new width height, DamageMoved new]\<rparr>;
          st2 = (case old of None \<Rightarrow> st1
                 | Some p \<Rightarrow> st1\<lparr>sc_windowPixmap := retarget p new tree (sc_windowPixmap st1),
                     sc_log := sc_log st1 @ [PixmapCopied p new (min (fst (sc_pixmapSize st p)) width) (min (snd (sc_pixmapSize st p)) height),
                       PixmapDestroyed p]\<rparr>)
      in st2\<lparr>sc_log := sc_log st2 @ [RootBufferRegistered new, RootResized width height, SizeNotified]\<rparr>)"

definition lorieRRCrtcSet :: "bool \<Rightarrow> rrMode option \<Rightarrow> screenState \<Rightarrow> bool \<times> screenState" where
  "lorieRRCrtcSet crtc mode st = (if crtc \<and> mode \<noteq> None then (True, st\<lparr>sc_crtcMode := mode\<rparr>) else (False, st))"

text \<open>\<open>strncpy\<close> into a zeroed field of 1024 bytes stops at the first zero of the source.\<close>

definition copiedName :: "string \<Rightarrow> nat \<Rightarrow> string" where
  "copiedName name n = takeWhile (\<lambda>c. c \<noteq> CHR 0x00) (take (min n 1024) name)"

definition lorieConfigureNotify ::
    "rrServer \<Rightarrow> wtree \<Rightarrow> int \<Rightarrow> int \<Rightarrow> int \<Rightarrow> (string \<times> nat) option \<Rightarrow> screenState \<Rightarrow> screenState" where
  "lorieConfigureNotify sv tree width height framerate name st =
     (let framerate = (if framerate \<noteq> 0 then framerate else 30);
          st1 = (case name of None \<Rightarrow> st
                 | Some (s, n) \<Rightarrow> if rs_output sv
                     then st\<lparr>sc_rootName := copiedName s n, sc_outputName := take 1023 (copiedName s n)\<rparr> else st)
      in if rs_output sv \<and> width \<noteq> 0 \<and> height \<noteq> 0
            \<and> (sc_width st1 \<noteq> width \<or> sc_height st1 \<noteq> height \<or> sc_framerate st1 \<noteq> framerate)
         then case lorieCvt sv width height framerate of None \<Rightarrow> st1
           | Some mode \<Rightarrow>
               let st2 = lorieRRScreenSetSize sv tree (rm_width mode) (rm_height mode)
                           (st1\<lparr>sc_outputMode := Some mode, sc_crtcMode := Some mode\<rparr>)
               in st2\<lparr>sc_framerate := framerate, sc_vblankInterval := c_div 1000000 framerate\<rparr>
         else st1)"

section \<open>The VidMode view\<close>

record DisplayMode =
  dm_Clock :: int
  dm_HDisplay :: int
  dm_HSyncStart :: int
  dm_HSyncEnd :: int
  dm_HTotal :: int
  dm_VDisplay :: int
  dm_VSyncStart :: int
  dm_VSyncEnd :: int
  dm_VTotal :: int
  dm_VScan :: int
  dm_Flags :: int

datatype monitorKind = MonVendor | MonModel | MonNHSync | MonNVRefresh | MonHSyncLo | MonHSyncHi | MonVRefreshLo | MonVRefreshHi
datatype monitorValue = MonitorText string | MonitorInt int | MonitorFloat rat

definition currentMode :: "screenState \<Rightarrow> (DisplayMode \<times> int) option" where
  "currentMode st =
     map_option (\<lambda>m. let clock = rm_dotClock m div 1000
       in (\<lparr>dm_Clock = clock, dm_HDisplay = rm_width m, dm_HSyncStart = rm_hSyncStart m, dm_HSyncEnd = rm_hSyncEnd m,
            dm_HTotal = rm_hTotal m, dm_VDisplay = rm_height m, dm_VSyncStart = rm_vSyncStart m, dm_VSyncEnd = rm_vSyncEnd m,
            dm_VTotal = rm_vTotal m, dm_VScan = 1, dm_Flags = rm_modeFlags m\<rparr>, clock)) (sc_crtcMode st)"

definition countModes :: "screenState \<Rightarrow> nat" where
  "countModes st = (if sc_crtcMode st \<noteq> None then 1 else 0)"

definition countClocks :: "screenState \<Rightarrow> nat \<times> bool" where
  "countClocks st = (countModes st, False)"

definition getClocks :: "screenState \<Rightarrow> int option" where
  "getClocks st = map_option snd (currentMode st)"

text \<open>Frequencies are computed in single precision by the code; here they are exact.\<close>

definition monitorValue :: "screenState \<Rightarrow> monitorKind \<Rightarrow> nat \<Rightarrow> monitorValue" where
  "monitorValue st kind index =
     (if kind = MonVendor then MonitorText ''MagicDesk''
      else if kind = MonModel then MonitorText ''screen''
      else case (if index = 0 then currentMode st else None) of None \<Rightarrow> MonitorInt 0
        | Some (mode, clock) \<Rightarrow>
            if kind = MonNHSync \<or> kind = MonNVRefresh then MonitorInt 1
            else if kind = MonHSyncLo \<or> kind = MonHSyncHi
            then MonitorFloat (if dm_HTotal mode \<noteq> 0 then of_int clock / of_int (dm_HTotal mode) else 0)
            else MonitorFloat (if dm_HTotal mode \<noteq> 0 \<and> dm_VTotal mode \<noteq> 0
              then of_int clock * 1000 / of_int (dm_HTotal mode) / of_int (dm_VTotal mode) else 0))"

section \<open>Sizes are kept exactly\<close>

lemma and_not_7: "(x :: int) AND NOT 7 = x div 8 * 8"
proof -
  have 7: "(7 :: int) = mask 3" by (simp add: mask_eq_exp_minus_1)
  have "x AND NOT 7 = push_bit 3 (drop_bit 3 x)"
    unfolding 7 by (rule bit_eqI) (auto simp: bit_and_iff bit_not_iff bit_mask_iff bit_push_bit_iff bit_drop_bit_eq)
  then show ?thesis by (simp add: push_bit_eq_mult drop_bit_eq_div)
qed

text \<open>The width handed to the timing generator is the next multiple of 8.\<close>

lemma cvtWidth_multiple:
  fixes w :: int
  shows "w \<le> (w + 7) AND NOT 7 \<and> (w + 7) AND NOT 7 < w + 8 \<and> 8 dvd (w + 7) AND NOT 7"
  unfolding and_not_7 by presburger

text \<open>The CRTC shows the size of the screen.\<close>

definition modeShown :: "screenState \<Rightarrow> bool" where
  "modeShown st \<longleftrightarrow> (\<exists>m. sc_crtcMode st = Some m \<and> rm_width m = sc_width st \<and> rm_height m = sc_height st)"

lemma modeShown_current:
  "modeShown st \<Longrightarrow> map_option (\<lambda>(m, _). (dm_HDisplay m, dm_VDisplay m)) (currentMode st) = Some (sc_width st, sc_height st)"
  by (auto simp: modeShown_def currentMode_def Let_def)

lemma lorieCvt_size:
  "lorieCvt sv width height framerate = Some m \<Longrightarrow>
   1 \<le> width \<and> width \<le> 32767 \<and> 1 \<le> height \<and> height \<le> 32767 \<and> rm_width m = width \<and> rm_height m = height"
  by (auto simp: lorieCvt_def lorieVirtualMode_def card16_def Let_def split: if_splits option.splits)

lemma setSize_fields [simp]:
  "sc_width (lorieRRScreenSetSize sv tree w h st) = w" "sc_height (lorieRRScreenSetSize sv tree w h st) = h"
  "sc_crtcMode (lorieRRScreenSetSize sv tree w h st) = sc_crtcMode st"
  "sc_pixmap (lorieRRScreenSetSize sv tree w h st) = Some (sc_nextPixmap st)"
  by (simp_all add: lorieRRScreenSetSize_def Let_def split: option.split)


section \<open>A resize leaves no window with the old pixmap\<close>

text \<open>A window that does not show the screen pixmap has no descendant that does.\<close>

fun shares :: "nat \<Rightarrow> (wptr \<Rightarrow> nat) \<Rightarrow> wtree \<Rightarrow> bool" where
  "shares p pix (WNode w cs) \<longleftrightarrow> (pix w \<noteq> p \<longrightarrow> (\<forall>v \<in> set (pres cs). pix v \<noteq> p)) \<and> (\<forall>c \<in> set cs. shares p pix c)"

lemma retarget_other:
  "v \<notin> set (pre t) \<Longrightarrow> retarget p q t pix v = pix v"
  "v \<notin> set (pres cs) \<Longrightarrow> retargets p q cs pix v = pix v"
  by (induction p q t pix and p q cs pix rule: retarget_retargets.induct) auto

lemma shares_cong: "(\<And>v. v \<in> set (pre t) \<Longrightarrow> pix v = pix2 v) \<Longrightarrow> shares p pix t = shares p pix2 t"
proof (induction t)
  case (WNode w cs)
  have sub: "set (pre c) \<subseteq> set (pres cs)" if "c \<in> set cs" for c
    using that by (induction cs) auto
  have "shares p pix c = shares p pix2 c" if "c \<in> set cs" for c
    using WNode.IH [OF that] WNode.prems sub [OF that] by fastforce
  with WNode.prems show ?case by auto
qed

lemma retarget_all:
  "distinct (pre t) \<Longrightarrow> shares p pix t \<Longrightarrow> v \<in> set (pre t) \<Longrightarrow> retarget p q t pix v = (if pix v = p then q else pix v)"
  "distinct (pres cs) \<Longrightarrow> \<forall>c \<in> set cs. shares p pix c \<Longrightarrow> v \<in> set (pres cs) \<Longrightarrow>
   retargets p q cs pix v = (if pix v = p then q else pix v)"
proof (induction p q t pix and p q cs pix rule: retarget_retargets.induct)
  case (1 p q w cs pix)
  have sub: "set (pre c) \<subseteq> set (pres cs)" if "c \<in> set cs" for c
    using that by (induction cs) auto
  have "\<forall>c \<in> set cs. shares p (pix(w := q)) c"
  proof
    fix c
    assume c: "c \<in> set cs"
    then have "w \<notin> set (pre c)" using sub 1(2) by auto
    then have "shares p (pix(w := q)) c = shares p pix c" by (intro shares_cong) auto
    then show "shares p (pix(w := q)) c" using c 1(3) by simp
  qed
  note sh = this
  show ?case
  proof (cases "pix w = p \<and> v \<noteq> w")
    case True
    then have "retargets p q cs (pix(w := q)) v = (if (pix(w := q)) v = p then q else (pix(w := q)) v)"
      using 1(1) sh 1(2,4) unfolding fun_upd_def by auto
    with True show ?thesis by simp
  qed (use 1(2-4) in \<open>auto simp: retarget_other\<close>)
next
  case (3 p q c cs pix)
  have other: "retarget p q c pix u = pix u" if "u \<in> set (pres cs)" for u
    using retarget_other(1) that 3(3) by (metis disjoint_iff distinct_append pres.simps(2))
  have sub: "set (pre d) \<subseteq> set (pres cs)" if "d \<in> set cs" for d
    using that by (induction cs) auto
  have "\<forall>d \<in> set cs. shares p (retarget p q c pix) d"
    using 3(4) shares_cong [of _ "retarget p q c pix" pix p] other sub by (metis list.set_intros(2) subsetD)
  with 3 other show ?case by (cases "v \<in> set (pres cs)") (auto simp: retarget_other)
qed simp


definition demoScreen :: screenState where
  "demoScreen = \<lparr>sc_width = 1280, sc_height = 1024, sc_rootName = ''screen'', sc_outputName = ''screen'', sc_framerate = 30,
     sc_vblankInterval = 33333, sc_crtcMode = Some \<lparr>rm_name = ''1280x1024'', rm_width = 1280, rm_height = 1024, rm_dotClock = 0,
       rm_hSyncStart = 0, rm_hSyncEnd = 0, rm_hTotal = 0, rm_vSyncStart = 0, rm_vSyncEnd = 0, rm_vTotal = 0, rm_modeFlags = 0\<rparr>,
     sc_outputMode = None, sc_mmWidth = 0, sc_mmHeight = 0, sc_pixmap = Some 1, sc_nextPixmap = 2, sc_pixmapSize = (\<lambda>_. (1280, 1024)),
     sc_windowPixmap = (\<lambda>w. if w = 2 then 7 else 1), sc_log = []\<rparr>"

definition demoRR :: rrServer where
  "demoRR = \<lparr>rs_gen = (\<lambda>w h f. Some \<lparr>mi_hdisplay = w, mi_vdisplay = h, mi_dot_clock = 1, mi_hsync_start = w, mi_hsync_end = w,
     mi_htotal = w, mi_vsync_start = h, mi_vsync_end = h, mi_vtotal = h, mi_mode_flags = 0\<rparr>),
     rs_modeGet = (\<lambda>_. True), rs_output = True, rs_resolution = 96\<rparr>"



end
