(* ===== verification/Resource_Channel.thy ===== *)
theory Resource_Channel
  imports Lorie_Prelude "HOL-Library.Multiset"
begin

text \<open>
  The resource channel (\<open>resource_channel.c\<close>): connections wait for their first byte, a preface may
  attach a resource socket to the X client, and shared-memory requests of the client are answered
  over that socket while only this client is suspended.  Answers of the kernel and of the server
  are arguments; closing a descriptor, handing it on and resuming a client go to the log.
\<close>

section \<open>State\<close>

record lorie_resource_reply =
  ry_error :: int
  ry_reserved :: u32
  ry_size :: u64

record resource_client =
  rc_fd :: int
  rc_pending :: bool
  rc_ready :: bool
  rc_sent :: bool
  rc_rights :: "int list"
  rc_id :: u32
  rc_flags :: u32
  rc_reply :: lorie_resource_reply
  rc_timer :: bool
  rc_watched :: bool

text \<open>\<open>rc_timer\<close> and \<open>ad_timer\<close>: the timer runs; \<open>rc_watched\<close>: the server watches the socket.\<close>

record admission =
  ad_fd :: int
  ad_timer :: bool

datatype resEffect =
    ResClosed int
  | ResGiven int
  | ResClient int
  | ResAttend nat

record resState =
  rs_resources :: "resource_client option list"
  rs_admissions :: "admission list"
  rs_log :: "resEffect list"

abbreviation (input) EINTR :: int where "EINTR \<equiv> 4"
abbreviation (input) EAGAIN :: int where "EAGAIN \<equiv> 11"
abbreviation (input) ENOMEM :: int where "ENOMEM \<equiv> 12"
abbreviation (input) EPIPE :: int where "EPIPE \<equiv> 32"
abbreviation (input) EPROTO :: int where "EPROTO \<equiv> 71"
abbreviation (input) ENOTSUP :: int where "ENOTSUP \<equiv> 95"
abbreviation (input) ETIMEDOUT :: int where "ETIMEDOUT \<equiv> 110"
abbreviation (input) LORIE_RESOURCE_READONLY :: u32 where "LORIE_RESOURCE_READONLY \<equiv> 1"

section \<open>Receiving descriptors\<close>

datatype controlPart = ControlOther | ControlRights "int list"

record packet =
  pk_bytes :: nat
  pk_truncated :: bool
  pk_control :: "controlPart list"

fun rightsIn :: "controlPart list \<Rightarrow> int list" where
  "rightsIn [] = []"
| "rightsIn (ControlOther # cs) = rightsIn cs"
| "rightsIn (ControlRights fds # cs) = fds @ rightsIn cs"

definition close_rights :: "int list \<Rightarrow> resEffect list" where
  "close_rights fds = map ResClosed (filter (\<lambda>fd. 0 \<le> fd) fds)"

text \<open>The first two descriptors are kept, the others closed; the arrays of two are filled with \<open>-1\<close>.\<close>

definition keptRights :: "int list \<Rightarrow> int list" where
  "keptRights fds = take 2 (fds @ [-1, -1])"

definition receive :: "nat \<Rightarrow> int + packet \<Rightarrow> int \<times> int list \<times> nat \<times> resEffect list" where
  "receive n answer =
     (case answer of
        Inl e \<Rightarrow> (- e, [-1, -1], 0, [])
      | Inr p \<Rightarrow>
          let fds = rightsIn (pk_control p); kept = keptRights fds; extra = map ResClosed (drop 2 fds);
              error = (if pk_truncated p \<or> ControlOther \<in> set (pk_control p) \<or> length fds > 2 \<or> pk_bytes p \<noteq> n then - EPROTO else 0)
          in if error \<noteq> 0 then (error, [-1, -1], min 2 (length fds), extra @ close_rights kept)
             else (0, kept, length fds, extra))"

section \<open>The socket of a client\<close>

definition disconnect :: "resource_client \<Rightarrow> resource_client \<times> resEffect list" where
  "disconnect r = (if 0 \<le> rc_fd r then (r\<lparr>rc_fd := -1, rc_watched := False\<rparr>, [ResClosed (rc_fd r)]) else (r, []))"

definition finish :: "nat \<Rightarrow> resource_client \<Rightarrow> int \<Rightarrow> resource_client \<times> resEffect list" where
  "finish index r error =
     (let r1 = r\<lparr>rc_timer := False, rc_watched := (if 0 \<le> rc_fd r then False else rc_watched r)\<rparr>;
          (r2, es) = (if error \<noteq> 0
            then let (d, es) = disconnect r1
                 in (d\<lparr>rc_rights := [-1, -1], rc_reply := \<lparr>ry_error = error, ry_reserved = 0, ry_size = 0\<rparr>\<rparr>,
                     es @ close_rights (rc_rights d))
            else (r1, []))
      in (r2\<lparr>rc_ready := True\<rparr>, es @ (if rc_pending r then [ResAttend index] else [])))"

definition expired :: "nat \<Rightarrow> resource_client \<Rightarrow> resource_client \<times> resEffect list" where
  "expired index r = finish index r (- ETIMEDOUT)"

record progressAnswers =
  pa_send :: "int + nat"
  pa_notify :: bool
  pa_receive :: "int + packet"
  pa_reply :: lorie_resource_reply

definition replyOk :: "lorie_resource_reply \<Rightarrow> nat \<Rightarrow> bool" where
  "replyOk reply cnt \<longleftrightarrow> \<not> (ry_error reply > 0 \<or> ry_error reply < - 4095 \<or> ry_reserved reply \<noteq> 0
     \<or> (if ry_error reply \<noteq> 0 then cnt \<noteq> 0 \<or> ry_size reply \<noteq> 0 else cnt \<noteq> 2 \<or> ry_size reply = 0))"

definition progressReceive :: "progressAnswers \<Rightarrow> nat \<Rightarrow> resource_client \<Rightarrow> resource_client \<times> resEffect list" where
  "progressReceive a index r =
     (let (error, fds, cnt, es) = receive 16 (pa_receive a);
          r1 = r\<lparr>rc_rights := fds, rc_reply := (case pa_receive a of Inl _ \<Rightarrow> rc_reply r | Inr _ \<Rightarrow> pa_reply a)\<rparr>
      in if error = - EINTR \<or> error = - EAGAIN then (r1, es)
         else let error = (if error = 0 \<and> \<not> replyOk (rc_reply r1) cnt then - EPROTO else error);
                  (r2, es2) = finish index r1 error
              in (r2, es @ es2))"

definition progress :: "progressAnswers \<Rightarrow> nat \<Rightarrow> resource_client \<Rightarrow> resource_client \<times> resEffect list" where
  "progress a index r =
     (if rc_sent r then progressReceive a index r
      else case pa_send a of
        Inl e \<Rightarrow> if e = EINTR \<or> e = EAGAIN then (r, []) else finish index r (- EPIPE)
      | Inr n \<Rightarrow>
          if n \<noteq> 16 then finish index r (- EPIPE)
          else if \<not> pa_notify a then finish index (r\<lparr>rc_sent := True\<rparr>) (- ENOMEM)
          else progressReceive a index (r\<lparr>rc_sent := True\<rparr>))"

section \<open>Requests of clients\<close>

text \<open>\<open>onClient\<close> puts the entry of a client back and logs the effects.\<close>

definition onClient :: "nat \<Rightarrow> resource_client option \<times> resEffect list \<Rightarrow> resState \<Rightarrow> resState" where
  "onClient index res st = st\<lparr>rs_resources := (rs_resources st)[index := fst res], rs_log := rs_log st @ snd res\<rparr>"

definition client_state :: "nat \<Rightarrow> resState \<Rightarrow> resState" where
  "client_state index st =
     (case rs_resources st ! index of None \<Rightarrow> st
      | Some r \<Rightarrow> let (d, es) = disconnect r in onClient index (None, es @ close_rights (rc_rights d)) st)"

definition lorieResourcesHas :: "nat \<Rightarrow> resState \<Rightarrow> bool" where
  "lorieResourcesHas index st \<longleftrightarrow> rs_resources st ! index \<noteq> None"

definition requestFlags :: "bool \<Rightarrow> u32" where
  "requestFlags readonly = (if readonly then LORIE_RESOURCE_READONLY else 0)"

text \<open>The result code, the two descriptors and the size; \<open>timer\<close> and \<open>notify\<close> are answers of the server.\<close>

definition lorieResourcesShm ::
    "bool \<Rightarrow> bool \<Rightarrow> nat \<Rightarrow> u32 \<Rightarrow> bool \<Rightarrow> resState \<Rightarrow> (int \<times> int list \<times> u64) \<times> resState" where
  "lorieResourcesShm timer notify index ident readonly st =
     (case rs_resources st ! index of None \<Rightarrow> ((- ENOTSUP, [-1, -1], 0), st)
      | Some r \<Rightarrow>
          if rc_ready r then
            let r = r\<lparr>rc_ready := False, rc_pending := False\<rparr>
            in if rc_id r \<noteq> ident \<or> rc_flags r \<noteq> requestFlags readonly
               then let (d, es) = disconnect r
                    in ((- EPROTO, [-1, -1], 0), onClient index (Some (d\<lparr>rc_rights := [-1, -1]\<rparr>), es @ close_rights (rc_rights d)) st)
               else if ry_error (rc_reply r) \<noteq> 0 then ((ry_error (rc_reply r), [-1, -1], 0), onClient index (Some r, []) st)
               else ((0, rc_rights r, ry_size (rc_reply r)),
                     onClient index (Some (r\<lparr>rc_rights := [-1, -1]\<rparr>), map ResGiven (filter (\<lambda>fd. 0 \<le> fd) (rc_rights r))) st)
          else if rc_fd r < 0 then ((- EPIPE, [-1, -1], 0), st)
          else if rc_pending r then ((- EAGAIN, [-1, -1], 0), st)
          else let r = r\<lparr>rc_id := ident, rc_flags := requestFlags readonly, rc_sent := False, rc_timer := timer\<rparr>
          in if \<not> timer \<or> \<not> notify
             then let (d, es) = disconnect r in ((- ENOMEM, [-1, -1], 0), onClient index (Some d, es) st)
             else ((- EAGAIN, [-1, -1], 0), onClient index (Some (r\<lparr>rc_pending := True, rc_watched := True\<rparr>), []) st))"

section \<open>Admission of connections\<close>

definition discard_admission :: "nat \<Rightarrow> resState \<Rightarrow> resState" where
  "discard_admission k st =
     (let a = rs_admissions st ! k
      in st\<lparr>rs_admissions := take k (rs_admissions st) @ drop (Suc k) (rs_admissions st),
            rs_log := rs_log st @ (if 0 \<le> ad_fd a then [ResClosed (ad_fd a)] else [])\<rparr>)"

definition admission_expired :: "nat \<Rightarrow> resState \<Rightarrow> resState" where
  "admission_expired k st = discard_admission k st"

datatype helloByte = HelloResource | HelloX11 | HelloOther

record admitAnswers =
  aa_peek :: "int + helloByte option"
  aa_receive :: "int + packet"
  aa_seqpacket :: bool
  aa_calloc :: bool
  aa_client :: "nat option"

definition freshClient :: "int \<Rightarrow> resource_client" where
  "freshClient fd = \<lparr>rc_fd = fd, rc_pending = False, rc_ready = False, rc_sent = False, rc_rights = [-1, -1], rc_id = 0, rc_flags = 0,
     rc_reply = \<lparr>ry_error = 0, ry_reserved = 0, ry_size = 0\<rparr>, rc_timer = False, rc_watched = False\<rparr>"

text \<open>The connection itself becomes an X client; its resource socket is attached or closed.\<close>

definition admitClient :: "nat \<Rightarrow> int option \<Rightarrow> nat option \<Rightarrow> resState \<Rightarrow> resState" where
  "admitClient k resource client st =
     (let fd = ad_fd (rs_admissions st ! k);
          st1 = discard_admission k (st\<lparr>rs_admissions := (rs_admissions st)[k := (rs_admissions st ! k)\<lparr>ad_fd := -1\<rparr>]\<rparr>);
          st2 = st1\<lparr>rs_log := rs_log st1 @ [ResClient fd]\<rparr>
      in case resource of None \<Rightarrow> st2
         | Some r \<Rightarrow> (case client of None \<Rightarrow> st2\<lparr>rs_log := rs_log st2 @ [ResClosed r]\<rparr>
             | Some index \<Rightarrow> onClient index (Some (freshClient r), []) st2))"

definition admit :: "admitAnswers \<Rightarrow> nat \<Rightarrow> resState \<Rightarrow> resState" where
  "admit a k st =
     (case aa_peek a of
        Inl e \<Rightarrow> if e = EINTR \<or> e = EAGAIN then st else discard_admission k st
      | Inr None \<Rightarrow> discard_admission k st
      | Inr (Some HelloResource) \<Rightarrow>
          let (error, fds, cnt, es) = receive 1 (aa_receive a); st1 = st\<lparr>rs_log := rs_log st @ es\<rparr>
          in if error = - EINTR \<or> error = - EAGAIN then st1
             else let error = (if error = 0 \<and> (cnt \<noteq> 1 \<or> \<not> aa_seqpacket a) then - EPROTO else error);
                      error = (if error = 0 \<and> \<not> aa_calloc a then - ENOMEM else error)
             in if error \<noteq> 0 then discard_admission k (st1\<lparr>rs_log := rs_log st1 @ close_rights fds\<rparr>)
                else admitClient k (Some (hd fds)) (aa_client a) st1
      | Inr (Some HelloX11) \<Rightarrow> admitClient k None (aa_client a) st
      | Inr (Some HelloOther) \<Rightarrow> discard_admission k st)"

text \<open>\<open>maxClients\<close> is the server's \<open>MAXCLIENTS\<close>.\<close>

definition lorieResourcesAccept :: "nat \<Rightarrow> bool \<Rightarrow> bool \<Rightarrow> bool \<Rightarrow> int \<Rightarrow> resState \<Rightarrow> resState" where
  "lorieResourcesAccept maxClients calloc timer notify fd st =
     (if length (rs_admissions st) \<ge> maxClients \<or> \<not> calloc then st\<lparr>rs_log := rs_log st @ [ResClosed fd]\<rparr>
      else let st1 = st\<lparr>rs_admissions := \<lparr>ad_fd = fd, ad_timer = timer\<rparr> # rs_admissions st\<rparr>
           in if \<not> timer \<or> \<not> notify then discard_admission 0 st1 else st1)"

section \<open>Descriptors are conserved\<close>

definition fdm :: "int list \<Rightarrow> int multiset" where
  "fdm fds = mset (filter (\<lambda>fd. 0 \<le> fd) fds)"

fun goneFd :: "resEffect \<Rightarrow> int multiset" where
  "goneFd (ResClosed fd) = {#fd#}"
| "goneFd (ResGiven fd) = {#fd#}"
| "goneFd (ResClient fd) = {#fd#}"
| "goneFd (ResAttend _) = {#}"

definition gone :: "resEffect list \<Rightarrow> int multiset" where
  "gone es = sum_list (map goneFd es)"

definition clientFds :: "resource_client option \<Rightarrow> int multiset" where
  "clientFds c = (case c of None \<Rightarrow> {#} | Some r \<Rightarrow> fdm (rc_fd r # rc_rights r))"

definition held :: "resState \<Rightarrow> int multiset" where
  "held st = sum_list (map clientFds (rs_resources st)) + fdm (map ad_fd (rs_admissions st))"

definition clientOk :: "resource_client \<Rightarrow> bool" where
  "clientOk r \<longleftrightarrow> (\<not> rc_ready r \<or> ry_error (rc_reply r) \<noteq> 0 \<longrightarrow> rc_rights r = [-1, -1])
     \<and> (rc_watched r \<longleftrightarrow> rc_pending r \<and> \<not> rc_ready r) \<and> (rc_watched r \<longrightarrow> rc_timer r \<and> 0 \<le> rc_fd r)"

definition resOk :: "resState \<Rightarrow> bool" where
  "resOk st \<longleftrightarrow> (\<forall>r. Some r \<in> set (rs_resources st) \<longrightarrow> clientOk r) \<and> (\<forall>a \<in> set (rs_admissions st). 0 \<le> ad_fd a)"

lemma fdm_simps [simp]:
  "fdm [] = {#}" "fdm (a # as) = (if 0 \<le> a then {#a#} else {#}) + fdm as" "fdm (as @ bs) = fdm as + fdm bs"
  by (simp_all add: fdm_def)

lemma gone_simps [simp]:
  "gone [] = {#}" "gone (e # es) = goneFd e + gone es" "gone (es @ fs) = gone es + gone fs"
  by (simp_all add: gone_def)

lemma gone_close_rights [simp]: "gone (close_rights fds) = fdm fds"
  by (induction fds) (simp_all add: close_rights_def)

lemma gone_close_map: "\<forall>fd \<in> set fds. 0 \<le> fd \<Longrightarrow> gone (map ResClosed fds) = fdm fds"
  by (induction fds) auto

lemma gone_given [simp]: "gone (map ResGiven (filter (\<lambda>fd. 0 \<le> fd) fds)) = fdm fds"
  by (induction fds) auto

lemma clientFds_simps [simp]:
  "clientFds None = {#}" "clientFds (Some r) = fdm (rc_fd r # rc_rights r)"
  by (simp_all add: clientFds_def)

lemma sum_list_update_multiset:
  "i < length xs \<Longrightarrow> sum_list (map f (xs[i := y])) + f (xs ! i) = sum_list (map f xs) + (f y :: 'a multiset)"
  by (induction xs arbitrary: i) (auto simp: ac_simps split: nat.splits)

text \<open>What arrives with a packet.\<close>

definition arrivals :: "int + packet \<Rightarrow> int list" where
  "arrivals answer = (case answer of Inl _ \<Rightarrow> [] | Inr p \<Rightarrow> rightsIn (pk_control p))"

lemma fdm_keptRights: "fdm (keptRights fds) = fdm (take 2 fds)"
  by (cases fds; cases "tl fds") (auto simp: keptRights_def numeral_eq_Suc)

lemma receive_conserves:
  assumes "receive n answer = (error, fds, cnt, es)" "\<forall>fd \<in> set (arrivals answer). 0 \<le> fd"
  shows "fdm fds + gone es = fdm (arrivals answer)" "error \<noteq> 0 \<Longrightarrow> fds = [-1, -1]"
    "cnt = 0 \<Longrightarrow> fds = [-1, -1]" "error = 0 \<Longrightarrow> cnt = 1 \<Longrightarrow> 0 \<le> hd fds \<and> fds = [hd fds, -1]"
proof -
  let ?f = "\<lambda>p. rightsIn (pk_control p)"
  have "fdm (take 2 (?f p)) + fdm (drop 2 (?f p)) = fdm (?f p)" for p
    by (metis append_take_drop_id fdm_simps(3))
  moreover from this have "fdm (drop 2 (?f p)) + fdm (take 2 (?f p)) = fdm (?f p)" for p
    by (simp add: add.commute)
  moreover have "\<forall>fd \<in> set (drop 2 (?f p)). 0 \<le> fd" if "answer = Inr p" for p
    using assms(2) that by (auto simp: arrivals_def dest: in_set_dropD)
  ultimately show "fdm fds + gone es = fdm (arrivals answer)"
    using assms by (auto simp: receive_def arrivals_def Let_def gone_close_map fdm_keptRights split: sum.splits if_splits)
  show "error \<noteq> 0 \<Longrightarrow> fds = [-1, -1]" "cnt = 0 \<Longrightarrow> fds = [-1, -1]"
    using assms by (auto simp: receive_def keptRights_def Let_def split: sum.splits if_splits)
  show "0 \<le> hd fds \<and> fds = [hd fds, -1]" if "error = 0" "cnt = 1"
  proof -
    from assms(1) that obtain p where "answer = Inr p" "length (?f p) = 1" "fds = keptRights (?f p)"
      by (auto simp: receive_def Let_def split: sum.splits if_splits)
    then show ?thesis using assms(2) by (cases "?f p") (auto simp: keptRights_def arrivals_def)
  qed
qed

lemma disconnect_conserves:
  "disconnect r = (d, es) \<Longrightarrow> fdm (rc_fd d # rc_rights d) + gone es = fdm (rc_fd r # rc_rights r)
     \<and> rc_fd d < 0 \<and> rc_rights d = rc_rights r \<and> rc_ready d = rc_ready r \<and> rc_pending d = rc_pending r
     \<and> rc_reply d = rc_reply r \<and> (rc_watched d \<longrightarrow> rc_fd r < 0 \<and> rc_watched r)"
  by (auto simp: disconnect_def ac_simps split: if_splits)

lemma finish_conserves:
  assumes "finish index r error = (r1, es)" "rc_watched r \<longrightarrow> 0 \<le> rc_fd r"
    and "error = 0 \<longrightarrow> ry_error (rc_reply r) \<noteq> 0 \<longrightarrow> rc_rights r = [-1, -1]"
  shows "fdm (rc_fd r1 # rc_rights r1) + gone es = fdm (rc_fd r # rc_rights r)" "clientOk r1" "rc_ready r1"
    "rc_pending r \<Longrightarrow> ResAttend index \<in> set es" "error \<noteq> 0 \<Longrightarrow> ry_error (rc_reply r1) = error"
  using assms
  by (auto simp: finish_def disconnect_def clientOk_def Let_def ac_simps split: if_splits prod.splits)

text \<open>The events that reach the component; callbacks only arrive for what is registered.\<close>

datatype resOp =
    OpAccept bool bool bool int
  | OpAdmit admitAnswers nat
  | OpAdmissionExpired nat
  | OpProgress progressAnswers nat
  | OpExpired nat
  | OpGone nat
  | OpShm bool bool nat u32 bool

definition clientAt :: "nat \<Rightarrow> resState \<Rightarrow> resource_client option" where
  "clientAt index st = (if index < length (rs_resources st) then rs_resources st ! index else None)"

fun resEnabled :: "resOp \<Rightarrow> resState \<Rightarrow> bool" where
  "resEnabled (OpAccept _ _ _ fd) st \<longleftrightarrow> 0 \<le> fd"
| "resEnabled (OpAdmit a k) st \<longleftrightarrow> k < length (rs_admissions st) \<and> (\<forall>fd \<in> set (arrivals (aa_receive a)). 0 \<le> fd)
     \<and> (\<forall>i. aa_client a = Some i \<longrightarrow> i < length (rs_resources st) \<and> rs_resources st ! i = None)"
| "resEnabled (OpAdmissionExpired k) st \<longleftrightarrow> k < length (rs_admissions st)"
| "resEnabled (OpProgress a i) st \<longleftrightarrow> (\<exists>r. clientAt i st = Some r \<and> rc_watched r) \<and> (\<forall>fd \<in> set (arrivals (pa_receive a)). 0 \<le> fd)"
| "resEnabled (OpExpired i) st \<longleftrightarrow> (\<exists>r. clientAt i st = Some r \<and> rc_timer r)"
| "resEnabled (OpGone i) st \<longleftrightarrow> i < length (rs_resources st)"
| "resEnabled (OpShm _ _ i _ _) st \<longleftrightarrow> i < length (rs_resources st)"

fun runRes :: "nat \<Rightarrow> resOp \<Rightarrow> resState \<Rightarrow> resState" where
  "runRes maxClients (OpAccept calloc timer notify fd) st = lorieResourcesAccept maxClients calloc timer notify fd st"
| "runRes maxClients (OpAdmit a k) st = admit a k st"
| "runRes maxClients (OpAdmissionExpired k) st = admission_expired k st"
| "runRes maxClients (OpProgress a i) st = (let (r, es) = progress a i (the (clientAt i st)) in onClient i (Some r, es) st)"
| "runRes maxClients (OpExpired i) st = (let (r, es) = expired i (the (clientAt i st)) in onClient i (Some r, es) st)"
| "runRes maxClients (OpGone i) st = client_state i st"
| "runRes maxClients (OpShm timer notify i ident readonly) st = snd (lorieResourcesShm timer notify i ident readonly st)"

text \<open>The descriptors an event brings in.\<close>

fun incoming :: "resOp \<Rightarrow> resState \<Rightarrow> int list" where
  "incoming (OpAccept _ _ _ fd) st = [fd]"
| "incoming (OpAdmit a k) st = (if aa_peek a = Inr (Some HelloResource) then arrivals (aa_receive a) else [])"
| "incoming (OpProgress a i) st =
     (if rc_sent (the (clientAt i st)) \<or> (pa_send a = Inr 16 \<and> pa_notify a) then arrivals (pa_receive a) else [])"
| "incoming _ st = []"

lemma multiset_exchange:
  fixes S :: "'a multiset"
  assumes "T + x = S + c" "c + g = x + n"
  shows "(T + A) + g = (S + A) + n"
proof -
  have "((T + A) + g) + x = (T + x) + (A + g)" by (simp add: ac_simps)
  also have "\<dots> = (S + A) + (c + g)" unfolding assms(1) by (simp add: ac_simps)
  also have "\<dots> = ((S + A) + n) + x" unfolding assms(2) by (simp add: ac_simps)
  finally show ?thesis by simp
qed

lemma held_onClient:
  assumes "i < length (rs_resources st)" "clientFds c + gone es = clientFds (rs_resources st ! i) + new"
  shows "held (onClient i (c, es) st) + gone es = held st + new"
  using multiset_exchange [OF sum_list_update_multiset [OF assms(1), of clientFds c] assms(2)]
  by (simp add: held_def onClient_def)

lemma resOk_onClient:
  assumes "resOk st" "\<And>r. fst res = Some r \<Longrightarrow> clientOk r"
  shows "resOk (onClient i res st)"
  using assms set_update_subset_insert [of "rs_resources st" i "fst res"] by (fastforce simp: resOk_def onClient_def)

lemma resOk_client: "resOk st \<Longrightarrow> clientAt i st = Some r \<Longrightarrow> clientOk r"
  by (auto simp: resOk_def clientAt_def split: if_splits) (metis nth_mem)

lemma progressReceive_conserves:
  assumes "progressReceive a index r = (r1, es)" "clientOk (r\<lparr>rc_sent := False\<rparr>)" "rc_watched r"
    and "\<forall>fd \<in> set (arrivals (pa_receive a)). 0 \<le> fd"
  shows "fdm (rc_fd r1 # rc_rights r1) + gone es = fdm (rc_fd r # rc_rights r) + fdm (arrivals (pa_receive a))" "clientOk r1"
proof -
  obtain error fds cnt es1 where rec: "receive 16 (pa_receive a) = (error, fds, cnt, es1)" by (cases "receive 16 (pa_receive a)") auto
  note c = receive_conserves [OF rec assms(4)]
  let ?r = "r\<lparr>rc_rights := fds, rc_reply := (case pa_receive a of Inl _ \<Rightarrow> rc_reply r | Inr _ \<Rightarrow> pa_reply a)\<rparr>"
  have old: "rc_rights r = [-1, -1]" "0 \<le> rc_fd r" using assms(2,3) by (auto simp: clientOk_def)
  have both: "fdm (rc_fd r1 # rc_rights r1) + gone es = fdm (rc_fd r # rc_rights r) + fdm (arrivals (pa_receive a)) \<and> clientOk r1"
  proof (cases "error = - EINTR \<or> error = - EAGAIN")
    case True
    then have "r1 = ?r" "es = es1" "fds = [-1, -1]" using assms(1) c(2) by (auto simp: progressReceive_def rec Let_def)
    then show ?thesis using c(1) assms(2,3) old by (auto simp: clientOk_def)
  next
    case False
    define err where "err = (if error = 0 \<and> \<not> replyOk (rc_reply ?r) cnt then - EPROTO else error)"
    obtain r2 es2 where f: "finish index ?r err = (r2, es2)" by (cases "finish index ?r err") auto
    then have r: "r1 = r2" "es = es1 @ es2" using assms(1) False by (auto simp: progressReceive_def rec Let_def err_def)
    have "err = 0 \<longrightarrow> ry_error (rc_reply ?r) \<noteq> 0 \<longrightarrow> fds = [-1, -1]"
      using c(3) by (auto simp: err_def replyOk_def split: if_splits)
    then have "fdm (rc_fd r2 # rc_rights r2) + gone es2 = fdm (rc_fd r # fds)" "clientOk r2"
      using finish_conserves(1,2) [OF f] old(2) by simp_all
    then show ?thesis using c(1) old unfolding r by (auto simp: ac_simps)
  qed
  then show "fdm (rc_fd r1 # rc_rights r1) + gone es = fdm (rc_fd r # rc_rights r) + fdm (arrivals (pa_receive a))" "clientOk r1"
    by blast+
qed

lemma progress_conserves:
  assumes "progress a index r = (r1, es)" "clientOk r" "rc_watched r" "\<forall>fd \<in> set (arrivals (pa_receive a)). 0 \<le> fd"
  shows "fdm (rc_fd r1 # rc_rights r1) + gone es = fdm (rc_fd r # rc_rights r)
      + fdm (if rc_sent r \<or> (pa_send a = Inr 16 \<and> pa_notify a) then arrivals (pa_receive a) else [])" "clientOk r1"
proof -
  have ok: "clientOk (r\<lparr>rc_sent := b\<rparr>)" for b using assms(2) by (simp add: clientOk_def)
  have fin: "rc_watched r \<longrightarrow> 0 \<le> rc_fd r" using assms(2) by (simp add: clientOk_def)
  have f: "fdm (rc_fd r1 # rc_rights r1) + gone es = fdm (rc_fd r # rc_rights r)" "clientOk r1"
    if "finish index (r\<lparr>rc_sent := b\<rparr>) e = (r1, es)" "e \<noteq> 0" for b e
    using finish_conserves(1,2) [OF that(1)] fin that(2) by auto
  have g: "fdm (rc_fd r1 # rc_rights r1) + gone es = fdm (rc_fd r # rc_rights r) + fdm (arrivals (pa_receive a))" "clientOk r1"
    if "progressReceive a index (r\<lparr>rc_sent := b\<rparr>) = (r1, es)" for b
    using progressReceive_conserves [OF that] ok assms(3,4) by auto
  have same: "r\<lparr>rc_sent := rc_sent r\<rparr> = r" by simp
  show "fdm (rc_fd r1 # rc_rights r1) + gone es = fdm (rc_fd r # rc_rights r)
      + fdm (if rc_sent r \<or> (pa_send a = Inr 16 \<and> pa_notify a) then arrivals (pa_receive a) else [])" "clientOk r1"
    using assms(1,2) f(1) [of "rc_sent r"] f(2) [of "rc_sent r"] f(1,2) [of True] g(1) [of "rc_sent r"] g(2) [of "rc_sent r"] g(1,2) [of True]
    unfolding same by (auto simp: progress_def split: if_splits sum.splits)
qed

lemma discard_conserves:
  assumes "k < length (rs_admissions st)"
  shows "\<exists>es. rs_log (discard_admission k st) = rs_log st @ es \<and> held (discard_admission k st) + gone es = held st
    \<and> rs_resources (discard_admission k st) = rs_resources st
    \<and> set (rs_admissions (discard_admission k st)) \<subseteq> set (rs_admissions st)
    \<and> length (rs_admissions (discard_admission k st)) < length (rs_admissions st)"
proof -
  let ?xs = "rs_admissions st"
  have split: "?xs = take k ?xs @ ?xs ! k # drop (Suc k) ?xs" using assms by (simp add: id_take_nth_drop)
  have "fdm (map ad_fd ?xs) = fdm (map ad_fd (take k ?xs @ drop (Suc k) ?xs)) + fdm [ad_fd (?xs ! k)]"
    by (subst split) (simp add: ac_simps)
  moreover have "set (take k ?xs @ drop (Suc k) ?xs) \<subseteq> set ?xs" by (auto dest: in_set_takeD in_set_dropD)
  ultimately show ?thesis using assms by (auto simp: discard_admission_def held_def Let_def ac_simps)
qed

lemma resOk_mono:
  "resOk st \<Longrightarrow> rs_resources st1 = rs_resources st \<Longrightarrow> set (rs_admissions st1) \<subseteq> set (rs_admissions st) \<Longrightarrow> resOk st1"
  by (auto simp: resOk_def)

lemma resOk_discard: "resOk st \<Longrightarrow> k < length (rs_admissions st) \<Longrightarrow> resOk (discard_admission k st)"
  using discard_conserves [of k st] by (auto simp: resOk_def)

lemma freshClient_ok: "clientOk (freshClient fd)"
  by (simp add: freshClient_def clientOk_def)

lemma held_log [simp]: "held (st\<lparr>rs_log := l\<rparr>) = held st"
  by (simp add: held_def)

lemma resOk_log [simp]: "resOk (st\<lparr>rs_log := l\<rparr>) = resOk st"
  by (simp add: resOk_def)

lemma admitClient_conserves:
  assumes "resOk st" "k < length (rs_admissions st)" "\<forall>r. resource = Some r \<longrightarrow> 0 \<le> r"
    and "\<forall>i. client = Some i \<longrightarrow> i < length (rs_resources st) \<and> rs_resources st ! i = None"
  shows "\<exists>es. rs_log (admitClient k resource client st) = rs_log st @ es
    \<and> held (admitClient k resource client st) + gone es = held st + (case resource of None \<Rightarrow> {#} | Some r \<Rightarrow> {#r#})
    \<and> resOk (admitClient k resource client st)"
proof -
  let ?a = "rs_admissions st ! k"
  let ?s = "st\<lparr>rs_admissions := (rs_admissions st)[k := ?a\<lparr>ad_fd := -1\<rparr>]\<rparr>"
  let ?d = "(discard_admission k ?s)\<lparr>rs_log := rs_log (discard_admission k ?s) @ [ResClient (ad_fd ?a)]\<rparr>"
  have fd: "0 \<le> ad_fd ?a" using assms(1,2) by (simp add: resOk_def)
  have split: "rs_admissions st = take k (rs_admissions st) @ ?a # drop (Suc k) (rs_admissions st)"
    using assms(2) by (simp add: id_take_nth_drop)
  have "fdm (map ad_fd (rs_admissions st)) = {#ad_fd ?a#} + fdm (map ad_fd (take k (rs_admissions st) @ drop (Suc k) (rs_admissions st)))"
    by (subst split) (simp add: fd ac_simps)
  then have d: "held ?d + {#ad_fd ?a#} = held st"
    by (simp add: discard_admission_def held_def Let_def assms(2) ac_simps)
  have log: "rs_log ?d = rs_log st @ [ResClient (ad_fd ?a)]" by (simp add: discard_admission_def Let_def assms(2))
  have res: "rs_resources ?d = rs_resources st" by (simp add: discard_admission_def Let_def)
  have "rs_admissions ?d = take k (rs_admissions st) @ drop (Suc k) (rs_admissions st)"
    by (simp add: discard_admission_def Let_def)
  then have "set (rs_admissions ?d) \<subseteq> set (rs_admissions st)" by (auto dest: in_set_takeD in_set_dropD)
  then have ok: "resOk ?d" by (rule resOk_mono [OF assms(1) res])
  show ?thesis
  proof (cases resource)
    case None
    then show ?thesis using d log ok by (auto simp: admitClient_def Let_def)
  next
    case (Some r)
    note sr = this
    then have r: "0 \<le> r" using assms(3) by simp
    show ?thesis
    proof (cases client)
      case None
      with sr d log ok show ?thesis by (auto simp: admitClient_def Let_def ac_simps)
    next
      case (Some i)
      then have i: "i < length (rs_resources ?d)" "rs_resources ?d ! i = None" using assms(4) res by auto
      have "clientFds (Some (freshClient r)) + gone [] = clientFds (rs_resources ?d ! i) + {#r#}"
        using i(2) r by (simp add: freshClient_def)
      from held_onClient [OF i(1) this] have "held (onClient i (Some (freshClient r), []) ?d) = held ?d + {#r#}" by simp
      moreover have "resOk (onClient i (Some (freshClient r), []) ?d)"
        by (rule resOk_onClient [OF ok]) (auto simp: freshClient_ok)
      moreover have "admitClient k resource client st = onClient i (Some (freshClient r), []) ?d"
        using sr Some by (simp add: admitClient_def Let_def)
      ultimately show ?thesis using d log sr by (auto simp: onClient_def ac_simps)
    qed
  qed
qed

lemma admit_conserves:
  assumes "resOk st" "resEnabled (OpAdmit a k) st"
  shows "\<exists>es. rs_log (admit a k st) = rs_log st @ es \<and> held (admit a k st) + gone es = held st + fdm (incoming (OpAdmit a k) st)
    \<and> resOk (admit a k st)"
proof -
  have k: "k < length (rs_admissions st)" and fds: "\<forall>fd \<in> set (arrivals (aa_receive a)). 0 \<le> fd"
    and cl: "\<forall>i. aa_client a = Some i \<longrightarrow> i < length (rs_resources st) \<and> rs_resources st ! i = None"
    using assms(2) by auto
  have drop: "\<exists>es. rs_log (discard_admission k (st\<lparr>rs_log := rs_log st @ l\<rparr>)) = rs_log st @ es
      \<and> held (discard_admission k (st\<lparr>rs_log := rs_log st @ l\<rparr>)) + gone es = held st + gone l
      \<and> resOk (discard_admission k (st\<lparr>rs_log := rs_log st @ l\<rparr>))" for l
    using discard_conserves [of k "st\<lparr>rs_log := rs_log st @ l\<rparr>"] resOk_discard [of "st\<lparr>rs_log := rs_log st @ l\<rparr>" k] assms(1) k
    by (auto simp: ac_simps)
  show ?thesis
  proof (cases "aa_peek a = Inr (Some HelloResource)")
    case True
    obtain error fds2 cnt es where rec: "receive 1 (aa_receive a) = (error, fds2, cnt, es)" by (cases "receive 1 (aa_receive a)") auto
    note c = receive_conserves [OF rec fds]
    let ?s = "st\<lparr>rs_log := rs_log st @ es\<rparr>"
    define e where "e = (let error = (if error = 0 \<and> (cnt \<noteq> 1 \<or> \<not> aa_seqpacket a) then - EPROTO else error)
      in if error = 0 \<and> \<not> aa_calloc a then - ENOMEM else error)"
    have arr: "incoming (OpAdmit a k) st = arrivals (aa_receive a)" using True by simp
    have e0: "e = 0 \<Longrightarrow> error = 0 \<and> cnt = 1" unfolding e_def Let_def by (auto split: if_splits)
    consider (again) "error = - EINTR \<or> error = - EAGAIN" | (bad) "\<not> (error = - EINTR \<or> error = - EAGAIN)" "e \<noteq> 0"
      | (good) "e = 0" "error = 0" "cnt = 1" using e0 by blast
    then show ?thesis
    proof cases
      case again
      then have "admit a k st = ?s" "fds2 = [-1, -1]" using True c(2) by (auto simp: admit_def rec [unfolded One_nat_def] Let_def)
      then show ?thesis using c(1) assms(1) arr by auto
    next
      case bad
      then have "admit a k st = discard_admission k (?s\<lparr>rs_log := rs_log ?s @ close_rights fds2\<rparr>)"
        using True by (auto simp: admit_def rec [unfolded One_nat_def] Let_def e_def)
      moreover have "gone (es @ close_rights fds2) = fdm (arrivals (aa_receive a))" using c(1) by (simp add: ac_simps)
      ultimately show ?thesis using drop [of "es @ close_rights fds2"] arr by simp
    next
      case good
      then have ad: "admit a k st = admitClient k (Some (hd fds2)) (aa_client a) ?s"
        using True by (auto simp: admit_def rec [unfolded One_nat_def] Let_def e_def split: if_splits)
      have h: "0 \<le> hd fds2" "fds2 = [hd fds2, -1]" using c(4) good by auto
      from admitClient_conserves [of ?s k "Some (hd fds2)" "aa_client a"] assms(1) k cl h(1)
      obtain es2 where r: "rs_log (admit a k st) = rs_log ?s @ es2" "held (admit a k st) + gone es2 = held ?s + {#hd fds2#}"
        "resOk (admit a k st)" unfolding ad by auto
      have "fdm fds2 = {#hd fds2#}" using arg_cong [OF h(2), of fdm] h(1) by simp
      then have f: "{#hd fds2#} + gone es = fdm (arrivals (aa_receive a))" using c(1) by simp
      have "held (admit a k st) + gone (es @ es2) = (held (admit a k st) + gone es2) + gone es" by (simp add: ac_simps)
      also have "\<dots> = held st + ({#hd fds2#} + gone es)" unfolding r(2) by (simp add: ac_simps)
      also have "\<dots> = held st + fdm (incoming (OpAdmit a k) st)" unfolding f arr ..
      finally have "held (admit a k st) + gone (es @ es2) = held st + fdm (incoming (OpAdmit a k) st)" .
      moreover have "rs_log (admit a k st) = rs_log st @ (es @ es2)" using r(1) by simp
      ultimately show ?thesis using r(3) by blast
    qed
  next
    case False
    then have arr: "incoming (OpAdmit a k) st = []" by simp
    show ?thesis using drop [of "[]"] admitClient_conserves [OF assms(1) k _ cl, of None] assms(1) False arr
      by (auto simp: admit_def split: sum.splits option.splits helloByte.splits)
  qed
qed

lemma shm_conserves:
  assumes "resOk st" "i < length (rs_resources st)" "st1 = snd (lorieResourcesShm timer notify i ident readonly st)"
  shows "\<exists>es. rs_log st1 = rs_log st @ es \<and> held st1 + gone es = held st \<and> resOk st1"
proof (cases "rs_resources st ! i")
  case None
  then show ?thesis using assms by (simp add: lorieResourcesShm_def)
next
  case (Some r)
  then have ok: "clientOk r" using assms(1,2) resOk_client [of st i r] by (simp add: clientAt_def)
  have step: "\<exists>es. rs_log (onClient i (Some c, es1) st) = rs_log st @ es \<and> held (onClient i (Some c, es1) st) + gone es = held st
      \<and> resOk (onClient i (Some c, es1) st)"
    if "fdm (rc_fd c # rc_rights c) + gone es1 = fdm (rc_fd r # rc_rights r)" "clientOk c" for c es1
    using held_onClient [OF assms(2), of "Some c" es1 "{#}"] resOk_onClient [OF assms(1), of "(Some c, es1)" i] that Some
    by (auto simp: onClient_def)
  show ?thesis
  proof (cases "rc_ready r")
    case True
    let ?r = "r\<lparr>rc_ready := False, rc_pending := False\<rparr>"
    obtain d es1 where d: "disconnect ?r = (d, es1)" by (cases "disconnect ?r") auto
    note dc = disconnect_conserves [OF d]
    have unw: "\<not> rc_watched r" using ok True by (simp add: clientOk_def)
    have "fdm (rc_fd (d\<lparr>rc_rights := [-1, -1]\<rparr>) # rc_rights (d\<lparr>rc_rights := [-1, -1]\<rparr>)) + gone (es1 @ close_rights (rc_rights d))
        = fdm (rc_fd r # rc_rights r)" "clientOk (d\<lparr>rc_rights := [-1, -1]\<rparr>)"
      using dc ok unw by (auto simp: clientOk_def ac_simps)
    from step [OF this]
    have a: ?thesis if "rc_id r \<noteq> ident \<or> rc_flags r \<noteq> requestFlags readonly"
      using that assms(3) Some True d by (auto simp: lorieResourcesShm_def)
    have b: ?thesis if "rc_id r = ident" "rc_flags r = requestFlags readonly" "ry_error (rc_reply r) \<noteq> 0"
      using that assms(3) Some True step [of ?r "[]"] ok unw by (auto simp: lorieResourcesShm_def clientOk_def)
    have c: ?thesis if "rc_id r = ident" "rc_flags r = requestFlags readonly" "ry_error (rc_reply r) = 0"
      using that assms(3) Some True step [of "?r\<lparr>rc_rights := [-1, -1]\<rparr>" "map ResGiven (filter (\<lambda>fd. 0 \<le> fd) (rc_rights r))"] ok unw
      by (auto simp: lorieResourcesShm_def clientOk_def ac_simps)
    show ?thesis using a b c by blast
  next
    case False
    let ?r = "r\<lparr>rc_id := ident, rc_flags := requestFlags readonly, rc_sent := False, rc_timer := timer\<rparr>"
    obtain d es1 where d: "disconnect ?r = (d, es1)" by (cases "disconnect ?r") auto
    note dc = disconnect_conserves [OF d]
    have "?thesis" if "0 \<le> rc_fd r" "\<not> rc_pending r" "\<not> timer \<or> \<not> notify"
    proof -
      have "fdm (rc_fd d # rc_rights d) + gone es1 = fdm (rc_fd r # rc_rights r)" "clientOk d"
        using dc ok False that(1,2) by (auto simp: clientOk_def)
      from step [OF this] show ?thesis using that assms(3) Some False d by (auto simp: lorieResourcesShm_def Let_def)
    qed
    moreover have "?thesis" if "0 \<le> rc_fd r" "\<not> rc_pending r" "timer" "notify"
      using that assms(3) Some False step [of "?r\<lparr>rc_pending := True, rc_watched := True\<rparr>" "[]"] ok
      by (auto simp: lorieResourcesShm_def clientOk_def Let_def)
    moreover have ?thesis if "rc_fd r < 0 \<or> rc_pending r"
      using that assms Some False by (auto simp: lorieResourcesShm_def)
    ultimately show ?thesis by fastforce
  qed
qed

text \<open>
  C25: descriptors are neither lost nor closed twice: whatever arrives (connections, packets with any
  number of descriptors, timeouts, clients that go away, requests), every descriptor held before
  or brought in is afterwards held, or was closed once, or was handed on once; and the records
  of the clients stay consistent.
\<close>

theorem resource_descriptors_conserved:
  assumes "resOk st" "resEnabled op st" "st1 = runRes maxClients op st"
  shows "\<exists>es. rs_log st1 = rs_log st @ es \<and> held st1 + gone es = held st + fdm (incoming op st) \<and> resOk st1"
proof (cases op)
  case (OpAccept calloc timer notify fd)
  let ?s = "st\<lparr>rs_admissions := \<lparr>ad_fd = fd, ad_timer = timer\<rparr> # rs_admissions st\<rparr>"
  have "held ?s = held st + {#fd#}" "resOk ?s" "0 < length (rs_admissions ?s)"
    using assms(1,2) OpAccept by (auto simp: held_def resOk_def)
  with discard_conserves [of 0 ?s] resOk_discard [of ?s 0] show ?thesis
    using assms OpAccept by (auto simp: lorieResourcesAccept_def Let_def)
next
  case (OpAdmit a k)
  then show ?thesis using admit_conserves [OF assms(1)] assms(2,3) by simp
next
  case (OpAdmissionExpired k)
  then show ?thesis using discard_conserves [of k st] resOk_discard [OF assms(1), of k] assms(2,3) by (auto simp: admission_expired_def)
next
  case (OpProgress a i)
  then obtain r where r: "i < length (rs_resources st)" "rs_resources st ! i = Some r" "rc_watched r" "clientAt i st = Some r"
    using assms(2) by (auto simp: clientAt_def split: if_splits)
  obtain r1 es where p: "progress a i r = (r1, es)" by (cases "progress a i r") auto
  have "\<forall>fd \<in> set (arrivals (pa_receive a)). 0 \<le> fd" using assms(2) OpProgress by simp
  from progress_conserves [OF p resOk_client [OF assms(1) r(4)] r(3) this]
  have "clientFds (Some r1) + gone es = clientFds (rs_resources st ! i) + fdm (incoming op st)" "clientOk r1"
    using r(2,4) OpProgress by simp_all
  with held_onClient [OF r(1) this(1)] resOk_onClient [OF assms(1), of "(Some r1, es)" i] show ?thesis
    using assms(3) OpProgress r(4) p by (auto simp: onClient_def)
next
  case (OpExpired i)
  then obtain r where r: "i < length (rs_resources st)" "rs_resources st ! i = Some r" "clientAt i st = Some r"
    using assms(2) by (auto simp: clientAt_def split: if_splits)
  obtain r1 es where p: "finish i r (- ETIMEDOUT) = (r1, es)" by (cases "finish i r (- ETIMEDOUT)") auto
  have "clientFds (Some r1) + gone es = clientFds (rs_resources st ! i) + {#}" "clientOk r1"
    using finish_conserves(1,2) [OF p] resOk_client [OF assms(1) r(3)] r(2) by (simp_all add: clientOk_def)
  with held_onClient [OF r(1) this(1)] resOk_onClient [OF assms(1), of "(Some r1, es)" i] show ?thesis
    using assms(3) OpExpired r(3) p by (auto simp: onClient_def expired_def)
next
  case (OpGone i)
  show ?thesis
  proof (cases "rs_resources st ! i")
    case None
    then show ?thesis using assms OpGone by (simp add: client_state_def)
  next
    case (Some r)
    obtain d es where d: "disconnect r = (d, es)" by (cases "disconnect r") auto
    then have "clientFds None + gone (es @ close_rights (rc_rights d)) = clientFds (rs_resources st ! i) + {#}"
      using Some by (auto simp: disconnect_def split: if_splits)
    with held_onClient [OF _ this] resOk_onClient [OF assms(1), of "(None, es @ close_rights (rc_rights d))" i] show ?thesis
      using assms(2,3) OpGone Some d by (auto simp: client_state_def onClient_def)
  qed
next
  case (OpShm timer notify i ident readonly)
  then show ?thesis using shm_conserves [OF assms(1)] assms(2,3) by simp
qed

text \<open>
  C26: a suspended client never waits for ever: while its request is unanswered a timer runs and the
  server watches the socket; when the timer runs out the client is resumed, its repeated
  request fails with a timeout instead of suspending it again, the socket is closed and no other
  client is touched.
\<close>

theorem resource_wait_ends:
  assumes "resOk st" "clientAt i st = Some r" "rc_pending r" "\<not> rc_ready r" "rc_flags r = requestFlags readonly"
    and "st1 = runRes maxClients (OpExpired i) st"
  shows "resEnabled (OpExpired i) st \<and> rc_watched r
    \<and> (\<exists>es. rs_log st1 = rs_log st @ es \<and> ResAttend i \<in> set es \<and> ResClosed (rc_fd r) \<in> set es)
    \<and> fst (lorieResourcesShm timer notify i (rc_id r) readonly st1) = (- ETIMEDOUT, [-1, -1], 0)
    \<and> (\<forall>j. j \<noteq> i \<longrightarrow> clientAt j st1 = clientAt j st)"
proof -
  have ok: "clientOk r" by (rule resOk_client [OF assms(1,2)])
  then have w: "rc_watched r" "rc_timer r" "0 \<le> rc_fd r" using assms(3,4) by (auto simp: clientOk_def)
  have i: "i < length (rs_resources st)" "rs_resources st ! i = Some r" using assms(2) by (auto simp: clientAt_def split: if_splits)
  have st1: "st1 = onClient i (Some (fst (finish i r (- ETIMEDOUT))), snd (finish i r (- ETIMEDOUT))) st"
    using assms(2,6) by (simp add: expired_def case_prod_unfold Let_def)
  let ?r = "fst (finish i r (- ETIMEDOUT))"
  have f: "rc_ready ?r" "ry_error (rc_reply ?r) = - ETIMEDOUT" "rc_id ?r = rc_id r" "rc_flags ?r = rc_flags r"
    by (auto simp: finish_def disconnect_def Let_def)
  have "rs_resources st1 ! i = Some ?r" using i(1) by (simp add: st1 onClient_def)
  then have "fst (lorieResourcesShm timer notify i (rc_id r) readonly st1) = (- ETIMEDOUT, [-1, -1], 0)"
    using f assms(5) by (auto simp: lorieResourcesShm_def Let_def case_prod_unfold)
  moreover have "ResAttend i \<in> set (snd (finish i r (- ETIMEDOUT)))" "ResClosed (rc_fd r) \<in> set (snd (finish i r (- ETIMEDOUT)))"
    using assms(3) w(3) by (auto simp: finish_def disconnect_def Let_def)
  moreover have "clientAt j st1 = clientAt j st" if "j \<noteq> i" for j using that by (simp add: st1 clientAt_def onClient_def)
  ultimately show ?thesis using w assms(2) by (auto simp: st1 onClient_def)
qed

definition demoRes :: resState where
  "demoRes = \<lparr>rs_resources = [None, Some ((freshClient 5)\<lparr>rc_pending := True, rc_timer := True, rc_watched := True, rc_id := 9\<rparr>)],
     rs_admissions = [\<lparr>ad_fd = 7, ad_timer = True\<rparr>], rs_log = []\<rparr>"

lemma demoRes_ok: "resOk demoRes"
  by (simp add: resOk_def demoRes_def clientOk_def freshClient_def)

theorem resource_descriptors_conserved_witness:
  "\<exists>es. rs_log (runRes 10 (OpAdmissionExpired 0) demoRes) = es \<and> held (runRes 10 (OpAdmissionExpired 0) demoRes) + gone es = {#5, 7#}"
proof -
  have "held demoRes = {#5, 7#}" by (simp add: held_def demoRes_def freshClient_def)
  then show ?thesis using resource_descriptors_conserved [OF demoRes_ok _ refl, of "OpAdmissionExpired 0" 10]
    by (simp add: demoRes_def)
qed

theorem resource_wait_ends_witness:
  "fst (lorieResourcesShm True True 1 9 False (runRes 10 (OpExpired 1) demoRes)) = (- ETIMEDOUT, [-1, -1], 0)"
  using resource_wait_ends [OF demoRes_ok _ _ _ _ refl, where i = 1 and readonly = False and timer = True and notify = True and maxClients = 10
      and r = "(freshClient 5)\<lparr>rc_pending := True, rc_timer := True, rc_watched := True, rc_id := 9\<rparr>"]
  by (simp add: demoRes_def clientAt_def freshClient_def requestFlags_def)

end
