(* ===== verification/Output_Frames.thy ===== *)
theory Output_Frames
  imports Family_Geometry Screen "HOL-Library.Sublist"
begin

text \<open>
  Frames of the outputs (\<open>window_outputs.c\<close>, second half): placing and sizing windows for their
  outputs (\<open>loriePrepareOutputs\<close>), the images of redirected windows with their damage, and the
  publication of an output as layers followed by one frame (\<open>loriePublishOutputs\<close>).  Windows and
  families come from \<open>Window_Model\<close>, selections from \<open>Outputs\<close>, the screen from \<open>Screen\<close>.
\<close>

section \<open>State\<close>

text \<open>\<open>im_damage\<close> names a damage object of the server; images are found by their window.\<close>

record WindowImage =
  im_window :: XID
  im_pixmap :: "nat option"
  im_damage :: "nat option"
  im_changed :: bool
  im_used :: bool
  im_redirected :: bool

record outputFrame =
  of_output :: u32
  of_window :: u32
  of_width :: int
  of_height :: int
  of_bufferId :: nat
  of_revision :: nat
  of_presentation :: u32
  of_viewport :: LorieShellRect

datatype frameEffect =
    ConfigurePosition wptr int int
  | ConfigureSize wptr int int
  | SendFamilyGeometry u32 LorieFamilyGeometry
  | LockPixels
  | UnlockPixels
  | RegisterBuffer nat
  | SendLayer outputLayer
  | SendFrame outputFrame

text \<open>
  What the server answers: \<open>fv_border\<close> is the origin of a window less its border, \<open>fv_configure\<close> the
  effect of \<open>ConfigureWindow\<close> on the windows, \<open>fv_export\<close> the buffer \<open>lorieExportPixmap\<close> gives for a
  pixmap, \<open>fv_hostSize\<close> the host's opinion on a size.
\<close>

record 'r frameServer =
  fv_hasRoot :: bool
  fv_env :: wmEnv
  fv_regions :: "'r regionServer"
  fv_rr :: rrServer
  fv_tree :: wtree
  fv_pixmap :: "wptr \<Rightarrow> nat"
  fv_screenPixmap :: nat
  fv_pixmapSize :: "nat \<Rightarrow> int \<times> int"
  fv_depth :: "wptr \<Rightarrow> nat"
  fv_redirectOk :: "wptr \<Rightarrow> bool"
  fv_damageOk :: "wptr \<Rightarrow> bool"
  fv_export :: "nat \<Rightarrow> nat option"
  fv_border :: "wstore \<Rightarrow> wptr \<Rightarrow> int \<times> int"
  fv_configure :: "frameEffect \<Rightarrow> wstore \<Rightarrow> wstore"
  fv_hostSize :: "LorieWindowConstraints \<Rightarrow> int \<times> int \<Rightarrow> int \<times> int"

text \<open>
  \<open>fr_damaged\<close>: the damage region is not empty; \<open>fr_liveDamage\<close>: the damage objects that exist;
  \<open>fr_redirects\<close>: how often the server redirected the window.
\<close>

record frameState =
  fr_wm :: wmState
  fr_selections :: "OutputSelection list"
  fr_images :: "WindowImage list"
  fr_screen :: screenState
  fr_damaged :: "nat \<Rightarrow> bool"
  fr_liveDamage :: "nat set"
  fr_nextDamage :: nat
  fr_redirects :: "XID \<Rightarrow> nat"
  fr_log :: "frameEffect list"

definition emitFr :: "frameEffect \<Rightarrow> frameState \<Rightarrow> frameState" where
  "emitFr e st = st\<lparr>fr_log := fr_log st @ [e]\<rparr>"

definition frStore :: "frameState \<Rightarrow> wstore" where
  "frStore st = wm_store (fr_wm st)"

section \<open>Positions and sizes\<close>

definition configure :: "'r frameServer \<Rightarrow> frameEffect \<Rightarrow> frameState \<Rightarrow> frameState" where
  "configure sv e st = emitFr e (st\<lparr>fr_wm := (fr_wm st)\<lparr>wm_store := fv_configure sv e (frStore st)\<rparr>\<rparr>)"

text \<open>\<open>None\<close> when the climb to the top level does not end.\<close>

definition moveContent :: "'r frameServer \<Rightarrow> wptr \<Rightarrow> int \<Rightarrow> int \<Rightarrow> frameState \<Rightarrow> frameState option" where
  "moveContent sv window x y st =
     (let s = frStore st
      in if x = w_x (s window) \<and> y = w_y (s window) then Some st
         else map_option (\<lambda>t.
           let (bx, by1) = fv_border sv s t
           in configure sv (ConfigurePosition t (bx + x - w_x (s window)) (by1 + y - w_y (s window))) st)
         (stackTop (\<lambda>w. w_parent (s w)) (wm_root (fr_wm st)) window))"

record FamilyPlacement =
  fp_right :: int
  fp_bottom :: int
  fp_count :: nat

definition transientX :: "wstore \<Rightarrow> wptr option \<Rightarrow> wptr \<Rightarrow> wptr \<Rightarrow> bool \<Rightarrow> int" where
  "transientX s parent owner w ext =
     (let x = (case parent of Some p \<Rightarrow> lorieCenterTransientAxis (w_width (s w)) (w_x (s p)) (w_width (s p)) | None \<Rightarrow> w_x (s w))
      in if ext then max 0 x else loriePlaceTransientAxis x (w_width (s w)) (w_x (s owner)) (w_width (s owner)))"

definition transientY :: "wstore \<Rightarrow> wptr option \<Rightarrow> wptr \<Rightarrow> wptr \<Rightarrow> bool \<Rightarrow> int" where
  "transientY s parent owner w ext =
     (let y = (case parent of Some p \<Rightarrow> lorieCenterTransientAxis (w_height (s w)) (w_y (s p)) (w_height (s p)) | None \<Rightarrow> w_y (s w))
      in if ext then max 0 y else loriePlaceTransientAxis y (w_height (s w)) (w_y (s owner)) (w_height (s owner)))"

definition placeTransient ::
    "'r frameServer \<Rightarrow> wptr \<Rightarrow> bool \<Rightarrow> wptr \<Rightarrow> FamilyPlacement \<times> frameState \<Rightarrow> (FamilyPlacement \<times> frameState) option" where
  "placeTransient sv owner ext w ps =
     (let (pl, st) = ps; pl1 = pl\<lparr>fp_count := fp_count pl + 1\<rparr>
      in if fp_count pl \<ge> LORIE_MAX_FAMILY_LAYERS \<or> w = owner then Some (pl1, st)
         else let (parent, wm) = lorieWindowInitialDialogParent (fv_env sv) w (fr_wm st); st = st\<lparr>fr_wm := wm\<rparr>; s = frStore st;
                  x = transientX s parent owner w ext; y = transientY s parent owner w ext
         in map_option (\<lambda>st. (pl1\<lparr>fp_right := max (fp_right pl) (x + w_width (frStore st w)),
                                  fp_bottom := max (fp_bottom pl) (y + w_height (frStore st w))\<rparr>, st))
              (moveContent sv w x y st))"

fun placeAll :: "'r frameServer \<Rightarrow> wptr \<Rightarrow> bool \<Rightarrow> wptr list \<Rightarrow> FamilyPlacement \<times> frameState \<Rightarrow> (FamilyPlacement \<times> frameState) option" where
  "placeAll sv owner ext [] ps = Some ps"
| "placeAll sv owner ext (w # ws) ps = Option.bind (placeTransient sv owner ext w ps) (placeAll sv owner ext ws)"

definition notifyScreen :: "'r frameServer \<Rightarrow> int \<Rightarrow> int \<Rightarrow> frameState \<Rightarrow> frameState" where
  "notifyScreen sv width height st =
     st\<lparr>fr_screen := lorieConfigureNotify (fv_rr sv) (fv_tree sv) width height 60 None (fr_screen st)\<rparr>"

text \<open>The size an output asks for: the host's, within the limits of the client, if the output decides.\<close>

definition wantedSize :: "'r frameServer \<Rightarrow> OutputSelection \<Rightarrow> wptr \<Rightarrow> frameState \<Rightarrow> int \<times> int" where
  "wantedSize sv output w st =
     (if os_ownsSize output
      then let c = lorieWindowConstraints (fr_wm st) w; (width, height) = fv_hostSize sv c (os_width output, os_height output)
           in (max (minWidth c) (min (maxWidth c) width), max (minHeight c) (min (maxHeight c) height))
      else (w_width (frStore st w), w_height (frStore st w)))"

definition prepareWindow :: "'r frameServer \<Rightarrow> OutputSelection \<Rightarrow> wptr \<Rightarrow> frameState \<Rightarrow> frameState option" where
  "prepareWindow sv output w st =
     (let (width, height) = wantedSize sv output w st;
          x = max 0 (w_x (frStore st w)); y = max 0 (w_y (frStore st w))
      in Option.bind (moveContent sv w x y st) (\<lambda>st1.
         let st2 = (if width \<noteq> w_width (frStore st1 w) \<or> height \<noteq> w_height (frStore st1 w)
                    then configure sv (ConfigureSize w width height) st1 else st1);
             pl = \<lparr>fp_right = x + width, fp_bottom = y + height, fp_count = 0\<rparr>
         in Option.bind (lorieWindowFamily (fv_env sv) (fr_wm st2) w) (\<lambda>ws.
            map_option (\<lambda>(pl, st3).
              let screenWidth = max (sc_width (fr_screen st3)) (fp_right pl); screenHeight = max (sc_height (fr_screen st3)) (fp_bottom pl)
              in if screenWidth \<noteq> sc_width (fr_screen st3) \<or> screenHeight \<noteq> sc_height (fr_screen st3)
                 then notifyScreen sv screenWidth screenHeight st3 else st3)
            (placeAll sv w (separated (fr_selections st2) output) ws (pl, st2)))))"

definition prepareOutput :: "'r frameServer \<Rightarrow> nat \<Rightarrow> frameState \<Rightarrow> frameState option" where
  "prepareOutput sv i st =
     (let output = fr_selections st ! i; resize = os_resizePending output
      in if (\<not> os_resizePending output \<and> \<not> os_geometryPending output) \<or> os_dead output \<or> borrowed output then Some st
         else let output = output\<lparr>os_resizePending := False, os_geometryPending := False\<rparr>;
                  st1 = st\<lparr>fr_selections := (fr_selections st)[i := output]\<rparr>
         in if os_window output = 0
            then Some (if resize then notifyScreen sv (os_width output) (os_height output) st1 else st1)
            else case we_find (fv_env sv) (os_window output) of None \<Rightarrow> Some st1
              | Some w \<Rightarrow> prepareWindow sv output w st1)"

fun prepareAll :: "'r frameServer \<Rightarrow> nat list \<Rightarrow> frameState \<Rightarrow> frameState option" where
  "prepareAll sv [] st = Some st"
| "prepareAll sv (i # is) st = Option.bind (prepareOutput sv i st) (prepareAll sv is)"

definition loriePrepareOutputs :: "'r frameServer \<Rightarrow> frameState \<Rightarrow> frameState option" where
  "loriePrepareOutputs sv st = (if fv_hasRoot sv then prepareAll sv [0..<length (fr_selections st)] st else Some st)"

section \<open>Images of windows\<close>

text \<open>Destroying a damage object calls back \<open>damageDestroyed\<close>, which clears the image.\<close>

definition damageDestroyed :: "WindowImage \<Rightarrow> WindowImage" where
  "damageDestroyed im = im\<lparr>im_pixmap := None, im_damage := None, im_changed := True\<rparr>"

definition damageDestroy :: "WindowImage \<Rightarrow> frameState \<Rightarrow> WindowImage \<times> frameState" where
  "damageDestroy im st =
     (case im_damage im of None \<Rightarrow> (im, st)
      | Some d \<Rightarrow> (damageDestroyed im, st\<lparr>fr_liveDamage := fr_liveDamage st - {d}\<rparr>))"

definition damageCreate :: "'r frameServer \<Rightarrow> wptr \<Rightarrow> WindowImage \<Rightarrow> frameState \<Rightarrow> WindowImage \<times> frameState" where
  "damageCreate sv w im st =
     (if fv_damageOk sv w
      then let d = fr_nextDamage st
           in (im\<lparr>im_damage := Some d\<rparr>,
               st\<lparr>fr_nextDamage := d + 1, fr_liveDamage := insert d (fr_liveDamage st), fr_damaged := (fr_damaged st)(d := False)\<rparr>)
      else (im\<lparr>im_damage := None\<rparr>, st))"

definition windowPixmap :: "'r frameServer \<Rightarrow> XID \<Rightarrow> wptr \<Rightarrow> frameState \<Rightarrow> nat option" where
  "windowPixmap sv i w st =
     (let pixmap = (if w_realized (frStore st w) then Some (fv_pixmap sv w) else None)
      in if i \<noteq> 0 \<and> pixmap = Some (fv_screenPixmap sv) then None else pixmap)"

definition refreshImage :: "'r frameServer \<Rightarrow> XID \<Rightarrow> wptr \<Rightarrow> WindowImage \<Rightarrow> frameState \<Rightarrow> WindowImage \<times> frameState" where
  "refreshImage sv i w im st =
     (let im = im\<lparr>im_used := True\<rparr>;
          (im, st) = (if i \<noteq> 0 \<and> \<not> im_redirected im
            then (im\<lparr>im_redirected := fv_redirectOk sv w\<rparr>,
                  if fv_redirectOk sv w then st\<lparr>fr_redirects := (fr_redirects st)(i := fr_redirects st i + 1)\<rparr> else st)
            else (im, st));
          pixmap = windowPixmap sv i w st
      in if im_pixmap im = pixmap then (im, st)
         else let (im, st) = damageDestroy im st;
                  im = im\<lparr>im_pixmap := pixmap, im_changed := True\<rparr>
              in if pixmap \<noteq> None then damageCreate sv w im st else (im, st))"

definition imageIndex :: "XID \<Rightarrow> WindowImage list \<Rightarrow> nat option" where
  "imageIndex i ims = findIndex (\<lambda>im. im_window im = i) ims"

definition newImage :: "XID \<Rightarrow> WindowImage" where
  "newImage i = \<lparr>im_window = i, im_pixmap = None, im_damage = None, im_changed = True, im_used = False, im_redirected = False\<rparr>"

text \<open>The result is the window the image belongs to, under which it is found again.\<close>

definition imageFor :: "'r frameServer \<Rightarrow> wptr \<Rightarrow> frameState \<Rightarrow> XID option \<times> frameState" where
  "imageFor sv w st =
     (let i = (if w = wm_root (fr_wm st) then 0 else w_id (frStore st w))
      in if imageIndex i (fr_images st) = None \<and> \<not> we_callocOk (fv_env sv) then (None, st)
         else let st = (if imageIndex i (fr_images st) = None then st\<lparr>fr_images := newImage i # fr_images st\<rparr> else st);
                  k = the (imageIndex i (fr_images st));
                  (im, st) = refreshImage sv i w (fr_images st ! k) st
              in (Some i, st\<lparr>fr_images := (fr_images st)[k := im]\<rparr>))"

definition imageOf :: "XID \<Rightarrow> frameState \<Rightarrow> WindowImage option" where
  "imageOf i st = find (\<lambda>im. im_window im = i) (fr_images st)"

text \<open>\<open>pruneImages\<close>: images that were used are marked as seen, the others are given up.\<close>

definition keepImage :: "WindowImage \<Rightarrow> frameState \<Rightarrow> WindowImage \<times> frameState" where
  "keepImage im st = (im\<lparr>im_changed := False\<rparr>,
     case im_damage im of None \<Rightarrow> st | Some d \<Rightarrow> st\<lparr>fr_damaged := (fr_damaged st)(d := False)\<rparr>)"

definition dropImage :: "'r frameServer \<Rightarrow> WindowImage \<Rightarrow> frameState \<Rightarrow> frameState" where
  "dropImage sv im st =
     (let st1 = snd (damageDestroy im st)
      in if im_redirected im \<and> we_find (fv_env sv) (im_window im) \<noteq> None
         then st1\<lparr>fr_redirects := (fr_redirects st1)(im_window im := fr_redirects st1 (im_window im) - 1)\<rparr> else st1)"

fun pruneList :: "'r frameServer \<Rightarrow> WindowImage list \<Rightarrow> frameState \<Rightarrow> WindowImage list \<times> frameState" where
  "pruneList sv [] st = ([], st)"
| "pruneList sv (im # ims) st =
     (if im_used im
      then let (im1, st1) = keepImage im st; (rest, st2) = pruneList sv ims st1 in (im1 # rest, st2)
      else pruneList sv ims (dropImage sv im st))"

definition pruneImages :: "'r frameServer \<Rightarrow> frameState \<Rightarrow> frameState" where
  "pruneImages sv st = (let (ims, st1) = pruneList sv (fr_images st) st in st1\<lparr>fr_images := ims\<rparr>)"

definition unuseImages :: "frameState \<Rightarrow> frameState" where
  "unuseImages st = st\<lparr>fr_images := map (\<lambda>im. im\<lparr>im_used := False\<rparr>) (fr_images st)\<rparr>"

text \<open>The images' part of \<open>lorieResetOutputs\<close> and of \<open>lorieOutputWindowDestroyed\<close>.\<close>

definition resetImages :: "'r frameServer \<Rightarrow> frameState \<Rightarrow> frameState" where
  "resetImages sv st = pruneImages sv (unuseImages st)"

definition imageWindowDestroyed :: "XID \<Rightarrow> frameState \<Rightarrow> frameState" where
  "imageWindowDestroyed i st =
     st\<lparr>fr_images := map (\<lambda>im. if im_window im = i then im\<lparr>im_redirected := False\<rparr> else im) (fr_images st),
        fr_redirects := (fr_redirects st)(i := 0)\<rparr>"

section \<open>Publishing\<close>

record FamilyFrame =
  ff_changed :: bool
  ff_images :: "XID list"
  ff_layers :: "outputLayer list"

definition layerOf :: "'r frameServer \<Rightarrow> wptr \<Rightarrow> wptr \<Rightarrow> nat \<Rightarrow> frameState \<Rightarrow> outputLayer" where
  "layerOf sv owner w pixmap st =
     (let s = frStore st
      in \<lparr>ol_output = 0, ol_window = w_id (s w), ol_x = w_x (s w) - w_x (s owner), ol_y = w_y (s w) - w_y (s owner),
          ol_width = fst (fv_pixmapSize sv pixmap), ol_height = snd (fv_pixmapSize sv pixmap),
          ol_alpha = (fv_depth sv w = 32), ol_bufferId = 0\<rparr>)"

definition imageDirty :: "WindowImage \<Rightarrow> frameState \<Rightarrow> bool" where
  "imageDirty im st \<longleftrightarrow> im_changed im \<or> (case im_damage im of None \<Rightarrow> False | Some d \<Rightarrow> fr_damaged st d)"

definition appendLayer :: "'r frameServer \<Rightarrow> wptr \<Rightarrow> bool \<Rightarrow> wptr \<Rightarrow> FamilyFrame \<times> frameState \<Rightarrow> FamilyFrame \<times> frameState" where
  "appendLayer sv owner childrenOnly w fs =
     (let (frame, st) = fs
      in if childrenOnly \<and> w = owner then fs
         else if length (ff_layers frame) = LORIE_MAX_FAMILY_LAYERS then fs
         else let (image, st1) = imageFor sv w st
         in case image of None \<Rightarrow> (frame, st1)
            | Some i \<Rightarrow>
                (case imageOf i st1 of None \<Rightarrow> (frame, st1)
                 | Some im \<Rightarrow>
                     (case im_pixmap im of None \<Rightarrow> (frame, st1)
                      | Some p \<Rightarrow> (frame\<lparr>ff_images := ff_images frame @ [i], ff_changed := (ff_changed frame \<or> imageDirty im st1),
                                    ff_layers := ff_layers frame @ [layerOf sv owner w p st1]\<rparr>, st1))))"

text \<open>The windows of which an output shows layers.\<close>

definition frameWindows :: "'r frameServer \<Rightarrow> OutputSelection \<Rightarrow> wptr \<Rightarrow> frameState \<Rightarrow> wptr list option" where
  "frameWindows sv output w st =
     (if \<not> w_realized (frStore st w) then Some []
      else if os_parent output \<noteq> 0 then lorieWindowFamily (fv_env sv) (fr_wm st) w
      else if separated (fr_selections st) output then Some [w]
      else if os_window output \<noteq> 0 then lorieWindowFamily (fv_env sv) (fr_wm st) w
      else Some [w])"

abbreviation noFamily :: LorieFamilyGeometry where
  "noFamily \<equiv> \<lparr>fg_width = 0, fg_height = 0, fg_inputComplete = False, fg_paint = noRect, fg_input = []\<rparr>"

text \<open>A dependent output reports its geometry when it may have changed.\<close>

definition publishGeometry :: "'r frameServer \<Rightarrow> nat \<Rightarrow> wptr \<Rightarrow> frameState \<Rightarrow> frameState option" where
  "publishGeometry sv i w st =
     (let output = fr_selections st ! i
      in if os_parent output \<noteq> 0 \<and> (os_geometryPending output \<or> \<not> os_familyPublished output \<or> os_dead output)
         then map_option (\<lambda>geometry.
           let o1 = (if \<not> os_familyPublished output \<or> geometry \<noteq> os_family output
                     then output\<lparr>os_family := geometry, os_familyPublished := True\<rparr> else output);
               st1 = (if \<not> os_familyPublished output \<or> geometry \<noteq> os_family output
                      then emitFr (SendFamilyGeometry (os_id output) geometry) st else st)
           in st1\<lparr>fr_selections := (fr_selections st1)[i := o1\<lparr>os_geometryPending := False\<rparr>]\<rparr>)
           (if os_dead output then Some noFamily else lorieWindowFamilyGeometry (fv_regions sv) (fv_env sv) (fr_wm st) w True)
         else Some st)"

definition frameSize :: "wstore \<Rightarrow> wptr \<Rightarrow> outputLayer list \<Rightarrow> int \<times> int" where
  "frameSize s w layers =
     (if layers = [] then (0, 0)
      else (fold (\<lambda>l. max (ol_x l + ol_width l)) layers (w_width (s w)), fold (\<lambda>l. max (ol_y l + ol_height l)) layers (w_height (s w))))"

text \<open>The messages for the layers whose pixmap could be exported.\<close>

fun layerMessages :: "(outputLayer \<times> nat option) list \<Rightarrow> frameEffect list" where
  "layerMessages [] = []"
| "layerMessages ((l, None) # ls) = layerMessages ls"
| "layerMessages ((l, Some b) # ls) = RegisterBuffer b # SendLayer (l\<lparr>ol_bufferId := b\<rparr>) # layerMessages ls"

definition ownBuffer :: "u32 \<Rightarrow> (outputLayer \<times> nat option) list \<Rightarrow> nat" where
  "ownBuffer window ls = fold (\<lambda>(l, b) acc. if ol_window l = window then (case b of Some n \<Rightarrow> n | None \<Rightarrow> acc) else acc) ls 0"

definition exports :: "'r frameServer \<Rightarrow> FamilyFrame \<Rightarrow> frameState \<Rightarrow> nat option list" where
  "exports sv frame st =
     map (\<lambda>i. Option.bind (Option.bind (imageOf i st) im_pixmap) (fv_export sv)) (ff_images frame)"

definition sendFrame :: "'r frameServer \<Rightarrow> nat \<Rightarrow> wptr \<Rightarrow> FamilyFrame \<Rightarrow> frameState \<Rightarrow> frameState" where
  "sendFrame sv i w frame st =
     (let output = fr_selections st ! i; layers = ff_layers frame; (width, height) = frameSize (frStore st) w layers;
          shown = zip layers (exports sv frame st);
          event = \<lparr>of_output = os_id output, of_window = os_window output, of_width = width, of_height = height,
             of_bufferId = ownBuffer (w_id (frStore st w)) shown, of_revision = os_revision output + 1,
             of_presentation = os_presentation output, of_viewport = os_viewport output\<rparr>
      in st\<lparr>fr_selections := (fr_selections st)[i := output\<lparr>os_layers := layers, os_revision := os_revision output + 1,
              os_contentWidth := width, os_contentHeight := height, os_changed := False\<rparr>],
            fr_log := fr_log st @ [LockPixels, UnlockPixels] @ layerMessages shown @ [SendFrame event]\<rparr>)"

definition publishOutput :: "'r frameServer \<Rightarrow> nat \<Rightarrow> frameState \<Rightarrow> frameState option" where
  "publishOutput sv i st =
     (let output = fr_selections st ! i;
          found = (if os_dead output then None
                   else if os_window output = 0 then Some (wm_root (fr_wm st)) else we_find (fv_env sv) (os_window output));
          w = (case found of Some w \<Rightarrow> w | None \<Rightarrow> wm_root (fr_wm st));
          output = (if found \<noteq> None then output\<lparr>os_seen := True\<rparr> else if os_seen output then output\<lparr>os_dead := True\<rparr> else output);
          st = st\<lparr>fr_selections := (fr_selections st)[i := output]\<rparr>
      in Option.bind (if found = None then Some [] else frameWindows sv output w st) (\<lambda>ws.
         let (frame, st) = fold (appendLayer sv w (os_parent output \<noteq> 0)) ws (\<lparr>ff_changed = False, ff_images = [], ff_layers = []\<rparr>, st)
         in Option.bind (publishGeometry sv i w st) (\<lambda>st.
            let frame = frame\<lparr>ff_layers := map (\<lambda>l. l\<lparr>ol_output := os_id output\<rparr>) (ff_layers frame)\<rparr>; output = fr_selections st ! i
            in if \<not> os_changed output \<and> \<not> ff_changed frame \<and> os_layers output = ff_layers frame then Some st
               else Some (sendFrame sv i w frame st))))"

fun publishAll :: "'r frameServer \<Rightarrow> nat list \<Rightarrow> frameState \<Rightarrow> frameState option" where
  "publishAll sv [] st = Some st"
| "publishAll sv (i # is) st = Option.bind (publishOutput sv i st) (publishAll sv is)"

definition loriePublishOutputs :: "'r frameServer \<Rightarrow> frameState \<Rightarrow> frameState option" where
  "loriePublishOutputs sv st =
     map_option (pruneImages sv) (publishAll sv [0..<length (fr_selections st)] (unuseImages st))"

section \<open>Images, damage and redirection stay in step\<close>

definition damages :: "WindowImage list \<Rightarrow> nat list" where
  "damages ims = List.map_filter im_damage ims"

definition redirected :: "WindowImage list \<Rightarrow> XID list" where
  "redirected ims = map im_window (filter im_redirected ims)"

definition imgInv :: "WindowImage list \<Rightarrow> frameState \<Rightarrow> bool" where
  "imgInv ims st \<longleftrightarrow> distinct (map im_window ims) \<and> distinct (damages ims) \<and> fr_liveDamage st = set (damages ims)
     \<and> (\<forall>d \<in> set (damages ims). d < fr_nextDamage st)
     \<and> (\<forall>i. fr_redirects st i = (if i \<in> set (redirected ims) then 1 else 0))"

text \<open>
  Every damage object that exists belongs to exactly one image, and a window is redirected once if
  it has an image marked so and not at all otherwise.
\<close>

definition imagesOk :: "frameState \<Rightarrow> bool" where
  "imagesOk st \<longleftrightarrow> imgInv (fr_images st) st"

lemma damages_simps [simp]:
  "damages [] = []" "damages (im # ims) = (case im_damage im of None \<Rightarrow> damages ims | Some d \<Rightarrow> d # damages ims)"
  "damages (as @ bs) = damages as @ damages bs"
  by (auto simp: damages_def List.map_filter_def split: option.splits)

lemma redirected_simps [simp]:
  "redirected [] = []" "redirected (im # ims) = (if im_redirected im then im_window im # redirected ims else redirected ims)"
  "redirected (as @ bs) = redirected as @ redirected bs"
  by (auto simp: redirected_def)

lemma redirected_windows: "set (redirected ims) \<subseteq> im_window ` set ims"
  by (auto simp: redirected_def)

lemma imgInv_same:
  assumes "imgInv (a @ im # b) st" "im_window im2 = im_window im" "im_damage im2 = im_damage im" "im_redirected im2 = im_redirected im"
    and "fr_liveDamage st2 = fr_liveDamage st" "fr_nextDamage st2 = fr_nextDamage st" "fr_redirects st2 = fr_redirects st"
  shows "imgInv (a @ im2 # b) st2"
  using assms unfolding imgInv_def by auto

lemma imgInv_redirect:
  assumes "imgInv (a @ im # b) st" "\<not> im_redirected im" "i = im_window im"
  shows "imgInv (a @ im\<lparr>im_redirected := True\<rparr> # b) (st\<lparr>fr_redirects := (fr_redirects st)(i := fr_redirects st i + 1)\<rparr>)"
proof -
  have "i \<notin> set (redirected a)" "i \<notin> set (redirected b)"
    using assms redirected_windows [of a] redirected_windows [of b] unfolding imgInv_def by auto
  with assms show ?thesis unfolding imgInv_def by auto
qed

lemma imgInv_destroy:
  assumes "imgInv (a @ im # b) st" "damageDestroy im st = (im2, st2)"
  shows "imgInv (a @ im2 # b) st2 \<and> im_damage im2 = None \<and> im_window im2 = im_window im"
  using assms unfolding imgInv_def
  by (auto simp: damageDestroy_def damageDestroyed_def split: option.splits)

lemma imgInv_create:
  assumes "imgInv (a @ im # b) st" "im_damage im = None" "damageCreate sv w im st = (im2, st2)"
  shows "imgInv (a @ im2 # b) st2 \<and> im_window im2 = im_window im"
proof (cases "fv_damageOk sv w")
  case True
  let ?d = "fr_nextDamage st"
  have eq: "im2 = im\<lparr>im_damage := Some ?d\<rparr>" "fr_nextDamage st2 = ?d + 1" "fr_liveDamage st2 = insert ?d (fr_liveDamage st)"
      "fr_redirects st2 = fr_redirects st"
    using assms(3) True by (auto simp: damageCreate_def Let_def)
  have inv: "distinct (map im_window (a @ im # b))" "distinct (damages a @ damages b)" "fr_liveDamage st = set (damages a @ damages b)"
      "\<forall>d \<in> set (damages a @ damages b). d < ?d"
      "\<forall>i. fr_redirects st i = (if i \<in> set (redirected (a @ im # b)) then 1 else 0)"
    using assms(1,2) unfolding imgInv_def by simp_all
  have fresh: "?d \<notin> set (damages a @ damages b)" using inv(4) by blast
  have ds: "damages (a @ im2 # b) = damages a @ ?d # damages b" by (simp add: eq)
  have rs: "redirected (a @ im2 # b) = redirected (a @ im # b)" by (simp add: eq)
  have "distinct (damages (a @ im2 # b))" using inv(2) fresh unfolding ds by auto
  moreover have "fr_liveDamage st2 = set (damages (a @ im2 # b))" using inv(3) unfolding ds eq by auto
  moreover have "\<forall>d \<in> set (damages (a @ im2 # b)). d < fr_nextDamage st2" using inv(4) unfolding ds eq by (auto intro: less_SucI)
  moreover have "distinct (map im_window (a @ im2 # b))" using inv(1) by (simp add: eq)
  ultimately show ?thesis using inv(5) unfolding imgInv_def rs eq(4) by (simp add: eq(1))
next
  case False
  with assms show ?thesis using imgInv_same [OF assms(1), of im2 st2] by (auto simp: damageCreate_def)
qed

lemma imgInv_refresh:
  assumes "imgInv (a @ im # b) st" "i = im_window im" "refreshImage sv i w im st = (im2, st2)"
  shows "imgInv (a @ im2 # b) st2 \<and> im_window im2 = i"
proof -
  define r where "r = (if i \<noteq> 0 \<and> \<not> im_redirected im
            then ((im\<lparr>im_used := True\<rparr>)\<lparr>im_redirected := fv_redirectOk sv w\<rparr>,
                  if fv_redirectOk sv w then st\<lparr>fr_redirects := (fr_redirects st)(i := fr_redirects st i + 1)\<rparr> else st)
            else (im\<lparr>im_used := True\<rparr>, st))"
  obtain im1 st1 where r1: "r = (im1, st1)" by (cases r)
  have used: "imgInv (a @ im\<lparr>im_used := True\<rparr> # b) st" by (rule imgInv_same [OF assms(1)]) simp_all
  have one: "imgInv (a @ im1 # b) st1 \<and> im_window im1 = i"
  proof (cases "i \<noteq> 0 \<and> \<not> im_redirected im \<and> fv_redirectOk sv w")
    case True
    then show ?thesis using imgInv_redirect [OF used, of i] assms(2) r1 by (auto simp: r_def)
  next
    case False
    then have "im_redirected im1 = im_redirected im" "im_damage im1 = im_damage im" "im_window im1 = im_window im" "st1 = st"
      using r1 by (auto simp: r_def split: if_splits)
    then show ?thesis using imgInv_same [OF assms(1), of im1 st1] assms(2) by simp
  qed
  define p where "p = windowPixmap sv i w st1"
  have ref: "refreshImage sv i w im st = (if im_pixmap im1 = p then (im1, st1)
         else let (im, st) = damageDestroy im1 st1; im = im\<lparr>im_pixmap := p, im_changed := True\<rparr>
              in if p \<noteq> None then damageCreate sv w im st else (im, st))"
    unfolding refreshImage_def Let_def
    using r1 unfolding r_def p_def by (auto split: if_splits)
  obtain d sd where d: "damageDestroy im1 st1 = (d, sd)" by (cases "damageDestroy im1 st1")
  have two: "imgInv (a @ d # b) sd" "im_damage d = None" "im_window d = i" using imgInv_destroy [OF conjunct1 [OF one] d] one by auto
  have three: "imgInv (a @ d\<lparr>im_pixmap := p, im_changed := True\<rparr> # b) sd" by (rule imgInv_same [OF two(1)]) simp_all
  show ?thesis
    using assms(3) one three two imgInv_create [OF three, of sv w] unfolding ref d
    by (auto simp: Let_def split: if_splits)
qed

lemma imageIndex_nth: "imageIndex i ims = Some k \<Longrightarrow> k < length ims \<and> im_window (ims ! k) = i"
  by (auto simp: imageIndex_def dest: findIndex_Some)

lemma refreshImage_images:
  "refreshImage sv i w im st = (im2, st2) \<Longrightarrow> fr_images st2 = fr_images st \<and> fr_wm st2 = fr_wm st \<and> fr_log st2 = fr_log st
     \<and> fr_selections st2 = fr_selections st \<and> im_window im2 = im_window im \<and> im_used im2"
  by (auto simp: refreshImage_def damageDestroy_def damageDestroyed_def damageCreate_def Let_def split: if_splits option.splits prod.splits)

text \<open>\<open>imageFor\<close> leaves the images alone when it has no memory, and refreshes image \<open>k\<close> otherwise.\<close>

lemma imageFor_parts:
  fixes st :: frameState
  assumes "imageFor sv w st = (img, st2)"
  defines "i \<equiv> (if w = wm_root (fr_wm st) then 0 else w_id (frStore st w))"
  obtains (none) "st2 = st"
  | (found) s k im st3 where "s = (if imageIndex i (fr_images st) = None then st\<lparr>fr_images := newImage i # fr_images st\<rparr> else st)"
      "k < length (fr_images s)" "im_window (fr_images s ! k) = i" "refreshImage sv i w (fr_images s ! k) s = (im, st3)"
      "st2 = st3\<lparr>fr_images := (fr_images st3)[k := im]\<rparr>"
proof (cases "imageIndex i (fr_images st) = None \<and> \<not> we_callocOk (fv_env sv)")
  case True
  then have "st2 = st" using assms(1) by (simp add: imageFor_def Let_def flip: i_def)
  then show ?thesis by (rule none)
next
  case False
  define s where "s = (if imageIndex i (fr_images st) = None then st\<lparr>fr_images := newImage i # fr_images st\<rparr> else st)"
  have "\<exists>im \<in> set (fr_images s). im_window im = i"
    by (auto simp: s_def newImage_def imageIndex_def findIndex_None split: if_splits)
  then have "imageIndex i (fr_images s) \<noteq> None" by (simp add: imageIndex_def findIndex_None)
  then obtain k where k: "imageIndex i (fr_images s) = Some k" by blast
  obtain im st3 where r: "refreshImage sv i w (fr_images s ! k) s = (im, st3)" by (cases "refreshImage sv i w (fr_images s ! k) s")
  have st2: "st2 = st3\<lparr>fr_images := (fr_images st3)[k := im]\<rparr>"
    using assms(1) False k r by (auto simp: imageFor_def Let_def simp flip: i_def s_def)
  show ?thesis using found [OF s_def _ _ r st2] imageIndex_nth [OF k] by simp
qed

lemma imagesOk_imageFor:
  assumes "imagesOk st" "imageFor sv w st = (img, st2)"
  shows "imagesOk st2"
  using assms(2)
proof (cases rule: imageFor_parts)
  case (found s k im st3)
  have inv: "imagesOk s"
  proof (cases "s = st")
    case False
    let ?i = "if w = wm_root (fr_wm st) then 0 else w_id (frStore st w)"
    have none: "imageIndex ?i (fr_images st) = None" and s: "s = st\<lparr>fr_images := newImage ?i # fr_images st\<rparr>"
      using False found(1) by (auto split: if_splits)
    have "imgInv (newImage ?i # fr_images st) st"
      using assms(1) none by (auto simp: imagesOk_def imgInv_def newImage_def imageIndex_def findIndex_None)
    then show ?thesis unfolding s imagesOk_def imgInv_def by simp
  qed (simp add: assms(1))
  have split: "fr_images s = take k (fr_images s) @ fr_images s ! k # drop (Suc k) (fr_images s)"
    using found(2) by (simp add: id_take_nth_drop)
  have "imgInv (take k (fr_images s) @ fr_images s ! k # drop (Suc k) (fr_images s)) s"
    using inv split by (simp add: imagesOk_def)
  from imgInv_refresh [OF this found(3) [symmetric] found(4)]
  have "imgInv (take k (fr_images s) @ im # drop (Suc k) (fr_images s)) st3" by simp
  moreover have "(fr_images st3)[k := im] = take k (fr_images s) @ im # drop (Suc k) (fr_images s)"
    using refreshImage_images [OF found(4)] found(2) by (simp add: upd_conv_take_nth_drop)
  ultimately show ?thesis unfolding imagesOk_def found(5) by (simp add: imgInv_def)
qed (simp add: assms(1))

lemma imageFor_frame:
  "imageFor sv w st = (img, st2) \<Longrightarrow> fr_log st2 = fr_log st \<and> fr_selections st2 = fr_selections st \<and> fr_wm st2 = fr_wm st"
  by (auto simp: imageFor_def Let_def split: if_splits prod.splits dest!: refreshImage_images)

definition frameOk :: "frameState \<Rightarrow> FamilyFrame \<times> frameState \<Rightarrow> bool" where
  "frameOk st fs \<longleftrightarrow> fr_log (snd fs) = fr_log st \<and> fr_selections (snd fs) = fr_selections st \<and> fr_wm (snd fs) = fr_wm st
     \<and> length (ff_layers (fst fs)) \<le> LORIE_MAX_FAMILY_LAYERS \<and> length (ff_images (fst fs)) = length (ff_layers (fst fs))"

lemma appendLayer_frameOk: "frameOk st fs \<Longrightarrow> frameOk st (appendLayer sv owner co w fs)"
  by (auto simp: frameOk_def appendLayer_def split: prod.splits option.splits dest: imageFor_frame)

lemma fold_appendLayer_frameOk: "frameOk st fs \<Longrightarrow> frameOk st (fold (appendLayer sv owner co) ws fs)"
  by (induction ws arbitrary: fs) (simp_all add: appendLayer_frameOk)

lemma fold_max_ge: "(a :: int) \<le> fold (\<lambda>l. max (f l)) ls a"
  by (induction ls arbitrary: a) (simp, simp, meson max.bounded_iff)

lemma fold_max_mem: "l \<in> set ls \<Longrightarrow> (f l :: int) \<le> fold (\<lambda>l. max (f l)) ls a"
proof (induction ls arbitrary: a)
  case (Cons x ls)
  then show ?case using fold_max_ge [of "max (f x) a" f ls] by auto
qed simp

lemma frameSize_covers:
  "l \<in> set ls \<Longrightarrow> ol_x l + ol_width l \<le> fst (frameSize s w ls) \<and> ol_y l + ol_height l \<le> snd (frameSize s w ls)"
  by (auto simp: frameSize_def intro: fold_max_mem [where f = "\<lambda>l. ol_x l + ol_width l"] fold_max_mem [where f = "\<lambda>l. ol_y l + ol_height l"])

section \<open>What one publication sends\<close>

text \<open>
  The specification of a publication, per output: at most one report of its family, and then
  either nothing (the layers are the recorded ones) or the layers and exactly one frame after them.
\<close>

definition frameSent :: "OutputSelection \<Rightarrow> OutputSelection \<Rightarrow> frameEffect list \<Rightarrow> bool" where
  "frameSent old new r \<longleftrightarrow>
     (\<exists>bufs event. length bufs = length (os_layers new) \<and> length bufs \<le> LORIE_MAX_FAMILY_LAYERS
        \<and> r = [LockPixels, UnlockPixels] @ layerMessages (zip (os_layers new) bufs) @ [SendFrame event]
        \<and> of_output event = os_id old \<and> of_window event = os_window old
        \<and> of_revision event = os_revision old + 1 \<and> os_revision new = os_revision old + 1 \<and> \<not> os_changed new
        \<and> of_width event = os_contentWidth new \<and> of_height event = os_contentHeight new
        \<and> (\<forall>l \<in> set (os_layers new). ol_output l = os_id old
             \<and> ol_x l + ol_width l \<le> of_width event \<and> ol_y l + ol_height l \<le> of_height event))"

definition frameBlock :: "OutputSelection \<Rightarrow> OutputSelection \<Rightarrow> frameEffect list \<Rightarrow> bool" where
  "frameBlock old new b \<longleftrightarrow> os_id new = os_id old \<and> os_window new = os_window old \<and>
     (\<exists>g r. b = g @ r \<and> (g = [] \<or> os_parent old \<noteq> 0 \<and> g = [SendFamilyGeometry (os_id old) (os_family new)]) \<and>
        (r = [] \<and> \<not> os_changed old \<and> os_layers new = os_layers old \<and> os_revision new = os_revision old \<or> frameSent old new r))"

lemma sendFrame_sent:
  assumes "i < length (fr_selections st)" "length (ff_images frame) = length (ff_layers frame)"
    and "length (ff_layers frame) \<le> LORIE_MAX_FAMILY_LAYERS" "\<forall>l \<in> set (ff_layers frame). ol_output l = os_id old"
    and "old = fr_selections st ! i"
  shows "\<exists>new r. fr_selections (sendFrame sv i w frame st) = (fr_selections st)[i := new] \<and> fr_log (sendFrame sv i w frame st) = fr_log st @ r
      \<and> frameSent old new r \<and> os_id new = os_id old \<and> os_window new = os_window old \<and> os_family new = os_family old"
proof -
  obtain wd ht where size: "frameSize (frStore st) w (ff_layers frame) = (wd, ht)" by fastforce
  define bufs where "bufs = exports sv frame st"
  define event where "event = \<lparr>of_output = os_id old, of_window = os_window old, of_width = wd, of_height = ht,
      of_bufferId = ownBuffer (w_id (frStore st w)) (zip (ff_layers frame) bufs), of_revision = os_revision old + 1,
      of_presentation = os_presentation old, of_viewport = os_viewport old\<rparr>"
  define new where "new = old\<lparr>os_layers := ff_layers frame, os_revision := os_revision old + 1, os_contentWidth := wd, os_contentHeight := ht, os_changed := False\<rparr>"
  define r where "r = [LockPixels, UnlockPixels] @ layerMessages (zip (ff_layers frame) bufs) @ [SendFrame event]"
  have eq: "fr_selections (sendFrame sv i w frame st) = (fr_selections st)[i := new]" "fr_log (sendFrame sv i w frame st) = fr_log st @ r"
    by (simp_all add: new_def assms(5) sendFrame_def size Let_def r_def event_def bufs_def)
  have cov: "\<forall>l \<in> set (ff_layers frame). ol_output l = os_id old \<and> ol_x l + ol_width l \<le> wd \<and> ol_y l + ol_height l \<le> ht"
    using assms(4) frameSize_covers [of _ "ff_layers frame" "frStore st" w] size by auto
  have "length bufs = length (ff_layers frame)" using assms(2) by (simp add: bufs_def exports_def)
  with assms(3) cov have "frameSent old new r"
    unfolding frameSent_def r_def by (intro exI [of _ bufs] exI [of _ event]) (simp add: new_def event_def)
  with eq show ?thesis by (intro exI [of _ new] exI [of _ r]) (simp add: new_def)
qed

text \<open>What the steps before sending keep of an output.\<close>

definition sameFrame :: "OutputSelection \<Rightarrow> OutputSelection \<Rightarrow> bool" where
  "sameFrame a b \<longleftrightarrow> os_id b = os_id a \<and> os_window b = os_window a \<and> os_layers b = os_layers a \<and> os_revision b = os_revision a
     \<and> os_changed b = os_changed a \<and> os_parent b = os_parent a"

lemma publishGeometry_sent:
  assumes "publishGeometry sv i w st = Some st2" "i < length (fr_selections st)"
  shows "\<exists>o2 g. fr_selections st2 = (fr_selections st)[i := o2] \<and> fr_log st2 = fr_log st @ g \<and> sameFrame (fr_selections st ! i) o2
      \<and> (g = [] \<or> os_parent o2 \<noteq> 0 \<and> g = [SendFamilyGeometry (os_id o2) (os_family o2)])
      \<and> fr_images st2 = fr_images st \<and> fr_liveDamage st2 = fr_liveDamage st \<and> fr_nextDamage st2 = fr_nextDamage st
      \<and> fr_redirects st2 = fr_redirects st \<and> fr_wm st2 = fr_wm st"
proof (cases "os_parent (fr_selections st ! i) \<noteq> 0 \<and> (os_geometryPending (fr_selections st ! i)
    \<or> \<not> os_familyPublished (fr_selections st ! i) \<or> os_dead (fr_selections st ! i))")
  case True
  let ?o = "fr_selections st ! i"
  obtain geo where "(if os_dead ?o then Some noFamily else lorieWindowFamilyGeometry (fv_regions sv) (fv_env sv) (fr_wm st) w True) = Some geo"
    using assms(1) True by (auto simp: publishGeometry_def Let_def)
  then have st2: "st2 = (if \<not> os_familyPublished ?o \<or> geo \<noteq> os_family ?o
      then st\<lparr>fr_log := fr_log st @ [SendFamilyGeometry (os_id ?o) geo],
             fr_selections := (fr_selections st)[i := ?o\<lparr>os_family := geo, os_familyPublished := True, os_geometryPending := False\<rparr>]\<rparr>
      else st\<lparr>fr_selections := (fr_selections st)[i := ?o\<lparr>os_geometryPending := False\<rparr>]\<rparr>)"
    using assms(1) True
    by (cases "\<not> os_familyPublished ?o \<or> geo \<noteq> os_family ?o") (auto simp: publishGeometry_def Let_def emitFr_def)
  show ?thesis
  proof (cases "\<not> os_familyPublished ?o \<or> geo \<noteq> os_family ?o")
    case new: True
    show ?thesis unfolding st2 using new True
      by (intro exI [of _ "?o\<lparr>os_family := geo, os_familyPublished := True, os_geometryPending := False\<rparr>"]
          exI [of _ "[SendFamilyGeometry (os_id ?o) geo]"]) (simp add: sameFrame_def)
  next
    case False
    then show ?thesis unfolding st2
      by (intro exI [of _ "?o\<lparr>os_geometryPending := False\<rparr>"] exI [of _ "[]"]) (simp add: sameFrame_def)
  qed
next
  case False
  then have "st2 = st" using assms(1) by (auto simp: publishGeometry_def Let_def)
  then show ?thesis by (intro exI [of _ "fr_selections st ! i"] exI [of _ "[]"]) (simp add: sameFrame_def)
qed

lemma publishOutput_parts:
  assumes "publishOutput sv i st = Some st2" "i < length (fr_selections st)"
  obtains o1 w ws frame sta stb where
    "sameFrame (fr_selections st ! i) o1" "frameOk (st\<lparr>fr_selections := (fr_selections st)[i := o1]\<rparr>) (frame, sta)"
    "(frame, sta) = fold (appendLayer sv w (os_parent o1 \<noteq> 0)) ws
       (\<lparr>ff_changed = False, ff_images = [], ff_layers = []\<rparr>, st\<lparr>fr_selections := (fr_selections st)[i := o1]\<rparr>)"
    "publishGeometry sv i w sta = Some stb"
    "let f = frame\<lparr>ff_layers := map (\<lambda>l. l\<lparr>ol_output := os_id o1\<rparr>) (ff_layers frame)\<rparr>
     in st2 = sendFrame sv i w f stb
        \<or> st2 = stb \<and> \<not> os_changed (fr_selections stb ! i) \<and> os_layers (fr_selections stb ! i) = ff_layers f"
proof -
  let ?o = "fr_selections st ! i"
  define found where "found = (if os_dead ?o then None
      else if os_window ?o = 0 then Some (wm_root (fr_wm st)) else we_find (fv_env sv) (os_window ?o))"
  define w where "w = (case found of Some w \<Rightarrow> w | None \<Rightarrow> wm_root (fr_wm st))"
  define o1 where "o1 = (if found \<noteq> None then ?o\<lparr>os_seen := True\<rparr> else if os_seen ?o then ?o\<lparr>os_dead := True\<rparr> else ?o)"
  define st1 where "st1 = st\<lparr>fr_selections := (fr_selections st)[i := o1]\<rparr>"
  note pub = assms(1) [unfolded publishOutput_def Let_def, folded found_def, folded w_def o1_def, folded st1_def]
  from pub obtain ws where ws: "(if found = None then Some [] else frameWindows sv o1 w st1) = Some ws"
    by (auto simp: bind_eq_Some_conv)
  obtain frame sta where fs: "fold (appendLayer sv w (os_parent o1 \<noteq> 0)) ws (\<lparr>ff_changed = False, ff_images = [], ff_layers = []\<rparr>, st1) = (frame, sta)"
    by fastforce
  from pub ws fs obtain stb where stb: "publishGeometry sv i w sta = Some stb" by (auto simp: bind_eq_Some_conv)
  have a: "frameOk st1 (frame, sta)" unfolding fs [symmetric] by (rule fold_appendLayer_frameOk) (simp add: frameOk_def)
  have b: "sameFrame ?o o1" by (simp add: o1_def sameFrame_def)
  have c: "let f = frame\<lparr>ff_layers := map (\<lambda>l. l\<lparr>ol_output := os_id o1\<rparr>) (ff_layers frame)\<rparr>
     in st2 = sendFrame sv i w f stb
        \<or> st2 = stb \<and> \<not> os_changed (fr_selections stb ! i) \<and> os_layers (fr_selections stb ! i) = ff_layers f"
    using pub ws fs stb by (simp split: if_splits)
  show ?thesis by (rule that [OF b a [unfolded st1_def] fs [symmetric, unfolded st1_def] stb c])
qed

lemma publishOutput_block:
  assumes "publishOutput sv i st = Some st2" "i < length (fr_selections st)"
  shows "\<exists>o2 b. fr_selections st2 = (fr_selections st)[i := o2] \<and> fr_log st2 = fr_log st @ b \<and> frameBlock (fr_selections st ! i) o2 b"
proof -
  let ?o = "fr_selections st ! i"
  obtain o1 w ws frame sta stb where parts:
    "sameFrame ?o o1" "frameOk (st\<lparr>fr_selections := (fr_selections st)[i := o1]\<rparr>) (frame, sta)"
    "(frame, sta) = fold (appendLayer sv w (os_parent o1 \<noteq> 0)) ws
       (\<lparr>ff_changed = False, ff_images = [], ff_layers = []\<rparr>, st\<lparr>fr_selections := (fr_selections st)[i := o1]\<rparr>)"
    "publishGeometry sv i w sta = Some stb"
    "let f = frame\<lparr>ff_layers := map (\<lambda>l. l\<lparr>ol_output := os_id o1\<rparr>) (ff_layers frame)\<rparr>
     in st2 = sendFrame sv i w f stb
        \<or> st2 = stb \<and> \<not> os_changed (fr_selections stb ! i) \<and> os_layers (fr_selections stb ! i) = ff_layers f"
    by (rule publishOutput_parts [OF assms])
  define f where "f = frame\<lparr>ff_layers := map (\<lambda>l. l\<lparr>ol_output := os_id o1\<rparr>) (ff_layers frame)\<rparr>"
  have sta: "fr_log sta = fr_log st" "fr_selections sta = (fr_selections st)[i := o1]"
    and len: "length (ff_images f) = length (ff_layers f)" "length (ff_layers f) \<le> LORIE_MAX_FAMILY_LAYERS"
    using parts(2) by (auto simp: frameOk_def f_def)
  obtain o2 g where g: "fr_selections stb = (fr_selections st)[i := o2]" "fr_log stb = fr_log st @ g" "sameFrame o1 o2"
      "g = [] \<or> os_parent o2 \<noteq> 0 \<and> g = [SendFamilyGeometry (os_id o2) (os_family o2)]"
    using publishGeometry_sent [OF parts(4)] sta assms(2) by (auto simp: nth_list_update)
  have same: "sameFrame ?o o2" using parts(1) g(3) by (simp add: sameFrame_def)
  have at: "fr_selections stb ! i = o2" using g(1) assms(2) by simp
  consider "st2 = sendFrame sv i w f stb" | "st2 = stb" "\<not> os_changed o2" using parts(5) unfolding f_def [symmetric] at Let_def by blast
  then show ?thesis
  proof cases
    case 1
    have outs: "\<forall>l \<in> set (ff_layers f). ol_output l = os_id o2" using g(3) by (auto simp: f_def sameFrame_def)
    have "i < length (fr_selections stb)" using g(1) assms(2) by simp
    from sendFrame_sent [OF this len outs at [symmetric], of sv w] obtain new r where
      r: "fr_selections st2 = (fr_selections stb)[i := new]" "fr_log st2 = fr_log stb @ r" "frameSent o2 new r"
         "os_id new = os_id o2" "os_window new = os_window o2" "os_family new = os_family o2" unfolding 1 by blast
    have "frameSent ?o new r" using r(3) same by (simp add: frameSent_def sameFrame_def)
    then have "frameBlock ?o new (g @ r)"
      unfolding frameBlock_def using g(4) r same by (intro conjI exI [of _ g] exI [of _ r]) (auto simp: sameFrame_def)
    then show ?thesis using r g by (intro exI [of _ new] exI [of _ "g @ r"]) simp
  next
    case 2
    then have "frameBlock ?o o2 g"
      unfolding frameBlock_def using g(4) same by (intro conjI exI [of _ g] exI [of _ "[]"]) (auto simp: sameFrame_def)
    then show ?thesis using 2 g by blast
  qed
qed

lemma appendLayer_wm: "fr_wm (snd (appendLayer sv owner co w fs)) = fr_wm (snd fs)"
  by (auto simp: appendLayer_def split: prod.splits option.splits dest: imageFor_frame)

lemma publishOutput_total:
  assumes fam: "\<forall>w. lorieWindowFamily (fv_env sv) (fr_wm st) w \<noteq> None"
  shows "\<exists>st2. publishOutput sv i st = Some st2"
proof -
  have win: "\<exists>ws. frameWindows sv o1 w st1 = Some ws" if "fr_wm st1 = fr_wm st" for o1 w st1
    using fam that by (auto simp: frameWindows_def)
  have geo: "\<exists>st2. publishGeometry sv i w st1 = Some st2" if "fr_wm st1 = fr_wm st" for w st1
    using fam that by (auto simp: publishGeometry_def lorieWindowFamilyGeometry_def Let_def)
  have wm: "fr_wm (snd (fold (appendLayer sv w co) ws fs)) = fr_wm (snd fs)" for w co ws fs
    by (induction ws arbitrary: fs) (simp_all add: appendLayer_wm)
  let ?o = "fr_selections st ! i"
  define found where "found = (if os_dead ?o then None
      else if os_window ?o = 0 then Some (wm_root (fr_wm st)) else we_find (fv_env sv) (os_window ?o))"
  define w where "w = (case found of Some w \<Rightarrow> w | None \<Rightarrow> wm_root (fr_wm st))"
  define o1 where "o1 = (if found \<noteq> None then ?o\<lparr>os_seen := True\<rparr> else if os_seen ?o then ?o\<lparr>os_dead := True\<rparr> else ?o)"
  define st1 where "st1 = st\<lparr>fr_selections := (fr_selections st)[i := o1]\<rparr>"
  have st1: "fr_wm st1 = fr_wm st" by (simp add: st1_def)
  obtain ws where ws: "(if found = None then Some [] else frameWindows sv o1 w st1) = Some ws" using win [OF st1] by fastforce
  obtain frame sta where fs: "fold (appendLayer sv w (os_parent o1 \<noteq> 0)) ws (\<lparr>ff_changed = False, ff_images = [], ff_layers = []\<rparr>, st1) = (frame, sta)"
    by fastforce
  have "fr_wm sta = fr_wm st"
    using wm [of w "os_parent o1 \<noteq> 0" ws "(\<lparr>ff_changed = False, ff_images = [], ff_layers = []\<rparr>, st1)"] st1 unfolding fs by simp
  from geo [OF this] obtain stb where stb: "publishGeometry sv i w sta = Some stb" by blast
  show ?thesis unfolding publishOutput_def Let_def
    unfolding found_def [symmetric] unfolding w_def [symmetric] o1_def [symmetric] unfolding st1_def [symmetric]
    by (simp add: ws fs stb)
qed

lemma publishOutput_wm:
  assumes "publishOutput sv i st = Some st2" "i < length (fr_selections st)"
  shows "fr_wm st2 = fr_wm st"
proof -
  obtain o1 w ws frame sta stb where parts:
    "sameFrame (fr_selections st ! i) o1" "frameOk (st\<lparr>fr_selections := (fr_selections st)[i := o1]\<rparr>) (frame, sta)"
    "(frame, sta) = fold (appendLayer sv w (os_parent o1 \<noteq> 0)) ws
       (\<lparr>ff_changed = False, ff_images = [], ff_layers = []\<rparr>, st\<lparr>fr_selections := (fr_selections st)[i := o1]\<rparr>)"
    "publishGeometry sv i w sta = Some stb"
    "let f = frame\<lparr>ff_layers := map (\<lambda>l. l\<lparr>ol_output := os_id o1\<rparr>) (ff_layers frame)\<rparr>
     in st2 = sendFrame sv i w f stb
        \<or> st2 = stb \<and> \<not> os_changed (fr_selections stb ! i) \<and> os_layers (fr_selections stb ! i) = ff_layers f"
    by (rule publishOutput_parts [OF assms])
  have "fr_wm sta = fr_wm st" "i < length (fr_selections sta)" using parts(2) assms(2) by (auto simp: frameOk_def)
  with publishGeometry_sent [OF parts(4)] have "fr_wm stb = fr_wm st" by auto
  then show ?thesis using parts(5) by (auto simp: Let_def sendFrame_def split: prod.splits)
qed

lemma publishAll_blocks:
  assumes "\<forall>w. lorieWindowFamily (fv_env sv) (fr_wm st) w \<noteq> None" "distinct is" "\<forall>i \<in> set is. i < length (fr_selections st)"
  shows "\<exists>st2 f. publishAll sv is st = Some st2 \<and> fr_log st2 = fr_log st @ concat (map f is) \<and> fr_wm st2 = fr_wm st
      \<and> length (fr_selections st2) = length (fr_selections st)
      \<and> (\<forall>j. if j \<in> set is then frameBlock (fr_selections st ! j) (fr_selections st2 ! j) (f j)
             else fr_selections st2 ! j = fr_selections st ! j)"
  using assms
proof (induction "is" arbitrary: st)
  case (Cons i "is")
  then have i: "i < length (fr_selections st)" "i \<notin> set is" "distinct is" by auto
  obtain s where s: "publishOutput sv i st = Some s" using publishOutput_total [OF Cons.prems(1)] by blast
  obtain o2 b where b: "fr_selections s = (fr_selections st)[i := o2]" "fr_log s = fr_log st @ b" "frameBlock (fr_selections st ! i) o2 b"
    using publishOutput_block [OF s i(1)] by blast
  have wm: "fr_wm s = fr_wm st" by (rule publishOutput_wm [OF s i(1)])
  have "\<forall>w. lorieWindowFamily (fv_env sv) (fr_wm s) w \<noteq> None" "\<forall>j \<in> set is. j < length (fr_selections s)"
    using Cons.prems(1,3) wm b(1) by auto
  from Cons.IH [OF this(1) i(3) this(2)] obtain st2 f where f: "publishAll sv is s = Some st2" "fr_log st2 = fr_log s @ concat (map f is)"
      "fr_wm st2 = fr_wm s" "length (fr_selections st2) = length (fr_selections s)"
      "\<forall>j. if j \<in> set is then frameBlock (fr_selections s ! j) (fr_selections st2 ! j) (f j) else fr_selections st2 ! j = fr_selections s ! j"
    by blast
  have other: "map (f(i := b)) is = map f is" using i(2) by auto
  have lg: "concat (map (f(i := b)) (i # is)) = b @ concat (map f is)" using other by (simp del: map_eq_conv)
  have blk: "if j \<in> set (i # is) then frameBlock (fr_selections st ! j) (fr_selections st2 ! j) ((f(i := b)) j)
      else fr_selections st2 ! j = fr_selections st ! j" for j
    using f(5) [rule_format, of j] i b by (cases "j = i") (auto split: if_splits)
  show ?case
    by (rule exI [of _ st2], rule exI [of _ "f(i := b)"]) (use s f(1-4) b(1,2) wm lg blk in \<open>simp del: fun_upd_apply list.map\<close>)
qed simp

section \<open>The images over a publication\<close>

definition imagesLive :: "'r frameServer \<Rightarrow> WindowImage list \<Rightarrow> bool" where
  "imagesLive sv ims \<longleftrightarrow> (\<forall>im \<in> set ims. im_redirected im \<longrightarrow> we_find (fv_env sv) (im_window im) \<noteq> None)"

lemma imagesOk_cong:
  "imagesOk st \<Longrightarrow> fr_images st2 = fr_images st \<Longrightarrow> fr_liveDamage st2 = fr_liveDamage st \<Longrightarrow> fr_nextDamage st2 = fr_nextDamage st
     \<Longrightarrow> fr_redirects st2 = fr_redirects st \<Longrightarrow> imagesOk st2"
  by (simp add: imagesOk_def imgInv_def)

lemma refreshImage_redirected:
  "refreshImage sv i w im st = (im2, st2) \<Longrightarrow> im_redirected im2 \<Longrightarrow> im_redirected im \<or> fv_redirectOk sv w \<and> i \<noteq> 0"
  by (auto simp: refreshImage_def damageDestroy_def damageDestroyed_def damageCreate_def Let_def split: if_splits option.splits prod.splits)

lemma imagesLive_imageFor:
  assumes "imagesLive sv (fr_images st)" "imageFor sv w st = (img, st2)"
    and "fv_redirectOk sv w \<Longrightarrow> we_find (fv_env sv) (w_id (frStore st w)) \<noteq> None"
  shows "imagesLive sv (fr_images st2)"
  using assms(2)
proof (cases rule: imageFor_parts)
  case (found s k im st3)
  have inv: "imagesLive sv (fr_images s)" using assms(1) found(1) by (auto simp: imagesLive_def newImage_def)
  have "im_redirected im \<Longrightarrow> we_find (fv_env sv) (im_window im) \<noteq> None"
    using refreshImage_redirected [OF found(4)] refreshImage_images [OF found(4)] found(2,3) inv assms(3) unfolding imagesLive_def
    by (auto split: if_splits)
  with inv refreshImage_images [OF found(4)] show ?thesis unfolding found(5) imagesLive_def
    by (auto dest!: set_update_subset_insert [THEN subsetD])
qed (simp add: assms(1))

abbreviation imagesGood :: "'r frameServer \<Rightarrow> frameState \<Rightarrow> bool" where
  "imagesGood sv st \<equiv> imagesOk st \<and> imagesLive sv (fr_images st)"

text \<open>A window that the server redirects can be looked up.\<close>

definition redirectsKnown :: "'r frameServer \<Rightarrow> wmState \<Rightarrow> bool" where
  "redirectsKnown sv wm \<longleftrightarrow> (\<forall>w. fv_redirectOk sv w \<longrightarrow> we_find (fv_env sv) (w_id (wm_store wm w)) \<noteq> None)"

lemma imagesGood_cong:
  assumes "imagesGood sv st" "fr_images st2 = fr_images st" "fr_liveDamage st2 = fr_liveDamage st" "fr_nextDamage st2 = fr_nextDamage st"
    and "fr_redirects st2 = fr_redirects st"
  shows "imagesGood sv st2"
  using assms imagesOk_cong [of st st2] by simp

lemma imagesGood_appendLayer:
  assumes "imagesGood sv (snd fs)" "redirectsKnown sv (fr_wm (snd fs))"
  shows "imagesGood sv (snd (appendLayer sv owner co w fs))"
proof -
  obtain img s where s: "imageFor sv w (snd fs) = (img, s)" by (cases "imageFor sv w (snd fs)")
  have "imagesGood sv s"
    using imagesOk_imageFor [OF _ s] imagesLive_imageFor [OF _ s] assms by (simp add: redirectsKnown_def frStore_def)
  moreover have "snd (appendLayer sv owner co w fs) \<in> {snd fs, s}"
    by (cases fs) (use s in \<open>auto simp: appendLayer_def split: option.splits\<close>)
  ultimately show ?thesis using assms(1) by auto
qed

lemma imagesGood_fold:
  "imagesGood sv (snd fs) \<Longrightarrow> redirectsKnown sv (fr_wm (snd fs)) \<Longrightarrow> imagesGood sv (snd (fold (appendLayer sv owner co) ws fs))"
proof (induction ws arbitrary: fs)
  case (Cons w ws)
  then show ?case using imagesGood_appendLayer [of fs sv owner co w] appendLayer_wm [of sv owner co w fs] by simp
qed simp

lemma imagesGood_publishOutput:
  assumes "publishOutput sv i st = Some st2" "i < length (fr_selections st)" "imagesGood sv st" "redirectsKnown sv (fr_wm st)"
  shows "imagesGood sv st2"
proof -
  obtain o1 w ws frame sta stb where parts:
    "sameFrame (fr_selections st ! i) o1" "frameOk (st\<lparr>fr_selections := (fr_selections st)[i := o1]\<rparr>) (frame, sta)"
    "(frame, sta) = fold (appendLayer sv w (os_parent o1 \<noteq> 0)) ws
       (\<lparr>ff_changed = False, ff_images = [], ff_layers = []\<rparr>, st\<lparr>fr_selections := (fr_selections st)[i := o1]\<rparr>)"
    "publishGeometry sv i w sta = Some stb"
    "let f = frame\<lparr>ff_layers := map (\<lambda>l. l\<lparr>ol_output := os_id o1\<rparr>) (ff_layers frame)\<rparr>
     in st2 = sendFrame sv i w f stb
        \<or> st2 = stb \<and> \<not> os_changed (fr_selections stb ! i) \<and> os_layers (fr_selections stb ! i) = ff_layers f"
    by (rule publishOutput_parts [OF assms(1,2)])
  have start: "imagesGood sv (st\<lparr>fr_selections := (fr_selections st)[i := o1]\<rparr>)" by (rule imagesGood_cong [OF assms(3)]) simp_all
  from imagesGood_fold [of "(\<lparr>ff_changed = False, ff_images = [], ff_layers = []\<rparr>, st\<lparr>fr_selections := (fr_selections st)[i := o1]\<rparr>)" sv w "os_parent o1 \<noteq> 0" ws]
  have sta: "imagesGood sv sta" using start assms(4) unfolding parts(3) [symmetric] by simp
  have "i < length (fr_selections sta)" using parts(2) assms(2) by (auto simp: frameOk_def)
  with publishGeometry_sent [OF parts(4)] have stb: "imagesGood sv stb" using imagesGood_cong [OF sta, of stb] by auto
  have "imagesGood sv (sendFrame sv i w f stb)" for f
    by (rule imagesGood_cong [OF stb]) (simp_all add: sendFrame_def Let_def split: prod.splits)
  then show ?thesis using parts(5) stb by (auto simp: Let_def)
qed

lemma imagesGood_publishAll:
  assumes "publishAll sv is st = Some st2" "\<forall>i \<in> set is. i < length (fr_selections st)" "imagesGood sv st" "redirectsKnown sv (fr_wm st)"
  shows "imagesGood sv st2"
  using assms
proof (induction "is" arbitrary: st)
  case (Cons i "is")
  then obtain s where s: "publishOutput sv i st = Some s" "publishAll sv is s = Some st2" by (auto simp: bind_eq_Some_conv)
  have i: "i < length (fr_selections st)" using Cons.prems(2) by simp
  have "length (fr_selections s) = length (fr_selections st)" using publishOutput_block [OF s(1) i] by auto
  then show ?case
    using Cons.IH [OF s(2)] Cons.prems imagesGood_publishOutput [OF s(1) i] publishOutput_wm [OF s(1) i] by simp
qed simp

section \<open>Giving images up\<close>

lemma imgInv_drop:
  assumes "imgInv (acc @ im # ims) st" "im_redirected im \<Longrightarrow> we_find (fv_env sv) (im_window im) \<noteq> None"
  shows "imgInv (acc @ ims) (dropImage sv im st)"
proof -
  obtain im1 st1 where d: "damageDestroy im st = (im1, st1)" by (cases "damageDestroy im st")
  have inv: "imgInv (acc @ im1 # ims) st1" "im_damage im1 = None" "im_window im1 = im_window im"
    using imgInv_destroy [OF assms(1) d] by auto
  have red: "im_redirected im1 = im_redirected im"
    using d by (auto simp: damageDestroy_def damageDestroyed_def split: option.splits)
  have rs: "set (redirected ims) \<subseteq> im_window ` set ims" "set (redirected acc) \<subseteq> im_window ` set acc" by (rule redirected_windows)+
  have notin: "im_window im \<notin> set (redirected (acc @ ims))"
    using inv(1,3) rs unfolding imgInv_def by auto
  define st2 where "st2 = dropImage sv im st"
  have st2: "fr_liveDamage st2 = fr_liveDamage st1" "fr_nextDamage st2 = fr_nextDamage st1"
      "fr_redirects st2 = (if im_redirected im then (fr_redirects st1)(im_window im := fr_redirects st1 (im_window im) - 1) else fr_redirects st1)"
    using assms(2) d by (auto simp: st2_def dropImage_def Let_def)
  have "fr_redirects st2 i = (if i \<in> set (redirected (acc @ ims)) then 1 else 0)" for i
    using inv(1) notin red inv(3) unfolding st2 imgInv_def by (cases "i = im_window im") auto
  moreover have "damages (acc @ im1 # ims) = damages (acc @ ims)" using inv(2) by simp
  ultimately show ?thesis using inv(1) unfolding st2_def [symmetric] imgInv_def st2(1,2) by simp
qed

lemma pruneList_inv:
  "imgInv (acc @ ims) st \<Longrightarrow> imagesLive sv ims \<Longrightarrow> pruneList sv ims st = (rest, st2)
     \<Longrightarrow> imgInv (acc @ rest) st2 \<and> rest = map (\<lambda>im. im\<lparr>im_changed := False\<rparr>) (filter im_used ims)"
proof (induction ims arbitrary: acc st rest)
  case (Cons im ims)
  show ?case
  proof (cases "im_used im")
    case True
    define im1 where "im1 = im\<lparr>im_changed := False\<rparr>"
    obtain s where s: "keepImage im st = (im1, s)" "fr_liveDamage s = fr_liveDamage st" "fr_nextDamage s = fr_nextDamage st" "fr_redirects s = fr_redirects st"
      by (auto simp: keepImage_def im1_def split: option.splits)
    obtain r where r: "pruneList sv ims s = (r, st2)" "rest = im1 # r" using Cons.prems(3) True s by (auto split: prod.splits)
    have "imgInv ((acc @ [im1]) @ ims) s" using imgInv_same [OF Cons.prems(1), of im1 s] s by (simp add: im1_def)
    from Cons.IH [OF this _ r(1)] show ?thesis using Cons.prems(2) True r(2) by (auto simp: imagesLive_def im1_def)
  next
    case False
    have "imgInv (acc @ ims) (dropImage sv im st)"
      by (rule imgInv_drop [OF Cons.prems(1)]) (use Cons.prems(2) in \<open>auto simp: imagesLive_def\<close>)
    from Cons.IH [OF this] show ?thesis using Cons.prems(2,3) False by (auto simp: imagesLive_def)
  qed
qed simp

lemma imagesGood_prune:
  assumes "imagesGood sv st"
  shows "imagesGood sv (pruneImages sv st)"
    and "fr_images (pruneImages sv st) = map (\<lambda>im. im\<lparr>im_changed := False\<rparr>) (filter im_used (fr_images st))"
proof -
  obtain rest st2 where r: "pruneList sv (fr_images st) st = (rest, st2)" by (cases "pruneList sv (fr_images st) st")
  have inv: "imgInv rest st2" "rest = map (\<lambda>im. im\<lparr>im_changed := False\<rparr>) (filter im_used (fr_images st))"
    using pruneList_inv [of "[]" "fr_images st" st sv rest st2] assms r by (auto simp: imagesOk_def)
  have "pruneImages sv st = st2\<lparr>fr_images := rest\<rparr>" by (simp add: pruneImages_def r)
  with inv assms show "imagesGood sv (pruneImages sv st)"
      "fr_images (pruneImages sv st) = map (\<lambda>im. im\<lparr>im_changed := False\<rparr>) (filter im_used (fr_images st))"
    by (auto simp: imagesOk_def imgInv_def imagesLive_def)
qed

lemma damages_map_same: "(\<And>im. im_damage (f im) = im_damage im) \<Longrightarrow> damages (map f ims) = damages ims"
  by (induction ims) (simp_all split: option.splits)

lemma imagesGood_unuse: "imagesGood sv st \<Longrightarrow> imagesGood sv (unuseImages st)"
proof -
  let ?f = "\<lambda>im :: WindowImage. im\<lparr>im_used := False\<rparr>"
  have "damages (map ?f ims) = damages ims" for ims by (rule damages_map_same) simp
  moreover have "redirected (map ?f ims) = redirected ims" for ims by (induction ims) simp_all
  moreover have "map im_window (map ?f ims) = map im_window ims" for ims by simp
  ultimately show "imagesGood sv st \<Longrightarrow> imagesGood sv (unuseImages st)"
    unfolding imagesOk_def imgInv_def unuseImages_def imagesLive_def by (simp del: list.map_comp map_map)
qed

lemma imagesOk_windowDestroyed:
  assumes "imagesOk st"
  shows "imagesOk (imageWindowDestroyed i st)"
proof -
  define f :: "WindowImage \<Rightarrow> WindowImage" where "f = (\<lambda>im. if im_window im = i then im\<lparr>im_redirected := False\<rparr> else im)"
  have d: "damages (map f ims) = damages ims" for ims by (rule damages_map_same) (simp add: f_def)
  have w: "map im_window (map f ims) = map im_window ims" for ims by (simp add: f_def)
  have r: "set (redirected (map f ims)) = set (redirected ims) - {i}" for ims by (induction ims) (auto simp: f_def)
  have eq: "imageWindowDestroyed i st = st\<lparr>fr_images := map f (fr_images st), fr_redirects := (fr_redirects st)(i := 0)\<rparr>"
    by (simp add: imageWindowDestroyed_def f_def)
  have "imgInv (map f (fr_images st)) (imageWindowDestroyed i st)"
    using assms unfolding imagesOk_def imgInv_def d w r by (simp add: eq)
  then show ?thesis by (simp add: imagesOk_def eq)
qed

lemma keepDrop_frame: "fr_log (snd (keepImage im st)) = fr_log st \<and> fr_selections (snd (keepImage im st)) = fr_selections st"
  "fr_log (dropImage sv im st) = fr_log st \<and> fr_selections (dropImage sv im st) = fr_selections st"
  by (auto simp: keepImage_def dropImage_def damageDestroy_def Let_def split: option.splits)

lemma pruneList_frame: "fr_log (snd (pruneList sv ims st)) = fr_log st \<and> fr_selections (snd (pruneList sv ims st)) = fr_selections st"
proof (induction ims arbitrary: st)
  case (Cons im ims)
  show ?case using Cons.IH [of "snd (keepImage im st)"] Cons.IH [of "dropImage sv im st"] keepDrop_frame(1) [of im st] keepDrop_frame(2) [of sv im st]
    by (auto split: prod.splits)
qed simp

lemma pruneImages_frame: "fr_log (pruneImages sv st) = fr_log st" "fr_selections (pruneImages sv st) = fr_selections st"
  using pruneList_frame [of sv "fr_images st" st] by (cases "pruneList sv (fr_images st) st"; simp add: pruneImages_def)+

lemma family_total:
  "laid (wm_store wm) (WNode (wm_root wm) cs) \<Longrightarrow> lorieWindowFamily env wm w \<noteq> None"
  using visitSiblings_tree(1) [of "wm_store wm" "WNode (wm_root wm) cs" "familyMember env wm" w] by (simp add: lorieWindowFamily_def)

lemma publish_total:
  assumes "laid (wm_store (fr_wm st)) (WNode (wm_root (fr_wm st)) cs)"
  obtains s f where "publishAll sv [0..<length (fr_selections st)] (unuseImages st) = Some s"
    "loriePublishOutputs sv st = Some (pruneImages sv s)" "fr_log s = fr_log st @ concat (map f [0..<length (fr_selections st)])"
    "length (fr_selections s) = length (fr_selections st)"
    "\<forall>j < length (fr_selections st). frameBlock (fr_selections st ! j) (fr_selections s ! j) (f j)"
proof -
  have un: "fr_wm (unuseImages st) = fr_wm st" "fr_selections (unuseImages st) = fr_selections st" "fr_log (unuseImages st) = fr_log st"
    by (simp_all add: unuseImages_def)
  have "\<forall>w. lorieWindowFamily (fv_env sv) (fr_wm (unuseImages st)) w \<noteq> None" using family_total [OF assms] un by auto
  from publishAll_blocks [OF this, of "[0..<length (fr_selections st)]", unfolded un] obtain s f where
    s: "publishAll sv [0..<length (fr_selections st)] (unuseImages st) = Some s" "fr_log s = fr_log st @ concat (map f [0..<length (fr_selections st)])"
      "length (fr_selections s) = length (fr_selections st)"
      "\<forall>j. if j \<in> set [0..<length (fr_selections st)] then frameBlock (fr_selections st ! j) (fr_selections s ! j) (f j)
             else fr_selections s ! j = fr_selections st ! j" by auto
  have "\<forall>j < length (fr_selections st). frameBlock (fr_selections st ! j) (fr_selections s ! j) (f j)" using s(4) by auto
  with s that show ?thesis by (simp add: loriePublishOutputs_def)
qed


text \<open>
  C7: Every damage object belongs to exactly one image and a window is redirected exactly when an
  image says so; this holds after every publication (which keeps only the images it used, all of
  them up to date), after the destruction of a window, and a reset leaves no image, no damage
  object and no redirected window.
\<close>

theorem images_in_step:
  assumes "laid (wm_store (fr_wm st)) (WNode (wm_root (fr_wm st)) cs)"
    and "imagesOk st" "imagesLive sv (fr_images st)" "redirectsKnown sv (fr_wm st)"
  shows "(\<exists>st2. loriePublishOutputs sv st = Some st2 \<and> imagesOk st2 \<and> imagesLive sv (fr_images st2)
      \<and> (\<forall>im \<in> set (fr_images st2). im_used im \<and> \<not> im_changed im))
    \<and> imagesOk (imageWindowDestroyed i st)
    \<and> (let r = resetImages sv st in fr_images r = [] \<and> fr_liveDamage r = {} \<and> (\<forall>j. fr_redirects r j = 0))"
proof (intro conjI)
  obtain s f where s: "publishAll sv [0..<length (fr_selections st)] (unuseImages st) = Some s" "loriePublishOutputs sv st = Some (pruneImages sv s)"
    by (rule publish_total [OF assms(1), of sv])
  have un: "imagesGood sv (unuseImages st)" using imagesGood_unuse assms(2,3) by blast
  have "imagesGood sv s" by (rule imagesGood_publishAll [OF s(1) _ un]) (use assms(4) in \<open>simp_all add: unuseImages_def\<close>)
  from imagesGood_prune [OF this] s(2)
  show "\<exists>st2. loriePublishOutputs sv st = Some st2 \<and> imagesOk st2 \<and> imagesLive sv (fr_images st2)
      \<and> (\<forall>im \<in> set (fr_images st2). im_used im \<and> \<not> im_changed im)" by auto
  show "imagesOk (imageWindowDestroyed i st)" by (rule imagesOk_windowDestroyed [OF assms(2)])
  have "fr_images (resetImages sv st) = []" "imagesOk (resetImages sv st)"
    using imagesGood_prune [OF un] by (simp_all add: resetImages_def, simp add: unuseImages_def)
  then show "let r = resetImages sv st in fr_images r = [] \<and> fr_liveDamage r = {} \<and> (\<forall>j. fr_redirects r j = 0)"
    by (simp add: imagesOk_def imgInv_def Let_def)
qed

section \<open>Preparing outputs\<close>

text \<open>\<open>ConfigureWindow\<close> without a sibling leaves the window tree alone, and without a size the sizes.\<close>

definition configureLaws :: "'r frameServer \<Rightarrow> bool" where
  "configureLaws sv \<longleftrightarrow> (\<forall>e s w. w_parent (fv_configure sv e s w) = w_parent (s w) \<and> w_lastChild (fv_configure sv e s w) = w_lastChild (s w)
       \<and> w_prevSib (fv_configure sv e s w) = w_prevSib (s w))
     \<and> (\<forall>t x y s w. w_width (fv_configure sv (ConfigurePosition t x y) s w) = w_width (s w)
          \<and> w_height (fv_configure sv (ConfigurePosition t x y) s w) = w_height (s w))"

definition sameLinks :: "wstore \<Rightarrow> wstore \<Rightarrow> bool" where
  "sameLinks s s2 \<longleftrightarrow> (\<forall>w. w_parent (s2 w) = w_parent (s w) \<and> w_lastChild (s2 w) = w_lastChild (s w) \<and> w_prevSib (s2 w) = w_prevSib (s w))"

lemma sameLinks_laid: "sameLinks s s2 \<Longrightarrow> laid s t \<Longrightarrow> laid s2 t" "sameLinks s s2 \<Longrightarrow> laids s w ts \<Longrightarrow> laids s2 w ts"
  by (induction t and ts arbitrary: and w rule: pre_pres.induct) (auto simp: sameLinks_def)

definition fits :: "wmState \<Rightarrow> frameEffect \<Rightarrow> bool" where
  "fits wm e = (case e of ConfigureSize w a b \<Rightarrow>
       let c = lorieWindowConstraints wm w in minWidth c \<le> a \<and> a \<le> maxWidth c \<and> minHeight c \<le> b \<and> b \<le> maxHeight c
     | ConfigurePosition _ _ _ \<Rightarrow> True | _ \<Rightarrow> False)"

definition prepOk :: "frameState \<Rightarrow> frameState \<Rightarrow> bool" where
  "prepOk st st2 \<longleftrightarrow> wm_props (fr_wm st2) = wm_props (fr_wm st) \<and> wm_root (fr_wm st2) = wm_root (fr_wm st) \<and> sameLinks (frStore st) (frStore st2)
     \<and> fr_selections st2 = fr_selections st \<and> (\<exists>es. fr_log st2 = fr_log st @ es \<and> list_all (fits (fr_wm st)) es)"

lemma constraints_props: "wm_props wm = wm_props wm2 \<Longrightarrow> lorieWindowConstraints wm w = lorieWindowConstraints wm2 w"
  by (simp add: lorieWindowConstraints_def normalHints_def property_def)

lemma fits_props: "wm_props wm = wm_props wm2 \<Longrightarrow> fits wm = fits wm2"
  using constraints_props [of wm wm2] by (intro ext) (simp add: fits_def split: frameEffect.splits)

lemma prepOk_refl: "prepOk st st"
  by (simp add: prepOk_def sameLinks_def)

lemma prepOk_trans: "prepOk a b \<Longrightarrow> prepOk b c \<Longrightarrow> prepOk a c"
  using fits_props [of "fr_wm a" "fr_wm b"] by (auto simp: prepOk_def sameLinks_def)

lemma prepOk_configure:
  assumes "configureLaws sv" "fits (fr_wm st) e"
  shows "prepOk st (configure sv e st)"
  using assms by (simp add: prepOk_def configure_def emitFr_def frStore_def sameLinks_def configureLaws_def)

lemma moveContent_prep:
  assumes "configureLaws sv" "wf {(p, w). w_parent (frStore st w) = Some p}"
  shows "\<exists>st2. moveContent sv w x y st = Some st2 \<and> prepOk st st2 \<and> (\<forall>v. w_width (frStore st2 v) = w_width (frStore st v) \<and> w_height (frStore st2 v) = w_height (frStore st v))"
proof (cases "x = w_x (frStore st w) \<and> y = w_y (frStore st w)")
  case True
  then show ?thesis by (simp add: moveContent_def prepOk_refl)
next
  case False
  obtain t where t: "stackTop (\<lambda>w. w_parent (frStore st w)) (wm_root (fr_wm st)) w = Some t" using stackTop_total [OF assms(2)] by blast
  obtain bx by1 where b: "fv_border sv (frStore st) t = (bx, by1)" by fastforce
  define e where "e = ConfigurePosition t (bx + x - w_x (frStore st w)) (by1 + y - w_y (frStore st w))"
  have "moveContent sv w x y st = Some (configure sv e st)" using False t b by (auto simp: moveContent_def Let_def e_def)
  moreover have "prepOk st (configure sv e st)" by (rule prepOk_configure [OF assms(1)]) (simp add: fits_def e_def)
  ultimately show ?thesis using assms(1) by (simp add: configureLaws_def configure_def emitFr_def frStore_def e_def)
qed

lemma prepOk_wf: "prepOk st st2 \<Longrightarrow> wf {(p, w). w_parent (frStore st w) = Some p} \<Longrightarrow> wf {(p, w). w_parent (frStore st2 w) = Some p}"
  by (simp add: prepOk_def sameLinks_def)

lemma prepOk_laid:
  "prepOk st st2 \<Longrightarrow> laid (frStore st) (WNode (wm_root (fr_wm st)) cs) \<Longrightarrow> laid (frStore st2) (WNode (wm_root (fr_wm st2)) cs)"
  using sameLinks_laid(1) [of "frStore st" "frStore st2"] by (simp only: prepOk_def)

lemma placeTransient_prep:
  assumes "configureLaws sv" "wf {(p, w). w_parent (frStore (snd ps) w) = Some p}"
  shows "\<exists>ps2. placeTransient sv owner ext w ps = Some ps2 \<and> prepOk (snd ps) (snd ps2)"
proof -
  obtain pl st where ps: "ps = (pl, st)" by fastforce
  obtain parent wm where p: "lorieWindowInitialDialogParent (fv_env sv) w (fr_wm st) = (parent, wm)" by fastforce
  have wm: "wm_props wm = wm_props (fr_wm st)" "wm_root wm = wm_root (fr_wm st)" "wm_store wm = wm_store (fr_wm st)"
    using p by (auto simp: lorieWindowInitialDialogParent_def Let_def split: if_splits option.splits)
  have mid: "prepOk st (st\<lparr>fr_wm := wm\<rparr>)" using wm by (simp add: prepOk_def frStore_def sameLinks_def)
  have "wf {(p, w). w_parent (frStore (st\<lparr>fr_wm := wm\<rparr>) w) = Some p}" using prepOk_wf [OF mid] assms(2) ps by simp
  from moveContent_prep [OF assms(1) this] have "\<exists>st2. moveContent sv w x y (st\<lparr>fr_wm := wm\<rparr>) = Some st2 \<and> prepOk st st2" for x y
    using prepOk_trans [OF mid] by blast
  then show ?thesis using prepOk_refl unfolding placeTransient_def Let_def ps p by (fastforce simp: p)
qed

lemma placeAll_prep:
  assumes "configureLaws sv" "wf {(p, w). w_parent (frStore (snd ps) w) = Some p}"
  shows "\<exists>ps2. placeAll sv owner ext ws ps = Some ps2 \<and> prepOk (snd ps) (snd ps2)"
  using assms(2)
proof (induction ws arbitrary: ps)
  case (Cons w ws)
  obtain ps1 where p1: "placeTransient sv owner ext w ps = Some ps1" "prepOk (snd ps) (snd ps1)"
    using placeTransient_prep [OF assms(1) Cons.prems] by blast
  from Cons.IH [OF prepOk_wf [OF p1(2) Cons.prems]] obtain ps2 where "placeAll sv owner ext ws ps1 = Some ps2" "prepOk (snd ps1) (snd ps2)" by blast
  then show ?case using p1 prepOk_trans by auto
qed (simp add: prepOk_refl)

lemma prepOk_notify: "prepOk st (notifyScreen sv a b st)"
  by (simp add: notifyScreen_def prepOk_def frStore_def sameLinks_def)

lemma constraints_order:
  "minWidth (lorieWindowConstraints wm w) \<le> maxWidth (lorieWindowConstraints wm w)
     \<and> minHeight (lorieWindowConstraints wm w) \<le> maxHeight (lorieWindowConstraints wm w)"
  using sizeHintsAxis_ok [of "normalHints wm w" 0 0] sizeHintsAxis_ok [of "normalHints wm w" 1 1]
  by (simp add: lorieWindowConstraints_def lorieWindowSizeHints_def Let_def sizeAxis_limits)

lemma wantedSize_fits:
  assumes "wantedSize sv out w st = (a, b)"
  shows "fits (fr_wm st) (ConfigureSize w a b) \<or> a = w_width (frStore st w) \<and> b = w_height (frStore st w)"
proof (cases "os_ownsSize out")
  case True
  then show ?thesis using assms constraints_order [of "fr_wm st" w]
    by (auto simp: wantedSize_def fits_def Let_def split: prod.splits)
next
  case False
  then show ?thesis using assms by (simp add: wantedSize_def)
qed

lemma prepareWindow_prep:
  assumes "configureLaws sv" "wf {(p, w). w_parent (frStore st w) = Some p}" "laid (frStore st) (WNode (wm_root (fr_wm st)) cs)"
  shows "\<exists>st2. prepareWindow sv out w st = Some st2 \<and> prepOk st st2"
proof -
  obtain a b where ab: "wantedSize sv out w st = (a, b)" by fastforce
  let ?x = "max 0 (w_x (frStore st w))" and ?y = "max 0 (w_y (frStore st w))"
  obtain st1 where st1: "moveContent sv w ?x ?y st = Some st1" "prepOk st st1"
      "w_width (frStore st1 w) = w_width (frStore st w)" "w_height (frStore st1 w) = w_height (frStore st w)"
    using moveContent_prep [OF assms(1,2)] by blast
  define st2 where "st2 = (if a \<noteq> w_width (frStore st1 w) \<or> b \<noteq> w_height (frStore st1 w) then configure sv (ConfigureSize w a b) st1 else st1)"
  have "prepOk st1 st2"
  proof (cases "a \<noteq> w_width (frStore st1 w) \<or> b \<noteq> w_height (frStore st1 w)")
    case True
    then have "fits (fr_wm st) (ConfigureSize w a b)" using wantedSize_fits [OF ab] st1(3,4) by auto
    moreover have "fits (fr_wm st1) = fits (fr_wm st)" by (rule fits_props) (use st1(2) in \<open>simp add: prepOk_def\<close>)
    ultimately show ?thesis using True prepOk_configure [OF assms(1), of st1 "ConfigureSize w a b"] unfolding st2_def by simp
  next
    case False
    then show ?thesis unfolding st2_def using prepOk_refl [of st1] by simp
  qed
  then have p2: "prepOk st st2" using prepOk_trans [OF st1(2)] by blast
  obtain ws where ws: "lorieWindowFamily (fv_env sv) (fr_wm st2) w = Some ws"
    using family_total [of "fr_wm st2" cs "fv_env sv" w] prepOk_laid [OF p2 assms(3)] by (auto simp: frStore_def)
  let ?pl = "\<lparr>fp_right = ?x + a, fp_bottom = ?y + b, fp_count = 0\<rparr>"
  obtain pl st3 where p3: "placeAll sv w (separated (fr_selections st2) out) ws (?pl, st2) = Some (pl, st3)" "prepOk st2 st3"
    using placeAll_prep [OF assms(1), of "(?pl, st2)"] prepOk_wf [OF p2 assms(2)] by fastforce
  have "prepOk st st3" "\<And>c d. prepOk st (notifyScreen sv c d st3)"
    using prepOk_trans [OF p2 p3(2)] prepOk_trans [OF _ prepOk_notify] by blast+
  then show ?thesis
    unfolding prepareWindow_def Let_def ab prod.case st1(1) bind.bind_lunit unfolding st2_def [symmetric]
    by (simp add: ws p3(1))
qed

text \<open>After its turn an output that can be prepared has nothing pending any more.\<close>

definition settled :: "OutputSelection \<Rightarrow> bool" where
  "settled out \<longleftrightarrow> os_dead out \<or> borrowed out \<or> \<not> os_resizePending out \<and> \<not> os_geometryPending out"

definition prepStep :: "nat \<Rightarrow> frameState \<Rightarrow> frameState \<Rightarrow> bool" where
  "prepStep i st st2 \<longleftrightarrow> (\<exists>out. settled out \<and> prepOk (st\<lparr>fr_selections := (fr_selections st)[i := out]\<rparr>) st2)"

lemma prepareOutput_prep:
  assumes "configureLaws sv" "wf {(p, w). w_parent (frStore st w) = Some p}" "laid (frStore st) (WNode (wm_root (fr_wm st)) cs)"
    and "i < length (fr_selections st)"
  shows "\<exists>st2. prepareOutput sv i st = Some st2 \<and> prepStep i st st2"
proof (cases "settled (fr_selections st ! i)")
  case True
  then have "prepareOutput sv i st = Some st" by (auto simp: prepareOutput_def settled_def Let_def)
  moreover have "prepStep i st st"
    unfolding prepStep_def using True prepOk_refl [of st] by (intro exI [of _ "fr_selections st ! i"]) simp
  ultimately show ?thesis by blast
next
  case False
  define out where "out = (fr_selections st ! i)\<lparr>os_resizePending := False, os_geometryPending := False\<rparr>"
  define st1 where "st1 = st\<lparr>fr_selections := (fr_selections st)[i := out]\<rparr>"
  have s: "settled out" by (simp add: settled_def out_def)
  have same: "frStore st1 = frStore st" "fr_wm st1 = fr_wm st" by (simp_all add: st1_def frStore_def)
  have win: "\<exists>st2. prepareWindow sv out w st1 = Some st2 \<and> prepOk st1 st2" for w
    by (rule prepareWindow_prep [OF assms(1), of st1 cs]) (use assms(2,3) same in simp_all)
  have "\<exists>st2. prepareOutput sv i st = Some st2 \<and> prepOk st1 st2"
    using False win prepOk_refl [of st1] prepOk_notify [of st1 sv]
    unfolding prepareOutput_def Let_def out_def [symmetric] st1_def [symmetric]
    by (auto simp: settled_def split: option.splits)
  then show ?thesis using s unfolding prepStep_def st1_def by blast
qed

lemma prepareAll_prep:
  assumes "configureLaws sv" "wf {(p, w). w_parent (frStore st w) = Some p}" "laid (frStore st) (WNode (wm_root (fr_wm st)) cs)"
    and "\<forall>i \<in> set is. i < length (fr_selections st)"
  shows "\<exists>st2 sels. prepareAll sv is st = Some st2 \<and> prepOk (st\<lparr>fr_selections := sels\<rparr>) st2 \<and> length sels = length (fr_selections st)
      \<and> (\<forall>j < length sels. j \<in> set is \<or> settled (fr_selections st ! j) \<longrightarrow> settled (sels ! j))"
  using assms(2-)
proof (induction "is" arbitrary: st)
  case Nil
  show ?case using prepOk_refl [of st] by (intro exI [of _ st] exI [of _ "fr_selections st"]) simp
next
  case (Cons i "is")
  then have i: "i < length (fr_selections st)" by simp
  obtain s where s: "prepareOutput sv i st = Some s" "prepStep i st s"
    using prepareOutput_prep [OF assms(1) Cons.prems(1,2) i] by blast
  then obtain out where o1: "settled out" "prepOk (st\<lparr>fr_selections := (fr_selections st)[i := out]\<rparr>) s" by (auto simp: prepStep_def)
  let ?u = "st\<lparr>fr_selections := (fr_selections st)[i := out]\<rparr>"
  have u: "frStore ?u = frStore st" "fr_wm ?u = fr_wm st" by (simp_all add: frStore_def)
  have sel: "fr_selections s = (fr_selections st)[i := out]" using o1(2) by (simp add: prepOk_def)
  have "wf {(p, w). w_parent (frStore s w) = Some p}" "laid (frStore s) (WNode (wm_root (fr_wm s)) cs)" "\<forall>i \<in> set is. i < length (fr_selections s)"
    using prepOk_wf [OF o1(2)] prepOk_laid [OF o1(2)] Cons.prems u sel by simp_all
  from Cons.IH [OF this] obtain st2 sels where r: "prepareAll sv is s = Some st2" "prepOk (s\<lparr>fr_selections := sels\<rparr>) st2"
      "length sels = length (fr_selections s)" "\<forall>j < length sels. j \<in> set is \<or> settled (fr_selections s ! j) \<longrightarrow> settled (sels ! j)" by blast
  have "prepOk (st\<lparr>fr_selections := sels\<rparr>) (s\<lparr>fr_selections := sels\<rparr>)" using o1(2) by (simp add: prepOk_def frStore_def)
  then have "prepOk (st\<lparr>fr_selections := sels\<rparr>) st2" using prepOk_trans r(2) by blast
  moreover have "\<forall>j < length sels. j \<in> set (i # is) \<or> settled (fr_selections st ! j) \<longrightarrow> settled (sels ! j)"
  proof (intro allI impI)
    fix j assume "j < length sels" "j \<in> set (i # is) \<or> settled (fr_selections st ! j)"
    then show "settled (sels ! j)" using r(4) sel o1(1) r(3) by (cases "j = i") auto
  qed
  ultimately show ?case using s(1) r sel by (intro exI [of _ st2] exI [of _ sels]) simp
qed


text \<open>One output showing the application window of \<open>demoWm\<close>, before its first frame.\<close>

definition demoFrameServer :: "LorieShellRect list frameServer" where
  "demoFrameServer = \<lparr>fv_hasRoot = True, fv_env = demoEnv, fv_regions = boxServer (\<lambda>_. []), fv_rr = demoRR, fv_tree = WNode 0 [WNode 1 []],
     fv_pixmap = (\<lambda>w. w + 1), fv_screenPixmap = 1, fv_pixmapSize = (\<lambda>_. (4, 3)), fv_depth = (\<lambda>_. 24), fv_redirectOk = (\<lambda>w. w = 1),
     fv_damageOk = (\<lambda>_. True), fv_export = Some, fv_border = (\<lambda>_ _. (0, 0)), fv_configure = (\<lambda>_ s. s), fv_hostSize = (\<lambda>_ s. s)\<rparr>"

definition demoFrames :: frameState where
  "demoFrames = \<lparr>fr_wm = demoWm, fr_selections = [newSelection (demoCommand\<lparr>oc_window := 7, oc_detail := 0\<rparr>)], fr_images = [],
     fr_screen = demoScreen, fr_damaged = (\<lambda>_. False), fr_liveDamage = {}, fr_nextDamage = 0, fr_redirects = (\<lambda>_. 0), fr_log = []\<rparr>"

lemma demoFrames_laid: "laid (wm_store (fr_wm demoFrames)) (WNode (wm_root (fr_wm demoFrames)) [WNode 1 []])"
  by (simp add: demoFrames_def demoWm_def plainWindow_def)


theorem images_in_step_witness:
  "\<exists>st2. loriePublishOutputs demoFrameServer demoFrames = Some st2 \<and> imagesOk st2 \<and> fr_images (resetImages demoFrameServer demoFrames) = []"
proof -
  have "imagesOk demoFrames" "imagesLive demoFrameServer (fr_images demoFrames)" "redirectsKnown demoFrameServer (fr_wm demoFrames)"
    by (simp_all add: imagesOk_def imgInv_def imagesLive_def redirectsKnown_def demoFrames_def demoFrameServer_def demoEnv_def demoWm_def)
  from images_in_step [OF demoFrames_laid this, of 0] show ?thesis by (auto simp: Let_def)
qed


end
