(* ===== verification/Data_Exchange.thy ===== *)
theory Data_Exchange
  imports Outputs Window_Family
begin

text \<open>
  The clipboard and drag-and-drop bridge (\<open>data_exchange.c\<close>): offers of both channels, the table of
  16 transfers with their descriptors and deadlines, conversion of selections in both directions,
  incremental transfers, the XDND drag of the host into X windows and the export of an X drag to
  the host.  Descriptors are numbers with the contents of the file behind them, windows of the
  server are the tree \<open>de_tree\<close> (children from \<open>firstChild\<close> on) and the private windows \<open>de_own\<close>.
\<close>

section \<open>State\<close>

abbreviation MAX_PENDING :: nat where
  "MAX_PENDING \<equiv> 16"

abbreviation LORIE_DATA_MAX_BYTES :: nat where
  "LORIE_DATA_MAX_BYTES \<equiv> 134217728"

abbreviation LORIE_DATA_MAX_TARGETS :: nat where
  "LORIE_DATA_MAX_TARGETS \<equiv> 64"

abbreviation LORIE_DATA_CHUNK :: nat where
  "LORIE_DATA_CHUNK \<equiv> 65536"

type_synonym xatom = u32

datatype LorieDataOperation =
  LORIE_DATA_ENABLE | LORIE_DATA_OFFER | LORIE_DATA_READ | LORIE_DATA_REQUEST | LORIE_DATA_REPLY | LORIE_DATA_ENTER
  | LORIE_DATA_MOVE | LORIE_DATA_LEAVE | LORIE_DATA_DROP | LORIE_DATA_STATUS | LORIE_DATA_FINISH | LORIE_DATA_CANCEL
  | LORIE_DATA_BEGIN

record LorieDataEvent =
  dx_operation :: LorieDataOperation
  dx_channel :: nat
  dx_serial :: u32
  dx_offer :: u32
  dx_output :: u32
  dx_window :: u32
  dx_x :: int
  dx_y :: int
  dx_mime :: string

record Offer =
  of_generation :: u32
  of_owner :: XID
  of_time :: u32
  of_targets :: "xatom list"
  of_local :: bool

record Transfer =
  tr_used :: bool
  tr_incoming :: bool
  tr_incremental :: bool
  tr_targets :: bool
  tr_serial :: u32
  tr_generation :: u32
  tr_ticket :: u32
  tr_queued :: bool
  tr_channel :: nat
  tr_fd :: "nat option"
  tr_requestor :: XID
  tr_target :: xatom
  tr_property :: xatom
  tr_time :: u32
  tr_size :: nat
  tr_offset :: nat
  tr_timer :: bool

datatype propData = Data8 "u8 list" | Data16 "u16 list" | Data32 "u32 list"

record dataProp =
  dp_type :: xatom
  dp_data :: propData

datatype propState = PropertyNewValue | PropertyDelete

datatype selKind = SelSetOwner | SelWindowDestroy | SelClientClose

text \<open>The owner of a selection; client 0 is the server.\<close>

record dataSel =
  ds_client :: "nat option"
  ds_window :: XID

datatype xdndKind = XdndEnter | XdndPosition | XdndLeave | XdndDrop | XdndStatus | XdndFinished

datatype dataEffect =
    Emit LorieDataEvent "nat option"
  | XMessage XID XID xdndKind u32 u32 u32 u32 u32
  | SelNotify XID u32 nat xatom xatom
  | SelRequest XID XID xatom xatom
  | SelClear XID nat
  | SetProperty XID xatom dataProp
  | DelProperty XID xatom
  | NewWindow XID
  | FreeWindow XID
  | CloseFd nat
  | ConfigureCatcher XID
  | RaiseCatcher XID
  | PointerNudge
  | ExportButtonUp u32 u32
  | GotStatus bool
  | PassedOn

record dataState =
  de_offers :: "nat \<Rightarrow> Offer"
  de_transfers :: "Transfer list"
  de_bridge :: XID
  de_sequence :: u32
  de_requestSequence :: u32
  de_transferSequence :: u32
  de_pointerOutput :: u32
  de_pointerWindow :: u32
  de_enabled :: bool
  de_clipboardActive :: bool
  de_pointerDown :: bool
  de_movingProperty :: bool
  de_dragTarget :: XID
  de_dragProxy :: XID
  de_dragSource :: XID
  de_dragOutput :: u32
  de_dragAccepted :: bool
  de_dragPassthrough :: bool
  de_dragPositionPending :: bool
  de_dragDropPending :: bool
  de_dragMoveQueued :: bool
  de_dragMove :: LorieDataEvent
  de_dragDataRevision :: u32
  de_dragPositionDataRevision :: u32
  de_dragVersion :: u32
  de_catcher :: XID
  de_exportedSource :: XID
  de_exportedOutput :: u32
  de_exportedWindow :: u32
  de_exportDropped :: bool
  de_exportCompleted :: bool
  de_exportSuccess :: bool
  de_exportTimer :: bool
  de_work :: "(nat \<times> u32) list"
  de_sel :: "nat \<Rightarrow> dataSel option"
  de_props :: "XID \<Rightarrow> xatom \<Rightarrow> dataProp option"
  de_tree :: wtree
  de_store :: wstore
  de_own :: "XID list"
  de_newWindows :: nat
  de_out :: outState
  de_open :: "nat set"
  de_files :: "nat \<Rightarrow> u8 list"
  de_nextFd :: nat
  de_now :: u32
  de_log :: "dataEffect list"

text \<open>
  What the server and the kernel answer: \<open>dv_atom\<close> and \<open>dv_name\<close> are \<open>MakeAtom\<close> and \<open>NameForAtom\<close>,
  \<open>dv_hit\<close> says that neither \<open>unhittable\<close> nor the bounding and input shapes exclude a point,
  \<open>dv_fakeId\<close> gives the identifiers of windows that the server creates for itself.
\<close>

record dataServer =
  dv_hasRoot :: bool
  dv_root :: XID
  dv_atom :: "string \<Rightarrow> xatom"
  dv_name :: "xatom \<Rightarrow> string option"
  dv_client :: "XID \<Rightarrow> nat"
  dv_fakeId :: "nat \<Rightarrow> XID"
  dv_newOk :: "nat \<Rightarrow> bool"
  dv_timerOk :: bool
  dv_workOk :: bool
  dv_memfdOk :: "nat \<Rightarrow> bool"
  dv_writeOk :: "nat \<Rightarrow> nat \<Rightarrow> bool"
  dv_readOk :: "nat \<Rightarrow> nat \<Rightarrow> bool"
  dv_changeOk :: "XID \<Rightarrow> xatom \<Rightarrow> bool"
  dv_setAttrOk :: "XID \<Rightarrow> bool"
  dv_selAccess :: "nat \<Rightarrow> bool"
  dv_selCreate :: "nat \<Rightarrow> bool"
  dv_hit :: "wptr \<Rightarrow> int \<Rightarrow> int \<Rightarrow> bool"
  dv_out :: outServer

definition emitData :: "dataEffect \<Rightarrow> dataState \<Rightarrow> dataState" where
  "emitData e st = st\<lparr>de_log := de_log st @ [e]\<rparr>"

text \<open>The atoms of \<open>lorieDataInit\<close>.\<close>

definition atomClipboard :: "dataServer \<Rightarrow> xatom" where "atomClipboard sv = dv_atom sv ''CLIPBOARD''"
definition atomXdnd :: "dataServer \<Rightarrow> xatom" where "atomXdnd sv = dv_atom sv ''XdndSelection''"
definition atomTargets :: "dataServer \<Rightarrow> xatom" where "atomTargets sv = dv_atom sv ''TARGETS''"
definition atomTimestamp :: "dataServer \<Rightarrow> xatom" where "atomTimestamp sv = dv_atom sv ''TIMESTAMP''"
definition atomIncr :: "dataServer \<Rightarrow> xatom" where "atomIncr sv = dv_atom sv ''INCR''"
definition atomData :: "dataServer \<Rightarrow> xatom" where "atomData sv = dv_atom sv ''_MAGICDESK_DATA''"
definition atomAware :: "dataServer \<Rightarrow> xatom" where "atomAware sv = dv_atom sv ''XdndAware''"
definition atomCopy :: "dataServer \<Rightarrow> xatom" where "atomCopy sv = dv_atom sv ''XdndActionCopy''"
definition atomTypeList :: "dataServer \<Rightarrow> xatom" where "atomTypeList sv = dv_atom sv ''XdndTypeList''"
definition atomProxy :: "dataServer \<Rightarrow> xatom" where "atomProxy sv = dv_atom sv ''XdndProxy''"

abbreviation XA_ATOM :: xatom where "XA_ATOM \<equiv> 4"
abbreviation XA_INTEGER :: xatom where "XA_INTEGER \<equiv> 19"
abbreviation XA_WINDOW :: xatom where "XA_WINDOW \<equiv> 33"

definition kindOf :: "dataServer \<Rightarrow> xatom \<Rightarrow> xdndKind option" where
  "kindOf sv a =
     (if a = dv_atom sv ''XdndEnter'' then Some XdndEnter
      else if a = dv_atom sv ''XdndPosition'' then Some XdndPosition
      else if a = dv_atom sv ''XdndLeave'' then Some XdndLeave
      else if a = dv_atom sv ''XdndDrop'' then Some XdndDrop
      else if a = dv_atom sv ''XdndStatus'' then Some XdndStatus
      else if a = dv_atom sv ''XdndFinished'' then Some XdndFinished
      else None)"

definition selection :: "dataServer \<Rightarrow> nat \<Rightarrow> xatom" where
  "selection sv ch = (if ch \<noteq> 0 then atomXdnd sv else atomClipboard sv)"

definition channelOf :: "dataServer \<Rightarrow> xatom \<Rightarrow> nat option" where
  "channelOf sv a = (if a = atomClipboard sv then Some 0 else if a = atomXdnd sv then Some 1 else None)"

section \<open>Windows and descriptors\<close>

definition windowFor :: "XID \<Rightarrow> dataState \<Rightarrow> bool" where
  "windowFor i st \<longleftrightarrow> i \<in> set (de_own st) \<or> list_ex (\<lambda>w. w_id (de_store st w) = i) (pre (de_tree st))"

definition newWindow :: "dataServer \<Rightarrow> dataState \<Rightarrow> XID \<times> dataState" where
  "newWindow sv st =
     (let n = de_newWindows st; i = dv_fakeId sv n; st1 = st\<lparr>de_newWindows := n + 1\<rparr>
      in if dv_newOk sv n then (i, emitData (NewWindow i) (st1\<lparr>de_own := i # de_own st1\<rparr>)) else (0, st1))"

definition freeWindow :: "XID \<Rightarrow> dataState \<Rightarrow> dataState" where
  "freeWindow i st = emitData (FreeWindow i) (st\<lparr>de_own := removeAll i (de_own st), de_props := (de_props st)(i := Map.empty)\<rparr>)"

definition closeFd :: "nat \<Rightarrow> dataState \<Rightarrow> dataState" where
  "closeFd fd st = emitData (CloseFd fd) (st\<lparr>de_open := de_open st - {fd}\<rparr>)"

text \<open>A new descriptor for a file with these contents.\<close>

definition openFile :: "u8 list \<Rightarrow> dataState \<Rightarrow> nat \<times> dataState" where
  "openFile bytes st =
     (let fd = de_nextFd st
      in (fd, st\<lparr>de_nextFd := fd + 1, de_open := insert fd (de_open st), de_files := (de_files st)(fd := bytes)\<rparr>))"

definition bytesFile :: "dataServer \<Rightarrow> u8 list \<Rightarrow> dataState \<Rightarrow> nat option \<times> dataState" where
  "bytesFile sv bytes st =
     (if \<not> dv_memfdOk sv (de_nextFd st) then (None, st)
      else let (fd, st1) = openFile [] st
      in if bytes = [] then (Some fd, st1)
         else if dv_writeOk sv fd 0 then (Some fd, st1\<lparr>de_files := (de_files st1)(fd := bytes)\<rparr>)
         else (None, closeFd fd st1))"

text \<open>\<open>pwrite\<close> at the end of what was written before, and \<open>pread\<close>.\<close>

definition writeAt :: "u8 list \<Rightarrow> nat \<Rightarrow> u8 list \<Rightarrow> u8 list" where
  "writeAt bytes offset file =
     take offset (file @ replicate (offset - length file) 0) @ bytes @ drop (offset + length bytes) file"

definition readFile :: "dataServer \<Rightarrow> nat \<Rightarrow> nat \<Rightarrow> nat \<Rightarrow> dataState \<Rightarrow> u8 list option" where
  "readFile sv fd offset n st =
     (let bytes = take n (drop offset (de_files st fd))
      in if dv_readOk sv fd offset \<and> length bytes = n then Some bytes else None)"

section \<open>Messages\<close>

definition cMime :: "string \<Rightarrow> string" where
  "cMime s = take 127 s @ replicate (128 - length (take 127 s)) (CHR 0x00)"

definition emit ::
    "LorieDataOperation \<Rightarrow> nat \<Rightarrow> u32 \<Rightarrow> u32 \<Rightarrow> string option \<Rightarrow> nat option \<Rightarrow> u32 \<Rightarrow> u32 \<Rightarrow> int \<Rightarrow> dataState \<Rightarrow> dataState" where
  "emit operation ch serial generation mime fd out window x =
     emitData (Emit \<lparr>dx_operation = operation, dx_channel = ch, dx_serial = serial, dx_offer = generation, dx_output = out,
        dx_window = window, dx_x = x, dx_y = 0,
        dx_mime = cMime (case mime of None \<Rightarrow> [] | Some m \<Rightarrow> m)\<rparr> fd)"

definition message :: "dataServer \<Rightarrow> XID \<Rightarrow> XID \<Rightarrow> xdndKind \<Rightarrow> u32 \<Rightarrow> u32 \<Rightarrow> u32 \<Rightarrow> u32 \<Rightarrow> u32 \<Rightarrow> dataState \<Rightarrow> dataState" where
  "message sv destination actual kind a b c d e st =
     (if \<not> windowFor destination st \<or> dv_client sv destination = 0 then st
      else emitData (XMessage destination actual kind a b c d e) st)"

definition notify :: "dataServer \<Rightarrow> Transfer \<Rightarrow> bool \<Rightarrow> dataState \<Rightarrow> dataState" where
  "notify sv t success st =
     (if \<not> windowFor (tr_requestor t) st \<or> dv_client sv (tr_requestor t) = 0 then st
      else emitData (SelNotify (tr_requestor t) (tr_time t) (tr_channel t) (tr_target t) (if success then tr_property t else 0)) st)"

definition transfer :: "nat \<Rightarrow> dataState \<Rightarrow> Transfer" where
  "transfer i st = de_transfers st ! i"

definition setTransfer :: "nat \<Rightarrow> Transfer \<Rightarrow> dataState \<Rightarrow> dataState" where
  "setTransfer i t st = st\<lparr>de_transfers := (de_transfers st)[i := t]\<rparr>"

definition release :: "nat \<Rightarrow> dataState \<Rightarrow> dataState" where
  "release i st =
     (let t = transfer i st
      in if \<not> tr_used t then st
      else let st = (case tr_fd t of None \<Rightarrow> st | Some fd \<Rightarrow> closeFd fd st);
               st = (if tr_incoming t \<and> tr_requestor t \<noteq> 0 then freeWindow (tr_requestor t) st else st)
      in setTransfer i (t\<lparr>tr_used := False, tr_timer := False, tr_fd := None\<rparr>) st)"

section \<open>Properties and work\<close>

text \<open>
  The callback on a changed property only queues work: the first matching transfer, unless it is
  queued already.
\<close>

definition propertyChanged :: "dataServer \<Rightarrow> XID \<Rightarrow> xatom \<Rightarrow> propState \<Rightarrow> dataState \<Rightarrow> dataState" where
  "propertyChanged sv win prop change st =
     (if \<not> de_enabled st \<or> de_movingProperty st then st
      else case findIndex (\<lambda>t. tr_used t \<and> tr_incremental t \<and> tr_requestor t = win \<and> tr_property t = prop) (de_transfers st) of
        None \<Rightarrow> st
      | Some i \<Rightarrow>
          let t = transfer i st
          in if \<not> tr_queued t \<and> (tr_incoming t \<and> change = PropertyNewValue \<or> \<not> tr_incoming t \<and> change = PropertyDelete) \<and> dv_workOk sv
             then (setTransfer i (t\<lparr>tr_queued := True\<rparr>) st)\<lparr>de_work := de_work st @ [(i, tr_ticket t)]\<rparr> else st)"

definition changeProperty :: "dataServer \<Rightarrow> XID \<Rightarrow> xatom \<Rightarrow> xatom \<Rightarrow> propData \<Rightarrow> dataState \<Rightarrow> bool \<times> dataState" where
  "changeProperty sv win prop type data st =
     (if \<not> dv_changeOk sv win prop then (False, st)
      else let v = \<lparr>dp_type = type, dp_data = data\<rparr>
      in (True, propertyChanged sv win prop PropertyNewValue
            (emitData (SetProperty win prop v) (st\<lparr>de_props := (de_props st)(win := (de_props st win)(prop := Some v))\<rparr>))))"

definition deleteProperty :: "dataServer \<Rightarrow> XID \<Rightarrow> xatom \<Rightarrow> dataState \<Rightarrow> dataState" where
  "deleteProperty sv win prop st =
     propertyChanged sv win prop PropertyDelete
       (emitData (DelProperty win prop) (st\<lparr>de_props := (de_props st)(win := (de_props st win)(prop := None))\<rparr>))"

section \<open>Dragging into X windows\<close>

fun childAt :: "dataServer \<Rightarrow> dataState \<Rightarrow> int \<Rightarrow> int \<Rightarrow> wtree \<Rightarrow> XID"
and childIn :: "dataServer \<Rightarrow> dataState \<Rightarrow> int \<Rightarrow> int \<Rightarrow> wtree list \<Rightarrow> XID option" where
  "childAt sv st x y (WNode w cs) = (case childIn sv st x y cs of Some i \<Rightarrow> i | None \<Rightarrow> w_id (de_store st w))"
| "childIn sv st x y [] = None"
| "childIn sv st x y (c # cs) =
     (let w = de_store st (rt c)
      in if \<not> w_mapped w \<or> w_id w = de_bridge st \<or> w_id w = de_catcher st then childIn sv st x y cs
         else if x \<ge> w_x w \<and> y \<ge> w_y w \<and> x < w_x w + w_width w \<and> y < w_y w + w_height w \<and> dv_hit sv (rt c) x y
              then let nested = childAt sv st x y c in Some (if nested \<noteq> 0 then nested else w_id w)
              else childIn sv st x y cs)"

fun subtreeAt :: "(wptr \<Rightarrow> bool) \<Rightarrow> wtree \<Rightarrow> wtree option"
and subtreeIn :: "(wptr \<Rightarrow> bool) \<Rightarrow> wtree list \<Rightarrow> wtree option" where
  "subtreeAt p (WNode w cs) = (if p w then Some (WNode w cs) else subtreeIn p cs)"
| "subtreeIn p [] = None"
| "subtreeIn p (c # cs) = (case subtreeAt p c of Some t \<Rightarrow> Some t | None \<Rightarrow> subtreeIn p cs)"

text \<open>The window and its parents up to the root.\<close>

fun ancestry :: "(wptr \<Rightarrow> bool) \<Rightarrow> wtree \<Rightarrow> wptr list"
and ancestries :: "(wptr \<Rightarrow> bool) \<Rightarrow> wtree list \<Rightarrow> wptr list" where
  "ancestry p (WNode w cs) = (if p w then [w] else case ancestries p cs of [] \<Rightarrow> [] | v # vs \<Rightarrow> (v # vs) @ [w])"
| "ancestries p [] = []"
| "ancestries p (c # cs) = (case ancestry p c of [] \<Rightarrow> ancestries p cs | v # vs \<Rightarrow> v # vs)"

definition awareVersion :: "dataServer \<Rightarrow> XID \<Rightarrow> dataState \<Rightarrow> u32" where
  "awareVersion sv i st =
     (case de_props st i (atomAware sv) of None \<Rightarrow> 0
      | Some v \<Rightarrow> (case dp_data v of Data32 (n # _) \<Rightarrow> if dp_type v = XA_ATOM then min 5 n else 0 | _ \<Rightarrow> 0))"

definition proxyOf :: "dataServer \<Rightarrow> XID \<Rightarrow> dataState \<Rightarrow> XID option" where
  "proxyOf sv i st =
     (if \<not> windowFor i st then None
      else case de_props st i (atomProxy sv) of None \<Rightarrow> None
        | Some v \<Rightarrow> (case dp_data v of Data32 [n] \<Rightarrow> if dp_type v = XA_WINDOW then Some n else None | _ \<Rightarrow> None))"

definition destinationProxy :: "dataServer \<Rightarrow> XID \<Rightarrow> dataState \<Rightarrow> XID" where
  "destinationProxy sv t st =
     (case proxyOf sv t st of None \<Rightarrow> t | Some i \<Rightarrow> if proxyOf sv i st = Some i then i else t)"

text \<open>The closest window at a point that takes part in XDND.\<close>

definition dragWindow :: "dataServer \<Rightarrow> XID \<Rightarrow> int \<Rightarrow> int \<Rightarrow> dataState \<Rightarrow> XID" where
  "dragWindow sv selected x y st =
     (let named = (\<lambda>i w. w_id (de_store st w) = i);
          under = (case subtreeAt (named selected) (de_tree st) of None \<Rightarrow> selected | Some t \<Rightarrow> childAt sv st x y t)
      in case find (\<lambda>w. awareVersion sv (w_id (de_store st w)) st \<noteq> 0) (ancestry (named under) (de_tree st)) of
           None \<Rightarrow> 0 | Some w \<Rightarrow> w_id (de_store st w))"

definition nthTarget :: "nat \<Rightarrow> Offer \<Rightarrow> xatom" where
  "nthTarget n off = (if length (of_targets off) > n then of_targets off ! n else 0)"

definition enterTarget :: "dataServer \<Rightarrow> XID \<Rightarrow> dataState \<Rightarrow> dataState" where
  "enterTarget sv nxt st =
     (let st = (if de_dragTarget st \<noteq> 0 then message sv (de_dragProxy st) (de_dragTarget st) XdndLeave (de_dragSource st) 0 0 0 0 st else st);
          st = st\<lparr>de_dragTarget := nxt, de_dragProxy := (if nxt \<noteq> 0 then destinationProxy sv nxt st else 0),
                  de_dragAccepted := False, de_dragPositionPending := False\<rparr>
      in if nxt = 0 then st
         else let st = st\<lparr>de_dragVersion := awareVersion sv nxt st\<rparr>; off = de_offers st 1
         in message sv (de_dragProxy st) nxt XdndEnter (de_dragSource st)
              (push_bit 24 (de_dragVersion st) OR (if length (of_targets off) > 3 then 1 else 0))
              (nthTarget 0 off) (nthTarget 1 off) (nthTarget 2 off) st)"

definition moveDrag :: "dataServer \<Rightarrow> LorieDataEvent \<Rightarrow> dataState \<Rightarrow> dataState" where
  "moveDrag sv ev st =
     (let st = st\<lparr>de_dragMove := ev\<rparr>
      in if de_dragPositionPending st then st\<lparr>de_dragMoveQueued := True\<rparr>
      else case lorieOutputPoint (dv_out sv) (dx_output ev) (dx_window ev) (dx_x ev) (dx_y ev) (de_out st) of
        None \<Rightarrow> st
      | Some (x, y) \<Rightarrow>
          let nxt = dragWindow sv (if dx_window ev = 0 then dv_root sv else dx_window ev) x y st;
              st = (if nxt \<noteq> de_dragTarget st then enterTarget sv nxt st else st);
              st = st\<lparr>de_dragOutput := dx_output ev\<rparr>
          in if de_dragTarget st = 0 then st
             else message sv (de_dragProxy st) (de_dragTarget st) XdndPosition (de_dragSource st) 0
                    (push_bit 16 (of_int x) OR (of_int y AND 0xFFFF)) (de_now st) (atomCopy sv)
                    (st\<lparr>de_dragPositionPending := True, de_dragPositionDataRevision := de_dragDataRevision st\<rparr>))"

definition dragDataPending :: "dataState \<Rightarrow> bool" where
  "dragDataPending st =
     list_ex (\<lambda>t. tr_used t \<and> \<not> tr_incoming t \<and> tr_channel t = 1 \<and> tr_generation t = of_generation (de_offers st 1)) (de_transfers st)"

definition rejectDrag :: "dataServer \<Rightarrow> dataState \<Rightarrow> dataState" where
  "rejectDrag sv st =
     (let st = st\<lparr>de_dragDropPending := False\<rparr>;
          st = (if de_dragTarget st \<noteq> 0 then message sv (de_dragProxy st) (de_dragTarget st) XdndLeave (de_dragSource st) 0 0 0 0 st else st);
          st = emit LORIE_DATA_FINISH 1 0 (of_generation (de_offers st 1)) None None (de_dragOutput st) (de_dragTarget st) 0 st
      in st\<lparr>de_dragTarget := 0\<rparr>)"

definition dropDrag :: "dataServer \<Rightarrow> dataState \<Rightarrow> dataState" where
  "dropDrag sv st =
     (if de_dragPositionPending st then st\<lparr>de_dragDropPending := True\<rparr>
      else if de_dragTarget st \<noteq> 0 \<and> \<not> de_dragAccepted st \<and> dragDataPending st then st\<lparr>de_dragDropPending := True\<rparr>
      else if de_dragTarget st \<noteq> 0 \<and> \<not> de_dragAccepted st \<and> de_dragDataRevision st \<noteq> de_dragPositionDataRevision st
           then moveDrag sv (de_dragMove st) (st\<lparr>de_dragDropPending := True\<rparr>)
      else let st = st\<lparr>de_dragDropPending := False\<rparr>
      in if de_dragTarget st \<noteq> 0 \<and> de_dragAccepted st
         then message sv (de_dragProxy st) (de_dragTarget st) XdndDrop (de_dragSource st) 0 (de_now st) 0 0 st
         else rejectDrag sv st)"

definition selectionFinished :: "dataServer \<Rightarrow> Transfer \<Rightarrow> bool \<Rightarrow> dataState \<Rightarrow> dataState" where
  "selectionFinished sv t success st =
     (if tr_incoming t \<or> tr_channel t \<noteq> 1 \<or> tr_generation t \<noteq> of_generation (de_offers st 1) \<or> de_dragTarget st = 0 then st
      else let st = (if success then st\<lparr>de_dragDataRevision := de_dragDataRevision st + 1\<rparr> else st)
      in if \<not> de_dragDropPending st then st
         else if success then dropDrag sv st else rejectDrag sv st)"

section \<open>Transfers\<close>

definition failTransfer :: "dataServer \<Rightarrow> nat \<Rightarrow> dataState \<Rightarrow> dataState" where
  "failTransfer sv i st =
     (let t = transfer i st;
          st = (if tr_incoming t
                then if \<not> tr_targets t
                     then emit LORIE_DATA_REPLY (tr_channel t) (tr_serial t) (tr_generation t) (dv_name sv (tr_target t)) None 0 0 0 st else st
                else if \<not> tr_incremental t then notify sv t False st
                else if windowFor (tr_requestor t) st
                     then snd (changeProperty sv (tr_requestor t) (tr_property t) (tr_target t) (Data8 []) st) else st)
      in selectionFinished sv t False (release i st))"

definition expired :: "dataServer \<Rightarrow> nat \<Rightarrow> dataState \<Rightarrow> dataState" where
  "expired sv i st = failTransfer sv i (setTransfer i ((transfer i st)\<lparr>tr_timer := False\<rparr>) st)"

definition allocateTransfer :: "dataServer \<Rightarrow> bool \<Rightarrow> nat \<Rightarrow> u32 \<Rightarrow> u32 \<Rightarrow> dataState \<Rightarrow> nat option \<times> dataState" where
  "allocateTransfer sv incoming ch serial generation st =
     (case findIndex (\<lambda>t. \<not> tr_used t) (de_transfers st) of None \<Rightarrow> (None, st)
      | Some i \<Rightarrow>
          let n = de_transferSequence st + 1
          in (Some i, setTransfer i \<lparr>tr_used = True, tr_incoming = incoming, tr_incremental = False, tr_targets = False,
                tr_serial = serial, tr_generation = generation, tr_ticket = n, tr_queued = False, tr_channel = ch, tr_fd = None,
                tr_requestor = 0, tr_target = 0, tr_property = 0, tr_time = 0, tr_size = 0, tr_offset = 0, tr_timer = dv_timerOk sv\<rparr>
              (st\<lparr>de_transferSequence := n\<rparr>)))"

definition supportedName :: "string option \<Rightarrow> bool" where
  "supportedName name =
     (case name of None \<Rightarrow> False
      | Some s \<Rightarrow> length s < 128 \<and> (CHR ''/'' \<in> set s \<or> s = ''UTF8_STRING'' \<or> s = ''STRING'' \<or> s = ''TEXT''))"

definition bytesOf :: "string \<Rightarrow> u8 list" where
  "bytesOf s = map (\<lambda>c. of_nat (of_char c)) s"

text \<open>
  The buffer that \<open>snprintf\<close> fills line by line: its last byte is always the terminating zero, also
  when the lines add up to its whole size.
\<close>

definition targetNames :: "dataServer \<Rightarrow> xatom list \<Rightarrow> string" where
  "targetNames sv ts =
     (let text = concat (map (\<lambda>a. if supportedName (dv_name sv a) then the (dv_name sv a) @ [CHR 0x0A] else []) ts)
      in if length text < LORIE_DATA_MAX_TARGETS * 128 then text else take (LORIE_DATA_MAX_TARGETS * 128 - 1) text @ [CHR 0x00])"

definition publishTargets :: "dataServer \<Rightarrow> nat \<Rightarrow> dataState \<Rightarrow> dataState" where
  "publishTargets sv ch st =
     (let off = de_offers st ch; (fd, st) = bytesFile sv (bytesOf (targetNames sv (of_targets off))) st;
          st = emit LORIE_DATA_OFFER ch 0 (of_generation off) None fd (if ch \<noteq> 0 then de_pointerOutput st else 0) (of_owner off) 0 st
      in case fd of None \<Rightarrow> st | Some n \<Rightarrow> closeFd n st)"

definition request :: "dataServer \<Rightarrow> nat \<Rightarrow> u32 \<Rightarrow> u32 \<Rightarrow> xatom \<Rightarrow> bool \<Rightarrow> dataState \<Rightarrow> dataState" where
  "request sv ch serial generation target listing st =
     (let off = de_offers st ch;
          refused = (\<lambda>st. if listing then st else emit LORIE_DATA_REPLY ch serial generation (dv_name sv target) None 0 0 0 st);
          owner = (if dv_selAccess sv ch then de_sel st ch else None)
      in case owner of None \<Rightarrow> refused st
       | Some s \<Rightarrow>
           if of_local off \<or> of_generation off \<noteq> generation \<or> ds_client s = None \<or> ds_window s \<noteq> of_owner off \<or> ds_window s = 0
           then refused st
           else case allocateTransfer sv True ch serial generation st of (None, st) \<Rightarrow> refused st
             | (Some i, st) \<Rightarrow>
                 let (w, st) = newWindow sv st;
                     st = setTransfer i ((transfer i st)\<lparr>tr_target := target, tr_targets := listing, tr_property := atomData sv, tr_requestor := w\<rparr>) st
                 in if w = 0 then failTransfer sv i st
                    else emitData (SelRequest (ds_window s) w target (atomData sv)) st)"

definition pickTargets :: "dataServer \<Rightarrow> u32 list \<Rightarrow> xatom list" where
  "pickTargets sv values = take LORIE_DATA_MAX_TARGETS (filter (\<lambda>v. supportedName (dv_name sv v)) values)"

definition receiveTargets :: "dataServer \<Rightarrow> nat \<Rightarrow> dataProp \<Rightarrow> dataState \<Rightarrow> dataState" where
  "receiveTargets sv i v st =
     (let ch = tr_channel (transfer i st)
      in case dp_data v of Data32 values \<Rightarrow>
           if dp_type v \<noteq> XA_ATOM \<or> length values > 4096 then failTransfer sv i st
           else release i (publishTargets sv ch (st\<lparr>de_offers := (de_offers st)(ch := (de_offers st ch)\<lparr>of_targets := pickTargets sv values\<rparr>)\<rparr>))
         | _ \<Rightarrow> failTransfer sv i st)"

definition receiveBytes :: "dataServer \<Rightarrow> nat \<Rightarrow> u8 list \<Rightarrow> dataState \<Rightarrow> dataState" where
  "receiveBytes sv i bytes st =
     (let t = transfer i st
      in if length bytes > LORIE_DATA_MAX_BYTES - tr_size t then failTransfer sv i st
      else let (fd, st) = (case tr_fd t of Some fd \<Rightarrow> (Some fd, st) | None \<Rightarrow> bytesFile sv [] st);
               st = setTransfer i (t\<lparr>tr_fd := fd\<rparr>) st
      in case fd of None \<Rightarrow> failTransfer sv i st
       | Some n \<Rightarrow>
           if bytes \<noteq> [] \<and> \<not> dv_writeOk sv n (tr_size t) then failTransfer sv i st
           else let st = (if bytes = [] then st else st\<lparr>de_files := (de_files st)(n := writeAt bytes (tr_size t) (de_files st n))\<rparr>);
                    t = t\<lparr>tr_fd := fd, tr_size := tr_size t + length bytes\<rparr>; st = setTransfer i t st
                in if \<not> tr_incremental t \<or> bytes = []
                   then release i (emit LORIE_DATA_REPLY (tr_channel t) (tr_serial t) (tr_generation t) (dv_name sv (tr_target t)) fd 0 0 1 st)
                   else deleteProperty sv (tr_requestor t) (tr_property t) st)"

text \<open>The announced size of an incremental transfer.\<close>

definition startIncremental :: "dataServer \<Rightarrow> nat \<Rightarrow> u32 \<Rightarrow> dataState \<Rightarrow> dataState" where
  "startIncremental sv i announced st =
     (let t = transfer i st
      in if tr_targets t \<or> unat announced > LORIE_DATA_MAX_BYTES then failTransfer sv i st
      else let (fd, st) = bytesFile sv [] st; st = setTransfer i (t\<lparr>tr_fd := fd\<rparr>) st
      in if fd = None then failTransfer sv i st
         else deleteProperty sv (tr_requestor t) (tr_property t) (setTransfer i (t\<lparr>tr_fd := fd, tr_incremental := True\<rparr>) st))"

definition receive :: "dataServer \<Rightarrow> nat \<Rightarrow> bool \<Rightarrow> dataState \<Rightarrow> dataState" where
  "receive sv i initial st =
     (let t = transfer i st;
          prop = (if windowFor (tr_requestor t) st then de_props st (tr_requestor t) (tr_property t) else None)
      in case prop of None \<Rightarrow> failTransfer sv i st
       | Some v \<Rightarrow>
           if tr_generation t \<noteq> of_generation (de_offers st (tr_channel t)) then failTransfer sv i st
           else if initial \<and> dp_type v = atomIncr sv \<and> (case dp_data v of Data32 [n] \<Rightarrow> True | _ \<Rightarrow> False)
                then (case dp_data v of Data32 [n] \<Rightarrow> startIncremental sv i n st | _ \<Rightarrow> st)
           else if tr_targets t then receiveTargets sv i v st
           else case dp_data v of Data8 bytes \<Rightarrow> receiveBytes sv i bytes st | _ \<Rightarrow> failTransfer sv i st)"

text \<open>The remaining length is computed on \<open>size_t\<close>: it is huge when the offset is past the size.\<close>

definition chunkLength :: "nat \<Rightarrow> nat \<Rightarrow> nat" where
  "chunkLength whole offset = (if offset \<le> whole then min LORIE_DATA_CHUNK (whole - offset) else LORIE_DATA_CHUNK)"

definition sendChunk :: "dataServer \<Rightarrow> nat \<Rightarrow> dataState \<Rightarrow> bool \<times> dataState" where
  "sendChunk sv i st =
     (let t = transfer i st
      in if \<not> windowFor (tr_requestor t) st then (False, selectionFinished sv t False (release i st))
      else let n = chunkLength (tr_size t) (tr_offset t);
               bytes = (if n = 0 then Some [] else Option.bind (tr_fd t) (\<lambda>fd. readFile sv fd (tr_offset t) n st))
      in case bytes of None \<Rightarrow> (False, failTransfer sv i st)
       | Some bs \<Rightarrow>
           let st = setTransfer i (t\<lparr>tr_offset := tr_offset t + n\<rparr>) st;
               (rc, st) = changeProperty sv (tr_requestor t) (tr_property t) (tr_target t) (Data8 bs) (st\<lparr>de_movingProperty := True\<rparr>);
               st = st\<lparr>de_movingProperty := False\<rparr>
           in (rc, if tr_incremental t \<and> (\<not> rc \<or> n = 0) then selectionFinished sv t rc (release i st) else st))"

text \<open>The queued work points into the table; the ticket tells whether the slot was reused meanwhile.\<close>

definition propertyWork :: "dataServer \<Rightarrow> nat \<times> u32 \<Rightarrow> dataState \<Rightarrow> dataState" where
  "propertyWork sv work st =
     (let (i, ticket) = work; t = transfer i st
      in if i < length (de_transfers st) \<and> de_enabled st \<and> tr_used t \<and> tr_ticket t = ticket
         then let st = setTransfer i (t\<lparr>tr_queued := False\<rparr>) st
              in if tr_incoming t then receive sv i False st else snd (sendChunk sv i st)
         else st)"

section \<open>Export of an X drag to the host\<close>

definition releaseExportPointer :: "dataState \<Rightarrow> dataState" where
  "releaseExportPointer st =
     (if de_exportedOutput st = 0 then st
      else let st = (if windowFor (de_catcher st) st then emitData PointerNudge (emitData (RaiseCatcher (de_catcher st)) st) else st);
               st = emitData (ExportButtonUp (de_exportedOutput st) (de_exportedWindow st))
                      (st\<lparr>de_out := lorieReleaseOutputButton (de_exportedOutput st) (de_exportedWindow st) 1 (de_out st)\<rparr>);
               st = (if de_pointerOutput st = de_exportedOutput st \<and> de_pointerWindow st = de_exportedWindow st
                     then st\<lparr>de_pointerDown := False\<rparr> else st)
      in st\<lparr>de_exportedOutput := 0, de_exportedWindow := 0\<rparr>)"

definition endExport :: "dataServer \<Rightarrow> dataState \<Rightarrow> dataState" where
  "endExport sv st =
     (let st = st\<lparr>de_exportTimer := False\<rparr>;
          st = (if de_exportedSource st \<noteq> 0
                then message sv (de_exportedSource st) (de_exportedSource st) XdndFinished (de_catcher st)
                       (if de_exportDropped st \<and> de_exportCompleted st \<and> de_exportSuccess st then 1 else 0) (atomCopy sv) 0 0 st
                else st);
          st = st\<lparr>de_exportedSource := 0\<rparr>;
          st = (if de_catcher st \<noteq> 0 then (freeWindow (de_catcher st) st)\<lparr>de_catcher := 0\<rparr> else st)
      in releaseExportPointer st)"

definition exportExpired :: "dataServer \<Rightarrow> dataState \<Rightarrow> dataState" where
  "exportExpired sv st = endExport sv (st\<lparr>de_exportTimer := False, de_exportSuccess := False\<rparr>)"

definition beginExport :: "dataServer \<Rightarrow> dataState \<Rightarrow> dataState" where
  "beginExport sv st =
     (let off = de_offers st 1
      in if de_exportedSource st \<noteq> 0 \<or> of_local off \<or> of_owner off = 0 \<or> \<not> de_pointerDown st then st
      else let (w, st) = newWindow sv st; st = st\<lparr>de_catcher := w\<rparr>
      in if \<not> windowFor w st then st
         else let st = emitData (ConfigureCatcher w) st; st = snd (changeProperty sv w (atomAware sv) XA_ATOM (Data32 [5]) st)
         in emitData PointerNudge (st\<lparr>de_exportedSource := of_owner off, de_exportedOutput := de_pointerOutput st,
              de_exportedWindow := de_pointerWindow st, de_exportDropped := False, de_exportCompleted := False,
              de_exportSuccess := False, de_exportTimer := dv_timerOk sv\<rparr>))"

section \<open>Selections\<close>

fun failChannel :: "dataServer \<Rightarrow> nat \<Rightarrow> nat list \<Rightarrow> dataState \<Rightarrow> dataState" where
  "failChannel sv ch [] st = st"
| "failChannel sv ch (i # is) st =
     failChannel sv ch is (if tr_used (transfer i st) \<and> tr_channel (transfer i st) = ch then failTransfer sv i st else st)"

definition selectionChanged :: "dataServer \<Rightarrow> xatom \<Rightarrow> selKind \<Rightarrow> XID \<Rightarrow> dataState \<Rightarrow> dataState" where
  "selectionChanged sv a kind window st =
     (if \<not> de_enabled st then st
      else case channelOf sv a of None \<Rightarrow> st
       | Some ch \<Rightarrow>
           if window = de_bridge st then st
           else let st = (if ch = 1 \<and> de_exportedSource st \<noteq> 0 \<and> window \<noteq> de_exportedSource st then endExport sv st else st);
                    st = failChannel sv ch [0..<MAX_PENDING] st;
                    n = de_sequence st + 1;
                    off = \<lparr>of_generation = n, of_owner = window, of_time = de_now st, of_targets = [], of_local = False\<rparr>;
                    st = st\<lparr>de_sequence := n, de_offers := (de_offers st)(ch := off)\<rparr>
                in if kind \<noteq> SelSetOwner \<or> window = 0
                   then if ch \<noteq> 0 then emit LORIE_DATA_CANCEL 1 0 n None None (de_pointerOutput st) (de_pointerWindow st) 0 st else st
                   else if (if ch \<noteq> 0 then de_pointerDown st else de_clipboardActive st) then request sv ch 0 n (atomTargets sv) True st
                   else st)"

definition own :: "dataServer \<Rightarrow> nat \<Rightarrow> dataState \<Rightarrow> bool \<times> dataState" where
  "own sv ch st =
     (if (case de_sel st ch of None \<Rightarrow> \<not> dv_selCreate sv ch | Some s \<Rightarrow> \<not> dv_selAccess sv ch) then (False, st)
      else let st = (case de_sel st ch of None \<Rightarrow> st
                     | Some s \<Rightarrow> (case ds_client s of None \<Rightarrow> st
                         | Some c \<Rightarrow> if c \<noteq> 0 \<and> ds_window s \<noteq> 0 then emitData (SelClear (ds_window s) ch) st else st));
               st = st\<lparr>de_sel := (de_sel st)(ch := Some \<lparr>ds_client = Some 0, ds_window = de_bridge st\<rparr>)\<rparr>
      in (True, selectionChanged sv (selection sv ch) SelSetOwner (de_bridge st) st))"

record convReq =
  cr_requestor :: XID
  cr_selection :: xatom
  cr_target :: xatom
  cr_property :: xatom
  cr_time :: u32

definition outgoingTransfer :: "dataServer \<Rightarrow> nat \<Rightarrow> convReq \<Rightarrow> dataState \<Rightarrow> nat option \<times> dataState" where
  "outgoingTransfer sv ch r st =
     (let n = de_requestSequence st + 1
      in case allocateTransfer sv False ch n (of_generation (de_offers st ch)) (st\<lparr>de_requestSequence := n\<rparr>) of
        (None, st) \<Rightarrow>
          (None, notify sv \<lparr>tr_used = False, tr_incoming = False, tr_incremental = False, tr_targets = False, tr_serial = 0,
             tr_generation = 0, tr_ticket = 0, tr_queued = False, tr_channel = ch, tr_fd = Some 0, tr_requestor = cr_requestor r,
             tr_target = cr_target r, tr_property = 0, tr_time = cr_time r, tr_size = 0, tr_offset = 0, tr_timer = False\<rparr> False st)
      | (Some i, st) \<Rightarrow>
          (Some i, setTransfer i ((transfer i st)\<lparr>tr_requestor := cr_requestor r, tr_target := cr_target r,
             tr_property := (if cr_property r \<noteq> 0 then cr_property r else cr_target r), tr_time := cr_time r\<rparr>) st))"

text \<open>The answers that the bridge gives itself: the property is set, the requestor told, the transfer over.\<close>

definition answer :: "dataServer \<Rightarrow> nat \<Rightarrow> xatom \<Rightarrow> u32 list \<Rightarrow> dataState \<Rightarrow> dataState" where
  "answer sv i type values st =
     (let t = transfer i st; (rc, st) = changeProperty sv (tr_requestor t) (tr_property t) type (Data32 values) st
      in release i (notify sv t rc st))"

definition convert :: "dataServer \<Rightarrow> convReq \<Rightarrow> dataState \<Rightarrow> dataState" where
  "convert sv r st =
     (case channelOf sv (cr_selection r) of None \<Rightarrow> emitData PassedOn st
      | Some ch \<Rightarrow>
          if \<not> de_enabled st \<or> \<not> of_local (de_offers st ch) then emitData PassedOn st
          else case outgoingTransfer sv ch r st of (None, st) \<Rightarrow> st
           | (Some i, st) \<Rightarrow>
               let t = transfer i st; off = de_offers st ch
               in if \<not> windowFor (tr_requestor t) st \<or> \<not> dv_setAttrOk sv (tr_requestor t)
                     \<or> dv_name sv (tr_target t) = None \<or> dv_name sv (tr_property t) = None then failTransfer sv i st
                  else if tr_target t = atomTargets sv then answer sv i XA_ATOM ([atomTargets sv, atomTimestamp sv] @ of_targets off) st
                  else if tr_target t = atomTimestamp sv then answer sv i XA_INTEGER [of_time off] st
                  else if \<not> list_ex (\<lambda>a. a = tr_target t) (of_targets off) then failTransfer sv i st
                  else emit LORIE_DATA_REQUEST ch (tr_serial t) (tr_generation t) (dv_name sv (tr_target t)) None 0 0 0 st)"

datatype dataSend =
    SelectionNotifyEvent XID xatom xatom xatom
  | ClientMessageEvent XID xatom u32 u32 u32 u32 u32
  | OtherEvent

text \<open>
  \<open>SelectionNotifyEvent requestor selection target property\<close>; a client message names its window,
  its type and its five words.
\<close>

definition exportMessage :: "dataServer \<Rightarrow> xdndKind \<Rightarrow> dataState \<Rightarrow> dataState option" where
  "exportMessage sv kind st =
     (case kind of
        XdndPosition \<Rightarrow> Some (message sv (de_exportedSource st) (de_exportedSource st) XdndStatus (de_catcher st) 3 0 0 (atomCopy sv) st)
      | XdndEnter \<Rightarrow> Some st
      | XdndLeave \<Rightarrow> Some st
      | XdndDrop \<Rightarrow> let st = st\<lparr>de_exportDropped := True\<rparr> in Some (if de_exportCompleted st then endExport sv st else st)
      | _ \<Rightarrow> None)"

definition dragMessage :: "dataServer \<Rightarrow> xdndKind \<Rightarrow> u32 \<Rightarrow> u32 \<Rightarrow> dataState \<Rightarrow> dataState option" where
  "dragMessage sv kind l1 l4 st =
     (case kind of
        XdndStatus \<Rightarrow>
          let accepted = (bit l1 0 \<and> l4 = atomCopy sv);
              st = emitData (GotStatus accepted) (st\<lparr>de_dragPositionPending := False, de_dragAccepted := accepted\<rparr>);
              st = emit LORIE_DATA_STATUS 1 0 (of_generation (de_offers st 1)) None None (de_dragOutput st) (de_dragTarget st) (if accepted then 1 else 0) st;
              st = (if de_dragMoveQueued st then moveDrag sv (de_dragMove st) (st\<lparr>de_dragMoveQueued := False\<rparr>) else st)
          in Some (if de_dragDropPending st then dropDrag sv st else st)
      | XdndFinished \<Rightarrow>
          Some ((emit LORIE_DATA_FINISH 1 0 (of_generation (de_offers st 1)) None None (de_dragOutput st) (de_dragTarget st)
                   (if de_dragVersion st < 5 \<or> bit l1 0 then 1 else 0) st)\<lparr>de_dragTarget := 0\<rparr>)
      | _ \<Rightarrow> None)"

definition clientMessage :: "dataServer \<Rightarrow> XID \<Rightarrow> xatom \<Rightarrow> u32 \<Rightarrow> u32 \<Rightarrow> u32 \<Rightarrow> dataState \<Rightarrow> dataState" where
  "clientMessage sv win type l0 l1 l4 st =
     (case kindOf sv type of None \<Rightarrow> emitData PassedOn st
      | Some kind \<Rightarrow>
          let first = (if de_exportedSource st \<noteq> 0 \<and> win = de_catcher st \<and> l0 = de_exportedSource st then exportMessage sv kind st else None);
              second = (if win = de_dragSource st \<and> de_dragTarget st \<noteq> 0 \<and> l0 = de_dragTarget st then dragMessage sv kind l1 l4 st else None)
          in case first of Some st1 \<Rightarrow> st1 | None \<Rightarrow> (case second of Some st1 \<Rightarrow> st1 | None \<Rightarrow> emitData PassedOn st))"

definition sendEvent :: "dataServer \<Rightarrow> dataSend \<Rightarrow> dataState \<Rightarrow> dataState" where
  "sendEvent sv ev st =
     (if \<not> de_enabled st then emitData PassedOn st
      else case ev of
        SelectionNotifyEvent requestor sel target property \<Rightarrow>
          (case findIndex (\<lambda>t. tr_used t \<and> tr_incoming t \<and> tr_requestor t = requestor \<and> tr_target t = target
                 \<and> selection sv (tr_channel t) = sel) (de_transfers st) of
             None \<Rightarrow> emitData PassedOn st
           | Some i \<Rightarrow> if property = tr_property (transfer i st) then receive sv i True st else failTransfer sv i st)
      | ClientMessageEvent win type l0 l1 l2 l3 l4 \<Rightarrow> clientMessage sv win type l0 l1 l4 st
      | OtherEvent \<Rightarrow> emitData PassedOn st)"

section \<open>Commands of the host\<close>

text \<open>A descriptor from the host: the contents of the file and what \<open>fstat\<close> says.\<close>

record hostFile =
  hf_bytes :: "u8 list"
  hf_statOk :: bool
  hf_regular :: bool

fun tokens :: "string \<Rightarrow> string \<Rightarrow> string list" where
  "tokens acc [] = (if acc = [] then [] else [acc])"
| "tokens acc (c # cs) = (if c = CHR 0x0A then (if acc = [] then [] else [acc]) @ tokens [] cs else tokens (acc @ [c]) cs)"

fun addTargets :: "dataServer \<Rightarrow> string list \<Rightarrow> xatom list \<Rightarrow> xatom list option" where
  "addTargets sv [] ts = Some ts"
| "addTargets sv (s # ss) ts =
     (if length ts = LORIE_DATA_MAX_TARGETS \<or> \<not> supportedName (Some s) then None else addTargets sv ss (ts @ [dv_atom sv s]))"

definition stringOf :: "u8 list \<Rightarrow> string" where
  "stringOf bs = map (\<lambda>b. char_of (unat b)) bs"

definition readTargets :: "dataServer \<Rightarrow> nat option \<Rightarrow> bool \<Rightarrow> dataState \<Rightarrow> xatom list option" where
  "readTargets sv fd statOk st =
     (case fd of None \<Rightarrow> None
      | Some n \<Rightarrow>
          let file = de_files st n
          in if \<not> statOk \<or> length file \<ge> LORIE_DATA_MAX_TARGETS * 128 then None
             else case readFile sv n 0 (length file) st of None \<Rightarrow> None
               | Some bs \<Rightarrow> addTargets sv (tokens [] (takeWhile (\<lambda>c. c \<noteq> CHR 0x00) (stringOf bs))) [])"

text \<open>The transfer has its file: it is announced as incremental, or sent at once.\<close>

definition deliverReply :: "dataServer \<Rightarrow> nat \<Rightarrow> Transfer \<Rightarrow> dataState \<Rightarrow> dataState" where
  "deliverReply sv i t st =
     (if \<not> windowFor (tr_requestor t) st then release i st
      else if tr_size t > LORIE_DATA_CHUNK
           then let st = setTransfer i (t\<lparr>tr_incremental := True\<rparr>) st;
                    (rc, st) = changeProperty sv (tr_requestor t) (tr_property t) (atomIncr sv) (Data32 [of_nat (tr_size t)]) st;
                    st = notify sv (transfer i st) rc st
                in if rc then st else release i st
           else let (success, st) = sendChunk sv i st;
                    st = (if tr_used (transfer i st) then notify sv (transfer i st) success st else st)
                in selectionFinished sv t success (release i st))"

text \<open>A reply of the host to a request: \<open>True\<close> when the transfer took the descriptor over.\<close>

definition replyTo :: "dataServer \<Rightarrow> nat \<Rightarrow> nat option \<Rightarrow> bool \<Rightarrow> bool \<Rightarrow> dataState \<Rightarrow> bool \<times> dataState" where
  "replyTo sv i fd statOk regular st =
     (case fd of None \<Rightarrow> (False, failTransfer sv i st)
      | Some n \<Rightarrow>
          let len = length (de_files st n)
          in if \<not> statOk \<or> \<not> regular \<or> len > LORIE_DATA_MAX_BYTES then (False, failTransfer sv i st)
          else let t = (transfer i st)\<lparr>tr_fd := Some n, tr_size := len\<rparr> in (True, deliverReply sv i t (setTransfer i t st)))"

definition replyIndex :: "LorieDataEvent \<Rightarrow> dataState \<Rightarrow> nat option" where
  "replyIndex ev st =
     findIndex (\<lambda>t. tr_used t \<and> \<not> tr_incoming t \<and> tr_serial t = dx_serial ev \<and> tr_generation t = dx_offer ev
       \<and> tr_channel t = dx_channel ev) (de_transfers st)"

definition resetDrag :: "dataState \<Rightarrow> dataState" where
  "resetDrag st = st\<lparr>de_dragMoveQueued := False, de_dragDropPending := False, de_dragPositionPending := False\<rparr>"

definition enterDrag :: "dataServer \<Rightarrow> LorieDataEvent \<Rightarrow> dataState \<Rightarrow> dataState" where
  "enterDrag sv ev st =
     (let off = de_offers st (dx_channel ev);
          pass = (dx_x ev \<noteq> 0 \<and> \<not> of_local off \<and> of_generation off = dx_offer ev);
          st = st\<lparr>de_dragPassthrough := pass, de_dragSource := de_bridge st\<rparr>
      in if \<not> pass \<and> \<not> of_local off then st
         else let st = snd (changeProperty sv (de_bridge st) (atomTypeList sv) XA_ATOM (Data32 (of_targets off)) st)
         in resetDrag (st\<lparr>de_dragTarget := 0, de_dragOutput := dx_output ev, de_dragAccepted := False,
              de_dragDataRevision := 0, de_dragPositionDataRevision := 0\<rparr>))"

definition leaveDrag :: "dataServer \<Rightarrow> dataState \<Rightarrow> dataState" where
  "leaveDrag sv st =
     (let st = (if de_dragTarget st \<noteq> 0 then message sv (de_dragProxy st) (de_dragTarget st) XdndLeave (de_dragSource st) 0 0 0 0 st else st)
      in resetDrag (st\<lparr>de_dragTarget := 0, de_dragAccepted := False\<rparr>))"

definition finishDrag :: "dataServer \<Rightarrow> bool \<Rightarrow> dataState \<Rightarrow> dataState" where
  "finishDrag sv success st =
     (let st = (if de_exportedSource st \<noteq> 0
                then let st = releaseExportPointer (st\<lparr>de_exportCompleted := True, de_exportSuccess := success\<rparr>)
                     in if de_exportDropped st then endExport sv st else st
                else st)
      in resetDrag (st\<lparr>de_dragTarget := 0, de_dragAccepted := False\<rparr>))"

text \<open>The switch of \<open>lorieDataCommand\<close>; the descriptor is returned unless a transfer took it.\<close>

definition dataSwitch :: "dataServer \<Rightarrow> LorieDataEvent \<Rightarrow> nat option \<Rightarrow> bool \<Rightarrow> bool \<Rightarrow> dataState \<Rightarrow> nat option \<times> dataState" where
  "dataSwitch sv ev fd statOk regular st =
     (let ch = dx_channel ev
      in case dx_operation ev of
        LORIE_DATA_OFFER \<Rightarrow>
          (fd, case readTargets sv fd statOk st of None \<Rightarrow> st
             | Some ts \<Rightarrow> snd (own sv ch (st\<lparr>de_offers := (de_offers st)(ch := \<lparr>of_generation = dx_offer ev, of_owner = de_bridge st,
                 of_time = de_now st, of_targets = ts, of_local = True\<rparr>)\<rparr>)))
      | LORIE_DATA_READ \<Rightarrow>
          (fd, if CHR 0x00 \<in> set (dx_mime ev)
               then request sv ch (dx_serial ev) (dx_offer ev) (dv_atom sv (takeWhile (\<lambda>c. c \<noteq> CHR 0x00) (dx_mime ev))) False st else st)
      | LORIE_DATA_REPLY \<Rightarrow>
          (case replyIndex ev st of None \<Rightarrow> (fd, st)
           | Some i \<Rightarrow> let (taken, st) = replyTo sv i fd statOk regular st in (if taken then None else fd, st))
      | LORIE_DATA_ENTER \<Rightarrow> (fd, enterDrag sv ev st)
      | LORIE_DATA_MOVE \<Rightarrow> (fd, moveDrag sv ev st)
      | LORIE_DATA_LEAVE \<Rightarrow> (fd, leaveDrag sv st)
      | LORIE_DATA_DROP \<Rightarrow> (fd, dropDrag sv st)
      | LORIE_DATA_FINISH \<Rightarrow> (fd, finishDrag sv (dx_x ev \<noteq> 0) st)
      | LORIE_DATA_CANCEL \<Rightarrow> (fd, finishDrag sv False st)
      | LORIE_DATA_BEGIN \<Rightarrow> (fd, beginExport sv st)
      | _ \<Rightarrow> (fd, st))"

definition enableData :: "dataServer \<Rightarrow> LorieDataEvent \<Rightarrow> dataState \<Rightarrow> dataState" where
  "enableData sv ev st =
     (let st = st\<lparr>de_enabled := True, de_clipboardActive := (dx_x ev \<noteq> 0)\<rparr>
      in if de_bridge st = 0 then let (w, st) = newWindow sv st in st\<lparr>de_bridge := w\<rparr> else st)"

definition takeFile :: "hostFile option \<Rightarrow> dataState \<Rightarrow> nat option \<times> dataState" where
  "takeFile file st = (case file of None \<Rightarrow> (None, st) | Some f \<Rightarrow> (Some (fst (openFile (hf_bytes f) st)), snd (openFile (hf_bytes f) st)))"

definition dispatchData :: "dataServer \<Rightarrow> LorieDataEvent \<Rightarrow> nat option \<Rightarrow> bool \<Rightarrow> bool \<Rightarrow> dataState \<Rightarrow> nat option \<times> dataState" where
  "dispatchData sv ev fd statOk regular st =
     (if dx_channel ev > 1 \<or> \<not> dv_hasRoot sv then (fd, st)
      else if dx_operation ev = LORIE_DATA_ENABLE then (fd, enableData sv ev st)
      else if \<not> de_enabled st \<or> de_bridge st = 0 then (fd, st)
      else dataSwitch sv ev fd statOk regular st)"

definition lorieDataCommand :: "dataServer \<Rightarrow> LorieDataEvent \<Rightarrow> hostFile option \<Rightarrow> dataState \<Rightarrow> dataState" where
  "lorieDataCommand sv ev file st =
     (let (fd, st) = takeFile file st;
          (fd, st) = dispatchData sv ev fd (case file of None \<Rightarrow> False | Some f \<Rightarrow> hf_statOk f)
                       (case file of None \<Rightarrow> False | Some f \<Rightarrow> hf_regular f) st
      in case fd of None \<Rightarrow> st | Some n \<Rightarrow> closeFd n st)"

definition lorieDataPointer :: "u32 \<Rightarrow> u32 \<Rightarrow> nat \<Rightarrow> bool \<Rightarrow> dataState \<Rightarrow> dataState" where
  "lorieDataPointer out window button down st =
     (if button \<noteq> 1 \<or> (\<not> down \<and> (de_pointerOutput st \<noteq> out \<or> de_pointerWindow st \<noteq> window)) then st
      else st\<lparr>de_pointerDown := down, de_pointerOutput := out, de_pointerWindow := window\<rparr>)"

definition noOffer :: Offer where
  "noOffer = \<lparr>of_generation = 0, of_owner = 0, of_time = 0, of_targets = [], of_local = False\<rparr>"

definition lorieDataReset :: "dataServer \<Rightarrow> dataState \<Rightarrow> dataState" where
  "lorieDataReset sv st =
     (let st = (endExport sv st)\<lparr>de_enabled := False, de_clipboardActive := False\<rparr>;
          st = fold release [0..<MAX_PENDING] st;
          st = (if de_bridge st \<noteq> 0 then freeWindow (de_bridge st) st else st)
      in (resetDrag st)\<lparr>de_bridge := 0, de_dragTarget := 0, de_dragSource := 0, de_pointerDown := False, de_offers := (\<lambda>_. noOffer)\<rparr>)"

section \<open>Everything that can happen\<close>

datatype dataInput =
    Command LorieDataEvent "hostFile option"
  | Convert convReq
  | Send dataSend
  | ClientProperty XID xatom "dataProp option"
  | SelectionOwner xatom selKind XID nat
  | Expire nat
  | ExpireExport
  | RunWork
  | Pointer u32 u32 nat bool
  | ServerWindows wtree wstore
  | FileChanged nat "u8 list"
  | Clock u32
  | Reset

text \<open>
  The handlers of the component, and what clients, the host and the server do around it: a client
  changes or deletes a property, takes a selection, the tree of windows changes, the host writes to
  a file it has shared.  A deadline only expires while its timer runs.
\<close>

definition dataStep :: "dataServer \<Rightarrow> dataInput \<Rightarrow> dataState \<Rightarrow> dataState" where
  "dataStep sv inp st =
     (case inp of
        Command ev file \<Rightarrow> lorieDataCommand sv ev file st
      | Convert r \<Rightarrow> convert sv r st
      | Send ev \<Rightarrow> sendEvent sv ev st
      | ClientProperty w p v \<Rightarrow>
          propertyChanged sv w p (if v = None then PropertyDelete else PropertyNewValue)
            (st\<lparr>de_props := (de_props st)(w := (de_props st w)(p := v))\<rparr>)
      | SelectionOwner a kind w c \<Rightarrow>
          selectionChanged sv a kind w
            (case channelOf sv a of None \<Rightarrow> st | Some ch \<Rightarrow> st\<lparr>de_sel := (de_sel st)(ch := Some \<lparr>ds_client = (if w = 0 then None else Some c), ds_window = w\<rparr>)\<rparr>)
      | Expire i \<Rightarrow> if i < length (de_transfers st) \<and> tr_timer (transfer i st) then expired sv i st else st
      | ExpireExport \<Rightarrow> if de_exportTimer st then exportExpired sv st else st
      | RunWork \<Rightarrow> (case de_work st of [] \<Rightarrow> st | w # ws \<Rightarrow> propertyWork sv w (st\<lparr>de_work := ws\<rparr>))
      | Pointer out w b d \<Rightarrow> lorieDataPointer out w b d st
      | ServerWindows t s \<Rightarrow> st\<lparr>de_tree := t, de_store := s\<rparr>
      | FileChanged fd bs \<Rightarrow> st\<lparr>de_files := (de_files st)(fd := bs)\<rparr>
      | Clock n \<Rightarrow> st\<lparr>de_now := n\<rparr>
      | Reset \<Rightarrow> lorieDataReset sv st)"

definition dataRun :: "dataServer \<Rightarrow> dataInput list \<Rightarrow> dataState \<Rightarrow> dataState" where
  "dataRun sv = fold (dataStep sv)"

section \<open>What the operations leave alone\<close>

text \<open>
  Three views of the state: the descriptors, the conversation with the window under a drag, and
  the requests of clients with their answers.
\<close>

definition xdndEffect :: "dataEffect \<Rightarrow> bool" where
  "xdndEffect e = (case e of XMessage _ _ k _ _ _ _ _ \<Rightarrow> k \<noteq> XdndStatus \<and> k \<noteq> XdndFinished | GotStatus _ \<Rightarrow> True | _ \<Rightarrow> False)"

definition isAnswer :: "dataEffect \<Rightarrow> bool" where
  "isAnswer e = (case e of SelNotify _ _ _ _ _ \<Rightarrow> True | _ \<Rightarrow> False)"

type_synonym fdView = "(bool \<times> nat option) list \<times> nat set \<times> nat"
type_synonym xdView = "dataEffect list \<times> XID \<times> XID \<times> bool \<times> bool"
type_synonym rqTransfer = "bool \<times> bool \<times> bool \<times> (XID \<times> u32 \<times> nat \<times> xatom) \<times> bool"
type_synonym rqView = "rqTransfer list \<times> dataEffect list \<times> wtree \<times> wstore"

definition fdPart :: "Transfer \<Rightarrow> bool \<times> nat option" where
  "fdPart t = (tr_used t, tr_fd t)"

definition rqPart :: "Transfer \<Rightarrow> rqTransfer" where
  "rqPart t = (tr_used t, tr_incoming t, tr_incremental t, (tr_requestor t, tr_time t, tr_channel t, tr_target t), tr_timer t)"

definition fdv :: "dataState \<Rightarrow> fdView" where
  "fdv st = (map fdPart (de_transfers st), de_open st, de_nextFd st)"

definition xdv :: "dataState \<Rightarrow> xdView" where
  "xdv st = (filter xdndEffect (de_log st), de_dragTarget st, de_dragProxy st, de_dragAccepted st, de_dragPositionPending st)"

definition rqv :: "dataState \<Rightarrow> rqView" where
  "rqv st = (map rqPart (de_transfers st), filter isAnswer (de_log st), de_tree st, de_store st)"

lemma fdv_emitData [simp]: "fdv (emitData e st) = fdv st"
  by (simp add: fdv_def emitData_def)

lemma xdv_emitData [simp]: "\<not> xdndEffect e \<Longrightarrow> xdv (emitData e st) = xdv st"
  by (simp add: xdv_def emitData_def)

lemma rqv_emitData [simp]: "\<not> isAnswer e \<Longrightarrow> rqv (emitData e st) = rqv st"
  by (simp add: rqv_def emitData_def)

lemma fdv_emit [simp]: "fdv (emit a b c d e f g h i st) = fdv st"
  by (simp add: emit_def)

lemma xdv_emit [simp]: "xdv (emit a b c d e f g h i st) = xdv st"
  by (simp add: emit_def xdndEffect_def)

lemma rqv_emit [simp]: "rqv (emit a b c d e f g h i st) = rqv st"
  by (simp add: emit_def isAnswer_def)

lemma fdv_message [simp]: "fdv (message sv x y k a b c d e st) = fdv st"
  by (simp add: message_def)

lemma rqv_message [simp]: "rqv (message sv x y k a b c d e st) = rqv st"
  by (simp add: message_def isAnswer_def)

lemma xdv_message_other [simp]:
  "xdv (message sv x y XdndStatus a b c d e st) = xdv st" "xdv (message sv x y XdndFinished a b c d e st) = xdv st"
  by (simp_all add: message_def xdndEffect_def)

lemma fdv_notify [simp]: "fdv (notify sv t s st) = fdv st"
  by (simp add: notify_def)

lemma xdv_notify [simp]: "xdv (notify sv t s st) = xdv st"
  by (simp add: notify_def xdndEffect_def)

lemma fdv_setTransfer:
  "fdPart t = fdPart (transfer i st) \<Longrightarrow> fdv (setTransfer i t st) = fdv st"
  by (simp add: fdv_def setTransfer_def transfer_def map_update_same)

lemma xdv_setTransfer [simp]: "xdv (setTransfer i t st) = xdv st"
  by (simp add: xdv_def setTransfer_def)

lemma rqv_setTransfer:
  "rqPart t = rqPart (transfer i st) \<Longrightarrow> rqv (setTransfer i t st) = rqv st"
  by (simp add: rqv_def setTransfer_def transfer_def map_update_same)

lemma fdv_work [simp]: "fdv (st\<lparr>de_work := ws\<rparr>) = fdv st" and xdv_work [simp]: "xdv (st\<lparr>de_work := ws\<rparr>) = xdv st"
  and rqv_work [simp]: "rqv (st\<lparr>de_work := ws\<rparr>) = rqv st"
  by (simp_all add: fdv_def xdv_def rqv_def)

lemma fdv_props [simp]: "fdv (st\<lparr>de_props := ps\<rparr>) = fdv st" and xdv_props [simp]: "xdv (st\<lparr>de_props := ps\<rparr>) = xdv st"
  and rqv_props [simp]: "rqv (st\<lparr>de_props := ps\<rparr>) = rqv st"
  by (simp_all add: fdv_def xdv_def rqv_def)

lemma fdv_moving [simp]: "fdv (st\<lparr>de_movingProperty := m\<rparr>) = fdv st" and xdv_moving [simp]: "xdv (st\<lparr>de_movingProperty := m\<rparr>) = xdv st"
  and rqv_moving [simp]: "rqv (st\<lparr>de_movingProperty := m\<rparr>) = rqv st"
  by (simp_all add: fdv_def xdv_def rqv_def)

lemma views_propertyChanged [simp]:
  "fdv (propertyChanged sv w p c st) = fdv st" "xdv (propertyChanged sv w p c st) = xdv st" "rqv (propertyChanged sv w p c st) = rqv st"
  by (simp_all add: propertyChanged_def Let_def fdv_setTransfer rqv_setTransfer fdPart_def rqPart_def split: option.splits)

lemma views_changeProperty [simp]:
  "fdv (snd (changeProperty sv w p ty d st)) = fdv st" "xdv (snd (changeProperty sv w p ty d st)) = xdv st"
  "rqv (snd (changeProperty sv w p ty d st)) = rqv st"
  by (simp_all add: changeProperty_def Let_def xdndEffect_def isAnswer_def)

lemma views_deleteProperty [simp]:
  "fdv (deleteProperty sv w p st) = fdv st" "xdv (deleteProperty sv w p st) = xdv st" "rqv (deleteProperty sv w p st) = rqv st"
  by (simp_all add: deleteProperty_def xdndEffect_def isAnswer_def)

lemma xdv_freeWindow [simp]: "xdv (freeWindow i st) = xdv st" and fdv_freeWindow [simp]: "fdv (freeWindow i st) = fdv st"
  and rqv_freeWindow [simp]: "rqv (freeWindow i st) = rqv st"
  by (simp_all add: freeWindow_def xdndEffect_def isAnswer_def) (simp_all add: xdv_def fdv_def rqv_def)

lemma views_newWindow [simp]:
  "fdv (snd (newWindow sv st)) = fdv st" "xdv (snd (newWindow sv st)) = xdv st" "rqv (snd (newWindow sv st)) = rqv st"
  by (simp_all add: newWindow_def Let_def xdndEffect_def isAnswer_def) (simp_all add: xdv_def fdv_def rqv_def)

lemma xdv_closeFd [simp]: "xdv (closeFd fd st) = xdv st" and rqv_closeFd [simp]: "rqv (closeFd fd st) = rqv st"
  by (simp_all add: closeFd_def xdndEffect_def isAnswer_def) (simp_all add: xdv_def rqv_def)

lemma views_openFile [simp]: "xdv (snd (openFile bs st)) = xdv st" "rqv (snd (openFile bs st)) = rqv st"
  by (simp_all add: openFile_def Let_def xdv_def rqv_def)

lemma views_bytesFile [simp]: "xdv (snd (bytesFile sv bs st)) = xdv st" "rqv (snd (bytesFile sv bs st)) = rqv st"
proof -
  have upd: "xdv (s\<lparr>de_files := f\<rparr>) = xdv s" "rqv (s\<lparr>de_files := f\<rparr>) = rqv s" for s f by (simp_all add: xdv_def rqv_def)
  obtain fd s where o: "openFile [] st = (fd, s)" by fastforce
  have "xdv s = xdv st" "rqv s = rqv st" using views_openFile [of "[]" st] o by simp_all
  then show "xdv (snd (bytesFile sv bs st)) = xdv st" "rqv (snd (bytesFile sv bs st)) = rqv st"
    by (simp_all add: bytesFile_def o upd)
qed

lemma xdv_release [simp]: "xdv (release i st) = xdv st"
  by (simp add: release_def Let_def split: option.splits)

lemma views_misc [simp]:
  "fdv (st\<lparr>de_offers := a\<rparr>) = fdv st" "xdv (st\<lparr>de_offers := a\<rparr>) = xdv st" "rqv (st\<lparr>de_offers := a\<rparr>) = rqv st"
  "fdv (st\<lparr>de_sequence := b\<rparr>) = fdv st" "xdv (st\<lparr>de_sequence := b\<rparr>) = xdv st" "rqv (st\<lparr>de_sequence := b\<rparr>) = rqv st"
  "fdv (st\<lparr>de_sel := c\<rparr>) = fdv st" "xdv (st\<lparr>de_sel := c\<rparr>) = xdv st" "rqv (st\<lparr>de_sel := c\<rparr>) = rqv st"
  "xdv (st\<lparr>de_files := d\<rparr>) = xdv st" "rqv (st\<lparr>de_files := d\<rparr>) = rqv st" "fdv (st\<lparr>de_files := d\<rparr>) = fdv st"
  "xdv (st\<lparr>de_transferSequence := e\<rparr>) = xdv st" "xdv (st\<lparr>de_requestSequence := f\<rparr>) = xdv st"
  "rqv (st\<lparr>de_transferSequence := e\<rparr>) = rqv st" "rqv (st\<lparr>de_requestSequence := f\<rparr>) = rqv st"
  "fdv (st\<lparr>de_transferSequence := e\<rparr>) = fdv st" "fdv (st\<lparr>de_requestSequence := f\<rparr>) = fdv st"
  by (simp_all add: fdv_def xdv_def rqv_def)

lemma views_enterTarget [simp]: "fdv (enterTarget sv n st) = fdv st" "rqv (enterTarget sv n st) = rqv st"
proof -
  have "fdv (st\<lparr>de_dragTarget := a, de_dragProxy := b, de_dragAccepted := c, de_dragPositionPending := d\<rparr>) = fdv st"
    "rqv (st\<lparr>de_dragTarget := a, de_dragProxy := b, de_dragAccepted := c, de_dragPositionPending := d\<rparr>) = rqv st"
    "fdv (st\<lparr>de_dragVersion := e\<rparr>) = fdv st" "rqv (st\<lparr>de_dragVersion := e\<rparr>) = rqv st" for st a b c d e
    by (simp_all add: fdv_def rqv_def)
  then show "fdv (enterTarget sv n st) = fdv st" "rqv (enterTarget sv n st) = rqv st"
    unfolding enterTarget_def Let_def by simp_all
qed

lemma views_drag [simp]:
  "fdv (st\<lparr>de_dragMove := a\<rparr>) = fdv st" "rqv (st\<lparr>de_dragMove := a\<rparr>) = rqv st"
  "fdv (st\<lparr>de_dragMoveQueued := b\<rparr>) = fdv st" "rqv (st\<lparr>de_dragMoveQueued := b\<rparr>) = rqv st" "xdv (st\<lparr>de_dragMoveQueued := b\<rparr>) = xdv st"
  "fdv (st\<lparr>de_dragOutput := c\<rparr>) = fdv st" "rqv (st\<lparr>de_dragOutput := c\<rparr>) = rqv st" "xdv (st\<lparr>de_dragOutput := c\<rparr>) = xdv st"
  "fdv (st\<lparr>de_dragPositionPending := d, de_dragPositionDataRevision := e\<rparr>) = fdv st"
  "rqv (st\<lparr>de_dragPositionPending := d, de_dragPositionDataRevision := e\<rparr>) = rqv st"
  "fdv (st\<lparr>de_dragDropPending := f\<rparr>) = fdv st" "rqv (st\<lparr>de_dragDropPending := f\<rparr>) = rqv st" "xdv (st\<lparr>de_dragDropPending := f\<rparr>) = xdv st"
  "fdv (st\<lparr>de_dragTarget := g\<rparr>) = fdv st" "rqv (st\<lparr>de_dragTarget := g\<rparr>) = rqv st"
  "fdv (st\<lparr>de_dragDataRevision := h\<rparr>) = fdv st" "rqv (st\<lparr>de_dragDataRevision := h\<rparr>) = rqv st" "xdv (st\<lparr>de_dragDataRevision := h\<rparr>) = xdv st"
  "xdv (st\<lparr>de_dragMove := a\<rparr>) = xdv st"
  by (simp_all add: fdv_def rqv_def xdv_def)

lemma views_moveDrag [simp]: "fdv (moveDrag sv ev st) = fdv st" "rqv (moveDrag sv ev st) = rqv st"
  by (simp_all add: moveDrag_def Let_def split: option.splits prod.splits)

lemma views_rejectDrag [simp]: "fdv (rejectDrag sv st) = fdv st" "rqv (rejectDrag sv st) = rqv st"
  by (simp_all add: rejectDrag_def Let_def)

lemma views_dropDrag [simp]: "fdv (dropDrag sv st) = fdv st" "rqv (dropDrag sv st) = rqv st"
  by (simp_all add: dropDrag_def Let_def)

lemma views_selectionFinished [simp]: "fdv (selectionFinished sv t s st) = fdv st" "rqv (selectionFinished sv t s st) = rqv st"
  by (simp_all add: selectionFinished_def Let_def)

lemma views_export [simp]: "fdv (endExport sv st) = fdv st" "xdv (endExport sv st) = xdv st" "rqv (endExport sv st) = rqv st"
  "fdv (releaseExportPointer st) = fdv st" "xdv (releaseExportPointer st) = xdv st" "rqv (releaseExportPointer st) = rqv st"
proof -
  have upd: "fdv (st\<lparr>de_out := a\<rparr>) = fdv st" "xdv (st\<lparr>de_out := a\<rparr>) = xdv st" "rqv (st\<lparr>de_out := a\<rparr>) = rqv st"
    "fdv (st\<lparr>de_pointerDown := b\<rparr>) = fdv st" "xdv (st\<lparr>de_pointerDown := b\<rparr>) = xdv st" "rqv (st\<lparr>de_pointerDown := b\<rparr>) = rqv st"
    "fdv (st\<lparr>de_exportedOutput := c, de_exportedWindow := d\<rparr>) = fdv st" "xdv (st\<lparr>de_exportedOutput := c, de_exportedWindow := d\<rparr>) = xdv st"
    "rqv (st\<lparr>de_exportedOutput := c, de_exportedWindow := d\<rparr>) = rqv st"
    "fdv (st\<lparr>de_exportTimer := b\<rparr>) = fdv st" "xdv (st\<lparr>de_exportTimer := b\<rparr>) = xdv st" "rqv (st\<lparr>de_exportTimer := b\<rparr>) = rqv st"
    "fdv (st\<lparr>de_exportedSource := e\<rparr>) = fdv st" "xdv (st\<lparr>de_exportedSource := e\<rparr>) = xdv st" "rqv (st\<lparr>de_exportedSource := e\<rparr>) = rqv st"
    "fdv (st\<lparr>de_catcher := e\<rparr>) = fdv st" "xdv (st\<lparr>de_catcher := e\<rparr>) = xdv st" "rqv (st\<lparr>de_catcher := e\<rparr>) = rqv st" for st a b c d e
    by (simp_all add: fdv_def xdv_def rqv_def)
  show p: "fdv (releaseExportPointer st) = fdv st" "xdv (releaseExportPointer st) = xdv st" "rqv (releaseExportPointer st) = rqv st" for st
    by (simp_all add: releaseExportPointer_def Let_def upd xdndEffect_def isAnswer_def)
  show "fdv (endExport sv st) = fdv st" "xdv (endExport sv st) = xdv st" "rqv (endExport sv st) = rqv st"
    unfolding endExport_def Let_def p by (simp_all add: upd)
qed

lemma views_beginExport [simp]: "fdv (beginExport sv st) = fdv st" "xdv (beginExport sv st) = xdv st" "rqv (beginExport sv st) = rqv st"
proof -
  have upd: "fdv (st\<lparr>de_exportedSource := a, de_exportedOutput := b, de_exportedWindow := c, de_exportDropped := False, de_exportCompleted := False,
       de_exportSuccess := False, de_exportTimer := d\<rparr>) = fdv st"
    "xdv (st\<lparr>de_exportedSource := a, de_exportedOutput := b, de_exportedWindow := c, de_exportDropped := False, de_exportCompleted := False,
       de_exportSuccess := False, de_exportTimer := d\<rparr>) = xdv st"
    "rqv (st\<lparr>de_exportedSource := a, de_exportedOutput := b, de_exportedWindow := c, de_exportDropped := False, de_exportCompleted := False,
       de_exportSuccess := False, de_exportTimer := d\<rparr>) = rqv st"
    "fdv (st\<lparr>de_catcher := e\<rparr>) = fdv st" "xdv (st\<lparr>de_catcher := e\<rparr>) = xdv st" "rqv (st\<lparr>de_catcher := e\<rparr>) = rqv st" for st a b c d e
    by (simp_all add: fdv_def xdv_def rqv_def)
  obtain w s where n: "newWindow sv st = (w, s)" by fastforce
  have s: "fdv s = fdv st" "xdv s = xdv st" "rqv s = rqv st" using views_newWindow [of sv st] n by simp_all
  show "fdv (beginExport sv st) = fdv st" "xdv (beginExport sv st) = xdv st" "rqv (beginExport sv st) = rqv st"
    by (simp_all add: beginExport_def Let_def n upd s xdndEffect_def isAnswer_def)
qed

definition dataStart :: "outState \<Rightarrow> dataState" where
  "dataStart out = \<lparr>de_offers = (\<lambda>_. noOffer),
     de_transfers = replicate MAX_PENDING \<lparr>tr_used = False, tr_incoming = False, tr_incremental = False, tr_targets = False, tr_serial = 0,
       tr_generation = 0, tr_ticket = 0, tr_queued = False, tr_channel = 0, tr_fd = None, tr_requestor = 0, tr_target = 0,
       tr_property = 0, tr_time = 0, tr_size = 0, tr_offset = 0, tr_timer = False\<rparr>,
     de_bridge = 0, de_sequence = 0, de_requestSequence = 0, de_transferSequence = 0, de_pointerOutput = 0, de_pointerWindow = 0,
     de_enabled = False, de_clipboardActive = False, de_pointerDown = False, de_movingProperty = False, de_dragTarget = 0,
     de_dragProxy = 0, de_dragSource = 0, de_dragOutput = 0, de_dragAccepted = False, de_dragPassthrough = False,
     de_dragPositionPending = False, de_dragDropPending = False, de_dragMoveQueued = False,
     de_dragMove = \<lparr>dx_operation = LORIE_DATA_MOVE, dx_channel = 0, dx_serial = 0, dx_offer = 0, dx_output = 0, dx_window = 0, dx_x = 0,
       dx_y = 0, dx_mime = []\<rparr>,
     de_dragDataRevision = 0, de_dragPositionDataRevision = 0, de_dragVersion = 0, de_catcher = 0, de_exportedSource = 0,
     de_exportedOutput = 0, de_exportedWindow = 0, de_exportDropped = False, de_exportCompleted = False, de_exportSuccess = False,
     de_exportTimer = False, de_work = [], de_sel = Map.empty, de_props = (\<lambda>_. Map.empty), de_tree = WNode 0 [],
     de_store = (\<lambda>_. plainWindow), de_own = [], de_newWindows = 0, de_out = out, de_open = {}, de_files = (\<lambda>_. []),
     de_nextFd = 0, de_now = 0, de_log = []\<rparr>"

lemma dataRun_induct:
  assumes "P st" "\<And>st i. P st \<Longrightarrow> i \<in> set inputs \<Longrightarrow> P (dataStep sv i st)"
  shows "P (dataRun sv inputs st)"
  using assms
proof (induction inputs arbitrary: st)
  case (Cons i inputs)
  then show ?case by (simp add: dataRun_def)
qed (simp add: dataRun_def)

end
