(* ===== verification/Data_Drag.thy ===== *)
theory Data_Drag
  imports Data_Exchange
begin

text \<open>
  The drag of the host over X windows speaks XDND: the messages that \<open>data_exchange.c\<close> sends to the
  window under the pointer, and the answers it takes, are always a run of the protocol.
\<close>

section \<open>The conversation with the window under a drag\<close>

text \<open>
  What the XDND protocol lets the source of a drag send.  The state is the window entered last, if
  it was not left, with a position that it has not answered and whether its last answer accepted.
\<close>

type_synonym xdndState = "(XID \<times> bool \<times> bool) option"

definition xdndNext :: "dataEffect \<Rightarrow> xdndState \<Rightarrow> xdndState option" where
  "xdndNext e s =
     (case e of
        XMessage _ t XdndEnter _ _ _ _ _ \<Rightarrow> Some (Some (t, False, False))
      | XMessage _ t XdndPosition _ _ _ _ _ \<Rightarrow>
          (case s of Some (c, waiting, acc) \<Rightarrow> if c = t \<and> \<not> waiting then Some (Some (c, True, acc)) else None | None \<Rightarrow> None)
      | XMessage _ t XdndLeave _ _ _ _ _ \<Rightarrow> (case s of Some (c, waiting, acc) \<Rightarrow> if c = t then Some None else None | None \<Rightarrow> None)
      | XMessage _ t XdndDrop _ _ _ _ _ \<Rightarrow>
          (case s of Some (c, waiting, acc) \<Rightarrow> if c = t \<and> \<not> waiting \<and> acc then Some s else None | None \<Rightarrow> None)
      | GotStatus a \<Rightarrow> Some (map_option (\<lambda>(c, waiting, acc). (c, False, a)) s)
      | _ \<Rightarrow> Some s)"

fun xdndRun :: "dataEffect list \<Rightarrow> xdndState \<Rightarrow> xdndState option" where
  "xdndRun [] s = Some s"
| "xdndRun (e # es) s = Option.bind (xdndNext e s) (xdndRun es)"

lemma xdndRun_append: "xdndRun (as @ bs) s = Option.bind (xdndRun as s) (xdndRun bs)"
proof (induction as arbitrary: s)
  case (Cons a as)
  then show ?case by (cases "xdndNext a s") simp_all
qed simp

lemma xdndNext_other: "\<not> xdndEffect e \<Longrightarrow> xdndNext e s = Some s"
  by (auto simp: xdndEffect_def xdndNext_def split: dataEffect.splits xdndKind.splits)

lemma xdndRun_filter: "xdndRun (filter xdndEffect es) s = xdndRun es s"
proof (induction es arbitrary: s)
  case (Cons e es)
  then show ?case by (cases "xdndNext e s") (auto simp: xdndNext_other)
qed simp

text \<open>The record of the drag agrees with what was sent and answered.\<close>

definition dragView :: "dataServer \<Rightarrow> xdView \<Rightarrow> bool" where
  "dragView sv v = (case v of (es, t, p, acc, pending) \<Rightarrow>
     (case xdndRun es None of None \<Rightarrow> False
      | Some s \<Rightarrow> t \<noteq> 0 \<and> dv_client sv p \<noteq> 0 \<longrightarrow>
          (case s of None \<Rightarrow> False | Some (c, waiting, a) \<Rightarrow> c = t \<and> (waiting \<longrightarrow> pending) \<and> (acc \<longrightarrow> a))))"

abbreviation dragOk :: "dataServer \<Rightarrow> dataState \<Rightarrow> bool" where
  "dragOk sv st \<equiv> dragView sv (xdv st)"

lemma dragOk_cong: "xdv st2 = xdv st \<Longrightarrow> dragOk sv st2 = dragOk sv st"
  by simp

lemma xdv_message:
  "k \<noteq> XdndStatus \<Longrightarrow> k \<noteq> XdndFinished \<Longrightarrow>
   xdv (message sv x y k a b c d e st) = (let (es, r) = xdv st in
     (if windowFor x st \<and> dv_client sv x \<noteq> 0 then es @ [XMessage x y k a b c d e] else es, r))"
  by (simp add: message_def xdv_def emitData_def xdndEffect_def)

lemma dragOk_drop_target:
  assumes "dragOk sv st" "fst (xdv st2) = fst (xdv st)" "de_dragTarget st2 = 0"
  shows "dragOk sv st2"
  using assms by (auto simp: dragView_def xdv_def split: option.splits)

lemma dragOk_leave:
  assumes "dragOk sv st" "de_dragTarget st \<noteq> 0"
    and "st2 = message sv (de_dragProxy st) (de_dragTarget st) XdndLeave a b c d e st"
  shows "xdndRun (fst (xdv st2)) None \<noteq> None"
proof -
  have eq: "xdv st2 = (let (es, r) = xdv st in
     (if windowFor (de_dragProxy st) st \<and> dv_client sv (de_dragProxy st) \<noteq> 0
      then es @ [XMessage (de_dragProxy st) (de_dragTarget st) XdndLeave a b c d e] else es, r))"
    unfolding assms(3) by (rule xdv_message) simp_all
  show ?thesis using assms(1,2) unfolding eq
    by (auto simp: dragView_def xdndRun_append xdndNext_def xdv_def split: option.splits prod.splits)
qed

lemma dragOk_run: "dragOk sv st \<Longrightarrow> xdndRun (fst (xdv st)) None \<noteq> None"
  by (auto simp: dragView_def split: option.splits prod.splits)

lemma dragOk_none: "xdndRun (fst (xdv st)) None \<noteq> None \<Longrightarrow> de_dragTarget st = 0 \<Longrightarrow> dragOk sv st"
  by (auto simp: dragView_def xdv_def split: option.splits)

lemma message_drag [simp]:
  "de_dragTarget (message sv x y k a b c d e st) = de_dragTarget st" "de_dragProxy (message sv x y k a b c d e st) = de_dragProxy st"
  "de_dragAccepted (message sv x y k a b c d e st) = de_dragAccepted st" "de_dragPositionPending (message sv x y k a b c d e st) = de_dragPositionPending st"
  "de_dragSource (message sv x y k a b c d e st) = de_dragSource st" "de_tree (message sv x y k a b c d e st) = de_tree st"
  "de_store (message sv x y k a b c d e st) = de_store st" "de_own (message sv x y k a b c d e st) = de_own st"
  "de_props (message sv x y k a b c d e st) = de_props st" "de_dragVersion (message sv x y k a b c d e st) = de_dragVersion st"
  "de_offers (message sv x y k a b c d e st) = de_offers st" "de_dragOutput (message sv x y k a b c d e st) = de_dragOutput st"
  by (simp_all add: message_def emitData_def)

lemma windowFor_cong:
  "de_own st2 = de_own st \<Longrightarrow> de_tree st2 = de_tree st \<Longrightarrow> de_store st2 = de_store st \<Longrightarrow> windowFor i st2 = windowFor i st"
  by (simp add: windowFor_def)

lemma windowFor_message [simp]: "windowFor i (message sv x y k a b c d e st) = windowFor i st"
  by (rule windowFor_cong) simp_all

lemma proxy_exists: "windowFor t st \<Longrightarrow> windowFor (destinationProxy sv t st) st"
  by (auto simp: destinationProxy_def proxyOf_def split: option.splits if_splits propData.splits list.splits)

lemma ancestry_in: "set (ancestry p t) \<subseteq> set (pre t)" "set (ancestries p ts) \<subseteq> set (pres ts)"
proof (induction p t and p ts rule: ancestry_ancestries.induct)
  case (1 p w cs)
  then show ?case by (cases "ancestries p cs") auto
next
  case (3 p c cs)
  then show ?case by (cases "ancestry p c") auto
qed simp

lemma dragWindow_exists: "dragWindow sv sel x y st \<noteq> 0 \<Longrightarrow> windowFor (dragWindow sv sel x y st) st"
proof -
  assume nz: "dragWindow sv sel x y st \<noteq> 0"
  then obtain p w where w: "w \<in> set (ancestry p (de_tree st))" "dragWindow sv sel x y st = w_id (de_store st w)"
    by (auto simp: dragWindow_def Let_def find_Some_iff split: option.splits intro: nth_mem)
  then have "w \<in> set (pre (de_tree st))" using ancestry_in(1) by blast
  with w(2) show ?thesis by (auto simp: windowFor_def list_ex_iff)
qed

lemma enterTarget_ok:
  assumes "dragOk sv st" "nxt \<noteq> 0 \<Longrightarrow> windowFor nxt st"
  shows "dragOk sv (enterTarget sv nxt st)" and "de_dragTarget (enterTarget sv nxt st) = nxt"
    and "\<not> de_dragPositionPending (enterTarget sv nxt st)"
proof -
  define s where "s = (if de_dragTarget st \<noteq> 0 then message sv (de_dragProxy st) (de_dragTarget st) XdndLeave (de_dragSource st) 0 0 0 0 st else st)"
  have run: "xdndRun (fst (xdv s)) None \<noteq> None"
    using dragOk_leave [OF assms(1) _ refl] dragOk_run [OF assms(1)] by (simp add: s_def)
  define p where "p = (if nxt \<noteq> 0 then destinationProxy sv nxt s else 0)"
  define u where "u = s\<lparr>de_dragTarget := nxt, de_dragProxy := p, de_dragAccepted := False, de_dragPositionPending := False\<rparr>"
  define v where "v = u\<lparr>de_dragVersion := awareVersion sv nxt u\<rparr>"
  have eq: "enterTarget sv nxt st = (if nxt = 0 then u
      else message sv p nxt XdndEnter (de_dragSource v) (push_bit 24 (de_dragVersion v) OR (if length (of_targets (de_offers v 1)) > 3 then 1 else 0))
             (nthTarget 0 (de_offers v 1)) (nthTarget 1 (de_offers v 1)) (nthTarget 2 (de_offers v 1)) v)"
    unfolding enterTarget_def Let_def s_def [symmetric] unfolding p_def [symmetric] unfolding u_def [symmetric] unfolding v_def [symmetric]
    by (simp add: v_def u_def)
  have same: "fst (xdv v) = fst (xdv s)" "xdv v = xdv u" by (simp_all add: v_def u_def xdv_def)
  have there: "windowFor p v" if "nxt \<noteq> 0"
  proof -
    have "windowFor nxt s" using assms(2) that by (simp add: s_def)
    then have "windowFor p s" using that proxy_exists by (simp add: p_def)
    moreover have "windowFor p v = windowFor p s" by (rule windowFor_cong) (simp_all add: v_def u_def)
    ultimately show ?thesis by simp
  qed
  obtain q where q: "xdndRun (fst (xdv v)) None = Some q" using run same by auto
  show "dragOk sv (enterTarget sv nxt st)"
  proof (cases "nxt = 0")
    case True
    then show ?thesis using run same unfolding eq by (intro dragOk_none) (simp_all add: u_def)
  next
    case False
    define m where "m = XMessage p nxt XdndEnter (de_dragSource v) (push_bit 24 (de_dragVersion v) OR (if length (of_targets (de_offers v 1)) > 3 then 1 else 0))
             (nthTarget 0 (de_offers v 1)) (nthTarget 1 (de_offers v 1)) (nthTarget 2 (de_offers v 1))"
    have xv: "xdv v = (fst (xdv v), nxt, p, False, False)" by (simp add: xdv_def v_def u_def)
    have "xdv (enterTarget sv nxt st) = (if dv_client sv p \<noteq> 0 then fst (xdv v) @ [m] else fst (xdv v), nxt, p, False, False)"
      unfolding eq using False there [OF False] xv by (simp add: xdv_message Let_def m_def split_beta prod_eq_iff)
    moreover have "xdndNext m q = Some (Some (nxt, False, False))" by (simp add: m_def xdndNext_def)
    ultimately show ?thesis using q by (simp add: dragView_def xdndRun_append)
  qed
  show "de_dragTarget (enterTarget sv nxt st) = nxt" "\<not> de_dragPositionPending (enterTarget sv nxt st)"
    unfolding eq by (simp_all add: u_def v_def)
qed

lemma position_ok:
  assumes "dragOk sv st" "de_dragTarget st \<noteq> 0" "\<not> de_dragPositionPending st"
  shows "dragOk sv (message sv (de_dragProxy st) (de_dragTarget st) XdndPosition a b c d e
    (st\<lparr>de_dragPositionPending := True, de_dragPositionDataRevision := r\<rparr>))"
proof -
  let ?s = "st\<lparr>de_dragPositionPending := True, de_dragPositionDataRevision := r\<rparr>"
  have s: "xdv ?s = (filter xdndEffect (de_log st), de_dragTarget st, de_dragProxy st, de_dragAccepted st, True)" by (simp add: xdv_def)
  have s0: "xdv st = (filter xdndEffect (de_log st), de_dragTarget st, de_dragProxy st, de_dragAccepted st, False)" using assms by (simp add: xdv_def)
  show ?thesis using assms
    by (auto simp: xdv_message s s0 dragView_def xdndRun_append xdndNext_def split: option.splits)
qed

lemma moveDrag_ok:
  assumes "dragOk sv st"
  shows "dragOk sv (moveDrag sv ev st)"
proof -
  define s where "s = st\<lparr>de_dragMove := ev\<rparr>"
  have s: "dragOk sv s" using assms by (simp add: s_def)
  show ?thesis
  proof (cases "de_dragPositionPending s \<or> lorieOutputPoint (dv_out sv) (dx_output ev) (dx_window ev) (dx_x ev) (dx_y ev) (de_out s) = None")
    case True
    then show ?thesis using s by (auto simp: moveDrag_def Let_def simp flip: s_def split: if_splits)
  next
    case False
    then obtain x y where xy: "lorieOutputPoint (dv_out sv) (dx_output ev) (dx_window ev) (dx_x ev) (dx_y ev) (de_out s) = Some (x, y)" by auto
    define nxt where "nxt = dragWindow sv (if dx_window ev = 0 then dv_root sv else dx_window ev) x y s"
    define u where "u = (if nxt \<noteq> de_dragTarget s then enterTarget sv nxt s else s)"
    have u: "dragOk sv u" "\<not> de_dragPositionPending u"
      using enterTarget_ok [OF s, of nxt] dragWindow_exists [of sv _ x y s] s False by (auto simp: u_def nxt_def)
    define v where "v = u\<lparr>de_dragOutput := dx_output ev\<rparr>"
    have v: "dragOk sv v" "\<not> de_dragPositionPending v" using u by (simp_all add: v_def)
    have "moveDrag sv ev st = (if de_dragTarget v = 0 then v
        else message sv (de_dragProxy v) (de_dragTarget v) XdndPosition (de_dragSource v) 0
               (push_bit 16 (of_int x) OR (of_int y AND 0xFFFF)) (de_now v) (atomCopy sv)
               (v\<lparr>de_dragPositionPending := True, de_dragPositionDataRevision := de_dragDataRevision v\<rparr>))"
      unfolding moveDrag_def Let_def s_def [symmetric] xy option.case prod.case nxt_def [symmetric]
      unfolding u_def [symmetric] unfolding v_def [symmetric] using False by simp
    then show ?thesis using v position_ok [OF v(1) _ v(2)] by simp
  qed
qed

lemma rejectDrag_ok: "dragOk sv st \<Longrightarrow> dragOk sv (rejectDrag sv st)"
proof -
  assume ok: "dragOk sv st"
  define s where "s = st\<lparr>de_dragDropPending := False\<rparr>"
  define u where "u = (if de_dragTarget s \<noteq> 0 then message sv (de_dragProxy s) (de_dragTarget s) XdndLeave (de_dragSource s) 0 0 0 0 s else s)"
  have s: "dragOk sv s" using ok by (simp add: s_def)
  have run: "xdndRun (fst (xdv u)) None \<noteq> None" using dragOk_leave [OF s _ refl] dragOk_run [OF s] by (simp add: u_def)
  define w where "w = emit LORIE_DATA_FINISH 1 0 (of_generation (de_offers u 1)) None None (de_dragOutput u) (de_dragTarget u) 0 u"
  have eq: "rejectDrag sv st = w\<lparr>de_dragTarget := 0\<rparr>"
    unfolding rejectDrag_def Let_def s_def [symmetric] u_def [symmetric] unfolding w_def [symmetric] ..
  have "fst (xdv (w\<lparr>de_dragTarget := 0\<rparr>)) = fst (xdv w)" by (simp add: xdv_def)
  moreover have "xdv w = xdv u" by (simp add: w_def)
  ultimately show ?thesis unfolding eq using run by (intro dragOk_none) simp_all
qed

lemma drop_ok:
  assumes "dragOk sv st" "de_dragTarget st \<noteq> 0" "\<not> de_dragPositionPending st" "de_dragAccepted st"
  shows "dragOk sv (message sv (de_dragProxy st) (de_dragTarget st) XdndDrop a b c d e st)"
proof -
  have s: "xdv st = (filter xdndEffect (de_log st), de_dragTarget st, de_dragProxy st, True, False)" using assms by (simp add: xdv_def)
  show ?thesis using assms by (auto simp: xdv_message s dragView_def xdndRun_append xdndNext_def split: option.splits)
qed

lemma dropDrag_ok: "dragOk sv st \<Longrightarrow> dragOk sv (dropDrag sv st)"
proof -
  assume ok: "dragOk sv st"
  have p: "dragOk sv (st\<lparr>de_dragDropPending := b\<rparr>)" for b using ok by simp
  have m: "dragOk sv (message sv (de_dragProxy st) (de_dragTarget st) XdndDrop (de_dragSource st) 0 (de_now st) 0 0 (st\<lparr>de_dragDropPending := False\<rparr>))"
    if "de_dragTarget st \<noteq> 0" "\<not> de_dragPositionPending st" "de_dragAccepted st"
    using drop_ok [OF p [of False]] that by simp
  show ?thesis using p m moveDrag_ok [OF p [of True]] rejectDrag_ok [OF p [of False]] by (simp add: dropDrag_def Let_def)
qed

lemma selectionFinished_ok: "dragOk sv st \<Longrightarrow> dragOk sv (selectionFinished sv t s st)"
proof -
  assume ok: "dragOk sv st"
  then have "dragOk sv (st\<lparr>de_dragDataRevision := r\<rparr>)" for r by simp
  then show ?thesis using ok dropDrag_ok rejectDrag_ok by (simp add: selectionFinished_def Let_def)
qed

lemma failTransfer_ok: "dragOk sv st \<Longrightarrow> dragOk sv (failTransfer sv i st)"
  by (auto simp: failTransfer_def Let_def intro!: selectionFinished_ok)

lemma xdv_allocate [simp]: "xdv (snd (allocateTransfer sv a b c d st)) = xdv st"
  by (simp add: allocateTransfer_def Let_def split: option.splits)

lemma failing_ok:
  "dragOk sv st \<Longrightarrow> dragOk sv (failTransfer sv i (setTransfer i t st))"
  by (rule failTransfer_ok) simp

lemma publishTargets_ok: "dragOk sv st \<Longrightarrow> dragOk sv (publishTargets sv c st)"
proof -
  obtain fd s where b: "bytesFile sv (bytesOf (targetNames sv (of_targets (de_offers st c)))) st = (fd, s)" by fastforce
  have "xdv s = xdv st" using views_bytesFile(1) [of sv "bytesOf (targetNames sv (of_targets (de_offers st c)))" st] b by simp
  then show "dragOk sv st \<Longrightarrow> dragOk sv (publishTargets sv c st)" by (simp add: publishTargets_def Let_def b split: option.splits)
qed

lemma request_ok: "dragOk sv st \<Longrightarrow> dragOk sv (request sv c serial g tg l st)"
proof -
  assume ok: "dragOk sv st"
  obtain i s where a: "allocateTransfer sv True c serial g st = (i, s)" by fastforce
  have s: "dragOk sv s" using xdv_allocate [of sv True c serial g st] a ok by simp
  obtain w u where n: "newWindow sv s = (w, u)" by fastforce
  have u: "dragOk sv u" using views_newWindow(2) [of sv s] n s by simp
  show ?thesis using ok s failing_ok [OF u] u
    by (simp add: request_def Let_def a n xdndEffect_def split: option.splits)
qed

lemma receiveBytes_ok: "dragOk sv st \<Longrightarrow> dragOk sv (receiveBytes sv i bs st)"
proof -
  assume ok: "dragOk sv st"
  obtain fd s where f: "(case tr_fd (transfer i st) of Some fd \<Rightarrow> (Some fd, st) | None \<Rightarrow> bytesFile sv [] st) = (fd, s)" by fastforce
  have "s = st \<or> s = snd (bytesFile sv [] st)" using f by (auto split: option.splits)
  then have s: "dragOk sv s" using ok by auto
  show ?thesis using ok s failTransfer_ok [OF ok] failing_ok [OF s]
    by (simp add: receiveBytes_def Let_def f split: option.splits)
qed

lemma startIncremental_ok: "dragOk sv st \<Longrightarrow> dragOk sv (startIncremental sv i n st)"
proof -
  assume ok: "dragOk sv st"
  obtain fd s where f: "bytesFile sv [] st = (fd, s)" by fastforce
  have s: "dragOk sv s" using views_bytesFile(1) [of sv "[]" st] f ok by simp
  show ?thesis using ok s failTransfer_ok [OF ok] failing_ok [OF s] by (simp add: startIncremental_def Let_def f)
qed

lemma receiveTargets_ok: "dragOk sv st \<Longrightarrow> dragOk sv (receiveTargets sv i v st)"
  using failTransfer_ok publishTargets_ok by (simp add: receiveTargets_def Let_def split: propData.splits)

lemma receive_ok: "dragOk sv st \<Longrightarrow> dragOk sv (receive sv i b st)"
  using failTransfer_ok [of sv st i] receiveTargets_ok [of sv st i] receiveBytes_ok [of sv st i] startIncremental_ok [of sv st i]
  by (simp add: receive_def Let_def split: option.splits propData.splits list.splits)

lemma sendChunk_ok: "dragOk sv st \<Longrightarrow> dragOk sv (snd (sendChunk sv i st))"
proof -
  assume ok: "dragOk sv st"
  let ?t = "transfer i st"
  have c: "dragOk sv (snd (changeProperty sv w p ty d ((setTransfer i t st)\<lparr>de_movingProperty := True\<rparr>)))" for w p ty d t using ok by simp
  have "dragOk sv ((snd (changeProperty sv w p ty d ((setTransfer i t st)\<lparr>de_movingProperty := True\<rparr>)))\<lparr>de_movingProperty := False\<rparr>)"
    and "dragOk sv (selectionFinished sv t2 b (release i ((snd (changeProperty sv w p ty d ((setTransfer i t st)\<lparr>de_movingProperty := True\<rparr>)))\<lparr>de_movingProperty := False\<rparr>)))"
    for w p ty d t t2 b using c by (simp_all add: selectionFinished_ok)
  then show ?thesis using ok failTransfer_ok [OF ok, of i] selectionFinished_ok [of sv "release i st"]
    by (simp add: sendChunk_def Let_def split_beta split: option.splits)
qed

lemma propertyWork_ok: "dragOk sv st \<Longrightarrow> dragOk sv (propertyWork sv w st)"
proof -
  assume ok: "dragOk sv st"
  then have "dragOk sv (setTransfer (fst w) t st)" for t by simp
  then show ?thesis using ok receive_ok sendChunk_ok by (simp add: propertyWork_def Let_def split_beta)
qed

lemma failChannel_ok: "dragOk sv st \<Longrightarrow> dragOk sv (failChannel sv c is st)"
  by (induction "is" arbitrary: st) (simp_all add: failTransfer_ok)

lemma selectionChanged_ok: "dragOk sv st \<Longrightarrow> dragOk sv (selectionChanged sv a k w st)"
proof (cases "de_enabled st \<and> channelOf sv a \<noteq> None \<and> w \<noteq> de_bridge st")
  case True
  assume ok: "dragOk sv st"
  obtain c where c: "channelOf sv a = Some c" using True by auto
  define s where "s = (if c = 1 \<and> de_exportedSource st \<noteq> 0 \<and> w \<noteq> de_exportedSource st then endExport sv st else st)"
  define u where "u = failChannel sv c [0..<MAX_PENDING] s"
  have u: "dragOk sv u" using ok failChannel_ok by (simp add: u_def s_def)
  define v where "v = u\<lparr>de_sequence := de_sequence u + 1, de_offers := (de_offers u)(c := \<lparr>of_generation = de_sequence u + 1, of_owner = w, of_time = de_now u, of_targets = [], of_local = False\<rparr>)\<rparr>"
  have v: "dragOk sv v" using u by (simp add: v_def)
  show ?thesis using True v request_ok [OF v]
    unfolding selectionChanged_def c option.case Let_def s_def [symmetric] unfolding u_def [symmetric] unfolding v_def [symmetric] by simp
qed (auto simp: selectionChanged_def split: option.splits)

lemma own_ok: "dragOk sv st \<Longrightarrow> dragOk sv (snd (own sv c st))"
proof -
  assume ok: "dragOk sv st"
  define s where "s = (case de_sel st c of None \<Rightarrow> st
                     | Some s \<Rightarrow> (case ds_client s of None \<Rightarrow> st
                         | Some n \<Rightarrow> if n \<noteq> 0 \<and> ds_window s \<noteq> 0 then emitData (SelClear (ds_window s) c) st else st))"
  have "dragOk sv s" using ok by (simp add: s_def xdndEffect_def split: option.splits)
  then have "dragOk sv (s\<lparr>de_sel := x\<rparr>)" for x by simp
  then show ?thesis using ok selectionChanged_ok unfolding own_def Let_def s_def [symmetric] by simp
qed

lemma outgoing_ok: "dragOk sv st \<Longrightarrow> dragOk sv (snd (outgoingTransfer sv c r st))"
proof -
  assume ok: "dragOk sv st"
  obtain i s where a: "allocateTransfer sv False c (de_requestSequence st + 1) (of_generation (de_offers st c)) (st\<lparr>de_requestSequence := de_requestSequence st + 1\<rparr>) = (i, s)"
    by fastforce
  have "s = snd (allocateTransfer sv False c (de_requestSequence st + 1) (of_generation (de_offers st c)) (st\<lparr>de_requestSequence := de_requestSequence st + 1\<rparr>))"
    using a by simp
  then have "dragOk sv s" using ok by simp
  then show ?thesis by (cases i) (simp_all add: outgoingTransfer_def Let_def a)
qed

lemma answer_ok: "dragOk sv st \<Longrightarrow> dragOk sv (answer sv i ty vs st)"
  by (simp add: answer_def Let_def split_beta)

lemma convert_ok: "dragOk sv st \<Longrightarrow> dragOk sv (convert sv r st)"
proof -
  assume ok: "dragOk sv st"
  have s: "dragOk sv s" if "outgoingTransfer sv c r st = (i, s)" for c i s using outgoing_ok [OF ok, of c r] that by simp
  show ?thesis using ok s failTransfer_ok answer_ok
    by (simp add: convert_def Let_def xdndEffect_def split: option.splits prod.splits)
qed

lemma status_ok:
  assumes "dragOk sv st"
  shows "dragOk sv (emitData (GotStatus a) (st\<lparr>de_dragPositionPending := False, de_dragAccepted := a\<rparr>))"
proof -
  have x: "xdv (emitData (GotStatus a) (st\<lparr>de_dragPositionPending := False, de_dragAccepted := a\<rparr>))
      = (filter xdndEffect (de_log st) @ [GotStatus a], de_dragTarget st, de_dragProxy st, a, False)"
    by (simp add: xdv_def emitData_def xdndEffect_def)
  have s: "xdv st = (filter xdndEffect (de_log st), de_dragTarget st, de_dragProxy st, de_dragAccepted st, de_dragPositionPending st)"
    by (simp add: xdv_def)
  show ?thesis using assms unfolding x s
    by (auto simp: dragView_def xdndRun_append xdndNext_def split: option.splits prod.splits)
qed

lemma dragMessage_ok:
  assumes "dragOk sv st" "dragMessage sv k l1 l4 st = Some st2"
  shows "dragOk sv st2"
proof (cases "k = XdndStatus")
  case True
  define a where "a = (bit l1 0 \<and> l4 = atomCopy sv)"
  define s where "s = emitData (GotStatus a) (st\<lparr>de_dragPositionPending := False, de_dragAccepted := a\<rparr>)"
  define u where "u = emit LORIE_DATA_STATUS 1 0 (of_generation (de_offers s 1)) None None (de_dragOutput s) (de_dragTarget s) (if a then 1 else 0) s"
  have u: "dragOk sv u" using status_ok [OF assms(1), of a] by (simp add: u_def s_def)
  define v where "v = (if de_dragMoveQueued u then moveDrag sv (de_dragMove u) (u\<lparr>de_dragMoveQueued := False\<rparr>) else u)"
  have v: "dragOk sv v" using u moveDrag_ok [of sv "u\<lparr>de_dragMoveQueued := False\<rparr>"] by (simp add: v_def)
  have "st2 = (if de_dragDropPending v then dropDrag sv v else v)"
    using assms(2) True unfolding dragMessage_def Let_def a_def [symmetric] s_def [symmetric] unfolding u_def [symmetric] unfolding v_def [symmetric]
    by simp
  then show ?thesis using v dropDrag_ok by simp
next
  case False
  then have k: "k = XdndFinished" using assms(2) by (cases k) (simp_all add: dragMessage_def)
  define u where "u = emit LORIE_DATA_FINISH 1 0 (of_generation (de_offers st 1)) None None (de_dragOutput st) (de_dragTarget st)
                   (if de_dragVersion st < 5 \<or> bit l1 0 then 1 else 0) st"
  have st2: "st2 = u\<lparr>de_dragTarget := 0\<rparr>" using assms(2) k by (simp add: dragMessage_def u_def)
  have "fst (xdv st2) = fst (xdv u)" "xdv u = xdv st" by (simp_all add: st2 xdv_def u_def) (simp_all add: emit_def emitData_def xdndEffect_def)
  then show ?thesis by (intro dragOk_drop_target [OF assms(1)]) (simp_all add: st2)
qed

lemma exportMessage_view: "exportMessage sv k st = Some st2 \<Longrightarrow> xdv st2 = xdv st"
proof (cases k)
  case XdndDrop
  have "xdv (st\<lparr>de_exportDropped := True\<rparr>) = xdv st" by (simp add: xdv_def)
  then show "exportMessage sv k st = Some st2 \<Longrightarrow> xdv st2 = xdv st" using XdndDrop by (auto simp: exportMessage_def Let_def)
qed (auto simp: exportMessage_def)

lemma clientMessage_ok: "dragOk sv st \<Longrightarrow> dragOk sv (clientMessage sv w ty l0 l1 l4 st)"
  using dragMessage_ok [of sv st _ l1 l4] exportMessage_view [of sv _ st]
  by (auto simp: clientMessage_def Let_def xdndEffect_def split: option.splits if_splits)

lemma sendEvent_ok: "dragOk sv st \<Longrightarrow> dragOk sv (sendEvent sv ev st)"
  using receive_ok failTransfer_ok clientMessage_ok by (simp add: sendEvent_def xdndEffect_def split: dataSend.splits option.splits)

lemma deliverReply_ok: "dragOk sv st \<Longrightarrow> dragOk sv (deliverReply sv i t st)"
proof -
  assume ok: "dragOk sv st"
  obtain ok2 u where u: "sendChunk sv i st = (ok2, u)" by fastforce
  have u1: "dragOk sv u" using sendChunk_ok [OF ok, of i] u by simp
  show ?thesis using ok u1 selectionFinished_ok by (simp add: deliverReply_def Let_def split_beta u)
qed

lemma replyTo_ok: "dragOk sv st \<Longrightarrow> dragOk sv (snd (replyTo sv i fd a b st))"
  using deliverReply_ok [of sv] failTransfer_ok [of sv st i] by (simp add: replyTo_def Let_def split: option.splits)

lemma finishDrag_ok: "dragOk sv st \<Longrightarrow> dragOk sv (finishDrag sv b st)"
proof -
  assume ok: "dragOk sv st"
  have upd: "xdv (st\<lparr>de_exportCompleted := True, de_exportSuccess := b\<rparr>) = xdv st" by (simp add: xdv_def)
  define s where "s = (if de_exportedSource st \<noteq> 0
                then let st = releaseExportPointer (st\<lparr>de_exportCompleted := True, de_exportSuccess := b\<rparr>)
                     in if de_exportDropped st then endExport sv st else st
                else st)"
  have "xdv s = xdv st" by (simp add: s_def Let_def upd)
  moreover have "finishDrag sv b st = resetDrag (s\<lparr>de_dragTarget := 0, de_dragAccepted := False\<rparr>)"
    unfolding finishDrag_def Let_def s_def ..
  ultimately have "fst (xdv (finishDrag sv b st)) = fst (xdv st)" "de_dragTarget (finishDrag sv b st) = 0"
    by (simp_all add: resetDrag_def xdv_def)
  then show ?thesis using dragOk_run [OF ok] by (intro dragOk_none) simp_all
qed

lemma leaveDrag_ok: "dragOk sv st \<Longrightarrow> dragOk sv (leaveDrag sv st)"
proof -
  assume ok: "dragOk sv st"
  define s where "s = (if de_dragTarget st \<noteq> 0 then message sv (de_dragProxy st) (de_dragTarget st) XdndLeave (de_dragSource st) 0 0 0 0 st else st)"
  have "xdndRun (fst (xdv s)) None \<noteq> None" using dragOk_leave [OF ok _ refl] dragOk_run [OF ok] by (simp add: s_def)
  moreover have "leaveDrag sv st = resetDrag (s\<lparr>de_dragTarget := 0, de_dragAccepted := False\<rparr>)" unfolding leaveDrag_def Let_def s_def ..
  ultimately show ?thesis by (intro dragOk_none) (simp_all add: resetDrag_def xdv_def)
qed

lemma enterDrag_ok: "dragOk sv st \<Longrightarrow> dragOk sv (enterDrag sv ev st)"
proof -
  assume ok: "dragOk sv st"
  define p where "p = (dx_x ev \<noteq> 0 \<and> \<not> of_local (de_offers st (dx_channel ev)) \<and> of_generation (de_offers st (dx_channel ev)) = dx_offer ev)"
  define s where "s = st\<lparr>de_dragPassthrough := p, de_dragSource := de_bridge st\<rparr>"
  have s: "xdv s = xdv st" by (simp add: s_def xdv_def)
  define u where "u = snd (changeProperty sv (de_bridge s) (atomTypeList sv) XA_ATOM (Data32 (of_targets (de_offers st (dx_channel ev)))) s)"
  have u: "xdv u = xdv st" by (simp add: u_def s)
  define v where "v = resetDrag (u\<lparr>de_dragTarget := 0, de_dragOutput := dx_output ev, de_dragAccepted := False,
              de_dragDataRevision := 0, de_dragPositionDataRevision := 0\<rparr>)"
  have "fst (xdv v) = fst (xdv u)" "de_dragTarget v = 0" by (simp_all add: v_def resetDrag_def xdv_def)
  then have v: "dragOk sv v" using dragOk_run [OF ok] u by (intro dragOk_none) simp_all
  have "enterDrag sv ev st = (if \<not> p \<and> \<not> of_local (de_offers st (dx_channel ev)) then s else v)"
    unfolding enterDrag_def Let_def p_def [symmetric] unfolding s_def [symmetric] unfolding u_def [symmetric] unfolding v_def [symmetric] ..
  then show ?thesis using ok s v by simp
qed

lemma dataSwitch_ok: "dragOk sv st \<Longrightarrow> dragOk sv (snd (dataSwitch sv ev fd a b st))"
proof -
  assume ok: "dragOk sv st"
  have "dragOk sv (snd (own sv c (st\<lparr>de_offers := x\<rparr>)))" for c x using own_ok [of sv "st\<lparr>de_offers := x\<rparr>"] ok by simp
  then show ?thesis
    using ok request_ok [OF ok] replyTo_ok [OF ok] enterDrag_ok [OF ok] moveDrag_ok [OF ok] leaveDrag_ok [OF ok] dropDrag_ok [OF ok] finishDrag_ok [OF ok]
    by (simp add: dataSwitch_def Let_def split: LorieDataOperation.splits option.splits prod.splits) (metis snd_conv)
qed

lemma enableData_view: "xdv (enableData sv ev st) = xdv st"
proof -
  have upd: "xdv (s\<lparr>de_enabled := a, de_clipboardActive := b\<rparr>) = xdv s" "xdv (s\<lparr>de_bridge := w\<rparr>) = xdv s" for s a b w by (simp_all add: xdv_def)
  obtain w s where n: "newWindow sv (st\<lparr>de_enabled := True, de_clipboardActive := (dx_x ev \<noteq> 0)\<rparr>) = (w, s)" by fastforce
  then have "s = snd (newWindow sv (st\<lparr>de_enabled := True, de_clipboardActive := (dx_x ev \<noteq> 0)\<rparr>))" by simp
  then have "xdv s = xdv st" by (simp add: upd)
  then show ?thesis by (simp add: enableData_def Let_def n upd)
qed

lemma lorieDataCommand_ok: "dragOk sv st \<Longrightarrow> dragOk sv (lorieDataCommand sv ev file st)"
proof -
  assume ok: "dragOk sv st"
  obtain fd s where f: "takeFile file st = (fd, s)" by fastforce
  have "s = st \<or> (\<exists>bs. s = snd (openFile bs st))" using f by (auto simp: takeFile_def split: option.splits)
  then have s: "dragOk sv s" using ok by auto
  have d: "dragOk sv (snd (dispatchData sv ev fd a b s))" for a b
    using s enableData_view [of sv ev s] dataSwitch_ok [OF s] by (simp add: dispatchData_def)
  show ?thesis unfolding lorieDataCommand_def f Let_def prod.case using d
    by (auto simp: split_beta split: option.splits)
qed

lemma fold_release_view: "xdv (fold release is st) = xdv st"
  by (induction "is" arbitrary: st) simp_all

lemma lorieDataReset_ok: "dragOk sv st \<Longrightarrow> dragOk sv (lorieDataReset sv st)"
proof -
  assume ok: "dragOk sv st"
  define s where "s = (endExport sv st)\<lparr>de_enabled := False, de_clipboardActive := False\<rparr>"
  have s: "xdv s = xdv st"
  proof -
    have "xdv (u\<lparr>de_enabled := False, de_clipboardActive := False\<rparr>) = xdv u" for u by (simp add: xdv_def)
    then show ?thesis by (simp add: s_def)
  qed
  define u where "u = fold release [0..<MAX_PENDING] s"
  define v where "v = (if de_bridge u \<noteq> 0 then freeWindow (de_bridge u) u else u)"
  have v: "xdv v = xdv st" by (simp add: v_def u_def fold_release_view s)
  have eq: "lorieDataReset sv st = (resetDrag v)\<lparr>de_bridge := 0, de_dragTarget := 0, de_dragSource := 0, de_pointerDown := False, de_offers := (\<lambda>_. noOffer)\<rparr>"
    unfolding lorieDataReset_def Let_def s_def [symmetric] unfolding u_def [symmetric] unfolding v_def [symmetric] ..
  have "fst (xdv (lorieDataReset sv st)) = fst (xdv v)" unfolding eq by (simp add: resetDrag_def xdv_def)
  then show ?thesis using dragOk_run [OF ok] v by (intro dragOk_none) (simp_all add: eq)
qed

lemma dataStep_drag: "dragOk sv st \<Longrightarrow> dragOk sv (dataStep sv inp st)"
proof (cases inp)
  case (SelectionOwner a k w c)
  assume ok: "dragOk sv st"
  then show ?thesis using SelectionOwner selectionChanged_ok by (auto simp: dataStep_def split: option.splits)
next
  case (ServerWindows t s)
  assume "dragOk sv st"
  then show ?thesis using ServerWindows by (simp add: dataStep_def xdv_def)
next
  case (Pointer o1 w b d)
  assume "dragOk sv st"
  then show ?thesis using Pointer by (simp add: dataStep_def lorieDataPointer_def xdv_def)
next
  case ExpireExport
  assume ok: "dragOk sv st"
  have "xdv (st\<lparr>de_exportTimer := False, de_exportSuccess := False\<rparr>) = xdv st" by (simp add: xdv_def)
  then show ?thesis using ok ExpireExport by (simp add: dataStep_def exportExpired_def)
next
  case (Clock n)
  assume "dragOk sv st"
  then show ?thesis using Clock by (simp add: dataStep_def xdv_def)
next
  case RunWork
  assume ok: "dragOk sv st"
  then show ?thesis using RunWork propertyWork_ok by (auto simp: dataStep_def split: list.splits)
next
  case (Expire i)
  assume ok: "dragOk sv st"
  then show ?thesis using Expire failing_ok by (simp add: dataStep_def expired_def)
qed (simp_all add: dataStep_def lorieDataCommand_ok convert_ok sendEvent_ok lorieDataReset_ok)

text \<open>
  C9: In every run of the component, whatever the host, the clients and the windows under the pointer
  do, the drag speaks XDND: a position, a leave or a drop only goes to the window entered last, no
  second position is sent while one is unanswered, and a drop is only sent to a window whose last
  answer accepted it.
\<close>

theorem drag_speaks_xdnd:
  "\<exists>s. xdndRun (de_log (dataRun sv inputs (dataStart out))) None = Some s"
proof -
  have "dragOk sv (dataStart out)" by (simp add: dragView_def xdv_def dataStart_def)
  then have "dragOk sv (dataRun sv inputs (dataStart out))" by (rule dataRun_induct) (rule dataStep_drag)
  then have "xdndRun (fst (xdv (dataRun sv inputs (dataStart out)))) None \<noteq> None" by (rule dragOk_run)
  then show ?thesis by (simp add: xdv_def xdndRun_filter)
qed

end
