(* ===== verification/Data_Transfer.thy ===== *)
theory Data_Transfer
  imports Data_Exchange
begin

text \<open>
  The descriptors of the data bridge (\<open>data_exchange.c\<close>): which transfer owns which, that none is
  leaked as long as no transfer is started twice, and that a client can make the server leak one.
\<close>

section \<open>Descriptors\<close>

definition ownedFds :: "(bool \<times> nat option) list \<Rightarrow> nat list" where
  "ownedFds ts = List.map_filter snd ts"

text \<open>
  Each open descriptor belongs to exactly one transfer, apart from those in \<open>X\<close> that an operation
  holds, and a free slot has none.
\<close>

definition fdOk :: "nat set \<Rightarrow> fdView \<Rightarrow> bool" where
  "fdOk X v = (case v of (ts, opened, nxt) \<Rightarrow>
     length ts = MAX_PENDING \<and> distinct (ownedFds ts) \<and> opened = set (ownedFds ts) \<union> X \<and> X \<inter> set (ownedFds ts) = {}
     \<and> (\<forall>fd \<in> opened. fd < nxt) \<and> (\<forall>p \<in> set ts. \<not> fst p \<longrightarrow> snd p = None))"

abbreviation fdsOk :: "nat set \<Rightarrow> dataState \<Rightarrow> bool" where
  "fdsOk X st \<equiv> fdOk X (fdv st)"

lemma ownedFds_simps [simp]:
  "ownedFds [] = []" "ownedFds (a # ts) = (case snd a of None \<Rightarrow> ownedFds ts | Some f \<Rightarrow> f # ownedFds ts)"
  "ownedFds (as @ bs) = ownedFds as @ ownedFds bs"
  by (auto simp: ownedFds_def List.map_filter_def split: option.splits)

lemma transfers_split:
  assumes "i < length (de_transfers st)"
  shows "map fdPart (de_transfers st) = map fdPart (take i (de_transfers st)) @ fdPart (transfer i st) # map fdPart (drop (Suc i) (de_transfers st))"
  by (subst id_take_nth_drop [OF assms]) (simp add: transfer_def)

lemma setTransfer_fdv:
  assumes "i < length (de_transfers st)"
  shows "fdv (setTransfer i t st) = (map fdPart (take i (de_transfers st)) @ fdPart t # map fdPart (drop (Suc i) (de_transfers st)), de_open st, de_nextFd st)"
  using assms by (simp add: fdv_def setTransfer_def upd_conv_take_nth_drop)

lemma fdsOk_length: "fdsOk X st \<Longrightarrow> length (de_transfers st) = MAX_PENDING"
  by (simp add: fdOk_def fdv_def)

lemma release_fdv:
  "fdv (release i st) = (if tr_used (transfer i st) then
     fdv (setTransfer i ((transfer i st)\<lparr>tr_used := False, tr_timer := False, tr_fd := None\<rparr>)
       (st\<lparr>de_open := de_open st - (case tr_fd (transfer i st) of None \<Rightarrow> {} | Some fd \<Rightarrow> {fd})\<rparr>)) else fdv st)"
  by (auto simp: release_def Let_def fdv_def setTransfer_def closeFd_def emitData_def freeWindow_def transfer_def split: option.splits)

lemma fdsOk_release:
  assumes "fdsOk X st" "i < length (de_transfers st)"
  shows "fdsOk X (release i st)"
proof (cases "tr_used (transfer i st)")
  case True
  define a where "a = map fdPart (take i (de_transfers st))"
  define b where "b = map fdPart (drop (Suc i) (de_transfers st))"
  have v: "fdv st = (a @ fdPart (transfer i st) # b, de_open st, de_nextFd st)"
    using transfers_split [OF assms(2)] by (simp add: fdv_def a_def b_def)
  have r: "fdv (release i st) = (a @ (False, None) # b, de_open st - (case tr_fd (transfer i st) of None \<Rightarrow> {} | Some fd \<Rightarrow> {fd}), de_nextFd st)"
    using True assms(2) by (simp add: release_fdv setTransfer_fdv a_def b_def fdPart_def)
  show ?thesis using assms(1) unfolding v r fdOk_def by (cases "tr_fd (transfer i st)") (auto simp: fdPart_def)
next
  case False
  then show ?thesis using assms(1) by (simp add: release_fdv)
qed

lemma fdsOk_give:
  assumes "fdsOk (insert n X) st" "i < length (de_transfers st)" "n \<notin> X" "tr_fd (transfer i st) = None" "tr_used t" "tr_fd t = Some n"
  shows "fdsOk X (setTransfer i t st)"
proof -
  define a where "a = map fdPart (take i (de_transfers st))"
  define b where "b = map fdPart (drop (Suc i) (de_transfers st))"
  have v: "fdv st = (a @ fdPart (transfer i st) # b, de_open st, de_nextFd st)"
    using transfers_split [OF assms(2)] by (simp add: fdv_def a_def b_def)
  have r: "fdv (setTransfer i t st) = (a @ (True, Some n) # b, de_open st, de_nextFd st)"
    using assms(2,5,6) by (simp add: setTransfer_fdv a_def b_def fdPart_def)
  show ?thesis using assms(1,3,4) unfolding v r fdOk_def by (auto simp: fdPart_def)
qed

lemma fdsOk_same:
  assumes "fdsOk X st" "fdPart t = fdPart (transfer i st)"
  shows "fdsOk X (setTransfer i t st)"
  using assms fdv_setTransfer by simp

lemma fdsOk_close: "fdsOk (insert n X) st \<Longrightarrow> n \<notin> X \<Longrightarrow> fdsOk X (closeFd n st)"
  by (auto simp: fdOk_def fdv_def closeFd_def emitData_def)

lemma fdsOk_open: "fdsOk X st \<Longrightarrow> openFile bs st = (n, st2) \<Longrightarrow> fdsOk (insert n X) st2 \<and> n \<notin> X \<and> de_transfers st2 = de_transfers st"
proof -
  assume ok: "fdsOk X st" and "openFile bs st = (n, st2)"
  moreover obtain ts where v: "fdv st = (ts, de_open st, de_nextFd st)" by (simp add: fdv_def)
  ultimately have e: "n = de_nextFd st" "fdv st2 = (ts, insert n (de_open st), Suc n)" "de_transfers st2 = de_transfers st"
    by (auto simp: openFile_def Let_def fdv_def)
  show ?thesis using ok e(1,3) unfolding e(2) v fdOk_def by (auto intro: less_SucI)
qed

lemma fdsOk_bytesFile:
  assumes "fdsOk X st" "bytesFile sv bs st = (fd, st2)"
  shows "(case fd of None \<Rightarrow> fdsOk X st2 | Some n \<Rightarrow> fdsOk (insert n X) st2 \<and> n \<notin> X) \<and> de_transfers st2 = de_transfers st"
proof -
  obtain n s where o: "openFile [] st = (n, s)" by fastforce
  note op = fdsOk_open [OF assms(1) o]
  have upd: "fdsOk Y (s\<lparr>de_files := f\<rparr>) = fdsOk Y s" for Y f by (simp add: fdv_def)
  have cl: "de_transfers (closeFd n s) = de_transfers s" by (simp add: closeFd_def emitData_def)
  show ?thesis using assms(2) op fdsOk_close [of n X s] assms(1) cl upd
    by (auto simp: bytesFile_def o split: if_splits)
qed

lemma fdsOk_fail:
  assumes "fdsOk X st" "i < length (de_transfers st)"
  shows "fdsOk X (failTransfer sv i st)"
proof -
  have "fdsOk X (release i s)" if "fdv s = fdv st" for s
  proof (rule fdsOk_release)
    show "fdsOk X s" using assms(1) that by simp
    then show "i < length (de_transfers s)" using fdsOk_length assms by metis
  qed
  then show ?thesis by (simp add: failTransfer_def Let_def)
qed

lemma fdsOk_release16: "fdsOk X st \<Longrightarrow> i < MAX_PENDING \<Longrightarrow> fdsOk X (release i st)"
  using fdsOk_release fdsOk_length by metis

lemma fdsOk_fail16: "fdsOk X st \<Longrightarrow> i < MAX_PENDING \<Longrightarrow> fdsOk X (failTransfer sv i st)"
  using fdsOk_fail fdsOk_length by metis

lemma fdsOk_start:
  assumes "fdsOk X st" "i < length (de_transfers st)" "tr_fd (transfer i st) = None" "tr_used t" "tr_fd t = None"
  shows "fdsOk X (setTransfer i t st)"
proof -
  define a where "a = map fdPart (take i (de_transfers st))"
  define b where "b = map fdPart (drop (Suc i) (de_transfers st))"
  have v: "fdv st = (a @ fdPart (transfer i st) # b, de_open st, de_nextFd st)"
    using transfers_split [OF assms(2)] by (simp add: fdv_def a_def b_def)
  have r: "fdv (setTransfer i t st) = (a @ (True, None) # b, de_open st, de_nextFd st)"
    using assms(2,4,5) by (simp add: setTransfer_fdv a_def b_def fdPart_def)
  show ?thesis using assms(1,3) unfolding v r fdOk_def by (auto simp: fdPart_def)
qed

lemma free_slot_no_fd: "fdsOk X st \<Longrightarrow> i < length (de_transfers st) \<Longrightarrow> \<not> tr_used (transfer i st) \<Longrightarrow> tr_fd (transfer i st) = None"
  by (auto simp: fdOk_def fdv_def fdPart_def transfer_def)

lemma setTransfer_simps [simp]:
  "length (de_transfers (setTransfer i t st)) = length (de_transfers st)" "i < length (de_transfers st) \<Longrightarrow> transfer i (setTransfer i t st) = t"
  "setTransfer i t (setTransfer i u st) = setTransfer i t st"
  by (simp_all add: setTransfer_def transfer_def)

lemma fdsOk_allocate:
  assumes "fdsOk X st" "allocateTransfer sv inc c s g st = (r, st2)"
  shows "fdsOk X st2 \<and> (\<forall>i. r = Some i \<longrightarrow> i < length (de_transfers st2) \<and> tr_used (transfer i st2) \<and> tr_fd (transfer i st2) = None)"
proof (cases "findIndex (\<lambda>t. \<not> tr_used t) (de_transfers st)")
  case None
  then show ?thesis using assms by (auto simp: allocateTransfer_def)
next
  case (Some i)
  note i = findIndex_Some [OF Some]
  let ?u = "st\<lparr>de_transferSequence := de_transferSequence st + 1\<rparr>"
  have u: "fdsOk X ?u" "i < length (de_transfers ?u)" using assms(1) i by simp_all
  have none: "tr_fd (transfer i ?u) = None" using free_slot_no_fd [OF assms(1)] i by (simp add: transfer_def)
  show ?thesis using assms(2) fdsOk_start [OF u none] i by (auto simp: allocateTransfer_def Some Let_def)
qed

lemma transfer_newWindow [simp]: "de_transfers (snd (newWindow sv st)) = de_transfers st"
  by (simp add: newWindow_def Let_def emitData_def)

lemma fdsOk_request: "fdsOk X st \<Longrightarrow> fdsOk X (request sv c serial g tg l st)"
proof -
  assume ok: "fdsOk X st"
  obtain r s where a: "allocateTransfer sv True c serial g st = (r, s)" by fastforce
  have s: "fdsOk X s" using fdsOk_allocate [OF ok a] by simp
  obtain w u where n: "newWindow sv s = (w, u)" by fastforce
  then have u: "u = snd (newWindow sv s)" by simp
  have "fdsOk X (setTransfer i ((transfer i u)\<lparr>tr_target := tg, tr_targets := l, tr_property := atomData sv, tr_requestor := w\<rparr>) u)" for i
    by (rule fdsOk_same) (use s u in \<open>simp_all add: fdPart_def\<close>)
  moreover have "i < length (de_transfers u)" if "r = Some i" for i using fdsOk_allocate [OF ok a] that u by simp
  ultimately show ?thesis using ok s fdsOk_fail by (auto simp: request_def Let_def a n split: option.splits)
qed

lemma fdsOk_publishTargets: "fdsOk X st \<Longrightarrow> fdsOk X (publishTargets sv c st)"
proof -
  assume ok: "fdsOk X st"
  obtain fd s where b: "bytesFile sv (bytesOf (targetNames sv (of_targets (de_offers st c)))) st = (fd, s)" by fastforce
  note f = fdsOk_bytesFile [OF ok b]
  have "fdsOk X (closeFd n (emit o1 c1 s1 g1 m1 f1 o2 w1 x1 s))" if "fd = Some n" for n o1 c1 s1 g1 m1 f1 o2 w1 x1
    by (rule fdsOk_close) (use f that in simp_all)
  then show ?thesis using f by (cases fd) (simp_all add: publishTargets_def Let_def b)
qed

lemma bytesFile_transfers: "bytesFile sv bs st = (fd, s) \<Longrightarrow> de_transfers s = de_transfers st"
  by (auto simp: bytesFile_def openFile_def closeFd_def emitData_def Let_def split: if_splits)

text \<open>The descriptor for incoming bytes: the one the transfer has, or a new file.\<close>

lemma fdsOk_newFile:
  assumes "fdsOk X st" "i < length (de_transfers st)" "tr_used (transfer i st)" "tr_fd (transfer i st) = None"
    and "bytesFile sv [] st = (fd, s)" "tr_used t" "tr_fd t = fd"
  shows "fdsOk X (setTransfer i t s)"
proof -
  note f = fdsOk_bytesFile [OF assms(1,5)]
  have tr: "transfer i s = transfer i st" "length (de_transfers s) = length (de_transfers st)" using f by (simp_all add: transfer_def)
  show ?thesis
  proof (cases fd)
    case None
    then show ?thesis using fdsOk_start [of X s i t] f assms tr by simp
  next
    case (Some n)
    then show ?thesis using fdsOk_give [of n X s i t] f assms tr by simp
  qed
qed

lemma fdsOk_startIncremental:
  assumes "fdsOk X st" "i < length (de_transfers st)" "tr_used (transfer i st)" "tr_fd (transfer i st) = None"
  shows "fdsOk X (startIncremental sv i n st)"
proof -
  obtain fd s where f: "bytesFile sv [] st = (fd, s)" by fastforce
  have len: "length (de_transfers s) = length (de_transfers st)" using bytesFile_transfers [OF f] by simp
  have a: "fdsOk X (setTransfer i t s)" if "tr_used t" "tr_fd t = fd" for t by (rule fdsOk_newFile [OF assms f that])
  show ?thesis using a fdsOk_fail [OF assms(1,2)] fdsOk_fail [OF a] assms(2,3) len
    by (simp add: startIncremental_def Let_def f)
qed

lemma fdsOk_receiveBytes:
  assumes "fdsOk X st" "i < length (de_transfers st)" "tr_used (transfer i st)"
  shows "fdsOk X (receiveBytes sv i bs st)"
proof -
  obtain fd s where f: "(case tr_fd (transfer i st) of Some fd \<Rightarrow> (Some fd, st) | None \<Rightarrow> bytesFile sv [] st) = (fd, s)" by fastforce
  have len: "length (de_transfers s) = length (de_transfers st)"
    using f bytesFile_transfers [of sv "[]" st] by (auto split: option.splits)
  have a: "fdsOk X (setTransfer i t s)" if "tr_used t" "tr_fd t = fd" for t
  proof (cases "tr_fd (transfer i st)")
    case None
    then show ?thesis using fdsOk_newFile [OF assms None _ that] f by simp
  next
    case (Some n)
    then show ?thesis using fdsOk_same [OF assms(1), of t i] f that assms(3) by (simp add: fdPart_def)
  qed
  have files: "fdsOk X (setTransfer i t (s\<lparr>de_files := g\<rparr>))" if "tr_used t" "tr_fd t = fd" for t g
  proof -
    have "setTransfer i t (s\<lparr>de_files := g\<rparr>) = (setTransfer i t s)\<lparr>de_files := g\<rparr>" by (simp add: setTransfer_def)
    then show ?thesis using a [OF that] by simp
  qed
  have rel: "fdsOk X (release i (emit o1 c1 s1 g1 m1 f1 o2 w1 x1 v))" if "fdsOk X v" for v o1 c1 s1 g1 m1 f1 o2 w1 x1
    by (rule fdsOk_release16) (use that fdsOk_length [OF assms(1)] assms(2) in simp_all)
  have up: "setTransfer i t ((setTransfer i u s)\<lparr>de_files := g\<rparr>) = setTransfer i t (s\<lparr>de_files := g\<rparr>)" for t u g by (simp add: setTransfer_def)
  show ?thesis using assms fdsOk_fail [OF assms(1,2)] fdsOk_fail [OF a] a files rel len
    by (simp add: receiveBytes_def Let_def f up split: option.splits)
qed

lemma fdsOk_receiveTargets: "fdsOk X st \<Longrightarrow> i < MAX_PENDING \<Longrightarrow> fdsOk X (receiveTargets sv i v st)"
  by (auto simp: receiveTargets_def Let_def split: propData.splits intro!: fdsOk_fail16 fdsOk_release16 fdsOk_publishTargets)

lemma fdsOk_receive:
  assumes "fdsOk X st" "i < MAX_PENDING" "tr_used (transfer i st)" "initial \<Longrightarrow> tr_fd (transfer i st) = None"
  shows "fdsOk X (receive sv i initial st)"
proof -
  have len: "i < length (de_transfers st)" using assms(2) fdsOk_length [OF assms(1)] by simp
  show ?thesis
    using fdsOk_fail16 [OF assms(1,2)] fdsOk_receiveTargets [OF assms(1,2)] fdsOk_receiveBytes [OF assms(1) len assms(3)]
      fdsOk_startIncremental [OF assms(1) len assms(3)] assms(1,4)
    by (simp add: receive_def Let_def split: option.splits propData.splits list.splits)
qed

lemma fdsOk_sendChunk:
  assumes "fdsOk X st" "i < MAX_PENDING"
  shows "fdsOk X (snd (sendChunk sv i st))"
proof -
  let ?c = "\<lambda>w p ty d t. (snd (changeProperty sv w p ty d ((setTransfer i t st)\<lparr>de_movingProperty := True\<rparr>)))\<lparr>de_movingProperty := False\<rparr>"
  have same: "fdsOk X (setTransfer i t st)" if "fdPart t = fdPart (transfer i st)" for t by (rule fdsOk_same [OF assms(1) that])
  then have c: "fdsOk X (?c w p ty d t)" if "fdPart t = fdPart (transfer i st)" for t w p ty d using that by simp
  have "fdsOk X (release i (?c w p ty d t))" if "fdPart t = fdPart (transfer i st)" for t w p ty d
    using fdsOk_release16 [OF c [OF that] assms(2)] .
  then show ?thesis using same fdsOk_fail16 [OF assms] fdsOk_release16 [OF assms]
    by (simp add: sendChunk_def Let_def split_beta fdPart_def split: option.splits)
qed

lemma fdsOk_propertyWork: "fdsOk X st \<Longrightarrow> fdsOk X (propertyWork sv w st)"
proof -
  assume ok: "fdsOk X st"
  obtain i ticket where w: "w = (i, ticket)" by fastforce
  define s where "s = setTransfer i ((transfer i st)\<lparr>tr_queued := False\<rparr>) st"
  have s: "fdsOk X s" unfolding s_def by (rule fdsOk_same [OF ok]) (simp add: fdPart_def)
  have i: "i < MAX_PENDING" "tr_used (transfer i s) = tr_used (transfer i st)" if "i < length (de_transfers st)"
    using that fdsOk_length [OF ok] by (simp_all add: s_def)
  show ?thesis using ok fdsOk_receive [OF s] fdsOk_sendChunk [OF s] i
    by (simp add: propertyWork_def Let_def w flip: s_def)
qed

lemma fdsOk_failChannel: "fdsOk X st \<Longrightarrow> \<forall>i \<in> set is. i < MAX_PENDING \<Longrightarrow> fdsOk X (failChannel sv c is st)"
  by (induction "is" arbitrary: st) (simp_all add: fdsOk_fail16)

lemma fdsOk_selectionChanged: "fdsOk X st \<Longrightarrow> fdsOk X (selectionChanged sv a k w st)"
proof (cases "de_enabled st \<and> channelOf sv a \<noteq> None \<and> w \<noteq> de_bridge st")
  case True
  assume ok: "fdsOk X st"
  obtain c where c: "channelOf sv a = Some c" using True by auto
  define s where "s = (if c = 1 \<and> de_exportedSource st \<noteq> 0 \<and> w \<noteq> de_exportedSource st then endExport sv st else st)"
  define u where "u = failChannel sv c [0..<MAX_PENDING] s"
  have u: "fdsOk X u" unfolding u_def by (rule fdsOk_failChannel) (use ok in \<open>simp_all add: s_def\<close>)
  define v where "v = u\<lparr>de_sequence := de_sequence u + 1, de_offers := (de_offers u)(c := \<lparr>of_generation = de_sequence u + 1, of_owner = w, of_time = de_now u, of_targets = [], of_local = False\<rparr>)\<rparr>"
  have v: "fdsOk X v" using u by (simp add: v_def)
  show ?thesis using True v fdsOk_request [OF v]
    unfolding selectionChanged_def c option.case Let_def s_def [symmetric] unfolding u_def [symmetric] unfolding v_def [symmetric] by simp
qed (auto simp: selectionChanged_def split: option.splits)

lemma fdsOk_own: "fdsOk X st \<Longrightarrow> fdsOk X (snd (own sv c st))"
proof -
  assume ok: "fdsOk X st"
  define s where "s = (case de_sel st c of None \<Rightarrow> st
                     | Some s \<Rightarrow> (case ds_client s of None \<Rightarrow> st
                         | Some n \<Rightarrow> if n \<noteq> 0 \<and> ds_window s \<noteq> 0 then emitData (SelClear (ds_window s) c) st else st))"
  have "fdsOk X s" using ok by (simp add: s_def split: option.splits)
  then have "fdsOk X (s\<lparr>de_sel := x\<rparr>)" for x by simp
  then show ?thesis using ok fdsOk_selectionChanged unfolding own_def Let_def s_def [symmetric] by simp
qed

lemma fdsOk_outgoing:
  assumes "fdsOk X st" "outgoingTransfer sv c r st = (k, st2)"
  shows "fdsOk X st2 \<and> (\<forall>i. k = Some i \<longrightarrow> i < MAX_PENDING)"
proof -
  obtain j s where a: "allocateTransfer sv False c (de_requestSequence st + 1) (of_generation (de_offers st c)) (st\<lparr>de_requestSequence := de_requestSequence st + 1\<rparr>) = (j, s)"
    by fastforce
  have f: "fdsOk X s \<and> (\<forall>i. j = Some i \<longrightarrow> i < length (de_transfers s) \<and> tr_used (transfer i s) \<and> tr_fd (transfer i s) = None)"
    by (rule fdsOk_allocate [OF _ a]) (use assms(1) in simp)
  have "fdsOk X (setTransfer i ((transfer i s)\<lparr>tr_requestor := x, tr_target := y, tr_property := z, tr_time := w\<rparr>) s)" for i x y z w
    by (rule fdsOk_same) (use f in \<open>simp_all add: fdPart_def\<close>)
  then show ?thesis using assms(2) f fdsOk_length [of X s] by (cases j) (auto simp: outgoingTransfer_def Let_def a)
qed

lemma fdsOk_answer: "fdsOk X st \<Longrightarrow> i < MAX_PENDING \<Longrightarrow> fdsOk X (answer sv i ty vs st)"
  by (auto simp: answer_def Let_def split_beta intro!: fdsOk_release16)

lemma fdsOk_convert: "fdsOk X st \<Longrightarrow> fdsOk X (convert sv r st)"
proof -
  assume ok: "fdsOk X st"
  have s: "fdsOk X s" if "outgoingTransfer sv c r st = (k, s)" for c k s using fdsOk_outgoing [OF ok that] by simp
  have i: "i < MAX_PENDING" if "outgoingTransfer sv c r st = (Some i, s)" for c i s using fdsOk_outgoing [OF ok that] by simp
  show ?thesis using ok s i fdsOk_fail16 fdsOk_answer
    by (simp add: convert_def Let_def split: option.splits prod.splits)
qed

text \<open>
  A reply of the host for a transfer that already has a file, or a second notification of a client
  for a transfer that is under way.
\<close>

definition restarts :: "dataServer \<Rightarrow> dataInput \<Rightarrow> dataState \<Rightarrow> bool" where
  "restarts sv inp st =
     (case inp of
        Command ev file \<Rightarrow> dx_operation ev = LORIE_DATA_REPLY \<and>
          (case replyIndex ev st of None \<Rightarrow> False | Some i \<Rightarrow> tr_fd (transfer i st) \<noteq> None \<or> tr_incremental (transfer i st))
      | Send (SelectionNotifyEvent requestor sel target property) \<Rightarrow>
          (case findIndex (\<lambda>t. tr_used t \<and> tr_incoming t \<and> tr_requestor t = requestor \<and> tr_target t = target
                 \<and> selection sv (tr_channel t) = sel) (de_transfers st) of
             None \<Rightarrow> False | Some i \<Rightarrow> tr_fd (transfer i st) \<noteq> None)
      | _ \<Rightarrow> False)"

lemma fdsOk_exportMessage: "exportMessage sv k st = Some st2 \<Longrightarrow> fdv st2 = fdv st"
proof (cases k)
  case XdndDrop
  have "fdv (st\<lparr>de_exportDropped := True\<rparr>) = fdv st" by (simp add: fdv_def)
  then show "exportMessage sv k st = Some st2 \<Longrightarrow> fdv st2 = fdv st" using XdndDrop by (auto simp: exportMessage_def Let_def)
qed (auto simp: exportMessage_def)

lemma fdv_dragMessage: "dragMessage sv k l1 l4 st = Some st2 \<Longrightarrow> fdv st2 = fdv st"
proof -
  have "fdv (s\<lparr>de_dragPositionPending := False, de_dragAccepted := a\<rparr>) = fdv s" for s a by (simp add: fdv_def)
  then show "dragMessage sv k l1 l4 st = Some st2 \<Longrightarrow> fdv st2 = fdv st"
    by (cases k) (auto simp: dragMessage_def Let_def split: if_splits)
qed

lemma fdv_clientMessage: "fdv (clientMessage sv w ty l0 l1 l4 st) = fdv st"
  using fdv_dragMessage [of sv _ l1 l4 st] fdsOk_exportMessage [of sv _ st]
  by (auto simp: clientMessage_def Let_def split: option.splits if_splits)

lemma fdsOk_sendEvent:
  assumes "fdsOk X st" "\<not> restarts sv (Send ev) st"
  shows "fdsOk X (sendEvent sv ev st)"
proof (cases "\<exists>r s t p. ev = SelectionNotifyEvent r s t p")
  case True
  then obtain r s t p where ev: "ev = SelectionNotifyEvent r s t p" by blast
  show ?thesis
  proof (cases "findIndex (\<lambda>u. tr_used u \<and> tr_incoming u \<and> tr_requestor u = r \<and> tr_target u = t \<and> selection sv (tr_channel u) = s) (de_transfers st)")
    case None
    then show ?thesis using assms(1) by (simp add: sendEvent_def ev)
  next
    case (Some i)
    have i: "i < MAX_PENDING" "tr_used (transfer i st)" "tr_fd (transfer i st) = None"
      using findIndex_Some [OF Some] fdsOk_length [OF assms(1)] assms(2) Some by (auto simp: transfer_def restarts_def ev)
    then show ?thesis using Some assms(1) fdsOk_fail16 [OF assms(1)] fdsOk_receive [OF assms(1)] by (simp add: sendEvent_def ev)
  qed
next
  case False
  then show ?thesis using assms(1) by (cases ev) (simp_all add: sendEvent_def fdv_clientMessage)
qed

lemma fdsOk_deliverReply:
  assumes "fdsOk X st" "i < MAX_PENDING" "transfer i st = t"
  shows "fdsOk X (deliverReply sv i t st)"
proof -
  have v: "fdsOk X (setTransfer i (t\<lparr>tr_incremental := True\<rparr>) st)"
    by (rule fdsOk_same [OF assms(1)]) (use assms(3) in \<open>simp add: fdPart_def\<close>)
  obtain ok2 u where u: "sendChunk sv i st = (ok2, u)" by fastforce
  have u1: "fdsOk X u" using fdsOk_sendChunk [OF assms(1,2), of sv] u by simp
  show ?thesis using fdsOk_release16 [OF _ assms(2)] assms(1) v u1 by (simp add: deliverReply_def Let_def split_beta u)
qed

lemma fdsOk_replyTo:
  assumes "fdsOk (set_option fd) st" "i < MAX_PENDING" "tr_used (transfer i st)" "tr_fd (transfer i st) = None"
    and "replyTo sv i fd a b st = (taken, st2)"
  shows "fdsOk (if taken then {} else set_option fd) st2"
proof (cases fd)
  case None
  then show ?thesis using assms fdsOk_fail16 [OF assms(1,2)] by (auto simp: replyTo_def)
next
  case (Some n)
  define t where "t = (transfer i st)\<lparr>tr_fd := Some n, tr_size := length (de_files st n)\<rparr>"
  have len: "i < length (de_transfers st)" using assms(2) fdsOk_length [OF assms(1)] by simp
  have s: "fdsOk {} (setTransfer i t st)" by (rule fdsOk_give [of n]) (use assms len Some in \<open>simp_all add: t_def\<close>)
  have "fdsOk {} (deliverReply sv i t (setTransfer i t st))" by (rule fdsOk_deliverReply [OF s assms(2)]) (use len in simp)
  then show ?thesis using assms(5) Some fdsOk_fail16 [OF assms(1,2)] by (auto simp: replyTo_def Let_def t_def split: if_splits)
qed

lemma fdv_dragCommands [simp]:
  "fdv (enterDrag sv ev st) = fdv st" "fdv (leaveDrag sv st) = fdv st" "fdv (finishDrag sv b st) = fdv st" "fdv (enableData sv ev st) = fdv st"
proof -
  have upd: "fdv (resetDrag s) = fdv s" "fdv (s\<lparr>de_dragTarget := x, de_dragAccepted := y\<rparr>) = fdv s"
    "fdv (s\<lparr>de_dragPassthrough := y, de_dragSource := x\<rparr>) = fdv s" "fdv (s\<lparr>de_exportCompleted := y, de_exportSuccess := y2\<rparr>) = fdv s"
    "fdv (s\<lparr>de_enabled := y, de_clipboardActive := y2\<rparr>) = fdv s" "fdv (s\<lparr>de_bridge := x\<rparr>) = fdv s"
    "fdv (s\<lparr>de_dragTarget := x, de_dragOutput := o1, de_dragAccepted := y, de_dragDataRevision := r, de_dragPositionDataRevision := r2\<rparr>) = fdv s"
    for s x y y2 o1 r r2 by (simp_all add: resetDrag_def fdv_def)
  show "fdv (enterDrag sv ev st) = fdv st" "fdv (leaveDrag sv st) = fdv st" "fdv (finishDrag sv b st) = fdv st"
    by (simp_all add: enterDrag_def leaveDrag_def finishDrag_def Let_def upd)
  show "fdv (enableData sv ev st) = fdv st" by (simp add: enableData_def Let_def split_beta upd)
qed

lemma fdsOk_dataSwitch:
  assumes "fdsOk (set_option fd) st" "dataSwitch sv ev fd a b st = (fd2, st2)"
    and "dx_operation ev = LORIE_DATA_REPLY \<Longrightarrow> \<forall>i. replyIndex ev st = Some i \<longrightarrow> tr_fd (transfer i st) = None"
  shows "fdsOk (set_option fd2) st2"
proof (cases "dx_operation ev = LORIE_DATA_REPLY")
  case True
  show ?thesis
  proof (cases "replyIndex ev st")
    case None
    then show ?thesis using assms True by (simp add: dataSwitch_def Let_def)
  next
    case (Some i)
    obtain taken s where r: "replyTo sv i fd a b st = (taken, s)" by fastforce
    have i: "i < MAX_PENDING" "tr_used (transfer i st)" "tr_fd (transfer i st) = None"
      using findIndex_Some [OF Some [unfolded replyIndex_def]] fdsOk_length [OF assms(1)] assms(3) True Some by (auto simp: transfer_def)
    show ?thesis using fdsOk_replyTo [OF assms(1) i r] assms(2) True Some r by (auto simp: dataSwitch_def Let_def)
  qed
next
  case False
  let ?X = "set_option fd"
  have "fdsOk ?X (snd (own sv c (st\<lparr>de_offers := x\<rparr>)))" for c x by (rule fdsOk_own) (use assms(1) in simp)
  then show ?thesis using False assms(1,2) fdsOk_request [OF assms(1)]
    by (auto simp: dataSwitch_def Let_def split: LorieDataOperation.splits option.splits)
qed

lemma fdsOk_command:
  assumes "fdsOk {} st" "\<not> restarts sv (Command ev file) st"
  shows "fdsOk {} (lorieDataCommand sv ev file st)"
proof -
  obtain fd s where f: "takeFile file st = (fd, s)" by fastforce
  have s: "fdsOk (set_option fd) s \<and> de_transfers s = de_transfers st"
    using f fdsOk_open [OF assms(1), of _ "fst (openFile (hf_bytes (the file)) st)" "snd (openFile (hf_bytes (the file)) st)"] assms(1)
    by (auto simp: takeFile_def split: option.splits)
  have idx: "replyIndex ev s = replyIndex ev st" "transfer i s = transfer i st" for i using s by (simp_all add: replyIndex_def transfer_def)
  obtain fd2 u where d: "dispatchData sv ev fd (case file of None \<Rightarrow> False | Some f \<Rightarrow> hf_statOk f) (case file of None \<Rightarrow> False | Some f \<Rightarrow> hf_regular f) s = (fd2, u)"
    by fastforce
  have u: "fdsOk (set_option fd2) u"
  proof (cases "dx_channel ev > 1 \<or> \<not> dv_hasRoot sv \<or> dx_operation ev = LORIE_DATA_ENABLE \<or> \<not> de_enabled s \<or> de_bridge s = 0")
    case True
    then show ?thesis using d s by (auto simp: dispatchData_def split: if_splits)
  next
    case False
    then have dd: "dataSwitch sv ev fd (case file of None \<Rightarrow> False | Some f \<Rightarrow> hf_statOk f) (case file of None \<Rightarrow> False | Some f \<Rightarrow> hf_regular f) s = (fd2, u)"
      using d by (simp add: dispatchData_def)
    have "tr_fd (transfer i s) = None" if "dx_operation ev = LORIE_DATA_REPLY" "replyIndex ev s = Some i" for i
      using assms(2) that unfolding idx by (simp add: restarts_def)
    then show ?thesis by (intro fdsOk_dataSwitch [OF conjunct1 [OF s] dd]) blast
  qed
  show ?thesis using u fdsOk_close [of _ "{}" u] unfolding lorieDataCommand_def f Let_def prod.case d by (auto split: option.splits)
qed

lemma fdsOk_releaseAll: "fdsOk X st \<Longrightarrow> \<forall>i \<in> set is. i < MAX_PENDING \<Longrightarrow> fdsOk X (fold release is st)"
  by (induction "is" arbitrary: st) (simp_all add: fdsOk_release16)

lemma fdsOk_reset: "fdsOk {} st \<Longrightarrow> fdsOk {} (lorieDataReset sv st)"
proof -
  assume ok: "fdsOk {} st"
  have upd: "fdv (s\<lparr>de_enabled := y, de_clipboardActive := y2\<rparr>) = fdv s" "fdv (resetDrag s) = fdv s"
    "fdv (s\<lparr>de_bridge := a, de_dragTarget := b, de_dragSource := c, de_pointerDown := y\<rparr>) = fdv s" for s y y2 a b c
    by (simp_all add: fdv_def resetDrag_def)
  have "fdsOk {} (fold release [0..<MAX_PENDING] ((endExport sv st)\<lparr>de_enabled := False, de_clipboardActive := False\<rparr>))"
    by (rule fdsOk_releaseAll) (use ok upd in simp_all)
  then show ?thesis by (simp add: lorieDataReset_def Let_def upd)
qed

lemma fdsOk_step:
  assumes "fdsOk {} st" "\<not> restarts sv inp st"
  shows "fdsOk {} (dataStep sv inp st)"
proof (cases inp)
  case (Command ev hf)
  then show ?thesis using fdsOk_command [OF assms(1)] assms(2) by (simp add: dataStep_def)
next
  case (Send ev)
  then show ?thesis using fdsOk_sendEvent [OF assms(1)] assms(2) by (simp add: dataStep_def)
next
  case (SelectionOwner a k w c)
  then show ?thesis using assms(1) fdsOk_selectionChanged by (auto simp: dataStep_def split: option.splits)
next
  case (ServerWindows t s)
  then show ?thesis using assms(1) by (simp add: dataStep_def fdv_def)
next
  case (Pointer o1 w b d)
  then show ?thesis using assms(1) by (simp add: dataStep_def lorieDataPointer_def fdv_def)
next
  case ExpireExport
  have "fdv (st\<lparr>de_exportTimer := False, de_exportSuccess := False\<rparr>) = fdv st" by (simp add: fdv_def)
  then show ?thesis using assms(1) ExpireExport by (simp add: dataStep_def exportExpired_def)
next
  case (Clock n)
  then show ?thesis using assms(1) by (simp add: dataStep_def fdv_def)
next
  case RunWork
  then show ?thesis using assms(1) fdsOk_propertyWork by (auto simp: dataStep_def split: list.splits)
next
  case (Expire i)
  have "fdsOk {} (setTransfer i ((transfer i st)\<lparr>tr_timer := False\<rparr>) st)" by (rule fdsOk_same [OF assms(1)]) (simp add: fdPart_def)
  then show ?thesis using Expire assms(1) fdsOk_fail16 fdsOk_length [OF assms(1)] by (simp add: dataStep_def expired_def)
qed (use assms(1) fdsOk_convert fdsOk_reset in \<open>simp_all add: dataStep_def\<close>)

text \<open>The states of the component when neither the host nor a client starts a transfer a second time.\<close>

inductive dataReach :: "dataServer \<Rightarrow> outState \<Rightarrow> dataState \<Rightarrow> bool" for sv out where
  start: "dataReach sv out (dataStart out)"
| step: "dataReach sv out st \<Longrightarrow> \<not> restarts sv inp st \<Longrightarrow> dataReach sv out (dataStep sv inp st)"

lemma reach_fds: "dataReach sv out st \<Longrightarrow> fdsOk {} st"
proof (induction rule: dataReach.induct)
  case start
  show ?case by (simp add: dataStart_def fdv_def fdOk_def fdPart_def ownedFds_def List.map_filter_def)
next
  case (step st inp)
  then show ?case by (intro fdsOk_step) simp_all
qed

lemma release_unused: "i < length (de_transfers st) \<Longrightarrow> \<not> tr_used (transfer i (release i st))"
  by (auto simp: release_def Let_def closeFd_def emitData_def freeWindow_def transfer_def setTransfer_def split: option.splits)

lemma release_other: "j \<noteq> i \<Longrightarrow> transfer j (release i st) = transfer j st"
  "length (de_transfers (release i st)) = length (de_transfers st)"
  by (auto simp: release_def Let_def closeFd_def emitData_def freeWindow_def transfer_def setTransfer_def split: option.splits)

lemma release_all_unused:
  "j < length (de_transfers st) \<Longrightarrow> j \<in> set is \<or> \<not> tr_used (transfer j st) \<Longrightarrow> \<not> tr_used (transfer j (fold release is st))"
proof (induction "is" arbitrary: st)
  case (Cons i "is")
  have "j \<in> set is \<or> \<not> tr_used (transfer j (release i st))"
    using Cons.prems release_unused [of i st] release_other(1) [of j i st] by (cases "j = i") auto
  then show ?case using Cons.IH [of "release i st"] Cons.prems(1) release_other(2) [of i st] by simp
qed simp

lemma ownedFds_in: "fd \<in> set (ownedFds ps) \<longleftrightarrow> (\<exists>p \<in> set ps. snd p = Some fd)"
  by (induction ps) (auto split: option.splits)

lemma ownedFds_inj: "distinct (ownedFds ps) \<Longrightarrow> i < length ps \<Longrightarrow> j < length ps \<Longrightarrow> snd (ps ! i) = Some fd \<Longrightarrow> snd (ps ! j) = Some fd \<Longrightarrow> i = j"
proof (induction ps arbitrary: i j)
  case (Cons p ps)
  show ?case
  proof (cases "i = 0 \<or> j = 0")
    case True
    then show ?thesis using Cons.prems ownedFds_in [of fd ps]
      by (auto simp: nth_Cons split: nat.splits option.splits intro: nth_mem)
  next
    case False
    then obtain a b where "i = Suc a" "j = Suc b" by (metis not0_implies_Suc)
    then show ?thesis using Cons.IH [of a b] Cons.prems by (auto split: option.splits)
  qed
qed simp

lemma reset_closes: "fdsOk {} st \<Longrightarrow> de_open (lorieDataReset sv st) = {}"
proof -
  assume ok: "fdsOk {} st"
  note r = fdsOk_reset [OF ok, of sv]
  define s where "s = (endExport sv st)\<lparr>de_enabled := False, de_clipboardActive := False\<rparr>"
  have tr: "de_transfers (lorieDataReset sv st) = de_transfers (fold release [0..<MAX_PENDING] s)"
    unfolding lorieDataReset_def Let_def s_def [symmetric] by (simp add: resetDrag_def freeWindow_def emitData_def)
  have len: "length (de_transfers s) = MAX_PENDING"
  proof -
    have "length (fst (fdv s)) = length (fst (fdv st))" using views_export(1) [of sv st] by (simp add: s_def fdv_def)
    then show ?thesis using fdsOk_length [OF ok] by (simp add: fdv_def)
  qed
  have "\<not> tr_used t" if mem: "t \<in> set (de_transfers (lorieDataReset sv st))" for t
  proof -
    have "length (de_transfers (lorieDataReset sv st)) = MAX_PENDING" by (rule fdsOk_length [OF r])
    moreover obtain j where j: "j < length (de_transfers (lorieDataReset sv st))" "de_transfers (lorieDataReset sv st) ! j = t"
      using in_set_conv_nth [THEN iffD1, OF mem] by blast
    ultimately have "j < MAX_PENDING" by (simp only:)
    then have "j < length (de_transfers s)" "j \<in> set [0..<MAX_PENDING] \<or> \<not> tr_used (transfer j s)" using len by (simp_all only: set_upt atLeastLessThan_iff le0 simp_thms)
    from release_all_unused [OF this] show ?thesis using j(2) unfolding transfer_def tr by (simp only: simp_thms)
  qed
  then have "tr_fd t = None" if "t \<in> set (de_transfers (lorieDataReset sv st))" for t
    using r that by (auto simp: fdOk_def fdv_def fdPart_def)
  then have "fd \<notin> set (ownedFds (map fdPart (de_transfers (lorieDataReset sv st))))" for fd
    unfolding ownedFds_in by (auto simp: fdPart_def)
  then have "set (ownedFds (map fdPart (de_transfers (lorieDataReset sv st)))) = {}" by (auto simp: set_eq_iff simp del: set_empty)
  then show ?thesis using r by (simp add: fdOk_def fdv_def)
qed

section \<open>A server to try it on\<close>

definition demoAtom :: "string \<Rightarrow> xatom" where
  "demoAtom s = foldl (\<lambda>a c. a * 31 + of_char c) 7 s"

definition demoData :: dataServer where
  "demoData = \<lparr>dv_hasRoot = True, dv_root = 1, dv_atom = demoAtom, dv_name = (\<lambda>_. Some ''text/plain''), dv_client = (\<lambda>_. 1),
     dv_fakeId = (\<lambda>n. 100 + of_nat n), dv_newOk = (\<lambda>_. True), dv_timerOk = True, dv_workOk = True, dv_memfdOk = (\<lambda>_. True),
     dv_writeOk = (\<lambda>_ _. True), dv_readOk = (\<lambda>_ _. True), dv_changeOk = (\<lambda>_ _. True), dv_setAttrOk = (\<lambda>_. True),
     dv_selAccess = (\<lambda>_. True), dv_selCreate = (\<lambda>_. True), dv_hit = (\<lambda>_ _ _. True), dv_out = demoServer\<rparr>"

definition demoEvent :: "LorieDataOperation \<Rightarrow> LorieDataEvent" where
  "demoEvent p = \<lparr>dx_operation = p, dx_channel = 0, dx_serial = 0, dx_offer = 5, dx_output = 0, dx_window = 0, dx_x = 1, dx_y = 0, dx_mime = []\<rparr>"

definition demoInputs :: "dataInput list" where
  "demoInputs =
     [ServerWindows (WNode 1 []) (\<lambda>_. plainWindow\<lparr>w_id := 9\<rparr>), Command (demoEvent LORIE_DATA_ENABLE) None,
      Command (demoEvent LORIE_DATA_OFFER) (Some \<lparr>hf_bytes = bytesOf ''text/plain'', hf_statOk = True, hf_regular = True\<rparr>)]"

definition demoTransfers :: dataState where
  "demoTransfers = dataRun demoData demoInputs (dataStart demoOutputs)"

lemma demoTransfers_reach: "dataReach demoData demoOutputs demoTransfers"
  unfolding demoTransfers_def demoInputs_def dataRun_def fold.simps comp_def id_def
  by (intro dataReach.start dataReach.step) (simp_all add: restarts_def demoEvent_def)

lemma demo_enabled: "dataRun demoData (take 2 demoInputs) (dataStart demoOutputs)
   = (dataStart demoOutputs)\<lparr>de_enabled := True, de_clipboardActive := True, de_tree := WNode 1 [], 
       de_store := (\<lambda>_. plainWindow\<lparr>w_id := 9\<rparr>), de_bridge := 100, de_own := [100], de_newWindows := 1, de_log := [NewWindow 100]\<rparr>"
  by (simp add: demoInputs_def dataRun_def dataStep_def lorieDataCommand_def takeFile_def dispatchData_def demoEvent_def demoData_def enableData_def
     newWindow_def emitData_def Let_def dataStart_def)

lemma stringOf_bytesOf: "stringOf (bytesOf s) = s"
proof -
  have "char_of (unat (of_nat (of_char c) :: u8)) = c" for c
  proof -
    have "of_char c mod 256 = (of_char c :: nat)" by (rule of_char_mod_256)
    then show ?thesis by (simp add: unat_of_nat)
  qed
  then show ?thesis by (simp add: stringOf_def bytesOf_def comp_def)
qed

lemma demo_offered:
  "demoTransfers = (dataStart demoOutputs)\<lparr>de_enabled := True, de_clipboardActive := True, de_tree := WNode 1 [],
     de_store := (\<lambda>_. plainWindow\<lparr>w_id := 9\<rparr>), de_bridge := 100, de_own := [100], de_newWindows := 1,
     de_offers := (\<lambda>_. noOffer)(0 := \<lparr>of_generation = 5, of_owner = 100, of_time = 0, of_targets = [demoAtom ''text/plain''], of_local = True\<rparr>),
     de_sel := [0 \<mapsto> \<lparr>ds_client = Some 0, ds_window = 100\<rparr>], de_nextFd := 1, de_files := (\<lambda>_. [])(0 := bytesOf ''text/plain''),
     de_log := [NewWindow 100, CloseFd 0]\<rparr>" (is "_ = ?st")
proof -
  let ?f = "\<lparr>hf_bytes = bytesOf ''text/plain'', hf_statOk = True, hf_regular = True\<rparr>"
  have targets: "tokens [] (takeWhile (\<lambda>c. c \<noteq> CHR 0x00) (stringOf (bytesOf ''text/plain''))) = [''text/plain'']"
    by (simp add: stringOf_bytesOf)
  have len: "length (bytesOf ''text/plain'') = 10" by (simp add: bytesOf_def)
  have ch: "channelOf demoData (atomClipboard demoData) = Some 0" by (simp add: channelOf_def)
  have "demoTransfers = dataStep demoData (demoInputs ! 2) (dataRun demoData (take 2 demoInputs) (dataStart demoOutputs))"
    by (simp add: demoTransfers_def demoInputs_def dataRun_def)
  also have "\<dots> = ?st" unfolding demo_enabled
    by (simp add: demoInputs_def dataStep_def lorieDataCommand_def takeFile_def openFile_def dispatchData_def dataSwitch_def demoEvent_def
        readTargets_def readFile_def targets len supportedName_def own_def selectionChanged_def selection_def ch Let_def closeFd_def emitData_def)
      (simp add: demoData_def dataStart_def)
  finally show ?thesis .
qed

definition demoTransfer :: Transfer where
  "demoTransfer = \<lparr>tr_used = True, tr_incoming = True, tr_incremental = False, tr_targets = False, tr_serial = 0,
     tr_generation = 1, tr_ticket = 1, tr_queued = False, tr_channel = 0, tr_fd = None, tr_requestor = 101,
     tr_target = demoAtom ''text/plain'', tr_property = demoAtom ''_MAGICDESK_DATA'', tr_time = 0, tr_size = 0, tr_offset = 0, tr_timer = True\<rparr>"

definition demoIncr :: dataInput where
  "demoIncr = ClientProperty 101 (demoAtom ''_MAGICDESK_DATA'') (Some \<lparr>dp_type = demoAtom ''INCR'', dp_data = Data32 [200000]\<rparr>)"

definition demoNotification :: dataSend where
  "demoNotification = SelectionNotifyEvent 101 (demoAtom ''CLIPBOARD'') (demoAtom ''text/plain'') (demoAtom ''_MAGICDESK_DATA'')"

definition demoReading :: dataState where
  "demoReading = dataRun demoData
     [ServerWindows (WNode 1 []) (\<lambda>_. plainWindow\<lparr>w_id := 9\<rparr>), Command ((demoEvent LORIE_DATA_ENABLE)\<lparr>dx_x := 0\<rparr>) None,
      SelectionOwner (demoAtom ''CLIPBOARD'') SelSetOwner 9 1,
      Command ((demoEvent LORIE_DATA_READ)\<lparr>dx_offer := 1, dx_mime := ''text/plain'' @ [CHR 0x00]\<rparr>) None] (dataStart demoOutputs)"

lemma demo_atoms [simp]: "atomClipboard demoData = demoAtom ''CLIPBOARD''" "atomData demoData = demoAtom ''_MAGICDESK_DATA''"
  "atomIncr demoData = demoAtom ''INCR''"  "selection demoData 0 = demoAtom ''CLIPBOARD''"
  by (simp_all add: atomClipboard_def atomData_def atomIncr_def selection_def demoData_def)

lemma demo_watched:
  "dataRun demoData
     [ServerWindows (WNode 1 []) (\<lambda>_. plainWindow\<lparr>w_id := 9\<rparr>), Command ((demoEvent LORIE_DATA_ENABLE)\<lparr>dx_x := 0\<rparr>) None,
      SelectionOwner (demoAtom ''CLIPBOARD'') SelSetOwner 9 1] (dataStart demoOutputs)
   = (dataStart demoOutputs)\<lparr>de_enabled := True, de_tree := WNode 1 [], de_store := (\<lambda>_. plainWindow\<lparr>w_id := 9\<rparr>), de_bridge := 100, de_own := [100],
       de_newWindows := 1, de_log := [NewWindow 100], de_sel := [0 \<mapsto> \<lparr>ds_client = Some 1, ds_window = 9\<rparr>], de_sequence := 1,
       de_offers := (\<lambda>_. noOffer)(0 := \<lparr>of_generation = 1, of_owner = 9, of_time = 0, of_targets = [], of_local = False\<rparr>)\<rparr>"
proof -
  have ch: "channelOf demoData (demoAtom ''CLIPBOARD'') = Some 0" by (simp add: channelOf_def)
  have none: "failChannel demoData 0 is st = st" if "\<forall>t \<in> set (de_transfers st). \<not> tr_used t" "\<forall>i \<in> set is. i < length (de_transfers st)" for "is" st
    using that by (induction "is") (simp_all add: transfer_def)
  show ?thesis
    by (simp add: dataRun_def dataStep_def lorieDataCommand_def takeFile_def dispatchData_def demoEvent_def enableData_def
        newWindow_def emitData_def Let_def ch selectionChanged_def none dataStart_def del: upt.simps) (simp add: demoData_def)
qed

lemma findIndex_first: "0 < length xs \<Longrightarrow> P (xs ! 0) \<Longrightarrow> findIndex P xs = Some 0"
  by (simp add: findIndex_def upt_conv_Cons)

lemma demo_reading:
  "demoReading = (dataStart demoOutputs)\<lparr>de_enabled := True, de_tree := WNode 1 [], de_store := (\<lambda>_. plainWindow\<lparr>w_id := 9\<rparr>), de_bridge := 100,
     de_own := [101, 100], de_newWindows := 2,
     de_log := [NewWindow 100, NewWindow 101, SelRequest 9 101 (demoAtom ''text/plain'') (demoAtom ''_MAGICDESK_DATA'')],
     de_sel := [0 \<mapsto> \<lparr>ds_client = Some 1, ds_window = 9\<rparr>], de_sequence := 1, de_transferSequence := 1,
     de_offers := (\<lambda>_. noOffer)(0 := \<lparr>of_generation = 1, of_owner = 9, of_time = 0, of_targets = [], of_local = False\<rparr>),
     de_transfers := (de_transfers (dataStart demoOutputs))[0 := demoTransfer]\<rparr>"
proof -
  have free: "findIndex (\<lambda>t. \<not> tr_used t) (de_transfers (dataStart demoOutputs)) = Some 0"
    by (rule findIndex_first) (simp_all add: dataStart_def)
  have len: "length (de_transfers (dataStart demoOutputs)) = MAX_PENDING" by (simp add: dataStart_def)
  have two: "demoReading = dataStep demoData (Command ((demoEvent LORIE_DATA_READ)\<lparr>dx_offer := 1, dx_mime := ''text/plain'' @ [CHR 0x00]\<rparr>) None)
      (dataRun demoData [ServerWindows (WNode 1 []) (\<lambda>_. plainWindow\<lparr>w_id := 9\<rparr>), Command ((demoEvent LORIE_DATA_ENABLE)\<lparr>dx_x := 0\<rparr>) None,
      SelectionOwner (demoAtom ''CLIPBOARD'') SelSetOwner 9 1] (dataStart demoOutputs))" by (simp add: demoReading_def dataRun_def)
  show ?thesis unfolding two demo_watched
    by (simp add: dataStep_def lorieDataCommand_def takeFile_def dispatchData_def demoEvent_def dataSwitch_def request_def
        allocateTransfer_def free setTransfer_def transfer_def newWindow_def emitData_def Let_def)
      (simp add: demoData_def demoTransfer_def len dataStart_def)
qed

text \<open>The owner announces an incremental transfer, notifies, and puts the announcement up again.\<close>

definition demoAnnounced :: dataState where
  "demoAnnounced = dataStep demoData demoIncr demoReading"

definition demoStarted :: dataState where
  "demoStarted = dataRun demoData [Send demoNotification, demoIncr] demoAnnounced"

lemma demo_announced:
  "demoAnnounced = demoReading\<lparr>de_props := (\<lambda>_. Map.empty)(101 :=
     [demoAtom ''_MAGICDESK_DATA'' \<mapsto> \<lparr>dp_type = demoAtom ''INCR'', dp_data = Data32 [200000]\<rparr>])\<rparr>"
proof -
  have none: "findIndex (\<lambda>t. tr_used t \<and> tr_incremental t \<and> tr_requestor t = 101 \<and> tr_property t = p) ((de_transfers (dataStart demoOutputs))[0 := u]) = None"
    if "\<not> tr_incremental u" for p u
  proof -
    have "\<forall>t \<in> set ((de_transfers (dataStart demoOutputs))[0 := u]). \<not> tr_incremental t"
      using that by (auto simp: dataStart_def dest!: set_update_subset_insert [THEN subsetD])
    then show ?thesis by (auto simp: findIndex_def find_None_iff)
  qed
  show ?thesis
    by (simp add: demoAnnounced_def demoIncr_def dataStep_def propertyChanged_def demo_reading none demoTransfer_def) (simp add: dataStart_def)
qed

lemma demoStarted_reach: "dataReach demoData demoOutputs demoStarted"
proof -
  have r: "dataReach demoData demoOutputs demoAnnounced"
    unfolding demoAnnounced_def demoReading_def dataRun_def fold.simps comp_def id_def
    by (intro dataReach.start dataReach.step) (simp_all add: restarts_def demoEvent_def demoIncr_def)
  have "\<forall>t \<in> set (de_transfers demoAnnounced). tr_fd t = None"
    by (auto simp: demo_announced demo_reading dataStart_def demoTransfer_def dest!: set_update_subset_insert [THEN subsetD])
  then have "tr_fd (transfer i demoAnnounced) = None" if "findIndex P (de_transfers demoAnnounced) = Some i" for P i
    using findIndex_Some [OF that] by (simp add: transfer_def)
  then have "\<not> restarts demoData (Send demoNotification) demoAnnounced"
    by (simp add: restarts_def demoNotification_def split: option.splits)
  from dataReach.step [OF r this] show ?thesis
    unfolding demoStarted_def dataRun_def fold.simps comp_def id_def by (rule dataReach.step) (simp add: restarts_def demoIncr_def)
qed

lemma demo_length: "length (de_transfers (dataStart demoOutputs)) = MAX_PENDING"
  by (simp add: dataStart_def)

lemma demo_first: "P u \<Longrightarrow> findIndex P ((de_transfers (dataStart demoOutputs))[0 := u]) = Some 0"
  by (rule findIndex_first) (simp_all add: demo_length)

definition demoBegun :: dataState where
  "demoBegun = dataStep demoData (Send demoNotification) demoAnnounced"

lemma demo_begun:
  "de_enabled demoBegun" "de_transfers demoBegun = (de_transfers (dataStart demoOutputs))[0 := demoTransfer\<lparr>tr_incremental := True, tr_fd := Some 0\<rparr>]"
  "de_open demoBegun = {0}" "de_nextFd demoBegun = 1" "de_own demoBegun = [101, 100]" "de_offers demoBegun = de_offers demoReading"
  "\<not> de_movingProperty demoBegun" "de_work demoBegun = []" "de_files demoBegun 0 = []"
  unfolding demoBegun_def demo_announced demo_reading
  by (simp_all add: dataStep_def sendEvent_def demoNotification_def demo_first receive_def startIncremental_def bytesFile_def openFile_def Let_def
      transfer_def setTransfer_def demo_length deleteProperty_def propertyChanged_def windowFor_def emitData_def demoTransfer_def)
    (simp_all add: demoData_def dataStart_def)

lemma demo_started:
  "let t = demoTransfer\<lparr>tr_incremental := True, tr_fd := Some 0\<rparr>
   in de_enabled demoStarted \<and> de_transfers demoStarted = (de_transfers (dataStart demoOutputs))[0 := t\<lparr>tr_queued := True\<rparr>]
     \<and> de_open demoStarted = {0} \<and> de_nextFd demoStarted = 1 \<and> de_own demoStarted = [101, 100] \<and> de_offers demoStarted = de_offers demoReading
     \<and> de_props demoStarted 101 (demoAtom ''_MAGICDESK_DATA'') = Some \<lparr>dp_type = demoAtom ''INCR'', dp_data = Data32 [200000]\<rparr>"
proof -
  have run: "demoStarted = dataStep demoData demoIncr demoBegun" by (simp add: demoStarted_def dataRun_def demoBegun_def)
  show ?thesis unfolding run Let_def
    by (simp add: dataStep_def demoIncr_def propertyChanged_def demo_begun demo_first demoTransfer_def setTransfer_def transfer_def demo_length Let_def)
      (simp add: demoData_def)
qed

section \<open>Theorems\<close>



text \<open>
  C33: A client that notifies twice that its incremental transfer begins makes the server lose a
  descriptor: the file of the first start stays open and belongs to no transfer any more.
\<close>

theorem second_notification_leaks:
  assumes "de_enabled st"
    and "findIndex (\<lambda>t. tr_used t \<and> tr_incoming t \<and> tr_requestor t = w \<and> tr_target t = tg \<and> selection sv (tr_channel t) = sel) (de_transfers st) = Some i"
    and "tr_property (transfer i st) = p" "\<not> tr_targets (transfer i st)" "tr_fd (transfer i st) = Some fd" "fd \<in> de_open st" "fd < de_nextFd st"
    and "\<forall>j < length (de_transfers st). j \<noteq> i \<longrightarrow> tr_fd (transfer j st) \<noteq> Some fd"
    and "windowFor w st" "de_props st w p = Some \<lparr>dp_type = atomIncr sv, dp_data = Data32 [n]\<rparr>" "unat n \<le> LORIE_DATA_MAX_BYTES"
    and "tr_generation (transfer i st) = of_generation (de_offers st (tr_channel (transfer i st)))" "dv_memfdOk sv (de_nextFd st)"
  shows "let st2 = sendEvent sv (SelectionNotifyEvent w sel tg p) st
    in fd \<in> de_open st2 \<and> (\<forall>t \<in> set (de_transfers st2). tr_fd t \<noteq> Some fd)"
proof -
  let ?t = "transfer i st" and ?n = "de_nextFd st"
  have i: "i < length (de_transfers st)" "tr_requestor ?t = w" using findIndex_Some [OF assms(2)] by (auto simp: transfer_def)
  define s where "s = st\<lparr>de_nextFd := ?n + 1, de_open := insert ?n (de_open st), de_files := (de_files st)(?n := [])\<rparr>"
  have b: "bytesFile sv [] st = (Some ?n, s)" using assms(13) by (simp add: bytesFile_def openFile_def Let_def s_def)
  define u where "u = setTransfer i (?t\<lparr>tr_fd := Some ?n, tr_incremental := True\<rparr>) s"
  have "sendEvent sv (SelectionNotifyEvent w sel tg p) st = startIncremental sv i n st"
    using assms i(2) by (simp add: sendEvent_def receive_def Let_def)
  also have "\<dots> = deleteProperty sv w p u" using assms(3,4,11) i(2) by (simp add: startIncremental_def Let_def b u_def)
  finally have st2: "sendEvent sv (SelectionNotifyEvent w sel tg p) st = deleteProperty sv w p u" .
  have "fdv (deleteProperty sv w p u) = fdv u" by simp
  then have v: "de_open (deleteProperty sv w p u) = insert ?n (de_open st)" "map fdPart (de_transfers (deleteProperty sv w p u)) = map fdPart (de_transfers u)"
    by (simp_all add: fdv_def u_def s_def setTransfer_def)
  have "tr_fd t \<noteq> Some fd" if t: "t \<in> set (de_transfers u)" for t
  proof -
    obtain j where "j < length (de_transfers st)" "t = (de_transfers st)[i := ?t\<lparr>tr_fd := Some ?n, tr_incremental := True\<rparr>] ! j"
      using t by (auto simp: u_def s_def setTransfer_def in_set_conv_nth)
    then show ?thesis using assms(7,8) i(1) by (cases "j = i") (auto simp: transfer_def)
  qed
  then have "\<forall>x \<in> set (map fdPart (de_transfers u)). snd x \<noteq> Some fd" by (auto simp: fdPart_def)
  then have "\<forall>t \<in> set (de_transfers (deleteProperty sv w p u)). tr_fd t \<noteq> Some fd"
    unfolding v(2) [symmetric] by (auto simp: fdPart_def)
  then show ?thesis using assms(6) unfolding st2 by (simp add: v(1) Let_def)
qed

theorem second_notification_leaks_witness:
  "dataReach demoData demoOutputs demoStarted \<and>
   (let st2 = sendEvent demoData demoNotification demoStarted in 0 \<in> de_open st2 \<and> (\<forall>t \<in> set (de_transfers st2). tr_fd t \<noteq> Some 0))"
proof
  show "dataReach demoData demoOutputs demoStarted" by (rule demoStarted_reach)
  note s = demo_started [unfolded Let_def]
  note len = demo_length
  have tr: "transfer 0 demoStarted = demoTransfer\<lparr>tr_incremental := True, tr_fd := Some 0, tr_queued := True\<rparr>"
    using s len by (simp add: transfer_def)
  have other: "tr_fd (transfer j demoStarted) = None" if "j < MAX_PENDING" "j \<noteq> 0" for j
    using s that by (simp add: transfer_def dataStart_def)
  show "let st2 = sendEvent demoData demoNotification demoStarted in 0 \<in> de_open st2 \<and> (\<forall>t \<in> set (de_transfers st2). tr_fd t \<noteq> Some 0)"
    unfolding demoNotification_def
  proof (rule second_notification_leaks [where i = 0 and n = 200000])
    show "findIndex (\<lambda>t. tr_used t \<and> tr_incoming t \<and> tr_requestor t = 101 \<and> tr_target t = demoAtom ''text/plain''
       \<and> selection demoData (tr_channel t) = demoAtom ''CLIPBOARD'') (de_transfers demoStarted) = Some 0"
      by (rule findIndex_first) (use s len in \<open>simp_all add: demoTransfer_def\<close>)
  qed (use s len in \<open>simp_all add: tr other demoTransfer_def windowFor_def demo_reading\<close>, simp add: demoData_def)
qed

end
