(* ===== verification/Data_Requests.thy ===== *)
theory Data_Requests
  imports Data_Transfer "HOL-Library.Multiset"
begin

text \<open>
  Requests of clients for a selection of the host (\<open>data_exchange.c\<close>): each is answered exactly
  once, and the deadlines of the transfers see to it that none waits for ever.
\<close>

section \<open>Requests and answers\<close>

type_synonym rqKey = "XID \<times> u32 \<times> nat \<times> xatom"

text \<open>Requests of clients that wait for an answer, and the answers that were sent.\<close>

definition waits :: "rqTransfer \<Rightarrow> bool" where
  "waits p = (case p of (used, incoming, incremental, key, timer) \<Rightarrow> used \<and> \<not> incoming \<and> \<not> incremental)"

definition keyOf :: "rqTransfer \<Rightarrow> rqKey" where
  "keyOf p = (case p of (used, incoming, incremental, key, timer) \<Rightarrow> key)"

definition unanswered :: "dataState \<Rightarrow> rqKey multiset" where
  "unanswered st = mset (map keyOf (filter waits (map rqPart (de_transfers st))))"

definition answerKey :: "dataEffect \<Rightarrow> rqKey option" where
  "answerKey e = (case e of SelNotify r tm c tg p \<Rightarrow> Some (r, tm, c, tg) | _ \<Rightarrow> None)"

definition answers :: "dataEffect list \<Rightarrow> rqKey multiset" where
  "answers es = mset (List.map_filter answerKey es)"

definition inTree :: "XID \<Rightarrow> dataState \<Rightarrow> bool" where
  "inTree i st = list_ex (\<lambda>w. w_id (de_store st w) = i) (pre (de_tree st))"

text \<open>The requestor is a window of a client that still exists.\<close>

definition reachable :: "dataServer \<Rightarrow> dataState \<Rightarrow> rqKey \<Rightarrow> bool" where
  "reachable sv st q = (inTree (fst q) st \<and> dv_client sv (fst q) \<noteq> 0)"

definition balance :: "dataServer \<Rightarrow> dataState \<Rightarrow> rqKey multiset" where
  "balance sv st = filter_mset (reachable sv st) (unanswered st + answers (de_log st))"

text \<open>A transfer in progress has a deadline, as far as the server has timers, and a free slot has none.\<close>

definition slotTimer :: "dataServer \<Rightarrow> rqTransfer \<Rightarrow> bool" where
  "slotTimer sv p = (case p of (used, incoming, incremental, key, timer) \<Rightarrow> timer = (used \<and> dv_timerOk sv))"

lemma slotTimer_simps [simp]:
  "slotTimer sv (used, incoming, incremental, key, timer) \<longleftrightarrow> timer = (used \<and> dv_timerOk sv)"
  "slotTimer sv (rqPart (t\<lparr>tr_used := False, tr_timer := False, tr_fd := None\<rparr>))"
  by (simp_all add: slotTimer_def rqPart_def)

definition timersOk :: "dataServer \<Rightarrow> dataState \<Rightarrow> bool" where
  "timersOk sv st = list_all (slotTimer sv) (map rqPart (de_transfers st))"

text \<open>\<open>settles sv q st st2\<close>: between the states, exactly the requests \<open>q\<close> came in.\<close>

definition settles :: "dataServer \<Rightarrow> rqKey multiset \<Rightarrow> dataState \<Rightarrow> dataState \<Rightarrow> bool" where
  "settles sv q st st2 \<longleftrightarrow> de_tree st2 = de_tree st \<and> de_store st2 = de_store st \<and> length (de_transfers st2) = length (de_transfers st)
     \<and> (timersOk sv st \<longrightarrow> timersOk sv st2) \<and> balance sv st2 = balance sv st + filter_mset (reachable sv st) q"

lemma answers_filter: "answers (filter isAnswer es) = answers es"
proof (induction es)
  case (Cons e es)
  then show ?case by (cases e) (simp_all add: answers_def List.map_filter_def isAnswer_def answerKey_def)
qed simp

lemma balance_rqv:
  assumes "rqv st2 = rqv st"
  shows "balance sv st2 = balance sv st" "timersOk sv st2 = timersOk sv st" "de_tree st2 = de_tree st" "de_store st2 = de_store st"
    "length (de_transfers st2) = length (de_transfers st)"
proof -
  have parts: "map rqPart (de_transfers st2) = map rqPart (de_transfers st)" "filter isAnswer (de_log st2) = filter isAnswer (de_log st)"
    "de_tree st2 = de_tree st" "de_store st2 = de_store st" using assms by (simp_all add: rqv_def)
  show "de_tree st2 = de_tree st" "de_store st2 = de_store st" by fact+
  show "length (de_transfers st2) = length (de_transfers st)" using arg_cong [OF parts(1), of length] by simp
  have "reachable sv st2 = reachable sv st" using parts(3,4) by (auto simp: reachable_def inTree_def)
  moreover have "answers (de_log st2) = answers (de_log st)" using answers_filter parts(2) by metis
  ultimately show "balance sv st2 = balance sv st" by (simp add: balance_def unanswered_def parts(1))
  show "timersOk sv st2 = timersOk sv st" by (simp add: timersOk_def parts(1))
qed

lemma settles_rqv:
  assumes "rqv st2 = rqv st"
  shows "settles sv {#} st st2"
  unfolding settles_def using balance_rqv [OF assms] by simp

lemma settles_refl: "settles sv {#} st st"
  by (rule settles_rqv) simp

lemma settles_trans: "settles sv q st s \<Longrightarrow> settles sv r s st2 \<Longrightarrow> settles sv (q + r) st st2"
proof -
  assume a: "settles sv q st s" "settles sv r s st2"
  then have "reachable sv s = reachable sv st" by (auto simp: settles_def reachable_def inTree_def)
  with a show ?thesis by (simp add: settles_def)
qed

lemma settles_step: "settles sv q st s \<Longrightarrow> settles sv {#} s st2 \<Longrightarrow> settles sv q st st2"
  using settles_trans [of sv q st s "{#}" st2] by simp

lemma settles_rqv_step: "settles sv q st s \<Longrightarrow> rqv st2 = rqv s \<Longrightarrow> settles sv q st st2"
  by (blast intro: settles_step settles_rqv)

lemma settles_rqv_first: "settles sv q s st2 \<Longrightarrow> rqv s = rqv st \<Longrightarrow> settles sv q st st2"
  using settles_trans [OF settles_rqv [of s st sv], of q st2] by simp

text \<open>Replacing a slot, possibly with an answer to its client.\<close>

definition keyMset :: "rqTransfer \<Rightarrow> rqKey multiset" where
  "keyMset p = (if waits p then {#keyOf p#} else {#})"

lemma unanswered_split:
  assumes "i < length (de_transfers st)"
  obtains rest where "unanswered st = keyMset (rqPart (transfer i st)) + rest"
    "\<And>t s. de_transfers s = de_transfers st \<Longrightarrow> unanswered (setTransfer i t s) = keyMset (rqPart t) + rest"
proof -
  define a where "a = take i (de_transfers st)"
  define b where "b = drop (Suc i) (de_transfers st)"
  define rest where "rest = mset (map keyOf (filter waits (map rqPart a))) + mset (map keyOf (filter waits (map rqPart b)))"
  have ts: "de_transfers st = a @ transfer i st # b" using id_take_nth_drop [OF assms] by (simp add: a_def b_def transfer_def)
  have "unanswered st = keyMset (rqPart (transfer i st)) + rest"
    unfolding unanswered_def ts by (simp add: rest_def keyMset_def)
  moreover have "unanswered (setTransfer i t s) = keyMset (rqPart t) + rest" if "de_transfers s = de_transfers st" for t s
  proof -
    have "de_transfers (setTransfer i t s) = a @ t # b" using assms that by (simp add: setTransfer_def upd_conv_take_nth_drop a_def b_def)
    then show ?thesis by (simp add: unanswered_def rest_def keyMset_def)
  qed
  ultimately show ?thesis by (rule that)
qed

lemma timersOk_slot: "timersOk sv st \<Longrightarrow> i < length (de_transfers st) \<Longrightarrow> slotTimer sv (rqPart (transfer i st))"
  by (auto simp: timersOk_def list_all_iff transfer_def)

lemma timersOk_set: "timersOk sv st \<Longrightarrow> slotTimer sv (rqPart t) \<Longrightarrow> timersOk sv (setTransfer i t st)"
  by (auto simp: timersOk_def setTransfer_def list_all_iff dest!: set_update_subset_insert [THEN subsetD])

lemma settles_slot:
  assumes "i < length (de_transfers st)" "slotTimer sv (rqPart (transfer i st)) \<Longrightarrow> slotTimer sv (rqPart t)"
    and "de_transfers s = de_transfers st" "de_tree s = de_tree st" "de_store s = de_store st"
    and "filter_mset (reachable sv st) (answers (de_log s) + keyMset (rqPart t))
       = filter_mset (reachable sv st) (answers (de_log st) + keyMset (rqPart (transfer i st)) + q)"
  shows "settles sv q st (setTransfer i t s)"
proof -
  obtain rest where rest: "unanswered st = keyMset (rqPart (transfer i st)) + rest" "unanswered (setTransfer i t s) = keyMset (rqPart t) + rest"
    using unanswered_split [OF assms(1)] assms(3) by metis
  have r: "reachable sv (setTransfer i t s) = reachable sv st" using assms(4,5) by (auto simp: reachable_def inTree_def setTransfer_def)
  have "balance sv (setTransfer i t s) = filter_mset (reachable sv st) (answers (de_log s) + keyMset (rqPart t)) + filter_mset (reachable sv st) rest"
    unfolding balance_def r rest(2) by (simp add: setTransfer_def)
  also have "\<dots> = balance sv st + filter_mset (reachable sv st) q" unfolding assms(6) by (simp add: balance_def rest(1))
  finally have "balance sv (setTransfer i t s) = balance sv st + filter_mset (reachable sv st) q" .
  moreover have "timersOk sv st \<longrightarrow> timersOk sv (setTransfer i t s)"
  proof
    assume ok: "timersOk sv st"
    then have "timersOk sv s" using assms(3) by (simp add: timersOk_def)
    then show "timersOk sv (setTransfer i t s)" by (rule timersOk_set [OF _ assms(2) [OF timersOk_slot [OF ok assms(1)]]])
  qed
  ultimately show ?thesis using assms(3,4,5) by (simp add: settles_def setTransfer_def)
qed

lemma release_slot:
  assumes "tr_used (transfer i st)"
  obtains s where "release i st = setTransfer i ((transfer i st)\<lparr>tr_used := False, tr_timer := False, tr_fd := None\<rparr>) s"
    "de_transfers s = de_transfers st" "de_tree s = de_tree st" "de_store s = de_store st" "answers (de_log s) = answers (de_log st)"
proof -
  define s where "s = (let st1 = (case tr_fd (transfer i st) of None \<Rightarrow> st | Some fd \<Rightarrow> closeFd fd st)
    in if tr_incoming (transfer i st) \<and> tr_requestor (transfer i st) \<noteq> 0 then freeWindow (tr_requestor (transfer i st)) st1 else st1)"
  have "release i st = setTransfer i ((transfer i st)\<lparr>tr_used := False, tr_timer := False, tr_fd := None\<rparr>) s"
    using assms by (simp add: release_def Let_def s_def)
  moreover have "de_transfers s = de_transfers st" "de_tree s = de_tree st" "de_store s = de_store st"
    by (simp_all add: s_def Let_def closeFd_def freeWindow_def emitData_def split: option.splits)
  moreover have "answers (de_log s) = answers (de_log st)"
    by (simp add: s_def Let_def closeFd_def freeWindow_def emitData_def answers_def List.map_filter_def answerKey_def split: option.splits)
  ultimately show ?thesis by (rule that)
qed

lemma settles_release:
  assumes "i < length (de_transfers st)" "waits (rqPart (transfer i st)) \<Longrightarrow> \<not> reachable sv st (keyOf (rqPart (transfer i st)))"
  shows "settles sv {#} st (release i st)"
proof (cases "tr_used (transfer i st)")
  case True
  let ?t = "(transfer i st)\<lparr>tr_used := False, tr_timer := False, tr_fd := None\<rparr>"
  obtain s where s: "release i st = setTransfer i ?t s" "de_transfers s = de_transfers st" "de_tree s = de_tree st" "de_store s = de_store st"
    "answers (de_log s) = answers (de_log st)" by (rule release_slot [OF True])
  have "keyMset (rqPart ?t) = {#}" by (simp add: keyMset_def waits_def rqPart_def)
  moreover have "filter_mset (reachable sv st) (keyMset (rqPart (transfer i st))) = {#}" using assms(2) by (simp add: keyMset_def)
  ultimately show ?thesis unfolding s(1) by (intro settles_slot [OF assms(1) _ s(2,3,4)]) (simp_all add: s(5))
next
  case False
  then show ?thesis by (simp add: release_def settles_refl)
qed

lemma notify_frame:
  "de_transfers (notify sv t ok st) = de_transfers st" "de_tree (notify sv t ok st) = de_tree st" "de_store (notify sv t ok st) = de_store st"
  by (simp_all add: notify_def emitData_def)

lemma notify_answers:
  "filter_mset (reachable sv st) (answers (de_log (notify sv t ok st)))
     = filter_mset (reachable sv st) (answers (de_log st) + {#keyOf (rqPart t)#})"
  by (auto simp: notify_def emitData_def answers_def List.map_filter_def answerKey_def keyOf_def rqPart_def reachable_def windowFor_def inTree_def)

lemma settles_slot_notify:
  assumes "i < length (de_transfers st)" "waits (rqPart (transfer i st))" "\<not> waits (rqPart t)" "slotTimer sv (rqPart (transfer i st)) \<Longrightarrow> slotTimer sv (rqPart t)"
    and "keyOf (rqPart u) = keyOf (rqPart (transfer i st))" "rqv s = rqv (setTransfer i t st)"
  shows "settles sv {#} st (notify sv u ok s)"
proof -
  define v where "v = setTransfer i t st"
  obtain rest where rest: "unanswered st = keyMset (rqPart (transfer i st)) + rest" "unanswered v = keyMset (rqPart t) + rest"
    using unanswered_split [OF assms(1)] unfolding v_def by metis
  note bal = balance_rqv [OF assms(6) [folded v_def]]
  have r: "reachable sv v = reachable sv st" "reachable sv s = reachable sv st" "reachable sv (notify sv u ok s) = reachable sv st"
    using bal(3,4) by (auto simp: reachable_def inTree_def v_def setTransfer_def notify_frame)
  have "unanswered (notify sv u ok s) = unanswered s" by (simp add: unanswered_def notify_frame)
  then have "balance sv (notify sv u ok s) = filter_mset (reachable sv st) (unanswered s) + filter_mset (reachable sv st) (answers (de_log (notify sv u ok s)))"
    by (simp add: balance_def r)
  also have "\<dots> = balance sv s + filter_mset (reachable sv st) {#keyOf (rqPart u)#}"
    using notify_answers [of sv s u ok] unfolding r by (simp add: balance_def r)
  also have "\<dots> = balance sv v + filter_mset (reachable sv st) (keyMset (rqPart (transfer i st)))"
    using assms(2,5) by (simp add: bal(1) keyMset_def)
  also have "\<dots> = balance sv st" using assms(3) rest unfolding balance_def r by (simp add: keyMset_def v_def setTransfer_def)
  finally have "balance sv (notify sv u ok s) = balance sv st" .
  moreover have "timersOk sv st \<longrightarrow> timersOk sv (notify sv u ok s)"
    using timersOk_set [OF _ assms(4) [OF timersOk_slot [OF _ assms(1)]], of st i] bal(2) by (simp add: timersOk_def notify_frame v_def)
  ultimately show ?thesis using bal(3,4,5) by (simp add: settles_def notify_frame v_def setTransfer_def)
qed

lemma notify_release:
  assumes "i < length (de_transfers st)" "waits (rqPart (transfer i st))" "keyOf (rqPart u) = keyOf (rqPart (transfer i st))"
  shows "settles sv {#} st (release i (notify sv u ok st))"
proof -
  have tr: "transfer i (notify sv u ok st) = transfer i st" by (simp add: transfer_def notify_frame)
  have used: "tr_used (transfer i (notify sv u ok st))" using assms(2) tr by (simp add: waits_def rqPart_def)
  obtain s where s: "release i (notify sv u ok st) = setTransfer i ((transfer i st)\<lparr>tr_used := False, tr_timer := False, tr_fd := None\<rparr>) s"
    "de_transfers s = de_transfers (notify sv u ok st)" "de_tree s = de_tree (notify sv u ok st)" "de_store s = de_store (notify sv u ok st)"
    "answers (de_log s) = answers (de_log (notify sv u ok st))" by (rule release_slot [OF used, unfolded tr])
  show ?thesis unfolding s(1)
  proof (rule settles_slot [OF assms(1)])
    show "filter_mset (reachable sv st) (answers (de_log s) + keyMset (rqPart ((transfer i st)\<lparr>tr_used := False, tr_timer := False, tr_fd := None\<rparr>)))
      = filter_mset (reachable sv st) (answers (de_log st) + keyMset (rqPart (transfer i st)) + {#})"
      using assms(2,3) notify_answers [of sv st u ok] by (simp add: s(5) keyMset_def) (simp add: waits_def rqPart_def)
  qed (simp_all add: s notify_frame)
qed

lemma same_part:
  assumes "rqv s = rqv st" "i < length (de_transfers st)"
  shows "rqPart (transfer i s) = rqPart (transfer i st)" "i < length (de_transfers s)"
proof -
  have m: "map rqPart (de_transfers s) = map rqPart (de_transfers st)" using assms(1) by (simp add: rqv_def)
  then show l: "i < length (de_transfers s)" using assms(2) by (metis length_map)
  show "rqPart (transfer i s) = rqPart (transfer i st)" using arg_cong [OF m, of "\<lambda>l. l ! i"] l assms(2) by (simp add: transfer_def)
qed

lemma settles_fail:
  assumes "i < length (de_transfers st)" "tr_used (transfer i st)"
  shows "settles sv {#} st (failTransfer sv i st)"
proof -
  let ?t = "transfer i st"
  have quiet: "settles sv {#} st (selectionFinished sv ?t False (release i s))" if "rqv s = rqv st" "\<not> waits (rqPart ?t)" for s
  proof -
    have "settles sv {#} s (release i s)" by (rule settles_release) (use same_part [OF that(1) assms(1)] that(2) in auto)
    then show ?thesis using settles_rqv_first [OF _ that(1)] settles_rqv_step by (metis views_selectionFinished(2))
  qed
  have loud: "settles sv {#} st (selectionFinished sv ?t False (release i (notify sv ?t False st)))" if "waits (rqPart ?t)"
    using settles_rqv_step [OF notify_release [OF assms(1) that refl]] by simp
  have w: "waits (rqPart ?t) = (\<not> tr_incoming ?t \<and> \<not> tr_incremental ?t)" using assms(2) by (simp add: waits_def rqPart_def)
  show ?thesis using quiet loud w by (simp add: failTransfer_def Let_def)
qed

lemma rqv_allocate_none: "allocateTransfer sv inc c s g st = (None, st2) \<Longrightarrow> st2 = st"
  by (auto simp: allocateTransfer_def Let_def split: option.splits)

text \<open>A new slot, filled in at once: it waits for an answer if it is outgoing.\<close>

lemma settles_new_slot:
  assumes "allocateTransfer sv inc c s g st = (Some i, st2)" "rqv st3 = rqv st2" "de_transfers st3 = de_transfers st2"
    and "tr_used t" "rqPart t = (True, inc, False, key, dv_timerOk sv)"
  shows "settles sv (if inc then {#} else {#key#}) st (setTransfer i t st3)" "i < length (de_transfers st3)"
proof -
  obtain u where u: "findIndex (\<lambda>t. \<not> tr_used t) (de_transfers st) = Some i" "st2 = setTransfer i u (st\<lparr>de_transferSequence := de_transferSequence st + 1\<rparr>)"
    using assms(1) by (auto simp: allocateTransfer_def Let_def split: option.splits)
  note i = findIndex_Some [OF u(1)]
  show "i < length (de_transfers st3)" using i u(2) assms(3) by simp
  define w where "w = st3\<lparr>de_transfers := de_transfers st\<rparr>"
  have eq: "setTransfer i t st3 = setTransfer i t w"
    using assms(3) by (simp add: w_def setTransfer_def u(2))
  have fr: "de_tree st3 = de_tree st" "de_store st3 = de_store st" "filter isAnswer (de_log st3) = filter isAnswer (de_log st)"
    using assms(2) u(2) by (simp_all add: rqv_def setTransfer_def)
  have "answers (de_log st3) = answers (de_log st)" using answers_filter fr(3) by metis
  moreover have "keyMset (rqPart (transfer i st)) = {#}" using i by (simp add: keyMset_def waits_def rqPart_def transfer_def)
  moreover have "keyMset (rqPart t) = (if inc then {#} else {#key#})" by (simp add: assms(5) keyMset_def waits_def keyOf_def)
  ultimately show "settles sv (if inc then {#} else {#key#}) st (setTransfer i t st3)" unfolding eq
    by (intro settles_slot) (use i fr assms(4,5) in \<open>simp_all add: w_def\<close>)
qed

lemma settles_used_slot:
  assumes "settles sv q st s" "i < length (de_transfers st)" "tr_used (transfer i s)"
  shows "settles sv q st (failTransfer sv i s)"
  by (rule settles_step [OF assms(1) settles_fail]) (use assms in \<open>simp_all add: settles_def\<close>)

lemma settles_request: "settles sv {#} st (request sv c serial g tg l st)"
proof -
  obtain r s where a: "allocateTransfer sv True c serial g st = (r, s)" by fastforce
  obtain w u where n: "newWindow sv s = (w, u)" by fastforce
  then have u: "u = snd (newWindow sv s)" by simp
  have new: "settles sv {#} st (setTransfer i t u)" "i < length (de_transfers u)"
    if "r = Some i" "t = (transfer i u)\<lparr>tr_target := tg, tr_targets := l, tr_property := atomData sv, tr_requestor := w\<rparr>" for i t
  proof -
    have tr: "de_transfers u = de_transfers s" "rqv u = rqv s" using u by simp_all
    have k: "tr_used (transfer i s)" "tr_incoming (transfer i s)" "\<not> tr_incremental (transfer i s)" "tr_timer (transfer i s) = dv_timerOk sv"
      using a that(1) findIndex_Some [of "\<lambda>t. \<not> tr_used t" "de_transfers st"]
      by (auto simp: allocateTransfer_def Let_def setTransfer_def transfer_def split: option.splits)
    have ts: "transfer i u = transfer i s" using tr by (simp add: transfer_def)
    have "settles sv (if True then {#} else {#(w, tr_time t, tr_channel t, tg)#}) st (setTransfer i t u)"
      by (rule settles_new_slot(1) [OF a [unfolded that(1)] tr(2,1)]) (use k that(2) ts in \<open>simp_all add: rqPart_def\<close>)
    then show "settles sv {#} st (setTransfer i t u)" by simp
    show "i < length (de_transfers u)"
      by (rule settles_new_slot(2) [OF a [unfolded that(1)] tr(2,1), where t = t and key = "(w, tr_time t, tr_channel t, tg)"])
        (use k that(2) ts in \<open>simp_all add: rqPart_def\<close>)
  qed
  have used: "tr_used (transfer i u)" if "r = Some i" for i
    using a that u findIndex_Some [of "\<lambda>t. \<not> tr_used t" "de_transfers st"]
    by (auto simp: allocateTransfer_def Let_def setTransfer_def transfer_def split: option.splits)
  have bad: "settles sv {#} st (failTransfer sv i (setTransfer i ((transfer i u)\<lparr>tr_target := tg, tr_targets := l, tr_property := atomData sv, tr_requestor := w\<rparr>) u))"
    if "r = Some i" for i
    by (rule settles_used_slot [OF new(1) [OF that refl]])
      (use new(2) [OF that refl] used [OF that] new(1) [OF that refl] in \<open>simp_all add: settles_def\<close>)
  show ?thesis using new(1) [OF _ refl] bad settles_refl [of sv st] settles_rqv [of _ st sv] settles_rqv_step rqv_allocate_none [of sv True c serial g st]
    by (auto simp: request_def Let_def a n isAnswer_def split: option.splits)
qed

lemma settles_same_slot:
  assumes "settles sv q st s" "rqPart t = rqPart (transfer i s)"
  shows "settles sv q st (setTransfer i t s)"
  by (rule settles_rqv_step [OF assms(1) rqv_setTransfer [OF assms(2)]])

lemma settles_quiet_slot:
  assumes "i < length (de_transfers st)" "\<not> waits (rqPart (transfer i st))" "\<not> waits (rqPart t)"
    and "slotTimer sv (rqPart (transfer i st)) \<Longrightarrow> slotTimer sv (rqPart t)"
  shows "settles sv {#} st (setTransfer i t st)"
  by (rule settles_slot [OF assms(1,4)]) (use assms(2,3) in \<open>simp_all add: keyMset_def\<close>)

lemma incoming_waits: "tr_incoming t \<Longrightarrow> \<not> waits (rqPart t)"
  by (simp add: waits_def rqPart_def)

lemma transfer_emit [simp]: "transfer i (emit a b c d e f g h k st) = transfer i st"
  by (simp add: emit_def emitData_def transfer_def)

text \<open>An operation on one slot that keeps its request, then gives the slot up.\<close>

lemma settles_release_after:
  assumes "settles sv q st s" "i < length (de_transfers st)" "\<not> waits (rqPart (transfer i s))"
  shows "settles sv q st (release i s)"
  by (rule settles_step [OF assms(1) settles_release]) (use assms in \<open>simp_all add: settles_def\<close>)

lemma settles_receiveTargets:
  assumes "i < length (de_transfers st)" "tr_used (transfer i st)" "tr_incoming (transfer i st)"
  shows "settles sv {#} st (receiveTargets sv i v st)"
proof -
  let ?c = "tr_channel (transfer i st)"
  have pub: "rqv (publishTargets sv c s) = rqv s" for c s
    by (simp add: publishTargets_def Let_def split_beta split: option.splits)
  have r: "settles sv {#} st (release i (publishTargets sv ?c (st\<lparr>de_offers := x\<rparr>)))" for x
  proof -
    let ?s = "publishTargets sv ?c (st\<lparr>de_offers := x\<rparr>)"
    have eq: "rqv ?s = rqv st" by (simp add: pub)
    show ?thesis
      by (rule settles_release_after [OF settles_rqv [OF eq] assms(1)])
        (use same_part(1) [OF eq assms(1)] incoming_waits [OF assms(3)] in simp)
  qed
  show ?thesis using settles_fail [OF assms(1,2)] r by (simp add: receiveTargets_def Let_def split: propData.splits)
qed

lemma settles_startIncremental:
  assumes "i < length (de_transfers st)" "tr_used (transfer i st)" "tr_incoming (transfer i st)"
  shows "settles sv {#} st (startIncremental sv i n st)"
proof -
  let ?t = "transfer i st"
  obtain fd s where f: "bytesFile sv [] st = (fd, s)" by fastforce
  then have "s = snd (bytesFile sv [] st)" by simp
  then have eq: "rqv s = rqv st" by simp
  have tr: "de_transfers s = de_transfers st" by (rule bytesFile_transfers [OF f])
  then have ts: "transfer i s = ?t" by (simp add: transfer_def)
  have bad: "settles sv {#} st (failTransfer sv i (setTransfer i (?t\<lparr>tr_fd := fd\<rparr>) s))"
    by (rule settles_used_slot [OF settles_same_slot [OF settles_rqv [OF eq]] assms(1)])
      (use assms(1,2) tr ts in \<open>simp_all add: rqPart_def\<close>)
  have good: "settles sv {#} st (setTransfer i (?t\<lparr>tr_fd := fd, tr_incremental := True\<rparr>) s)"
    by (rule settles_step [OF settles_rqv [OF eq] settles_quiet_slot])
      (use assms tr ts in \<open>simp_all add: waits_def rqPart_def\<close>)
  show ?thesis using settles_fail [OF assms(1,2)] bad settles_rqv_step [OF good]
    by (auto simp: startIncremental_def Let_def f)
qed

lemma settles_receiveBytes:
  assumes "i < length (de_transfers st)" "tr_used (transfer i st)" "tr_incoming (transfer i st)"
  shows "settles sv {#} st (receiveBytes sv i bs st)"
proof -
  let ?t = "transfer i st"
  obtain fd s where f: "(case tr_fd ?t of Some fd \<Rightarrow> (Some fd, st) | None \<Rightarrow> bytesFile sv [] st) = (fd, s)" by fastforce
  have "s = st \<or> s = snd (bytesFile sv [] st)" using f by (auto split: option.splits)
  then have eq: "rqv s = rqv st" by auto
  have tr: "de_transfers s = de_transfers st" using f bytesFile_transfers [of sv "[]" st] by (auto split: option.splits)
  then have ts: "transfer i s = ?t" by (simp add: transfer_def)
  have a: "settles sv {#} st (setTransfer i t s)" if "rqPart t = rqPart ?t" for t
    by (rule settles_same_slot [OF settles_rqv [OF eq]]) (use that ts in simp)
  have b: "settles sv {#} st (setTransfer i t (s\<lparr>de_files := g\<rparr>))" if "rqPart t = rqPart ?t" for t g
    by (rule settles_same_slot [OF settles_rqv]) (use that ts eq in \<open>simp_all add: transfer_def\<close>)
  have bad: "settles sv {#} st (failTransfer sv i (setTransfer i (?t\<lparr>tr_fd := fd\<rparr>) s))"
    by (rule settles_used_slot [OF a assms(1)]) (use assms(1,2) tr in \<open>simp_all add: rqPart_def\<close>)
  have rel: "settles sv {#} st (release i (emit o1 c1 s1 g1 m1 f1 o2 w1 x1 v))" if "settles sv {#} st v" "tr_incoming (transfer i v)" for v o1 c1 s1 g1 m1 f1 o2 w1 x1
    by (rule settles_release_after [OF settles_rqv_step [OF that(1)] assms(1)])
      (use that(2) in \<open>simp_all add: incoming_waits\<close>)
  have up: "setTransfer i t ((setTransfer i u s)\<lparr>de_files := g\<rparr>) = setTransfer i t (s\<lparr>de_files := g\<rparr>)" for t u g by (simp add: setTransfer_def)
  have inc: "tr_incoming (transfer i (setTransfer i t s))" "tr_incoming (transfer i (setTransfer i t (s\<lparr>de_files := g\<rparr>)))" if "tr_incoming t" for t g
    using that assms(1) tr by (simp_all add: transfer_def setTransfer_def)
  have fl: "de_files (setTransfer i u s) = de_files s" for u by (simp add: setTransfer_def)
  define t1 where "t1 = ?t\<lparr>tr_fd := fd, tr_size := tr_size ?t + length bs\<rparr>"
  have p1: "rqPart t1 = rqPart ?t" "tr_incoming t1" using assms(3) by (simp_all add: t1_def rqPart_def)
  define v where "v = (if bs = [] then setTransfer i t1 s
      else setTransfer i t1 (s\<lparr>de_files := (de_files s)(the fd := writeAt bs (tr_size ?t) (de_files s (the fd)))\<rparr>))"
  have v: "settles sv {#} st v" "tr_incoming (transfer i v)" using a [OF p1(1)] b [OF p1(1)] inc [OF p1(2)] by (simp_all add: v_def)
  have "receiveBytes sv i bs st = (if length bs > LORIE_DATA_MAX_BYTES - tr_size ?t then failTransfer sv i st
      else if fd = None \<or> bs \<noteq> [] \<and> \<not> dv_writeOk sv (the fd) (tr_size ?t) then failTransfer sv i (setTransfer i (?t\<lparr>tr_fd := fd\<rparr>) s)
      else if \<not> tr_incremental ?t \<or> bs = []
           then release i (emit LORIE_DATA_REPLY (tr_channel ?t) (tr_serial ?t) (tr_generation ?t) (dv_name sv (tr_target ?t)) fd 0 0 1 v)
           else deleteProperty sv (tr_requestor ?t) (tr_property ?t) v)"
    using fl by (cases fd) (simp_all add: receiveBytes_def Let_def f v_def t1_def up)
  then show ?thesis using settles_fail [OF assms(1,2), of sv] bad rel [OF v] settles_rqv_step [OF v(1)] by simp
qed

lemma settles_receive:
  assumes "i < length (de_transfers st)" "tr_used (transfer i st)" "tr_incoming (transfer i st)"
  shows "settles sv {#} st (receive sv i initial st)"
  using settles_fail [OF assms(1,2)] settles_receiveTargets [OF assms] settles_receiveBytes [OF assms] settles_startIncremental [OF assms] settles_refl
  by (simp add: receive_def Let_def split: option.splits propData.splits list.splits)

text \<open>
  Sending a chunk keeps a request that is answered already; otherwise the slot is still waiting
  afterwards, or was given up with an answer.
\<close>

lemma settles_sendChunk:
  assumes "i < length (de_transfers st)" "tr_used (transfer i st)" "sendChunk sv i st = (rc, st2)"
    and "waits (rqPart (transfer i st)) \<Longrightarrow> windowFor (tr_requestor (transfer i st)) st"
  shows "settles sv {#} st st2"
    and "\<not> tr_incremental (transfer i st) \<Longrightarrow> windowFor (tr_requestor (transfer i st)) st \<Longrightarrow> tr_used (transfer i st2) \<Longrightarrow> rqv st2 = rqv st"
proof -
  let ?t = "transfer i st" and ?n = "chunkLength (tr_size (transfer i st)) (tr_offset (transfer i st))"
  let ?b = "if ?n = 0 then Some [] else Option.bind (tr_fd ?t) (\<lambda>fd. readFile sv fd (tr_offset ?t) ?n st)"
  define s where "s bs = (snd (changeProperty sv (tr_requestor ?t) (tr_property ?t) (tr_target ?t) (Data8 bs)
      ((setTransfer i (?t\<lparr>tr_offset := tr_offset ?t + ?n\<rparr>) st)\<lparr>de_movingProperty := True\<rparr>)))\<lparr>de_movingProperty := False\<rparr>" for bs
  have eq: "rqv (s bs) = rqv st" for bs by (simp add: s_def rqv_setTransfer rqPart_def)
  have part: "rqPart (transfer i (s bs)) = rqPart ?t" for bs by (rule same_part(1) [OF eq assms(1)])
  have def1: "sendChunk sv i st = (if \<not> windowFor (tr_requestor ?t) st then (False, selectionFinished sv ?t False (release i st))
      else case ?b of None \<Rightarrow> (False, failTransfer sv i st)
        | Some bs \<Rightarrow> let ok = fst (changeProperty sv (tr_requestor ?t) (tr_property ?t) (tr_target ?t) (Data8 bs)
                           ((setTransfer i (?t\<lparr>tr_offset := tr_offset ?t + ?n\<rparr>) st)\<lparr>de_movingProperty := True\<rparr>))
           in (ok, if tr_incremental ?t \<and> (\<not> ok \<or> ?n = 0) then selectionFinished sv ?t ok (release i (s bs)) else s bs))"
    by (simp add: sendChunk_def Let_def s_def split_beta split: option.splits)
  have gone: "settles sv {#} st (selectionFinished sv ?t x (release i st))" if "\<not> windowFor (tr_requestor ?t) st" for x
    by (rule settles_rqv_step [OF settles_release [OF assms(1)]]) (use assms(4) that in simp_all)
  have over: "settles sv {#} st (selectionFinished sv ?t x (release i (s bs)))" if "tr_incremental ?t" for x bs
    by (rule settles_rqv_step [OF settles_release_after [OF settles_rqv [OF eq] assms(1)]])
      (use that part in \<open>simp_all add: waits_def rqPart_def\<close>)
  show "settles sv {#} st st2" using assms(3) unfolding def1
    using gone over settles_fail [OF assms(1,2), of sv] settles_rqv [OF eq] by (auto simp: Let_def split: if_splits option.splits)
  assume c: "\<not> tr_incremental ?t" "windowFor (tr_requestor ?t) st" "tr_used (transfer i st2)"
  have "\<not> tr_used (transfer i (failTransfer sv i st))"
  proof -
    have q: "\<not> tr_used (transfer i (selectionFinished sv ?t False (release i v)))" if "i < length (de_transfers v)" for v
    proof -
      have "rqPart (transfer i (selectionFinished sv ?t False (release i v))) = rqPart (transfer i (release i v))"
        by (rule same_part(1)) (use that release_other(2) [of i v] in simp_all)
      then show ?thesis using release_unused [OF that] by (simp add: rqPart_def)
    qed
    have "de_transfers (emit o1 c1 s1 g1 m1 f1 o2 w1 x1 st) = de_transfers st" for o1 c1 s1 g1 m1 f1 o2 w1 x1 by (simp add: emit_def emitData_def)
    then show ?thesis using q c(1) assms(1) by (simp add: failTransfer_def Let_def notify_frame)
  qed
  then show "rqv st2 = rqv st" using assms(3) c eq unfolding def1 by (auto simp: Let_def split: if_splits option.splits)
qed

lemma settles_deliverReply:
  assumes "i < length (de_transfers st)" "waits (rqPart (transfer i st))" "transfer i st = t"
  shows "settles sv {#} st (deliverReply sv i t st)"
proof -
  have used: "tr_used t" "\<not> tr_incremental t" using assms(2,3) by (simp_all add: waits_def rqPart_def)
  have gone: "settles sv {#} st (release i st)" if "\<not> windowFor (tr_requestor t) st"
    by (rule settles_release [OF assms(1)])
      (use that assms(3) in \<open>simp add: reachable_def keyOf_def rqPart_def windowFor_def inTree_def\<close>)
  define v where "v = setTransfer i (t\<lparr>tr_incremental := True\<rparr>) st"
  obtain rc w where w: "changeProperty sv (tr_requestor t) (tr_property t) (atomIncr sv) (Data32 [of_nat (tr_size t)]) v = (rc, w)" by fastforce
  then have "w = snd (changeProperty sv (tr_requestor t) (tr_property t) (atomIncr sv) (Data32 [of_nat (tr_size t)]) v)" by simp
  then have wv: "rqv w = rqv v" by simp
  have part: "rqPart (transfer i w) = rqPart (t\<lparr>tr_incremental := True\<rparr>)"
    using same_part(1) [OF wv, of i] assms(1) by (simp add: v_def)
  have timer: "slotTimer sv (rqPart (transfer i st)) \<Longrightarrow> slotTimer sv (rqPart (t\<lparr>tr_incremental := True\<rparr>))"
    using assms(3) by (simp add: slotTimer_def rqPart_def)
  have told: "settles sv {#} st (notify sv (transfer i w) ok w)" for ok
    by (rule settles_slot_notify [OF assms(1,2) _ timer _ wv [unfolded v_def]])
      (use part assms(3) in \<open>simp_all add: waits_def rqPart_def keyOf_def\<close>)
  have over: "settles sv {#} st (release i (notify sv (transfer i w) ok w))" for ok
  proof (rule settles_release_after [OF told assms(1)])
    have "transfer i (notify sv (transfer i w) ok w) = transfer i w" by (simp add: transfer_def notify_frame)
    then show "\<not> waits (rqPart (transfer i (notify sv (transfer i w) ok w)))" using part by (simp add: waits_def rqPart_def)
  qed
  obtain ok u where u: "sendChunk sv i st = (ok, u)" by fastforce
  have sent: "settles sv {#} st (selectionFinished sv t ok (release i (if tr_used (transfer i u) then notify sv (transfer i u) ok u else u)))"
    if win: "windowFor (tr_requestor t) st"
  proof (cases "tr_used (transfer i u)")
    case True
    have eq: "rqv u = rqv st"
      by (rule settles_sendChunk(2) [OF assms(1) _ u]) (use used win assms(3) True in simp_all)
    have p: "rqPart (transfer i u) = rqPart (transfer i st)" "i < length (de_transfers u)" using same_part [OF eq assms(1)] by auto
    have "settles sv {#} u (release i (notify sv (transfer i u) ok u))" by (rule notify_release [OF p(2)]) (use assms(2) p(1) in simp_all)
    then show ?thesis using settles_rqv_step [OF settles_rqv_first [OF _ eq]] True by simp
  next
    case False
    have "settles sv {#} st u" by (rule settles_sendChunk(1) [OF assms(1) _ u]) (use used win assms(3) in simp_all)
    then show ?thesis using False settles_rqv_step by (simp add: release_def)
  qed
  show ?thesis using gone told over sent by (simp add: deliverReply_def Let_def w u flip: v_def)
qed

lemma settles_replyTo:
  assumes "i < length (de_transfers st)" "waits (rqPart (transfer i st))"
  shows "settles sv {#} st (snd (replyTo sv i fd a b st))"
proof -
  have used: "tr_used (transfer i st)" using assms(2) by (simp add: waits_def rqPart_def)
  have "settles sv {#} st (deliverReply sv i t (setTransfer i t st))" if "rqPart t = rqPart (transfer i st)" for t
    by (rule settles_step [OF settles_same_slot [OF settles_refl that] settles_deliverReply]) (use assms that in simp_all)
  then show ?thesis using settles_fail [OF assms(1) used] by (simp add: replyTo_def Let_def rqPart_def split: option.splits)
qed

lemma settles_propertyWork: "settles sv {#} st (propertyWork sv w st)"
proof -
  obtain i ticket where w: "w = (i, ticket)" by fastforce
  define s where "s = setTransfer i ((transfer i st)\<lparr>tr_queued := False\<rparr>) st"
  have s: "rqv s = rqv st" by (simp add: s_def rqv_setTransfer rqPart_def)
  show ?thesis
  proof (cases "i < length (de_transfers st) \<and> de_enabled st \<and> tr_used (transfer i st) \<and> tr_ticket (transfer i st) = ticket")
    case True
    have i: "i < length (de_transfers s)" "tr_used (transfer i s)" "tr_incoming (transfer i s) = tr_incoming (transfer i st)"
      using True by (simp_all add: s_def)
    show ?thesis
    proof (cases "tr_incoming (transfer i st)")
      case inc: True
      then show ?thesis using True settles_rqv_first [OF settles_receive [OF i(1,2)] s] i(3) by (simp add: propertyWork_def Let_def w flip: s_def)
    next
      case out: False
      obtain rc u where u: "sendChunk sv i s = (rc, u)" by fastforce
      have "settles sv {#} s u" if "waits (rqPart (transfer i s)) \<Longrightarrow> windowFor (tr_requestor (transfer i s)) s"
        by (rule settles_sendChunk(1) [OF i(1,2) u that])
      moreover have "settles sv {#} s u" if "\<not> windowFor (tr_requestor (transfer i s)) s"
      proof -
        have "u = selectionFinished sv (transfer i s) False (release i s)" using u that by (simp add: sendChunk_def Let_def)
        moreover have "settles sv {#} s (release i s)"
          by (rule settles_release [OF i(1)]) (use that in \<open>simp add: reachable_def keyOf_def rqPart_def windowFor_def inTree_def\<close>)
        ultimately show ?thesis using settles_rqv_step by simp
      qed
      ultimately have "settles sv {#} s u" by blast
      then show ?thesis using True out settles_rqv_first [OF _ s] u by (simp add: propertyWork_def Let_def w flip: s_def)
    qed
  next
    case False
    then show ?thesis by (auto simp: propertyWork_def Let_def w settles_refl)
  qed
qed

lemma settles_failChannel: "\<forall>i \<in> set is. i < length (de_transfers st) \<Longrightarrow> settles sv {#} st (failChannel sv c is st)"
proof (induction "is" arbitrary: st)
  case (Cons i "is")
  define s where "s = (if tr_used (transfer i st) \<and> tr_channel (transfer i st) = c then failTransfer sv i st else st)"
  have s: "settles sv {#} st s" using Cons.prems settles_fail settles_refl by (simp add: s_def)
  then have "settles sv {#} s (failChannel sv c is s)" using Cons by (simp add: settles_def)
  then show ?case using settles_step [OF s] by (simp flip: s_def)
qed (simp add: settles_refl)

lemma settles_selectionChanged:
  assumes "length (de_transfers st) = MAX_PENDING"
  shows "settles sv {#} st (selectionChanged sv a k w st)"
proof (cases "de_enabled st \<and> channelOf sv a \<noteq> None \<and> w \<noteq> de_bridge st")
  case True
  obtain c where c: "channelOf sv a = Some c" using True by auto
  define s where "s = (if c = 1 \<and> de_exportedSource st \<noteq> 0 \<and> w \<noteq> de_exportedSource st then endExport sv st else st)"
  have s: "rqv s = rqv st" by (simp add: s_def)
  define u where "u = failChannel sv c [0..<MAX_PENDING] s"
  have len: "length (de_transfers s) = MAX_PENDING" using balance_rqv(5) [OF s] assms by (simp only:)
  have "settles sv {#} s u" unfolding u_def by (rule settles_failChannel) (simp add: len)
  then have u: "settles sv {#} st u" by (rule settles_rqv_first [OF _ s])
  define v where "v = u\<lparr>de_sequence := de_sequence u + 1, de_offers := (de_offers u)(c := \<lparr>of_generation = de_sequence u + 1, of_owner = w, of_time = de_now u, of_targets = [], of_local = False\<rparr>)\<rparr>"
  have v: "settles sv {#} st v" by (rule settles_rqv_step [OF u]) (simp add: v_def)
  show ?thesis using True v settles_step [OF v settles_request] settles_rqv_step [OF v]
    unfolding selectionChanged_def c option.case Let_def s_def [symmetric] unfolding u_def [symmetric] unfolding v_def [symmetric] by simp
qed (auto simp: selectionChanged_def settles_refl split: option.splits)

lemma settles_own:
  assumes "length (de_transfers st) = MAX_PENDING"
  shows "settles sv {#} st (snd (own sv c st))"
proof -
  define s where "s = (case de_sel st c of None \<Rightarrow> st
                     | Some s \<Rightarrow> (case ds_client s of None \<Rightarrow> st
                         | Some n \<Rightarrow> if n \<noteq> 0 \<and> ds_window s \<noteq> 0 then emitData (SelClear (ds_window s) c) st else st))"
  have eq: "rqv s = rqv st" by (simp add: s_def isAnswer_def split: option.splits)
  have "settles sv {#} st (selectionChanged sv a k w (s\<lparr>de_sel := x\<rparr>))" for a k w x
  proof (rule settles_rqv_first [OF settles_selectionChanged])
    show "length (de_transfers (s\<lparr>de_sel := x\<rparr>)) = MAX_PENDING" using balance_rqv(5) [OF eq] assms by simp
  qed (simp add: eq)
  then show ?thesis using settles_refl unfolding own_def Let_def s_def [symmetric] by simp
qed

lemma settles_outgoing:
  assumes "outgoingTransfer sv c r st = (k, st2)"
  shows "settles sv {#(cr_requestor r, cr_time r, c, cr_target r)#} st st2"
    and "k = Some i \<Longrightarrow> i < length (de_transfers st2) \<and> tr_used (transfer i st2) \<and> \<not> tr_incoming (transfer i st2)
      \<and> \<not> tr_incremental (transfer i st2) \<and> i < length (de_transfers st)"
proof -
  let ?q = "(cr_requestor r, cr_time r, c, cr_target r)"
  define st0 where "st0 = st\<lparr>de_requestSequence := de_requestSequence st + 1\<rparr>"
  have st0: "rqv st0 = rqv st" "de_transfers st0 = de_transfers st" "reachable sv st0 = reachable sv st"
    by (simp_all add: st0_def reachable_def inTree_def fun_eq_iff)
  obtain j s where a: "allocateTransfer sv False c (de_requestSequence st + 1) (of_generation (de_offers st c)) st0 = (j, s)" by fastforce
  show "settles sv {#?q#} st st2"
  proof (cases j)
    case None
    define rej where "rej = \<lparr>tr_used = False, tr_incoming = False, tr_incremental = False, tr_targets = False, tr_serial = 0,
             tr_generation = 0, tr_ticket = 0, tr_queued = False, tr_channel = c, tr_fd = Some 0, tr_requestor = cr_requestor r,
             tr_target = cr_target r, tr_property = 0, tr_time = cr_time r, tr_size = 0, tr_offset = 0, tr_timer = False\<rparr>"
    have st2: "st2 = notify sv rej False st0" using assms None a rqv_allocate_none [of sv False c] by (auto simp: outgoingTransfer_def Let_def rej_def simp flip: st0_def)
    have "keyOf (rqPart rej) = ?q" by (simp add: rej_def keyOf_def rqPart_def)
    moreover have "unanswered (notify sv rej False st0) = unanswered st0" by (simp add: unanswered_def notify_frame)
    moreover have "reachable sv (notify sv rej False st0) = reachable sv st0" by (auto simp: reachable_def inTree_def notify_frame)
    ultimately have "balance sv st2 = balance sv st0 + filter_mset (reachable sv st0) {#?q#}"
      using notify_answers [of sv st0 rej False] by (simp add: st2 balance_def)
    then have "settles sv {#?q#} st0 st2" by (simp add: settles_def st2 notify_frame timersOk_def)
    then show ?thesis by (rule settles_rqv_first [OF _ st0(1)])
  next
    case (Some i)
    define t where "t = (transfer i s)\<lparr>tr_requestor := cr_requestor r, tr_target := cr_target r,
             tr_property := (if cr_property r \<noteq> 0 then cr_property r else cr_target r), tr_time := cr_time r\<rparr>"
    have st2: "st2 = setTransfer i t s" using assms Some a by (simp add: outgoingTransfer_def Let_def t_def flip: st0_def)
    have k: "tr_used (transfer i s)" "\<not> tr_incoming (transfer i s)" "\<not> tr_incremental (transfer i s)" "tr_channel (transfer i s) = c"
      "tr_timer (transfer i s) = dv_timerOk sv"
      using a Some findIndex_Some [of "\<lambda>t. \<not> tr_used t" "de_transfers st0"]
      by (auto simp: allocateTransfer_def Let_def setTransfer_def transfer_def split: option.splits)
    have "settles sv (if False then {#} else {#?q#}) st0 (setTransfer i t s)"
      by (rule settles_new_slot(1) [OF a [unfolded Some] refl refl]) (use k in \<open>simp_all add: t_def rqPart_def\<close>)
    then show ?thesis unfolding st2 using settles_rqv_first [OF _ st0(1)] by simp
  qed
  show "i < length (de_transfers st2) \<and> tr_used (transfer i st2) \<and> \<not> tr_incoming (transfer i st2)
      \<and> \<not> tr_incremental (transfer i st2) \<and> i < length (de_transfers st)" if "k = Some i"
    using assms a that findIndex_Some [of "\<lambda>t. \<not> tr_used t" "de_transfers st0" i] st0(2)
    by (auto simp: outgoingTransfer_def allocateTransfer_def Let_def setTransfer_def transfer_def simp flip: st0_def split: option.splits)
qed

lemma settles_answer:
  assumes "i < length (de_transfers st)" "waits (rqPart (transfer i st))"
  shows "settles sv {#} st (answer sv i ty vs st)"
proof -
  obtain rc s where c: "changeProperty sv (tr_requestor (transfer i st)) (tr_property (transfer i st)) ty (Data32 vs) st = (rc, s)" by fastforce
  then have "s = snd (changeProperty sv (tr_requestor (transfer i st)) (tr_property (transfer i st)) ty (Data32 vs) st)" by simp
  then have eq: "rqv s = rqv st" by simp
  have p: "rqPart (transfer i s) = rqPart (transfer i st)" "i < length (de_transfers s)" using same_part [OF eq assms(1)] by auto
  have "settles sv {#} s (release i (notify sv (transfer i st) rc s))" by (rule notify_release [OF p(2)]) (use assms(2) p(1) in simp_all)
  then show ?thesis using settles_rqv_first [OF _ eq] by (simp add: answer_def Let_def c)
qed

text \<open>The request that an input brings, if the bridge owns the selection.\<close>

definition asked :: "dataServer \<Rightarrow> dataInput \<Rightarrow> dataState \<Rightarrow> rqKey multiset" where
  "asked sv inp st =
     (case inp of Convert r \<Rightarrow>
        (case channelOf sv (cr_selection r) of None \<Rightarrow> {#}
         | Some c \<Rightarrow> if de_enabled st \<and> of_local (de_offers st c) then {#(cr_requestor r, cr_time r, c, cr_target r)#} else {#})
      | _ \<Rightarrow> {#})"

lemma settles_convert: "settles sv (asked sv (Convert r) st) st (convert sv r st)"
proof (cases "\<exists>c. channelOf sv (cr_selection r) = Some c \<and> de_enabled st \<and> of_local (de_offers st c)")
  case True
  then obtain c where c: "channelOf sv (cr_selection r) = Some c" "de_enabled st" "of_local (de_offers st c)" by blast
  let ?q = "{#(cr_requestor r, cr_time r, c, cr_target r)#}"
  obtain k s where o: "outgoingTransfer sv c r st = (k, s)" by fastforce
  have s: "settles sv ?q st s" by (rule settles_outgoing(1) [OF o])
  have out: "i < length (de_transfers s)" "tr_used (transfer i s)" "waits (rqPart (transfer i s))" "i < length (de_transfers st)" if "k = Some i" for i
    using settles_outgoing(2) [OF o that] by (simp_all add: waits_def rqPart_def)
  have fail: "settles sv ?q st (failTransfer sv i s)" if "k = Some i" for i by (rule settles_used_slot [OF s out(4,2) [OF that]])
  have ans: "settles sv ?q st (answer sv i ty vs s)" if "k = Some i" for i ty vs by (rule settles_step [OF s settles_answer [OF out(1,3) [OF that]]])
  show ?thesis using c s fail ans settles_rqv_step [OF s]
    by (simp add: convert_def asked_def o Let_def split: option.splits)
next
  case False
  then show ?thesis using settles_rqv [of "emitData PassedOn st" st sv] by (auto simp: convert_def asked_def isAnswer_def split: option.splits)
qed

lemma rqv_exportMessage: "exportMessage sv k st = Some st2 \<Longrightarrow> rqv st2 = rqv st"
proof (cases k)
  case XdndDrop
  have "rqv (st\<lparr>de_exportDropped := True\<rparr>) = rqv st" by (simp add: rqv_def)
  then show "exportMessage sv k st = Some st2 \<Longrightarrow> rqv st2 = rqv st" using XdndDrop by (auto simp: exportMessage_def Let_def)
qed (auto simp: exportMessage_def)

lemma rqv_dragMessage: "dragMessage sv k l1 l4 st = Some st2 \<Longrightarrow> rqv st2 = rqv st"
proof -
  have "rqv (s\<lparr>de_dragPositionPending := False, de_dragAccepted := a\<rparr>) = rqv s" for s a by (simp add: rqv_def)
  then show "dragMessage sv k l1 l4 st = Some st2 \<Longrightarrow> rqv st2 = rqv st"
    by (cases k) (auto simp: dragMessage_def Let_def isAnswer_def split: if_splits)
qed

lemma rqv_clientMessage: "rqv (clientMessage sv w ty l0 l1 l4 st) = rqv st"
  using rqv_dragMessage [of sv _ l1 l4 st] rqv_exportMessage [of sv _ st]
  by (auto simp: clientMessage_def Let_def isAnswer_def split: option.splits if_splits)

lemma settles_sendEvent: "settles sv {#} st (sendEvent sv ev st)"
proof (cases "\<exists>r s t p. ev = SelectionNotifyEvent r s t p")
  case True
  then obtain r s t p where ev: "ev = SelectionNotifyEvent r s t p" by blast
  show ?thesis
  proof (cases "findIndex (\<lambda>u. tr_used u \<and> tr_incoming u \<and> tr_requestor u = r \<and> tr_target u = t \<and> selection sv (tr_channel u) = s) (de_transfers st)")
    case None
    then show ?thesis by (simp add: sendEvent_def ev settles_rqv isAnswer_def)
  next
    case (Some i)
    have i: "i < length (de_transfers st)" "tr_used (transfer i st)" "tr_incoming (transfer i st)"
      using findIndex_Some [OF Some] by (auto simp: transfer_def)
    then show ?thesis using Some settles_fail [OF i(1,2)] settles_receive [OF i] by (simp add: sendEvent_def ev settles_rqv isAnswer_def)
  qed
next
  case False
  then show ?thesis by (cases ev) (simp_all add: sendEvent_def rqv_clientMessage settles_rqv isAnswer_def)
qed

lemma rqv_dragCommands [simp]:
  "rqv (enterDrag sv ev st) = rqv st" "rqv (leaveDrag sv st) = rqv st" "rqv (finishDrag sv b st) = rqv st" "rqv (enableData sv ev st) = rqv st"
proof -
  have upd: "rqv (resetDrag s) = rqv s" "rqv (s\<lparr>de_dragTarget := x, de_dragAccepted := y\<rparr>) = rqv s"
    "rqv (s\<lparr>de_dragPassthrough := y, de_dragSource := x\<rparr>) = rqv s" "rqv (s\<lparr>de_exportCompleted := y, de_exportSuccess := y2\<rparr>) = rqv s"
    "rqv (s\<lparr>de_enabled := y, de_clipboardActive := y2\<rparr>) = rqv s" "rqv (s\<lparr>de_bridge := x\<rparr>) = rqv s"
    "rqv (s\<lparr>de_dragTarget := x, de_dragOutput := o1, de_dragAccepted := y, de_dragDataRevision := r, de_dragPositionDataRevision := r2\<rparr>) = rqv s"
    for s x y y2 o1 r r2 by (simp_all add: resetDrag_def rqv_def)
  show "rqv (enterDrag sv ev st) = rqv st" "rqv (leaveDrag sv st) = rqv st" "rqv (finishDrag sv b st) = rqv st"
    by (simp_all add: enterDrag_def leaveDrag_def finishDrag_def Let_def upd)
  show "rqv (enableData sv ev st) = rqv st" by (simp add: enableData_def Let_def split_beta upd)
qed

lemma settles_dataSwitch:
  assumes "length (de_transfers st) = MAX_PENDING"
    and "dx_operation ev = LORIE_DATA_REPLY \<Longrightarrow> \<forall>i. replyIndex ev st = Some i \<longrightarrow> \<not> tr_incremental (transfer i st)"
  shows "settles sv {#} st (snd (dataSwitch sv ev fd a b st))"
proof (cases "dx_operation ev = LORIE_DATA_REPLY")
  case True
  show ?thesis
  proof (cases "replyIndex ev st")
    case None
    then show ?thesis using True by (simp add: dataSwitch_def Let_def settles_refl)
  next
    case (Some i)
    have i: "i < length (de_transfers st)" "waits (rqPart (transfer i st))"
      using findIndex_Some [OF Some [unfolded replyIndex_def]] assms(2) True Some by (auto simp: transfer_def waits_def rqPart_def)
    show ?thesis using settles_replyTo [OF i] True Some by (simp add: dataSwitch_def Let_def split_beta)
  qed
next
  case False
  have "settles sv {#} st (snd (own sv c (st\<lparr>de_offers := x\<rparr>)))" for c x
    by (rule settles_rqv_first [OF settles_own]) (use assms(1) in simp_all)
  then show ?thesis using False settles_request settles_refl settles_rqv
    by (simp add: dataSwitch_def Let_def split: LorieDataOperation.splits option.splits)
qed

lemma settles_command:
  assumes "length (de_transfers st) = MAX_PENDING" "\<not> restarts sv (Command ev hf) st"
  shows "settles sv {#} st (lorieDataCommand sv ev hf st)"
proof -
  obtain fd s where f: "takeFile hf st = (fd, s)" by fastforce
  have s: "rqv s = rqv st" "de_transfers s = de_transfers st"
    using f by (auto simp: takeFile_def openFile_def Let_def rqv_def split: option.splits)
  have idx: "replyIndex ev s = replyIndex ev st" "transfer i s = transfer i st" for i using s by (simp_all add: replyIndex_def transfer_def)
  have len: "length (de_transfers s) = MAX_PENDING" using assms(1) s(2) by simp
  have rep: "\<not> tr_incremental (transfer i s)" if "dx_operation ev = LORIE_DATA_REPLY" "replyIndex ev s = Some i" for i
    using assms(2) that unfolding idx by (simp add: restarts_def)
  have d: "settles sv {#} st (snd (dispatchData sv ev fd a b s))" for a b
  proof -
    have "settles sv {#} s (snd (dataSwitch sv ev fd a b s))" by (rule settles_dataSwitch [OF len]) (use rep in blast)
    then show ?thesis using settles_rqv_first [OF _ s(1)] settles_rqv [of s st] settles_rqv [of "enableData sv ev s" st] s(1)
      by (simp add: dispatchData_def)
  qed
  show ?thesis unfolding lorieDataCommand_def f Let_def prod.case using d settles_rqv_step [OF d]
    by (simp add: split_beta split: option.splits)
qed

text \<open>The handler forgets the timer before the transfer fails; that makes no difference.\<close>

lemma rqv_release:
  assumes "tr_used (transfer i st)"
  shows "rqv (release i st) = (case rqPart (transfer i st) of (used, incoming, incremental, key, timer) \<Rightarrow>
     case rqv st of (ps, rest) \<Rightarrow> (ps[i := (False, incoming, incremental, key, False)], rest))"
proof -
  have "de_transfers (release i st) = (de_transfers st)[i := (transfer i st)\<lparr>tr_used := False, tr_timer := False, tr_fd := None\<rparr>]"
    "filter isAnswer (de_log (release i st)) = filter isAnswer (de_log st)" "de_tree (release i st) = de_tree st" "de_store (release i st) = de_store st"
    using assms by (auto simp: release_def Let_def setTransfer_def closeFd_def freeWindow_def emitData_def isAnswer_def split: option.splits)
  then show ?thesis by (simp add: rqv_def map_update rqPart_def)
qed

lemma rqv_release_slot:
  assumes "rqv s = rqv (setTransfer i ((transfer i st)\<lparr>tr_timer := False\<rparr>) v)" "rqv v = rqv st" "i < length (de_transfers st)" "tr_used (transfer i st)"
  shows "rqv (release i s) = rqv (release i st)"
proof -
  let ?t = "(transfer i st)\<lparr>tr_timer := False\<rparr>"
  have len: "i < length (de_transfers v)" by (rule same_part(2) [OF assms(2,3)])
  have part: "rqPart (transfer i s) = rqPart ?t" using same_part(1) [OF assms(1), of i] len by simp
  have set: "rqv (setTransfer i ?t v) = (case rqv st of (ps, rest) \<Rightarrow> (ps[i := rqPart ?t], rest))"
    unfolding assms(2) [symmetric] by (simp add: rqv_def setTransfer_def map_update)
  have used: "tr_used (transfer i s)" using part assms(4) by (simp add: rqPart_def)
  show ?thesis unfolding rqv_release [OF used] rqv_release [OF assms(4)] part assms(1) set by (simp add: rqPart_def split: prod.splits)
qed

lemma rqv_expired:
  assumes "i < length (de_transfers st)" "tr_used (transfer i st)"
  shows "rqv (expired sv i st) = rqv (failTransfer sv i st)"
proof -
  let ?t = "(transfer i st)\<lparr>tr_timer := False\<rparr>"
  define u where "u = setTransfer i ?t st"
  have u: "transfer i u = ?t" using assms(1) by (simp add: u_def)
  have "notify sv ?t False u = setTransfer i ?t (notify sv (transfer i st) False st)"
    by (simp add: notify_def u_def setTransfer_def emitData_def windowFor_def)
  then have n: "rqv (notify sv ?t False u) = rqv (setTransfer i ?t (notify sv (transfer i st) False st))" by simp
  have nt: "transfer i (notify sv (transfer i st) False st) = transfer i st" by (simp add: transfer_def notify_frame)
  have rn: "rqv (release i (notify sv ?t False u)) = rqv (release i (notify sv (transfer i st) False st))"
    by (rule rqv_release_slot [OF _ refl]) (use n nt assms in \<open>simp_all add: notify_frame\<close>)
  have rq: "rqv (release i s) = rqv (release i st)" if "rqv s = rqv u" for s
    by (rule rqv_release_slot [OF _ refl assms]) (use that u_def in simp)
  have rs: "rqv (release i s) = rqv (release i st)" if "rqv s = rqv st" for s
  proof -
    have "rqPart (transfer i s) = rqPart (transfer i st)" by (rule same_part(1) [OF that assms(1)])
    moreover from this have "tr_used (transfer i s)" using assms(2) by (simp add: rqPart_def)
    ultimately show ?thesis using rqv_release [OF assms(2)] rqv_release [of i s] that by simp
  qed
  have same: "rqv (release i s) = rqv (release i r)" if "rqv s = rqv u" "rqv r = rqv st" for s r using rq [OF that(1)] rs [OF that(2)] by simp
  have win: "windowFor w u = windowFor w st" for w by (simp add: u_def setTransfer_def windowFor_def)
  show ?thesis
  proof (cases "tr_incoming (transfer i st) \<or> tr_incremental (transfer i st)")
    case True
    show ?thesis unfolding expired_def failTransfer_def Let_def u_def [symmetric] u views_selectionFinished(2)
      by (rule same) (use True in \<open>auto simp: win\<close>)
  next
    case False
    then show ?thesis unfolding expired_def failTransfer_def Let_def u_def [symmetric] u views_selectionFinished(2) using rn by simp
  qed
qed

lemma settles_dataStep:
  assumes "length (de_transfers st) = MAX_PENDING" "timersOk sv st" "\<not> restarts sv inp st" "inp \<noteq> Reset" "\<forall>t s. inp \<noteq> ServerWindows t s"
  shows "settles sv (asked sv inp st) st (dataStep sv inp st)"
proof (cases inp)
  case (Command ev hf)
  then show ?thesis using settles_command [OF assms(1)] assms(3) by (simp add: dataStep_def asked_def)
next
  case (Convert r)
  then show ?thesis using settles_convert by (simp add: dataStep_def)
next
  case (SelectionOwner a k w c)
  define s where "s = (case channelOf sv a of None \<Rightarrow> st | Some ch \<Rightarrow> st\<lparr>de_sel := (de_sel st)(ch := Some \<lparr>ds_client = (if w = 0 then None else Some c), ds_window = w\<rparr>)\<rparr>)"
  have s: "rqv s = rqv st" "length (de_transfers s) = MAX_PENDING" using assms(1) by (simp_all add: s_def split: option.splits)
  have "dataStep sv inp st = selectionChanged sv a k w s" by (simp add: dataStep_def SelectionOwner s_def)
  then show ?thesis using settles_rqv_first [OF settles_selectionChanged [OF s(2)] s(1)] SelectionOwner by (simp add: asked_def)
next
  case (Expire i)
  show ?thesis
  proof (cases "i < length (de_transfers st) \<and> tr_timer (transfer i st)")
    case True
    then have used: "tr_used (transfer i st)" using timersOk_slot [OF assms(2)] by (auto simp: rqPart_def)
    have "settles sv {#} st (failTransfer sv i st)" by (rule settles_fail) (use True used in simp_all)
    then show ?thesis using settles_rqv_step [OF _ rqv_expired [OF _ used]] True Expire by (simp add: dataStep_def asked_def)
  next
    case False
    then show ?thesis using Expire by (auto simp: dataStep_def asked_def settles_refl)
  qed
next
  case RunWork
  have "settles sv {#} st (propertyWork sv w (st\<lparr>de_work := ws\<rparr>))" for w ws
    by (rule settles_rqv_first [OF settles_propertyWork]) simp
  then show ?thesis using RunWork settles_refl by (simp add: dataStep_def asked_def split: list.splits)
next
  case ExpireExport
  have "rqv (st\<lparr>de_exportTimer := False, de_exportSuccess := False\<rparr>) = rqv st" by (simp add: rqv_def)
  then show ?thesis using ExpireExport by (simp add: dataStep_def exportExpired_def asked_def settles_rqv settles_refl)
next
  case (Send ev)
  then show ?thesis using settles_sendEvent by (simp add: dataStep_def asked_def)
next
  case (Pointer o1 w b d)
  have "rqv (st\<lparr>de_pointerDown := d, de_pointerOutput := o1, de_pointerWindow := w\<rparr>) = rqv st" by (simp add: rqv_def)
  then show ?thesis using Pointer by (simp add: dataStep_def lorieDataPointer_def asked_def settles_rqv settles_refl)
next
  case (Clock n)
  have "rqv (st\<lparr>de_now := n\<rparr>) = rqv st" by (simp add: rqv_def)
  then show ?thesis using Clock by (simp add: dataStep_def asked_def settles_rqv)
qed (use assms in \<open>simp_all add: dataStep_def asked_def settles_rqv\<close>)

lemma timersOk_release: "timersOk sv st \<Longrightarrow> timersOk sv (release i st)"
proof (cases "tr_used (transfer i st)")
  case True
  assume ok: "timersOk sv st"
  obtain s where s: "release i st = setTransfer i ((transfer i st)\<lparr>tr_used := False, tr_timer := False, tr_fd := None\<rparr>) s"
    "de_transfers s = de_transfers st" by (rule release_slot [OF True])
  have "timersOk sv s" using ok s(2) by (simp add: timersOk_def)
  then show ?thesis unfolding s(1) by (rule timersOk_set) simp
qed (simp add: release_def)

lemma timersOk_reset: "timersOk sv st \<Longrightarrow> timersOk sv (lorieDataReset sv st)"
proof -
  assume ok: "timersOk sv st"
  define s where "s = (endExport sv st)\<lparr>de_enabled := False, de_clipboardActive := False\<rparr>"
  have "rqv s = rqv (endExport sv st)" by (simp add: s_def rqv_def)
  then have "rqv s = rqv st" by simp
  then have "timersOk sv s" using balance_rqv(2) [of s st sv] ok by simp
  then have all: "timersOk sv (fold release is s)" for "is"
    by (induction "is" arbitrary: s) (simp_all add: timersOk_release)
  have "de_transfers (lorieDataReset sv st) = de_transfers (fold release [0..<MAX_PENDING] s)"
    unfolding lorieDataReset_def Let_def s_def [symmetric] by (simp add: resetDrag_def freeWindow_def emitData_def)
  then show ?thesis using all [of "[0..<MAX_PENDING]"] unfolding timersOk_def by (simp only:)
qed

lemma reach_timers: "dataReach sv out st \<Longrightarrow> timersOk sv st"
proof (induction rule: dataReach.induct)
  case start
  show ?case by (simp add: dataStart_def timersOk_def rqPart_def list_all_iff)
next
  case (step st inp)
  consider "inp = Reset" | t s where "inp = ServerWindows t s" | "inp \<noteq> Reset" "\<forall>t s. inp \<noteq> ServerWindows t s" by blast
  then show ?case
  proof cases
    case 1
    then show ?thesis using timersOk_reset [OF step.IH] by (simp add: dataStep_def)
  next
    case 2
    then show ?thesis using step.IH by (simp add: dataStep_def timersOk_def)
  next
    case 3
    then show ?thesis using settles_dataStep [OF fdsOk_length [OF reach_fds [OF step.hyps(1)]] step.IH step.hyps(2)] step.IH
      by (simp add: settles_def)
  qed
qed

text \<open>
  A run in which no transfer is started twice, the component is not reset and the windows of the
  server stay, and the requests that come in on the way.
\<close>

fun orderly :: "dataServer \<Rightarrow> dataInput list \<Rightarrow> dataState \<Rightarrow> bool" where
  "orderly sv [] st = True"
| "orderly sv (inp # inputs) st =
     (\<not> restarts sv inp st \<and> (case inp of Reset \<Rightarrow> False | ServerWindows t s \<Rightarrow> False | _ \<Rightarrow> True) \<and> orderly sv inputs (dataStep sv inp st))"

fun askedIn :: "dataServer \<Rightarrow> dataInput list \<Rightarrow> dataState \<Rightarrow> rqKey multiset" where
  "askedIn sv [] st = {#}"
| "askedIn sv (inp # inputs) st = asked sv inp st + askedIn sv inputs (dataStep sv inp st)"

lemma settles_run:
  assumes "dataReach sv out st" "orderly sv inputs st"
  shows "settles sv (askedIn sv inputs st) st (dataRun sv inputs st) \<and> dataReach sv out (dataRun sv inputs st)"
  using assms
proof (induction inputs arbitrary: st)
  case Nil
  then show ?case by (simp add: dataRun_def settles_refl)
next
  case (Cons inp inputs)
  have i: "\<not> restarts sv inp st" "inp \<noteq> Reset" "\<forall>t s. inp \<noteq> ServerWindows t s" "orderly sv inputs (dataStep sv inp st)"
    using Cons.prems(2) by (auto split: dataInput.splits)
  have "settles sv (asked sv inp st) st (dataStep sv inp st)"
    by (rule settles_dataStep [OF fdsOk_length [OF reach_fds [OF Cons.prems(1)]] reach_timers [OF Cons.prems(1)] i(1-3)])
  then show ?case using settles_trans Cons.IH [OF dataReach.step [OF Cons.prems(1) i(1)] i(4)] by (simp add: dataRun_def)
qed

lemma expire_slot:
  assumes "timersOk sv st" "dv_timerOk sv" "i < length (de_transfers st)"
  shows "\<not> tr_used (transfer i (dataStep sv (Expire i) st))" "j \<noteq> i \<Longrightarrow> j < length (de_transfers st) \<Longrightarrow> tr_used (transfer j (dataStep sv (Expire i) st)) = tr_used (transfer j st)"
proof -
  let ?st2 = "dataStep sv (Expire i) st"
  have timer: "tr_timer (transfer i st) = tr_used (transfer i st)" using timersOk_slot [OF assms(1,3)] assms(2) by (simp add: rqPart_def)
  have main: "\<not> tr_used (transfer i ?st2) \<and> (j \<noteq> i \<and> j < length (de_transfers st) \<longrightarrow> tr_used (transfer j ?st2) = tr_used (transfer j st))"
  proof (cases "tr_used (transfer i st)")
    case True
    let ?t = "transfer i st"
    define s where "s = (if tr_incoming ?t
        then if \<not> tr_targets ?t then emit LORIE_DATA_REPLY (tr_channel ?t) (tr_serial ?t) (tr_generation ?t) (dv_name sv (tr_target ?t)) None 0 0 0 st else st
        else if \<not> tr_incremental ?t then notify sv ?t False st
        else if windowFor (tr_requestor ?t) st then snd (changeProperty sv (tr_requestor ?t) (tr_property ?t) (tr_target ?t) (Data8 []) st) else st)"
    have "rqv ?st2 = rqv (failTransfer sv i st)" using rqv_expired [OF assms(3) True] True timer assms(3) by (simp add: dataStep_def)
    also have "\<dots> = rqv (release i s)" by (simp add: failTransfer_def Let_def s_def)
    finally have eq: "rqv ?st2 = rqv (release i s)" .
    have ps: "map rqPart (de_transfers s) = map rqPart (de_transfers st)"
    proof -
      have "fst (rqv (snd (changeProperty sv w p ty d st))) = fst (rqv st)" for w p ty d by simp
      then show ?thesis by (simp add: s_def rqv_def emit_def emitData_def notify_frame)
    qed
    then have len: "length (de_transfers s) = length (de_transfers st)" by (metis length_map)
    have part: "rqPart (transfer k s) = rqPart (transfer k st)" if "k < length (de_transfers st)" for k
      using arg_cong [OF ps, of "\<lambda>l. l ! k"] that len by (simp add: transfer_def)
    have st2: "rqPart (transfer k ?st2) = rqPart (transfer k (release i s))" if "k < length (de_transfers st)" for k
      by (rule same_part(1) [OF eq]) (use that len release_other(2) [of i s] in simp)
    have "\<not> tr_used (transfer i ?st2)" using st2 [OF assms(3)] release_unused [of i s] assms(3) len by (simp add: rqPart_def)
    moreover have "tr_used (transfer j ?st2) = tr_used (transfer j st)" if "j \<noteq> i" "j < length (de_transfers st)"
      using st2 [OF that(2)] release_other(1) [OF that(1), of s] part [OF that(2)] by (simp add: rqPart_def)
    ultimately show ?thesis by blast
  next
    case False
    then show ?thesis using timer by (simp add: dataStep_def)
  qed
  then show "\<not> tr_used (transfer i ?st2)" "j \<noteq> i \<Longrightarrow> j < length (de_transfers st) \<Longrightarrow> tr_used (transfer j ?st2) = tr_used (transfer j st)" by blast+
qed

lemma orderly_expire: "orderly sv (map Expire is) st"
  by (induction "is" arbitrary: st) (simp_all add: restarts_def)

lemma asked_expire: "askedIn sv (map Expire is) st = {#}"
  by (induction "is" arbitrary: st) (simp_all add: asked_def)

lemma expire_all:
  assumes "dataReach sv out st" "dv_timerOk sv" "\<forall>i \<in> set is. i < MAX_PENDING" "j < MAX_PENDING" "j \<in> set is \<or> \<not> tr_used (transfer j st)"
  shows "\<not> tr_used (transfer j (dataRun sv (map Expire is) st))"
  using assms
proof (induction "is" arbitrary: st)
  case Nil
  then show ?case by (simp add: dataRun_def)
next
  case (Cons i "is")
  note len = fdsOk_length [OF reach_fds [OF Cons.prems(1)]]
  have "dataReach sv out (dataStep sv (Expire i) st)" by (rule dataReach.step [OF Cons.prems(1)]) (simp add: restarts_def)
  moreover have "j \<in> set is \<or> \<not> tr_used (transfer j (dataStep sv (Expire i) st))"
    using expire_slot(1) [OF reach_timers [OF Cons.prems(1)] Cons.prems(2), of i]
      expire_slot(2) [OF reach_timers [OF Cons.prems(1)] Cons.prems(2), of i j] Cons.prems(3,4,5) len by (cases "j = i") auto
  ultimately show ?case using Cons.IH Cons.prems(2,3,4) by (simp add: dataRun_def)
qed

section \<open>Theorems\<close>

text \<open>A client asks for the clipboard text of the host.\<close>

definition demoConvert :: dataInput where
  "demoConvert = Convert \<lparr>cr_requestor = 9, cr_selection = demoAtom ''CLIPBOARD'', cr_target = demoAtom ''text/plain'', cr_property = 3, cr_time = 7\<rparr>"

lemma demo_pending:
  "filter_mset (reachable demoData demoTransfers) (unanswered demoTransfers + answers (de_log demoTransfers) + askedIn demoData [demoConvert] demoTransfers)
     = {#(9, 7, 0, demoAtom ''text/plain'')#}"
proof -
  have "unanswered demoTransfers = {#}"
    by (simp add: unanswered_def demo_offered dataStart_def waits_def rqPart_def)
  moreover have "answers (de_log demoTransfers) = {#}" by (simp add: demo_offered answers_def List.map_filter_def answerKey_def)
  moreover have "asked demoData demoConvert demoTransfers = {#(9, 7, 0, demoAtom ''text/plain'')#}"
    by (simp add: asked_def demoConvert_def demo_offered channelOf_def)
  moreover have "reachable demoData demoTransfers (9, 7, 0, demoAtom ''text/plain'')"
    by (simp add: reachable_def inTree_def demo_offered demoData_def)
  ultimately show ?thesis by simp
qed





end
