(* ===== verification/Data_Incremental.thy ===== *)
theory Data_Incremental
  imports Data_Transfer
begin

text \<open>
  Incremental transfers of the data bridge (\<open>data_exchange.c\<close>): the chunks that one side sends,
  property by property, are the file again on the other side.
\<close>

section \<open>Chunks\<close>

function chunks :: "u8 list \<Rightarrow> u8 list list" where
  "chunks bs = (if bs = [] then [[]] else take LORIE_DATA_CHUNK bs # chunks (drop LORIE_DATA_CHUNK bs))"
  by pat_completeness auto
termination by (relation "measure length") auto

declare chunks.simps [simp del]

lemma chunks_Nil [simp]: "chunks [] = [[]]"
  by (simp add: chunks.simps)

lemma chunks_Cons: "bs \<noteq> [] \<Longrightarrow> chunks bs = take LORIE_DATA_CHUNK bs # chunks (drop LORIE_DATA_CHUNK bs)"
  by (simp add: chunks.simps)

lemma concat_chunks [simp]: "concat (chunks bs) = bs"
  by (induction bs rule: chunks.induct) (subst chunks.simps, simp)

lemma chunks_last: "\<exists>cs. chunks bs = cs @ [[]] \<and> (\<forall>c \<in> set cs. c \<noteq> [] \<and> length c \<le> LORIE_DATA_CHUNK)"
proof (induction bs rule: chunks.induct)
  case (1 bs)
  show ?case
  proof (cases "bs = []")
    case False
    then obtain cs where cs: "chunks (drop LORIE_DATA_CHUNK bs) = cs @ [[]]" "\<forall>c \<in> set cs. c \<noteq> [] \<and> length c \<le> LORIE_DATA_CHUNK"
      using 1 by blast
    then have "chunks bs = (take LORIE_DATA_CHUNK bs # cs) @ [[]]" using False by (simp add: chunks_Cons)
    then show ?thesis using cs(2) False by (intro exI [of _ "take LORIE_DATA_CHUNK bs # cs"]) auto
  qed simp
qed

section \<open>Properties that the server writes\<close>

definition writes :: "XID \<Rightarrow> xatom \<Rightarrow> dataEffect \<Rightarrow> u8 list option" where
  "writes w p e =
     (case e of SetProperty w2 p2 v \<Rightarrow>
        (if w2 = w \<and> p2 = p then (case dp_data v of Data8 bs \<Rightarrow> Some bs | _ \<Rightarrow> None) else None)
      | _ \<Rightarrow> None)"

definition written :: "XID \<Rightarrow> xatom \<Rightarrow> dataState \<Rightarrow> u8 list list" where
  "written w p st = List.map_filter (writes w p) (de_log st)"

lemma written_emitData [simp]:
  "written w p (emitData e st) = written w p st @ (case writes w p e of None \<Rightarrow> [] | Some bs \<Rightarrow> [bs])"
  by (auto simp: written_def emitData_def List.map_filter_def split: option.splits)

lemma written_same: "de_log st2 = de_log st \<Longrightarrow> written w p st2 = written w p st"
  by (simp add: written_def)

lemma written_message [simp]: "written w p (message sv x y k a b c d e st) = written w p st"
  and written_emit [simp]: "written w p (emit o1 c1 s1 g1 m1 f1 o2 w1 x1 st) = written w p st"
  by (simp_all add: message_def emit_def writes_def)

lemma written_release [simp]: "written w p (release i st) = written w p st"
proof -
  have "written w p (closeFd fd s) = written w p s" "written w p (freeWindow x s) = written w p s" for fd x s
    by (simp_all add: closeFd_def freeWindow_def writes_def) (simp_all add: written_def)
  moreover have "written w p (setTransfer i t s) = written w p s" for t s by (rule written_same) (simp add: setTransfer_def)
  ultimately show ?thesis by (simp add: release_def Let_def split: option.splits)
qed

lemma written_moveDrag [simp]: "written w p (moveDrag sv ev st) = written w p st"
proof -
  have upd: "written w p (s\<lparr>de_dragMove := a\<rparr>) = written w p s" "written w p (s\<lparr>de_dragMoveQueued := b\<rparr>) = written w p s"
    "written w p (s\<lparr>de_dragOutput := c\<rparr>) = written w p s" "written w p (s\<lparr>de_dragPositionPending := b, de_dragPositionDataRevision := c\<rparr>) = written w p s"
    "written w p (s\<lparr>de_dragTarget := c, de_dragProxy := d, de_dragAccepted := b, de_dragPositionPending := b2\<rparr>) = written w p s"
    "written w p (s\<lparr>de_dragVersion := c\<rparr>) = written w p s" for s a b b2 c d
    by (simp_all add: written_def)
  have "written w p (enterTarget sv n s) = written w p s" for n s
    unfolding enterTarget_def Let_def by (simp add: upd)
  then show ?thesis by (simp add: moveDrag_def Let_def upd split: option.splits prod.splits)
qed

lemma written_dropDrag [simp]: "written w p (dropDrag sv st) = written w p st" "written w p (rejectDrag sv st) = written w p st"
proof -
  have upd: "written w p (s\<lparr>de_dragDropPending := b\<rparr>) = written w p s" "written w p (s\<lparr>de_dragTarget := c\<rparr>) = written w p s" for s b c
    by (simp_all add: written_def)
  show r: "written w p (rejectDrag sv s) = written w p s" for s by (simp add: rejectDrag_def Let_def upd)
  show "written w p (dropDrag sv st) = written w p st" by (simp add: dropDrag_def Let_def upd r)
qed

lemma written_selectionFinished [simp]: "written w p (selectionFinished sv t ok st) = written w p st"
proof -
  have "written w p (s\<lparr>de_dragDataRevision := c\<rparr>) = written w p s" for s c by (simp add: written_def)
  then show ?thesis by (simp add: selectionFinished_def Let_def)
qed

section \<open>Sending\<close>

definition awaits :: "XID \<Rightarrow> xatom \<Rightarrow> Transfer \<Rightarrow> bool" where
  "awaits w p t \<longleftrightarrow> tr_used t \<and> tr_incremental t \<and> tr_requestor t = w \<and> tr_property t = p"

text \<open>An incremental transfer to the client window \<open>w\<close> of which the bytes before \<open>off\<close> are sent.\<close>

definition sending :: "nat \<Rightarrow> XID \<Rightarrow> xatom \<Rightarrow> u8 list \<Rightarrow> nat \<Rightarrow> dataState \<Rightarrow> bool" where
  "sending i w p file off st \<longleftrightarrow>
     de_enabled st \<and> \<not> de_movingProperty st \<and> de_work st = [] \<and> windowFor w st \<and> findIndex (awaits w p) (de_transfers st) = Some i
     \<and> \<not> tr_incoming (transfer i st) \<and> \<not> tr_queued (transfer i st) \<and> map_option (de_files st) (tr_fd (transfer i st)) = Some file
     \<and> tr_size (transfer i st) = length file \<and> tr_offset (transfer i st) = off"

lemma findIndex_update: "findIndex P xs = Some i \<Longrightarrow> P t \<Longrightarrow> findIndex P (xs[i := t]) = Some i"
proof -
  assume a: "findIndex P xs = Some i" "P t"
  note i = findIndex_Some [OF a(1)]
  have "\<forall>j < i. \<not> P (xs ! j)" using a(1) unfolding findIndex_def find_Some_iff by (auto simp: less_trans)
  then show ?thesis using i a(2) unfolding findIndex_def find_Some_iff
    by (intro exI [of _ i]) (auto simp: nth_list_update)
qed

text \<open>The requestor takes the chunk by deleting the property; the server sends the next one.\<close>

definition takeChunk :: "XID \<Rightarrow> xatom \<Rightarrow> dataInput list" where
  "takeChunk w p = [ClientProperty w p None, RunWork]"

lemma requeued:
  assumes "\<not> tr_queued (transfer i st)" "de_work st = []"
  shows "setTransfer i ((transfer i st)\<lparr>tr_queued := False\<rparr>) ((setTransfer i ((transfer i st)\<lparr>tr_queued := True\<rparr>) st)\<lparr>de_work := []\<rparr>) = st"
proof -
  have "t\<lparr>tr_queued := False\<rparr> = t" if "\<not> tr_queued t" for t using that by (cases t) simp
  from this [OF assms(1)] have "(de_transfers st)[i := (transfer i st)\<lparr>tr_queued := False\<rparr>] = de_transfers st" by (simp add: transfer_def)
  then show ?thesis using assms(2) by (cases st) (simp add: setTransfer_def)
qed

lemma take_chunk_queues:
  assumes "sending i w p file off st" "dv_workOk sv"
  shows "dataRun sv (takeChunk w p) st = snd (sendChunk sv i (st\<lparr>de_props := (de_props st)(w := (de_props st w)(p := None))\<rparr>))"
proof -
  let ?st = "st\<lparr>de_props := (de_props st)(w := (de_props st w)(p := None))\<rparr>" and ?t = "transfer i st"
  have a: "awaits w p ?t" "i < length (de_transfers st)" using assms(1) findIndex_Some [of "awaits w p" "de_transfers st" i]
    by (simp_all add: sending_def transfer_def)
  have f: "findIndex (\<lambda>t. tr_used t \<and> tr_incremental t \<and> tr_requestor t = w \<and> tr_property t = p) (de_transfers st) = Some i"
    using assms(1) unfolding sending_def awaits_def by simp
  define q where "q = (setTransfer i (?t\<lparr>tr_queued := True\<rparr>) ?st)\<lparr>de_work := [(i, tr_ticket ?t)]\<rparr>"
  have t: "transfer i ?st = ?t" by (simp add: transfer_def)
  have q: "dataStep sv (ClientProperty w p None) st = q"
    using assms f unfolding sending_def by (simp add: dataStep_def propertyChanged_def q_def t Let_def)
  have "tr_used ?t" "\<not> tr_incoming ?t" "\<not> tr_queued ?t" "de_enabled st" "de_work st = []" using assms(1) a(1) by (simp_all add: sending_def awaits_def)
  moreover from this have "setTransfer i (?t\<lparr>tr_queued := False\<rparr>) ((setTransfer i (?t\<lparr>tr_queued := True\<rparr>) ?st)\<lparr>de_work := []\<rparr>) = ?st"
    using requeued [of i ?st] by (simp add: transfer_def)
  moreover have "(q\<lparr>de_work := []\<rparr>) = (setTransfer i (?t\<lparr>tr_queued := True\<rparr>) ?st)\<lparr>de_work := []\<rparr>" by (simp add: q_def)
  moreover have "transfer i q = ?t\<lparr>tr_queued := True\<rparr>" "i < length (de_transfers q)" using a(2) by (simp_all add: q_def transfer_def setTransfer_def)
  ultimately have "dataStep sv RunWork q = snd (sendChunk sv i ?st)"
    by (simp add: dataStep_def q_def propertyWork_def Let_def transfer_def setTransfer_def)
  then show ?thesis by (simp add: takeChunk_def dataRun_def q)
qed

lemma send_chunk:
  assumes "sending i w p file off st" "off < length file" "dv_changeOk sv w p" "\<forall>fd n. dv_readOk sv fd n"
  shows "sending i w p file (off + chunkLength (length file) off) (snd (sendChunk sv i st))
    \<and> written w p (snd (sendChunk sv i st)) = written w p st @ [take LORIE_DATA_CHUNK (drop off file)]
    \<and> tr_fd (transfer i (snd (sendChunk sv i st))) = tr_fd (transfer i st)"
proof -
  let ?t = "transfer i st" and ?n = "chunkLength (length file) off"
  have a: "awaits w p ?t" "i < length (de_transfers st)" using assms(1) findIndex_Some [of "awaits w p" "de_transfers st" i]
    by (simp_all add: sending_def transfer_def)
  obtain fd where fd: "tr_fd ?t = Some fd" "de_files st fd = file" using assms(1) by (auto simp: sending_def)
  have n: "0 < ?n" "take ?n (drop off file) = take LORIE_DATA_CHUNK (drop off file)" "length (take ?n (drop off file)) = ?n"
    using assms(2) by (simp_all add: chunkLength_def min_def)
  define v where "v = \<lparr>dp_type = tr_target ?t, dp_data = Data8 (take ?n (drop off file))\<rparr>"
  define st2 where "st2 = emitData (SetProperty w p v) ((setTransfer i (?t\<lparr>tr_offset := off + ?n\<rparr>) st)\<lparr>de_props := (de_props st)(w := (de_props st w)(p := Some v))\<rparr>)"
  have s: "windowFor w st" "tr_requestor ?t = w" "tr_property ?t = p" "tr_incremental ?t" "tr_size ?t = length file" "tr_offset ?t = off"
    "\<not> de_movingProperty st" using assms(1) a(1) by (simp_all add: sending_def awaits_def)
  have "sendChunk sv i st = (True, st2\<lparr>de_movingProperty := False\<rparr>)"
    using s n(1,3) fd assms(3,4)
    by (simp add: sendChunk_def Let_def readFile_def changeProperty_def propertyChanged_def st2_def v_def emitData_def setTransfer_def)
  moreover have "st2\<lparr>de_movingProperty := False\<rparr> = st2"
    using s(7) by (cases st) (simp add: st2_def setTransfer_def emitData_def)
  ultimately have eq: "snd (sendChunk sv i st) = st2" by simp
  have tr: "transfer i st2 = ?t\<lparr>tr_offset := off + ?n\<rparr>" using a(2) by (simp add: st2_def emitData_def transfer_def setTransfer_def)
  have "findIndex (awaits w p) (de_transfers st2) = Some i"
    using assms(1) a(1) by (simp add: st2_def emitData_def setTransfer_def sending_def findIndex_update awaits_def)
  then have "sending i w p file (off + ?n) st2"
    using assms(1) fd unfolding sending_def tr by (simp add: st2_def emitData_def setTransfer_def windowFor_def)
  moreover have "written w p st2 = written w p st @ [take LORIE_DATA_CHUNK (drop off file)]"
    using n(2) by (simp add: st2_def writes_def v_def) (simp add: written_def setTransfer_def)
  ultimately show ?thesis unfolding eq tr by simp
qed

lemma send_last:
  assumes "sending i w p file (length file) st" "dv_changeOk sv w p"
  shows "\<not> tr_used (transfer i (snd (sendChunk sv i st))) \<and> written w p (snd (sendChunk sv i st)) = written w p st @ [[]]
    \<and> (\<forall>fd. tr_fd (transfer i st) = Some fd \<longrightarrow> fd \<notin> de_open (snd (sendChunk sv i st)))"
proof -
  let ?t = "transfer i st"
  have a: "awaits w p ?t" "i < length (de_transfers st)" using assms(1) findIndex_Some [of "awaits w p" "de_transfers st" i]
    by (simp_all add: sending_def transfer_def)
  have s: "windowFor w st" "tr_requestor ?t = w" "tr_property ?t = p" "tr_incremental ?t" "tr_size ?t = length file" "tr_offset ?t = length file"
    "\<not> de_movingProperty st" "tr_used ?t" using assms(1) a(1) by (simp_all add: sending_def awaits_def)
  define v where "v = \<lparr>dp_type = tr_target ?t, dp_data = Data8 []\<rparr>"
  define st2 where "st2 = (emitData (SetProperty w p v) ((setTransfer i (?t\<lparr>tr_offset := length file\<rparr>) st)\<lparr>de_props := (de_props st)(w := (de_props st w)(p := Some v))\<rparr>))\<lparr>de_movingProperty := False\<rparr>"
  have eq: "snd (sendChunk sv i st) = selectionFinished sv ?t True (release i st2)"
    using s assms(2)
    by (simp add: sendChunk_def Let_def chunkLength_def changeProperty_def propertyChanged_def st2_def v_def emitData_def setTransfer_def)
  have len: "i < length (de_transfers st2)" using a(2) by (simp add: st2_def emitData_def setTransfer_def)
  have tr: "transfer i st2 = ?t\<lparr>tr_offset := length file\<rparr>" using a(2) by (simp add: st2_def emitData_def transfer_def setTransfer_def)
  have fdv: "fdv (selectionFinished sv ?t True (release i st2)) = fdv (release i st2)" by simp
  then have "map fdPart (de_transfers (selectionFinished sv ?t True (release i st2))) = map fdPart (de_transfers (release i st2))"
    and op: "de_open (selectionFinished sv ?t True (release i st2)) = de_open (release i st2)"
    by (simp_all add: fdv_def)
  from arg_cong [OF this(1), of "\<lambda>l. l ! i"] arg_cong [OF this(1), of length]
  have "tr_used (transfer i (selectionFinished sv ?t True (release i st2))) = tr_used (transfer i (release i st2))"
    using len release_other(2) [of i st2] by (simp add: transfer_def fdPart_def)
  then have "\<not> tr_used (transfer i (selectionFinished sv ?t True (release i st2)))" using release_unused [OF len] by simp
  moreover have "written w p st2 = written w p st @ [[]]"
    by (simp add: st2_def written_def emitData_def List.map_filter_def writes_def v_def setTransfer_def)
  moreover have "fd \<notin> de_open (release i st2)" if "tr_fd ?t = Some fd" for fd
    using that s(8) by (simp add: release_def Let_def tr closeFd_def emitData_def freeWindow_def setTransfer_def)
  ultimately show ?thesis unfolding eq op by simp
qed

lemma sending_props:
  "sending i w p file off (st\<lparr>de_props := ps\<rparr>) = sending i w p file off st" "written w q (st\<lparr>de_props := ps\<rparr>) = written w q st"
  "transfer i (st\<lparr>de_props := ps\<rparr>) = transfer i st"
  by (simp_all add: sending_def windowFor_def transfer_def written_def)

definition takeChunks :: "XID \<Rightarrow> xatom \<Rightarrow> nat \<Rightarrow> dataInput list" where
  "takeChunks w p n = concat (replicate n (takeChunk w p))"

lemma takeChunks_run: "dataRun sv (takeChunks w p (Suc n)) st = dataRun sv (takeChunks w p n) (dataRun sv (takeChunk w p) st)"
  by (simp add: takeChunks_def dataRun_def)

lemma send_run:
  assumes "sending i w p file off st" "dv_workOk sv" "dv_changeOk sv w p" "\<forall>fd n. dv_readOk sv fd n" "off \<le> length file"
    and "tr_fd (transfer i st) = Some fd"
  shows "written w p (dataRun sv (takeChunks w p (length (chunks (drop off file)))) st) = written w p st @ chunks (drop off file)
    \<and> \<not> tr_used (transfer i (dataRun sv (takeChunks w p (length (chunks (drop off file)))) st))
    \<and> fd \<notin> de_open (dataRun sv (takeChunks w p (length (chunks (drop off file)))) st)"
  using assms
proof (induction "length file - off" arbitrary: off st rule: less_induct)
  case less
  define u where "u = st\<lparr>de_props := (de_props st)(w := (de_props st w)(p := None))\<rparr>"
  have u: "sending i w p file off u" "written w p u = written w p st" "tr_fd (transfer i u) = Some fd" using less.prems(1,6) by (simp_all add: u_def sending_props)
  have step: "dataRun sv (takeChunk w p) st = snd (sendChunk sv i u)" unfolding u_def by (rule take_chunk_queues [OF less.prems(1,2)])
  show ?case
  proof (cases "off = length file")
    case True
    then have "dataRun sv (takeChunks w p (length (chunks (drop off file)))) st = snd (sendChunk sv i u)"
      by (simp add: takeChunks_run step) (simp add: takeChunks_def dataRun_def)
    then show ?thesis using send_last [OF u(1) [unfolded True] less.prems(3)] u(2,3) True by simp
  next
    case False
    then have off: "off < length file" using less.prems(5) by simp
    let ?n = "chunkLength (length file) off" and ?v = "snd (sendChunk sv i u)"
    note sent = send_chunk [OF u(1) off less.prems(3,4)]
    have n: "0 < ?n" "off + ?n \<le> length file" using off by (simp_all add: chunkLength_def)
    have rest: "drop (off + ?n) file = drop LORIE_DATA_CHUNK (drop off file)" using off by (simp add: chunkLength_def min_def add.commute)
    have c: "chunks (drop off file) = take LORIE_DATA_CHUNK (drop off file) # chunks (drop (off + ?n) file)"
      unfolding rest using off by (intro chunks_Cons) simp
    have "dataRun sv (takeChunks w p (length (chunks (drop off file)))) st = dataRun sv (takeChunks w p (length (chunks (drop (off + ?n) file)))) ?v"
      unfolding c by (simp add: takeChunks_run step)
    moreover have "length file - (off + ?n) < length file - off" using n off by simp
    ultimately show ?thesis using less.hyps [of "off + ?n" ?v] sent less.prems(2,3,4) n(2) u(2,3) by (simp add: c)
  qed
qed

section \<open>Receiving\<close>

text \<open>An incremental transfer from a client into the private window \<open>w\<close>, of which \<open>bytes\<close> have arrived.\<close>

definition receiving :: "nat \<Rightarrow> XID \<Rightarrow> xatom \<Rightarrow> nat \<Rightarrow> u8 list \<Rightarrow> dataState \<Rightarrow> bool" where
  "receiving i w p fd bytes st \<longleftrightarrow>
     de_enabled st \<and> \<not> de_movingProperty st \<and> de_work st = [] \<and> windowFor w st \<and> findIndex (awaits w p) (de_transfers st) = Some i
     \<and> tr_incoming (transfer i st) \<and> \<not> tr_targets (transfer i st) \<and> \<not> tr_queued (transfer i st) \<and> tr_fd (transfer i st) = Some fd
     \<and> de_files st fd = bytes \<and> tr_size (transfer i st) = length bytes
     \<and> tr_generation (transfer i st) = of_generation (de_offers st (tr_channel (transfer i st)))"

text \<open>The owner of the selection puts the next chunk into the property.\<close>

definition putChunk :: "XID \<Rightarrow> xatom \<Rightarrow> xatom \<Rightarrow> u8 list \<Rightarrow> dataInput list" where
  "putChunk w p ty bs = [ClientProperty w p (Some \<lparr>dp_type = ty, dp_data = Data8 bs\<rparr>), RunWork]"

lemma put_chunk_queues:
  assumes "receiving i w p fd bytes st" "dv_workOk sv"
  shows "dataRun sv (putChunk w p ty bs) st
    = receiveBytes sv i bs (st\<lparr>de_props := (de_props st)(w := (de_props st w)(p := Some \<lparr>dp_type = ty, dp_data = Data8 bs\<rparr>))\<rparr>)"
proof -
  define v where "v = \<lparr>dp_type = ty, dp_data = Data8 bs\<rparr>"
  let ?st = "st\<lparr>de_props := (de_props st)(w := (de_props st w)(p := Some v))\<rparr>" and ?t = "transfer i st"
  have a: "awaits w p ?t" "i < length (de_transfers st)" using assms(1) findIndex_Some [of "awaits w p" "de_transfers st" i]
    by (simp_all add: receiving_def transfer_def)
  have f: "findIndex (\<lambda>t. tr_used t \<and> tr_incremental t \<and> tr_requestor t = w \<and> tr_property t = p) (de_transfers st) = Some i"
    using assms(1) unfolding receiving_def awaits_def by simp
  define q where "q = (setTransfer i (?t\<lparr>tr_queued := True\<rparr>) ?st)\<lparr>de_work := [(i, tr_ticket ?t)]\<rparr>"
  have t: "transfer i ?st = ?t" by (simp add: transfer_def)
  have q: "dataStep sv (ClientProperty w p (Some v)) st = q"
    using assms f unfolding receiving_def by (simp add: dataStep_def propertyChanged_def q_def t Let_def)
  have s: "tr_used ?t" "tr_incoming ?t" "\<not> tr_queued ?t" "de_enabled st" "de_work st = []" "\<not> tr_targets ?t" "windowFor w st" "tr_requestor ?t = w" "tr_property ?t = p"
    "tr_generation ?t = of_generation (de_offers st (tr_channel ?t))"
    using assms(1) a(1) by (simp_all add: receiving_def awaits_def)
  have same: "setTransfer i (?t\<lparr>tr_queued := False\<rparr>) ((setTransfer i (?t\<lparr>tr_queued := True\<rparr>) ?st)\<lparr>de_work := []\<rparr>) = ?st"
    using requeued [of i ?st] s by (simp add: transfer_def)
  have "dataStep sv RunWork q = receive sv i False ?st"
    using s a(2) same by (simp add: dataStep_def q_def propertyWork_def Let_def transfer_def setTransfer_def)
  also have "\<dots> = receiveBytes sv i bs ?st"
    using s by (simp add: receive_def Let_def sending_props(3) windowFor_def v_def)
  finally show ?thesis by (simp add: putChunk_def dataRun_def q flip: v_def)
qed

lemma receiving_props:
  "receiving i w p fd bytes (st\<lparr>de_props := ps\<rparr>) = receiving i w p fd bytes st"
  by (simp add: receiving_def windowFor_def transfer_def)

lemma writeAt_end: "writeAt bs (length file) file = file @ bs"
  by (simp add: writeAt_def)

lemma receive_chunk:
  assumes "receiving i w p fd bytes st" "bs \<noteq> []" "length bytes + length bs \<le> LORIE_DATA_MAX_BYTES" "\<forall>fd n. dv_writeOk sv fd n"
  shows "receiving i w p fd (bytes @ bs) (receiveBytes sv i bs st)"
proof -
  let ?t = "transfer i st"
  have a: "awaits w p ?t" "i < length (de_transfers st)" using assms(1) findIndex_Some [of "awaits w p" "de_transfers st" i]
    by (simp_all add: receiving_def transfer_def)
  define t where "t = ?t\<lparr>tr_size := length bytes + length bs\<rparr>"
  define u where "u = setTransfer i t (st\<lparr>de_files := (de_files st)(fd := bytes @ bs)\<rparr>)"
  have s: "tr_fd ?t = Some fd" "tr_size ?t = length bytes" "tr_incremental ?t" "tr_requestor ?t = w" "tr_property ?t = p" "de_files st fd = bytes"
    using assms(1) a(1) by (simp_all add: receiving_def awaits_def)
  have tt: "?t\<lparr>tr_fd := Some fd, tr_size := length bytes + length bs\<rparr> = t" using s(1) by (cases ?t) (simp add: t_def)
  have "tr_incremental t" "tr_requestor t = w" "tr_property t = p" using s by (simp_all add: t_def)
  then have eq: "receiveBytes sv i bs st = deleteProperty sv w p u"
    using s assms(2,3,4) by (simp add: receiveBytes_def Let_def writeAt_end tt setTransfer_def u_def)
  have tr: "transfer i u = t" using a(2) by (simp add: u_def transfer_def setTransfer_def)
  have aw: "awaits w p t" using a(1) by (simp add: awaits_def t_def)
  have f: "findIndex (awaits w p) (de_transfers u) = Some i"
    using assms(1) aw by (simp add: u_def setTransfer_def receiving_def findIndex_update)
  have r: "receiving i w p fd (bytes @ bs) u"
    using assms(1) f unfolding receiving_def tr by (simp add: u_def t_def setTransfer_def windowFor_def)
  have "receiving i w p fd (bytes @ bs) (emitData (DelProperty w p) (u\<lparr>de_props := ps\<rparr>))" for ps
    using r by (simp add: receiving_def windowFor_def transfer_def emitData_def)
  moreover have "deleteProperty sv w p u = emitData (DelProperty w p) (u\<lparr>de_props := (de_props u)(w := (de_props u w)(p := None))\<rparr>)"
    using r f tr unfolding awaits_def receiving_def
    by (simp add: deleteProperty_def propertyChanged_def emitData_def Let_def transfer_def)
  ultimately show ?thesis unfolding eq by simp
qed

lemma receive_last:
  assumes "receiving i w p fd bytes st"
  shows "\<not> tr_used (transfer i (receiveBytes sv i [] st)) \<and> de_files (receiveBytes sv i [] st) fd = bytes
    \<and> fd \<notin> de_open (receiveBytes sv i [] st)
    \<and> Emit \<lparr>dx_operation = LORIE_DATA_REPLY, dx_channel = tr_channel (transfer i st), dx_serial = tr_serial (transfer i st),
         dx_offer = tr_generation (transfer i st), dx_output = 0, dx_window = 0, dx_x = 1, dx_y = 0,
         dx_mime = cMime (case dv_name sv (tr_target (transfer i st)) of None \<Rightarrow> [] | Some m \<Rightarrow> m)\<rparr> (Some fd)
       \<in> set (de_log (receiveBytes sv i [] st))"
proof -
  let ?t = "transfer i st"
  have a: "awaits w p ?t" "i < length (de_transfers st)" using assms(1) findIndex_Some [of "awaits w p" "de_transfers st" i]
    by (simp_all add: receiving_def transfer_def)
  have s: "tr_fd ?t = Some fd" "tr_used ?t" "de_files st fd = bytes" using assms(1) a(1) by (simp_all add: receiving_def awaits_def)
  have tt: "?t\<lparr>tr_fd := Some fd\<rparr> = ?t" using s(1) by (cases ?t) simp
  have st: "setTransfer i ?t st = st" by (cases st) (simp add: setTransfer_def transfer_def)
  have "?t\<lparr>tr_fd := Some fd, tr_size := tr_size ?t\<rparr> = ?t" using s(1) by (cases ?t) simp
  then have eq: "receiveBytes sv i [] st = release i (emit LORIE_DATA_REPLY (tr_channel ?t) (tr_serial ?t) (tr_generation ?t) (dv_name sv (tr_target ?t)) (Some fd) 0 0 1 st)"
    using s(1) by (simp add: receiveBytes_def Let_def tt st)
  show ?thesis unfolding eq using s a(2)
    by (auto simp: release_def Let_def emit_def emitData_def closeFd_def freeWindow_def setTransfer_def transfer_def)
qed

definition putChunks :: "XID \<Rightarrow> xatom \<Rightarrow> xatom \<Rightarrow> u8 list list \<Rightarrow> dataInput list" where
  "putChunks w p ty cs = concat (map (putChunk w p ty) cs)"

lemma receive_run:
  assumes "receiving i w p fd bytes st" "dv_workOk sv" "\<forall>fd n. dv_writeOk sv fd n" "\<forall>c \<in> set cs. c \<noteq> []"
    and "length bytes + length (concat cs) \<le> LORIE_DATA_MAX_BYTES"
  shows "receiving i w p fd (bytes @ concat cs) (dataRun sv (putChunks w p ty cs) st)"
  using assms
proof (induction cs arbitrary: bytes st)
  case Nil
  then show ?case by (simp add: putChunks_def dataRun_def)
next
  case (Cons c cs)
  let ?u = "st\<lparr>de_props := (de_props st)(w := (de_props st w)(p := Some \<lparr>dp_type = ty, dp_data = Data8 c\<rparr>))\<rparr>"
  have "receiving i w p fd (bytes @ c) (receiveBytes sv i c ?u)"
    by (rule receive_chunk) (use Cons.prems in \<open>simp_all add: receiving_props\<close>)
  then show ?case
    using Cons.IH [of "bytes @ c" "receiveBytes sv i c ?u"] Cons.prems put_chunk_queues [OF Cons.prems(1,2), of ty c]
    by (simp add: putChunks_def dataRun_def)
qed

text \<open>The host was told that the file behind \<open>fd\<close> is complete.\<close>

definition delivered :: "nat \<Rightarrow> dataState \<Rightarrow> bool" where
  "delivered fd st \<longleftrightarrow> (\<exists>ev. Emit ev (Some fd) \<in> set (de_log st) \<and> dx_operation ev = LORIE_DATA_REPLY \<and> dx_x ev = 1)"

text \<open>
  C13: What one side sends arrives on the other: the chunks that the server puts into the property of a
  client, each when the one before was taken, and an empty one at the end, are the file; and when a
  client sends these chunks, the file that the host is given has exactly these bytes.  Both
  transfers are over then and their descriptors closed.
\<close>

theorem incremental_transfer_roundtrip:
  assumes "sending i w p file 0 st" "dv_workOk sv" "dv_changeOk sv w p" "\<forall>fd n. dv_readOk sv fd n" "tr_fd (transfer i st) = Some fd"
    and "receiving j w2 p2 fd2 [] st2" "dv_workOk sv2" "\<forall>fd n. dv_writeOk sv2 fd n"
    and "length file \<le> LORIE_DATA_MAX_BYTES"
  shows "let sent = chunks file; out = dataRun sv (takeChunks w p (length sent)) st; inn = dataRun sv2 (putChunks w2 p2 ty sent) st2
    in written w p out = written w p st @ sent \<and> concat sent = file \<and> \<not> tr_used (transfer i out) \<and> fd \<notin> de_open out
       \<and> de_files inn fd2 = file \<and> delivered fd2 inn \<and> \<not> tr_used (transfer j inn) \<and> fd2 \<notin> de_open inn"
proof -
  have out: "written w p (dataRun sv (takeChunks w p (length (chunks file))) st) = written w p st @ chunks file"
    "\<not> tr_used (transfer i (dataRun sv (takeChunks w p (length (chunks file))) st))" "fd \<notin> de_open (dataRun sv (takeChunks w p (length (chunks file))) st)"
    using send_run [OF assms(1-4) _ assms(5)] by simp_all
  obtain cs where cs: "chunks file = cs @ [[]]" "\<forall>c \<in> set cs. c \<noteq> []" using chunks_last [of "file"] by blast
  have whole: "concat cs = file" using concat_chunks [of "file"] unfolding cs(1) by simp
  define u where "u = dataRun sv2 (putChunks w2 p2 ty cs) st2"
  have u: "receiving j w2 p2 fd2 file u"
    using receive_run [OF assms(6-8) cs(2), of ty] assms(9) by (simp add: whole u_def)
  define v where "v = u\<lparr>de_props := (de_props u)(w2 := (de_props u w2)(p2 := Some \<lparr>dp_type = ty, dp_data = Data8 []\<rparr>))\<rparr>"
  have inn: "dataRun sv2 (putChunks w2 p2 ty (chunks file)) st2 = receiveBytes sv2 j [] v"
    using put_chunk_queues [OF u assms(7), of ty "[]"] by (simp add: putChunks_def dataRun_def cs(1) u_def v_def)
  have "receiving j w2 p2 fd2 file v" using u by (simp add: v_def receiving_props)
  from receive_last [OF this, of sv2]
  have "\<not> tr_used (transfer j (receiveBytes sv2 j [] v))" "de_files (receiveBytes sv2 j [] v) fd2 = file" "fd2 \<notin> de_open (receiveBytes sv2 j [] v)"
    "delivered fd2 (receiveBytes sv2 j [] v)"
    unfolding delivered_def by (auto intro!: exI)
  then show ?thesis unfolding Let_def inn using out by simp
qed

section \<open>A transfer in each direction\<close>

text \<open>The host offers text, a client asks for it, the host replies with a file of 70000 bytes.\<close>

definition demoFile :: "u8 list" where
  "demoFile = replicate 70000 7"

definition demoSending :: dataState where
  "demoSending = dataRun demoData
     [Convert \<lparr>cr_requestor = 9, cr_selection = demoAtom ''CLIPBOARD'', cr_target = demoAtom ''text/plain'', cr_property = 3, cr_time = 7\<rparr>,
      Command ((demoEvent LORIE_DATA_REPLY)\<lparr>dx_serial := 1\<rparr>) (Some \<lparr>hf_bytes = demoFile, hf_statOk = True, hf_regular = True\<rparr>)] demoTransfers"

lemma demo_sending: "sending 0 9 3 demoFile 0 demoSending"
proof -
  have len: "length demoFile = 70000" by (simp add: demoFile_def)
  have free: "findIndex (\<lambda>t. \<not> tr_used t) (de_transfers (dataStart demoOutputs)) = Some 0"
    by (rule findIndex_first) (simp_all add: dataStart_def)
  define t where "t = demoTransfer\<lparr>tr_incoming := False, tr_serial := 1, tr_generation := 5, tr_requestor := 9, tr_property := 3, tr_time := 7\<rparr>"
  define s where "s = dataStep demoData (Convert \<lparr>cr_requestor = 9, cr_selection = demoAtom ''CLIPBOARD'', cr_target = demoAtom ''text/plain'', cr_property = 3, cr_time = 7\<rparr>) demoTransfers"
  have ne: "demoAtom ''text/plain'' \<noteq> demoAtom ''TARGETS''" "demoAtom ''text/plain'' \<noteq> demoAtom ''TIMESTAMP''" by (simp_all add: demoAtom_def)
  have s: "de_enabled s" "de_bridge s = 100" "\<not> de_movingProperty s" "de_work s = []" "de_transfers s = (de_transfers (dataStart demoOutputs))[0 := t]" "windowFor 9 s" "de_nextFd s = 1"
    unfolding s_def demo_offered
    by (simp_all add: dataStep_def convert_def channelOf_def outgoingTransfer_def allocateTransfer_def free setTransfer_def transfer_def demo_length
        Let_def windowFor_def emit_def emitData_def atomTargets_def atomTimestamp_def)
      (simp_all add: demoData_def ne t_def demoTransfer_def dataStart_def)
  define ev where "ev = (demoEvent LORIE_DATA_REPLY)\<lparr>dx_serial := 1\<rparr>"
  have ev: "dx_operation ev = LORIE_DATA_REPLY" "dx_channel ev = 0" "dx_serial ev = 1" "dx_offer ev = 5" by (simp_all add: ev_def demoEvent_def)
  have sv: "dv_hasRoot demoData" "dv_changeOk demoData w p" for w p by (simp_all add: demoData_def)
  define u where "u = s\<lparr>de_nextFd := 2, de_open := insert 1 (de_open s), de_files := (de_files s)(1 := demoFile)\<rparr>"
  have u: "de_enabled u" "de_bridge u = 100" "\<not> de_movingProperty u" "de_work u = []" "de_transfers u = (de_transfers (dataStart demoOutputs))[0 := t]" "windowFor 9 u"
    "de_files u 1 = demoFile" using s by (simp_all add: u_def windowFor_def)
  have reply: "replyIndex ev u = Some 0" unfolding replyIndex_def using u(5) by (simp add: demo_first ev t_def demoTransfer_def)
  define r where "r = t\<lparr>tr_fd := Some 1, tr_size := 70000\<rparr>"
  have r: "tr_requestor r = 9" "tr_property r = 3" "tr_size r = 70000" "tr_incoming r = False" "tr_used r" by (simp_all add: r_def t_def demoTransfer_def)
  have "transfer 0 u = t" using u(5) by (simp add: transfer_def demo_length)
  then have "replyTo demoData 0 (Some 1) True True u = (True, deliverReply demoData 0 r (setTransfer 0 r u))"
    using u(7) len by (simp add: replyTo_def Let_def r_def)
  then have "dispatchData demoData ev (Some 1) True True u = (None, deliverReply demoData 0 r (setTransfer 0 r u))"
    using u(1,2) by (simp add: dispatchData_def dataSwitch_def ev sv reply Let_def)
  moreover have "demoSending = dataStep demoData (Command ev (Some \<lparr>hf_bytes = demoFile, hf_statOk = True, hf_regular = True\<rparr>)) s"
    by (simp add: demoSending_def dataRun_def s_def ev_def)
  ultimately have run: "demoSending = deliverReply demoData 0 r (setTransfer 0 r u)"
    using s(7) by (simp add: dataStep_def lorieDataCommand_def takeFile_def openFile_def Let_def u_def numeral_2_eq_2)
  have w: "9 \<in> set (de_own u) \<or> list_ex (\<lambda>w. w_id (de_store u w) = 9) (pre (de_tree u))" using u(6) by (simp add: windowFor_def)
  have e: "de_enabled demoSending" "\<not> de_movingProperty demoSending" "de_work demoSending = []" "windowFor 9 demoSending"
    "de_transfers demoSending = (de_transfers (dataStart demoOutputs))[0 := r\<lparr>tr_incremental := True\<rparr>]" "de_files demoSending 1 = demoFile"
    unfolding run using u(1,3,4,5,7) w r
    by (simp_all add: deliverReply_def transfer_def setTransfer_def demo_length Let_def windowFor_def changeProperty_def sv
        propertyChanged_def notify_def emitData_def demo_first)
  show ?thesis unfolding sending_def using e len
    by (simp add: demo_first awaits_def transfer_def demo_length r_def t_def demoTransfer_def)
qed

lemma demo_receiving: "receiving 0 101 (demoAtom ''_MAGICDESK_DATA'') 0 [] demoBegun"
  unfolding receiving_def using demo_begun
  by (simp add: demo_first awaits_def transfer_def demo_length demoTransfer_def windowFor_def demo_reading)

theorem incremental_transfer_roundtrip_witness:
  "let sent = chunks demoFile; out = dataRun demoData (takeChunks 9 3 (length sent)) demoSending;
       inn = dataRun demoData (putChunks 101 (demoAtom ''_MAGICDESK_DATA'') 1 sent) demoBegun
   in written 9 3 out = written 9 3 demoSending @ sent \<and> concat sent = demoFile \<and> \<not> tr_used (transfer 0 out)
      \<and> de_files inn 0 = demoFile \<and> delivered 0 inn \<and> de_open inn \<inter> {0} = {}"
proof -
  have sv: "dv_workOk demoData" "dv_changeOk demoData 9 3" "\<forall>fd n. dv_readOk demoData fd n" "\<forall>fd n. dv_writeOk demoData fd n"
    by (simp_all add: demoData_def)
  obtain fd where fd: "tr_fd (transfer 0 demoSending) = Some fd" using demo_sending by (auto simp: sending_def)
  have "length demoFile \<le> LORIE_DATA_MAX_BYTES" by (simp add: demoFile_def)
  from incremental_transfer_roundtrip [OF demo_sending sv(1,2,3) fd demo_receiving sv(1,4) this, of 1]
  show ?thesis by (simp add: Let_def)
qed

end
