(* ===== verification/Data_Types.thy ===== *)
theory Data_Types
  imports Data_Transfer
begin

text \<open>
  The shape of the bridge's tables (\<open>data_exchange.c\<close>): sixteen transfers, each on one of the two
  channels and no longer than the limit, and offers that fit their arrays.  The unsigned
  subtraction in \<open>receive\<close> and the copies of \<open>convert\<close> rely on it.
\<close>

section \<open>What has to hold\<close>

type_synonym tyView = "(nat \<times> nat) list \<times> (nat \<Rightarrow> Offer)"

definition tyPart :: "Transfer \<Rightarrow> nat \<times> nat" where
  "tyPart t = (tr_channel t, tr_size t)"

definition tyv :: "dataState \<Rightarrow> tyView" where
  "tyv st = (map tyPart (de_transfers st), de_offers st)"

definition typed :: "tyView \<Rightarrow> bool" where
  "typed v = (case v of (ts, off) \<Rightarrow>
     length ts = MAX_PENDING \<and> list_all (\<lambda>(c, n). c \<le> 1 \<and> n \<le> LORIE_DATA_MAX_BYTES) ts
     \<and> (\<forall>c. length (of_targets (off c)) \<le> LORIE_DATA_MAX_TARGETS))"

lemma tyv_emitData [simp]: "tyv (emitData e st) = tyv st"
  by (simp add: tyv_def emitData_def)

lemma tyv_emit [simp]: "tyv (emit a b c d e f g h i st) = tyv st"
  and tyv_message [simp]: "tyv (message sv x y k l1 l2 l3 l4 l5 st) = tyv st"
  and tyv_notify [simp]: "tyv (notify sv t ok st) = tyv st"
  by (simp_all add: emit_def message_def notify_def)

lemma tyv_setTransfer: "tyPart t = tyPart (transfer i st) \<Longrightarrow> tyv (setTransfer i t st) = tyv st"
  by (simp add: tyv_def setTransfer_def transfer_def map_update_same)

lemma tyv_upd [simp]:
  "tyv (st\<lparr>de_work := a1\<rparr>) = tyv st" "tyv (st\<lparr>de_props := a2\<rparr>) = tyv st" "tyv (st\<lparr>de_movingProperty := a3\<rparr>) = tyv st"
  "tyv (st\<lparr>de_sequence := a4\<rparr>) = tyv st" "tyv (st\<lparr>de_sel := a5\<rparr>) = tyv st" "tyv (st\<lparr>de_files := a6\<rparr>) = tyv st"
  "tyv (st\<lparr>de_transferSequence := a7\<rparr>) = tyv st" "tyv (st\<lparr>de_requestSequence := a7\<rparr>) = tyv st" "tyv (st\<lparr>de_out := a8\<rparr>) = tyv st"
  "tyv (st\<lparr>de_open := a9\<rparr>) = tyv st" "tyv (st\<lparr>de_nextFd := b1\<rparr>) = tyv st" "tyv (st\<lparr>de_own := b2\<rparr>) = tyv st" "tyv (st\<lparr>de_newWindows := b3\<rparr>) = tyv st"
  "tyv (st\<lparr>de_dragMove := b4\<rparr>) = tyv st" "tyv (st\<lparr>de_dragMoveQueued := b5\<rparr>) = tyv st" "tyv (st\<lparr>de_dragOutput := b6\<rparr>) = tyv st"
  "tyv (st\<lparr>de_dragPositionPending := b5\<rparr>) = tyv st" "tyv (st\<lparr>de_dragPositionDataRevision := b6\<rparr>) = tyv st" "tyv (st\<lparr>de_dragDropPending := b5\<rparr>) = tyv st"
  "tyv (st\<lparr>de_dragTarget := b6\<rparr>) = tyv st" "tyv (st\<lparr>de_dragProxy := b6\<rparr>) = tyv st" "tyv (st\<lparr>de_dragAccepted := b5\<rparr>) = tyv st"
  "tyv (st\<lparr>de_dragVersion := b6\<rparr>) = tyv st" "tyv (st\<lparr>de_dragDataRevision := b6\<rparr>) = tyv st" "tyv (st\<lparr>de_dragPassthrough := b5\<rparr>) = tyv st"
  "tyv (st\<lparr>de_dragSource := b6\<rparr>) = tyv st" "tyv (st\<lparr>de_bridge := b6\<rparr>) = tyv st" "tyv (st\<lparr>de_enabled := b5\<rparr>) = tyv st"
  "tyv (st\<lparr>de_clipboardActive := b5\<rparr>) = tyv st" "tyv (st\<lparr>de_pointerDown := b5\<rparr>) = tyv st" "tyv (st\<lparr>de_pointerOutput := b6\<rparr>) = tyv st"
  "tyv (st\<lparr>de_pointerWindow := b6\<rparr>) = tyv st" "tyv (st\<lparr>de_catcher := b6\<rparr>) = tyv st" "tyv (st\<lparr>de_exportedSource := b6\<rparr>) = tyv st"
  "tyv (st\<lparr>de_exportedOutput := b6\<rparr>) = tyv st" "tyv (st\<lparr>de_exportedWindow := b6\<rparr>) = tyv st" "tyv (st\<lparr>de_exportDropped := b5\<rparr>) = tyv st"
  "tyv (st\<lparr>de_exportCompleted := b5\<rparr>) = tyv st" "tyv (st\<lparr>de_exportSuccess := b5\<rparr>) = tyv st" "tyv (st\<lparr>de_exportTimer := b5\<rparr>) = tyv st"
  "tyv (st\<lparr>de_tree := c1\<rparr>) = tyv st" "tyv (st\<lparr>de_store := c2\<rparr>) = tyv st" "tyv (st\<lparr>de_now := b6\<rparr>) = tyv st"
  by (simp_all add: tyv_def)

section \<open>Operations that leave it alone\<close>

lemma tyv_small [simp]:
  "tyv (closeFd fd st) = tyv st" "tyv (freeWindow w st) = tyv st" "tyv (snd (newWindow sv st)) = tyv st" "tyv (snd (openFile bs st)) = tyv st"
  "tyv (resetDrag st) = tyv st"
  by (simp_all add: closeFd_def freeWindow_def newWindow_def openFile_def resetDrag_def Let_def)

lemma tyv_bytesFile [simp]: "tyv (snd (bytesFile sv bs st)) = tyv st"
proof -
  obtain fd s where o: "openFile [] st = (fd, s)" by fastforce
  then have "s = snd (openFile [] st)" by simp
  then have "tyv s = tyv st" by simp
  then show ?thesis by (simp add: bytesFile_def o)
qed

lemma transfer_frame [simp]: "transfer i (closeFd fd st) = transfer i st" "transfer i (freeWindow w st) = transfer i st"
  by (simp_all add: transfer_def closeFd_def freeWindow_def emitData_def)

lemma tyv_release [simp]: "tyv (release i st) = tyv st"
  by (auto simp: release_def Let_def tyPart_def intro!: trans [OF tyv_setTransfer] split: option.splits)

lemma tyv_propertyChanged [simp]: "tyv (propertyChanged sv w p c st) = tyv st"
  by (auto simp: propertyChanged_def Let_def tyPart_def intro!: tyv_setTransfer split: option.splits)

lemma tyv_properties [simp]: "tyv (snd (changeProperty sv w p ty d st)) = tyv st" "tyv (deleteProperty sv w p st) = tyv st"
  by (simp_all add: changeProperty_def deleteProperty_def Let_def)

lemma tyv_moveDrag [simp]: "tyv (moveDrag sv ev st) = tyv st"
proof -
  have "tyv (enterTarget sv n s) = tyv s" for n s unfolding enterTarget_def Let_def by simp
  then show ?thesis by (simp add: moveDrag_def Let_def split: option.splits prod.splits)
qed

lemma tyv_drop [simp]: "tyv (rejectDrag sv st) = tyv st" "tyv (dropDrag sv st) = tyv st" "tyv (selectionFinished sv t ok st) = tyv st"
proof -
  show r: "tyv (rejectDrag sv s) = tyv s" for s by (simp add: rejectDrag_def Let_def)
  show d: "tyv (dropDrag sv s) = tyv s" for s by (simp add: dropDrag_def Let_def r)
  show "tyv (selectionFinished sv t ok st) = tyv st" by (simp add: selectionFinished_def Let_def r d)
qed

lemma tyv_failTransfer [simp]: "tyv (failTransfer sv i st) = tyv st"
  by (simp add: failTransfer_def Let_def)

lemma tyv_publishTargets [simp]: "tyv (publishTargets sv c st) = tyv st"
  by (simp add: publishTargets_def Let_def split_beta split: option.splits)

lemma tyv_export [simp]: "tyv (releaseExportPointer st) = tyv st" "tyv (endExport sv st) = tyv st" "tyv (beginExport sv st) = tyv st"
proof -
  show r: "tyv (releaseExportPointer s) = tyv s" for s by (simp add: releaseExportPointer_def Let_def)
  show "tyv (endExport sv st) = tyv st" unfolding endExport_def Let_def r by simp
  show "tyv (beginExport sv st) = tyv st" unfolding beginExport_def Let_def split_beta by simp
qed

lemma tyv_failChannel [simp]: "tyv (failChannel sv c is st) = tyv st"
  by (induction "is" arbitrary: st) simp_all

section \<open>Operations that change the tables\<close>

abbreviation dataTyped :: "dataState \<Rightarrow> bool" where
  "dataTyped st \<equiv> typed (tyv st)"

lemma typed_set: "dataTyped st \<Longrightarrow> tr_channel t \<le> 1 \<Longrightarrow> tr_size t \<le> LORIE_DATA_MAX_BYTES \<Longrightarrow> dataTyped (setTransfer i t st)"
  by (auto simp: typed_def tyv_def setTransfer_def tyPart_def list_all_iff dest!: set_update_subset_insert [THEN subsetD])

lemma typed_slot: "dataTyped st \<Longrightarrow> i < MAX_PENDING \<Longrightarrow> tr_channel (transfer i st) \<le> 1 \<and> tr_size (transfer i st) \<le> LORIE_DATA_MAX_BYTES"
  by (auto simp: typed_def tyv_def tyPart_def list_all_iff transfer_def)

lemma typed_length: "dataTyped st \<Longrightarrow> length (de_transfers st) = MAX_PENDING"
  by (simp add: typed_def tyv_def)

lemma typed_offer: "dataTyped st \<Longrightarrow> length (of_targets off) \<le> LORIE_DATA_MAX_TARGETS \<Longrightarrow> dataTyped (st\<lparr>de_offers := (de_offers st)(c := off)\<rparr>)"
  by (simp add: typed_def tyv_def)

lemma typed_allocate:
  assumes "dataTyped st" "c \<le> 1"
  shows "dataTyped (snd (allocateTransfer sv inc c serial g st))"
proof -
  have "dataTyped (st\<lparr>de_transferSequence := n\<rparr>)" for n using assms(1) by simp
  then show ?thesis using assms typed_set by (simp add: allocateTransfer_def Let_def split: option.splits)
qed

lemma typed_request:
  assumes "dataTyped st" "c \<le> 1"
  shows "dataTyped (request sv c serial g tg l st)"
proof -
  obtain r s where a: "allocateTransfer sv True c serial g st = (r, s)" by fastforce
  have s: "dataTyped s" using typed_allocate [OF assms, of sv True serial g] a by simp
  obtain w u where n: "newWindow sv s = (w, u)" by fastforce
  then have "u = snd (newWindow sv s)" by simp
  then have u: "dataTyped u" using s by simp
  have same: "tyv (setTransfer i ((transfer i u)\<lparr>tr_target := x1, tr_targets := x2, tr_property := x3, tr_requestor := x4\<rparr>) u) = tyv u" for i x1 x2 x3 x4
    by (rule tyv_setTransfer) (simp add: tyPart_def)
  show ?thesis using assms(1) s u by (simp add: request_def Let_def a n same split: option.splits)
qed

lemma typed_receiveTargets: "dataTyped st \<Longrightarrow> dataTyped (receiveTargets sv i v st)"
  using typed_offer [of st] by (auto simp: receiveTargets_def Let_def pickTargets_def split: propData.splits)

lemma typed_startIncremental:
  assumes "dataTyped st" "i < MAX_PENDING"
  shows "dataTyped (startIncremental sv i n st)"
proof -
  obtain fd s where f: "bytesFile sv [] st = (fd, s)" by fastforce
  then have "s = snd (bytesFile sv [] st)" by simp
  then have s: "dataTyped s" using assms(1) by simp
  have t: "dataTyped (setTransfer i t s)" if "tyPart t = tyPart (transfer i st)" for t
    using typed_set [OF s, of t i] that typed_slot [OF assms] by (simp add: tyPart_def)
  show ?thesis using assms(1) t s by (simp add: startIncremental_def Let_def f tyPart_def)
qed

lemma typed_receiveBytes:
  assumes "dataTyped st" "i < MAX_PENDING"
  shows "dataTyped (receiveBytes sv i bs st)"
proof -
  let ?t = "transfer i st"
  obtain fd s where f: "(case tr_fd ?t of Some fd \<Rightarrow> (Some fd, st) | None \<Rightarrow> bytesFile sv [] st) = (fd, s)" by fastforce
  then have "s = st \<or> s = snd (bytesFile sv [] st)" by (auto split: option.splits)
  then have s: "dataTyped s" using assms(1) by auto
  note slot = typed_slot [OF assms]
  have t: "dataTyped (setTransfer i t s)" if "tr_channel t = tr_channel ?t" "tr_size t \<le> LORIE_DATA_MAX_BYTES" for t
    by (rule typed_set [OF s]) (use that slot in simp_all)
  have g: "dataTyped (setTransfer i t ((setTransfer i u s)\<lparr>de_files := x\<rparr>))"
    if "tr_channel t = tr_channel ?t" "tr_size t \<le> LORIE_DATA_MAX_BYTES" "tr_channel u = tr_channel ?t" "tr_size u \<le> LORIE_DATA_MAX_BYTES" for t u x
    by (rule typed_set) (use that slot t in simp_all)
  have g2: "dataTyped (setTransfer i t (setTransfer i u s))"
    if "tr_channel t = tr_channel ?t" "tr_size t \<le> LORIE_DATA_MAX_BYTES" "tr_channel u = tr_channel ?t" "tr_size u \<le> LORIE_DATA_MAX_BYTES" for t u
    by (rule typed_set) (use that slot t in simp_all)
  have sz: "tr_size ?t + length bs \<le> LORIE_DATA_MAX_BYTES" if "\<not> length bs > LORIE_DATA_MAX_BYTES - tr_size ?t" using that slot by linarith
  show ?thesis using assms(1) t g g2 sz slot by (simp add: receiveBytes_def Let_def f split: option.splits)
qed

lemma typed_receive: "dataTyped st \<Longrightarrow> i < MAX_PENDING \<Longrightarrow> dataTyped (receive sv i initial st)"
  using typed_receiveTargets typed_startIncremental typed_receiveBytes
  by (simp add: receive_def Let_def split: option.splits propData.splits list.splits)

lemma typed_sendChunk:
  assumes "dataTyped st" "i < MAX_PENDING"
  shows "dataTyped (snd (sendChunk sv i st))"
proof -
  have "tyv (setTransfer i ((transfer i st)\<lparr>tr_offset := n\<rparr>) st) = tyv st" "tyv (setTransfer i (transfer i st) st) = tyv st" for n
    by (rule tyv_setTransfer, simp add: tyPart_def)+
  then show ?thesis using assms(1) by (simp add: sendChunk_def Let_def split_beta split: option.splits)
qed

lemma typed_propertyWork: "dataTyped st \<Longrightarrow> dataTyped (propertyWork sv w st)"
proof -
  assume ok: "dataTyped st"
  have same: "tyv (setTransfer i ((transfer i st)\<lparr>tr_queued := q\<rparr>) st) = tyv st" for i q by (rule tyv_setTransfer) (simp add: tyPart_def)
  show ?thesis using ok same typed_receive typed_sendChunk typed_length [OF ok] by (simp add: propertyWork_def Let_def split_beta)
qed

lemma typed_selectionChanged: "dataTyped st \<Longrightarrow> dataTyped (selectionChanged sv a k w st)"
proof -
  assume ok: "dataTyped st"
  have c: "ch \<le> 1" if "channelOf sv a = Some ch" for ch using that by (auto simp: channelOf_def split: if_splits)
  have off: "dataTyped (s\<lparr>de_sequence := n, de_offers := (de_offers s)(ch := off)\<rparr>)" if "dataTyped s" "of_targets off = []" for s n ch off
    using typed_offer [of "s\<lparr>de_sequence := n\<rparr>" off ch] that by simp
  show ?thesis unfolding selectionChanged_def Let_def
    using ok c by (auto intro!: typed_request off split: option.splits simp del: upt.simps)
qed

lemma typed_own: "dataTyped st \<Longrightarrow> dataTyped (snd (own sv c st))"
  using typed_selectionChanged by (simp add: own_def Let_def split: option.splits)

lemma typed_convert: "dataTyped st \<Longrightarrow> dataTyped (convert sv r st)"
proof -
  assume ok: "dataTyped st"
  have out: "dataTyped (snd (outgoingTransfer sv c r st))" if "c \<le> 1" for c
  proof -
    define n where "n = de_requestSequence st + 1"
    obtain k s where a: "allocateTransfer sv False c n (of_generation (de_offers st c)) (st\<lparr>de_requestSequence := n\<rparr>) = (k, s)" by fastforce
    have "dataTyped (st\<lparr>de_requestSequence := n\<rparr>)" using ok by simp
    from typed_allocate [OF this that, of sv False n "of_generation (de_offers st c)"] have s: "dataTyped s" using a by simp
    have "tyv (setTransfer i ((transfer i s)\<lparr>tr_requestor := x1, tr_target := x2, tr_property := x3, tr_time := x4\<rparr>) s) = tyv s" for i x1 x2 x3 x4
      by (rule tyv_setTransfer) (simp add: tyPart_def)
    then show ?thesis using s by (simp add: outgoingTransfer_def Let_def a flip: n_def split: option.splits)
  qed
  have ans: "tyv (answer sv i ty vs s) = tyv s" for i ty vs s by (simp add: answer_def Let_def split_beta)
  show ?thesis
  proof (cases "channelOf sv (cr_selection r)")
    case None
    then show ?thesis using ok by (simp add: convert_def)
  next
    case (Some c)
    then have "c \<le> 1" by (auto simp: channelOf_def split: if_splits)
    moreover obtain k s where o: "outgoingTransfer sv c r st = (k, s)" by fastforce
    ultimately have "dataTyped s" using out [of c] by simp
    then show ?thesis using ok by (simp add: convert_def Some o Let_def ans split: option.splits)
  qed
qed

lemma tyv_clientMessage [simp]: "tyv (clientMessage sv w ty l0 l1 l4 st) = tyv st"
proof -
  have e: "tyv s = tyv st" if "exportMessage sv k st = Some s" for k s using that by (cases k) (auto simp: exportMessage_def Let_def)
  have d: "tyv s = tyv st" if "dragMessage sv k l1 l4 st = Some s" for k s using that by (cases k) (auto simp: dragMessage_def Let_def)
  show ?thesis using e d by (auto simp: clientMessage_def Let_def split: option.splits if_splits)
qed

lemma typed_sendEvent: "dataTyped st \<Longrightarrow> dataTyped (sendEvent sv ev st)"
proof (cases ev)
  case (SelectionNotifyEvent r s t p)
  assume ok: "dataTyped st"
  have "i < MAX_PENDING" if "findIndex P (de_transfers st) = Some i" for P i using findIndex_Some [OF that] typed_length [OF ok] by simp
  then show ?thesis using ok typed_receive SelectionNotifyEvent by (simp add: sendEvent_def split: option.splits)
qed (simp_all add: sendEvent_def)

lemma addTargets_length: "addTargets sv ss ts = Some ts2 \<Longrightarrow> length ts \<le> LORIE_DATA_MAX_TARGETS \<Longrightarrow> length ts2 \<le> LORIE_DATA_MAX_TARGETS"
proof (induction ss arbitrary: ts)
  case (Cons s ss)
  then show ?case using Cons.IH [of "ts @ [dv_atom sv s]"] by (auto split: if_splits)
qed simp

lemma readTargets_length: "readTargets sv fd ok st = Some ts \<Longrightarrow> length ts \<le> LORIE_DATA_MAX_TARGETS"
  by (auto simp: readTargets_def Let_def split: option.splits if_splits dest!: addTargets_length)

lemma typed_replyTo:
  assumes "dataTyped st" "i < MAX_PENDING"
  shows "dataTyped (snd (replyTo sv i fd a b st))"
proof -
  have d: "dataTyped (deliverReply sv i t s)" if "dataTyped s" "transfer i s = t" for t s
  proof -
    have slot: "tr_channel t \<le> 1" "tr_size t \<le> LORIE_DATA_MAX_BYTES" using typed_slot [OF that(1) assms(2)] that(2) by simp_all
    have inc: "dataTyped (setTransfer i (t\<lparr>tr_incremental := True\<rparr>) s)" by (rule typed_set [OF that(1)]) (use slot in simp_all)
    show ?thesis using that inc typed_sendChunk [OF that(1) assms(2)] by (simp add: deliverReply_def Let_def split_beta)
  qed
  have "dataTyped (setTransfer i ((transfer i st)\<lparr>tr_fd := x, tr_size := n\<rparr>) st)" if "n \<le> LORIE_DATA_MAX_BYTES" for x n
    by (rule typed_set [OF assms(1)]) (use that typed_slot [OF assms] in simp_all)
  then show ?thesis using assms typed_length [OF assms(1)] d by (simp add: replyTo_def Let_def split: option.splits)
qed

lemma tyv_dragCommands [simp]: "tyv (enterDrag sv ev st) = tyv st" "tyv (leaveDrag sv st) = tyv st" "tyv (finishDrag sv b st) = tyv st" "tyv (enableData sv ev st) = tyv st"
  by (simp_all add: enterDrag_def leaveDrag_def finishDrag_def enableData_def Let_def split_beta)

lemma typed_dataSwitch:
  assumes "dataTyped st" "dx_channel ev \<le> 1"
  shows "dataTyped (snd (dataSwitch sv ev fd a b st))"
proof (cases "dx_operation ev")
  case LORIE_DATA_OFFER
  have "dataTyped (snd (own sv c (st\<lparr>de_offers := (de_offers st)(c := off)\<rparr>)))" if "length (of_targets off) \<le> LORIE_DATA_MAX_TARGETS" for c off
    by (rule typed_own [OF typed_offer [OF assms(1) that]])
  then show ?thesis using LORIE_DATA_OFFER assms(1) readTargets_length [of sv fd a st] by (simp add: dataSwitch_def Let_def split: option.splits)
next
  case LORIE_DATA_REPLY
  have "i < MAX_PENDING" if "replyIndex ev st = Some i" for i using findIndex_Some [OF that [unfolded replyIndex_def]] typed_length [OF assms(1)] by simp
  then show ?thesis using LORIE_DATA_REPLY assms(1) typed_replyTo [OF assms(1)] by (simp add: dataSwitch_def Let_def split_beta split: option.splits)
qed (use assms typed_request [OF assms] in \<open>simp_all add: dataSwitch_def Let_def\<close>)

lemma typed_command: "dataTyped st \<Longrightarrow> dataTyped (lorieDataCommand sv ev hf st)"
proof -
  assume ok: "dataTyped st"
  obtain fd s where f: "takeFile hf st = (fd, s)" by fastforce
  then have "s = st \<or> (\<exists>bs. s = snd (openFile bs st))" by (auto simp: takeFile_def split: option.splits)
  then have s: "dataTyped s" using ok by auto
  have d: "dataTyped (snd (dispatchData sv ev fd a b s))" for a b
    using s typed_dataSwitch [OF s] by (simp add: dispatchData_def)
  show ?thesis unfolding lorieDataCommand_def f Let_def prod.case using d by (simp add: split_beta split: option.splits)
qed

lemma typed_reset: "dataTyped st \<Longrightarrow> dataTyped (lorieDataReset sv st)"
proof -
  assume ok: "dataTyped st"
  have all: "tyv (fold release is s) = tyv s" for "is" s by (induction "is" arbitrary: s) simp_all
  have off: "dataTyped (s\<lparr>de_bridge := x1, de_dragTarget := x2, de_dragSource := x3, de_pointerDown := x4, de_offers := (\<lambda>_. noOffer)\<rparr>)" if "dataTyped s" for s x1 x2 x3 x4
    using that by (simp add: typed_def tyv_def noOffer_def)
  show ?thesis unfolding lorieDataReset_def Let_def by (rule off) (simp add: all ok del: upt.simps)
qed

lemma typed_step: "dataTyped st \<Longrightarrow> dataTyped (dataStep sv inp st)"
proof (cases inp)
  case (Expire i)
  assume ok: "dataTyped st"
  have "tyv (setTransfer i ((transfer i st)\<lparr>tr_timer := False\<rparr>) st) = tyv st" by (rule tyv_setTransfer) (simp add: tyPart_def)
  then show ?thesis using ok Expire by (simp add: dataStep_def expired_def)
next
  case (SelectionOwner a k w c)
  assume "dataTyped st"
  then show ?thesis using SelectionOwner by (auto simp: dataStep_def intro!: typed_selectionChanged split: option.splits)
next
  case RunWork
  assume "dataTyped st"
  then show ?thesis using RunWork by (auto simp: dataStep_def intro!: typed_propertyWork split: list.splits)
qed (simp_all add: dataStep_def typed_command typed_convert typed_sendEvent typed_reset exportExpired_def lorieDataPointer_def)

section \<open>Theorem\<close>

text \<open>
  C14: Whatever the host, the clients and the kernel do, the table has sixteen transfers, each of a
  clipboard or drag selection and within the size limit, and an offer never has more targets than
  its array: the remaining room \<open>LORIE_DATA_MAX_BYTES - size\<close> cannot wrap around, and the list of
  targets that answers a request fits.
\<close>

theorem data_tables_typed:
  "let st = dataRun sv inputs (dataStart out)
   in length (de_transfers st) = MAX_PENDING
      \<and> list_all (\<lambda>t. tr_channel t \<le> 1 \<and> tr_size t \<le> LORIE_DATA_MAX_BYTES) (de_transfers st)
      \<and> (\<forall>c. length (of_targets (de_offers st c)) \<le> LORIE_DATA_MAX_TARGETS)"
proof -
  have "dataTyped (dataStart out)" by (simp add: dataStart_def tyv_def typed_def tyPart_def noOffer_def list_all_iff)
  then have "dataTyped (dataRun sv inputs (dataStart out))" by (rule dataRun_induct) (rule typed_step)
  then show ?thesis unfolding typed_def tyv_def Let_def by (simp add: list_all_iff tyPart_def)
qed

end
