(* ===== verification/Spec2Isabelle.thy ===== *)
theory Spec2Isabelle
  imports Window_State Window_Size Window_Family Keyboard Images Density Socket_IO Buffers Direct_Input Outputs Shared_Memory Window_Model Family_Geometry Window_Shell Screen Resource_Channel Output_Frames Data_Drag Data_Requests Data_Incremental Data_Types
begin

text \<open>
  MagicDesk X11 is an X server that runs inside an Android application.  The X side lives in
  \<open>src/lorie/src/main/cpp/lorie\<close>: an Xorg server is linked with a device-dependent layer that gives
  every application window its own Android surface.  A host process (the activity and its
  renderer) is connected by a Unix socket; it binds outputs to windows, sends input, and receives
  the list of windows, their layers and buffers.  This development models the C code of that
  layer and proves what makes each part correct.

  \<^bold>\<open>How the parts interact.\<close>  A command from the host reaches \<open>lorieOutputCommand\<close> (\<open>Outputs\<close>), which
  keeps the bound outputs and queues key, button, touch and tablet events (\<open>Keyboard\<close>,
  \<open>Direct_Input\<close>).  Changes of windows and properties reach the window model (\<open>Window_Model\<close>), which
  marks its records; once per frame \<open>lorieRedraw\<close> refreshes the window model, the shell windows
  (\<open>Window_Shell\<close>) and the cursor (\<open>Images\<close>) and publishes the outputs.  Sizes come from the hints
  of the clients (\<open>Window_Size\<close>) and the virtual screen grows as needed (\<open>Screen\<close>).  Pixels are in
  buffers (\<open>Buffers\<close>) whose descriptors travel over the socket (\<open>Socket_IO\<close>); clients share memory
  through System V calls (\<open>Shared_Memory\<close>) or the resource channel (\<open>Resource_Channel\<close>).  Selections
  and drags cross between the host and the clients through the data bridge (\<open>Data_Exchange\<close>), which
  asks \<open>Outputs\<close> where a point of an output is and gives back the button leases it takes.

  \<^bold>\<open>Theories.\<close>
  \<^item> \<open>Lorie_Prelude\<close>: words of the C types, flags, serial numbers, little-endian fields, buffers
    written by offset, first index of an element, decimal numbers.
  \<^item> \<open>Window_State\<close> (\<open>fullscreen_state.h\<close>, \<open>maximized_state.h\<close>, \<open>window_interaction.h\<close>,
    \<open>window_role.h\<close>): states negotiated with serial numbers.  Stale confirmations are refused,
    requests act on sets of axes, the wrapping time-stamp test is a condition on elapsed time.
  \<^item> \<open>Window_Size\<close> (\<open>window_size.h\<close>, \<open>window_placement.h\<close>): constraints from \<open>WM_NORMAL_HINTS\<close>
    are usable whatever the client stores; transients stay reachable.
  \<^item> \<open>Window_Family\<close> (\<open>window_family.h\<close>, \<open>window_inspection_walk.h\<close>): the window tree as a store
    of linked windows; membership in a family although transient links may form cycles, the order
    of activation, and the inspection walk, which refines the preorder of the tree.
  \<^item> \<open>Keyboard\<close> (\<open>InputXKB.c\<close>): keysym lookup, added keysyms, fake modifiers, lock keys.
  \<^item> \<open>Images\<close> (\<open>window_icon.h\<close>, \<open>cursor_image.h\<close>, \<open>cursor.c\<close>): choice and scaling of icons, cursors.
  \<^item> \<open>Density\<close> (\<open>density_settings.h\<close>, \<open>density.c\<close>): the XSETTINGS property reads back exactly.
  \<^item> \<open>Socket_IO\<close> (\<open>socket_io.h\<close>, \<open>command_queue.h\<close>, \<open>shared_lock.h\<close>, \<open>dma_buffer.h\<close>,
    \<open>gpu_completion.h\<close>, descriptor passing of \<open>buffer.c\<close>): transfers over lists of kernel answers.
  \<^item> \<open>Buffers\<close> (\<open>buffer.c\<close>, \<open>buffer.h\<close>, \<open>buffer_layout.h\<close>): allocation, conversion, locks,
    reference counts, exchange.
  \<^item> \<open>Direct_Input\<close> (\<open>direct_input.c\<close>): touches and tablet tools stay paired.
  \<^item> \<open>Outputs\<close> (\<open>window_outputs.c\<close>, \<open>output_command.h\<close>): outputs, leases of keys and buttons,
    the command handler.
  \<^item> \<open>Output_Frames\<close> (\<open>window_outputs.c\<close>): the sizes of shown windows, their redirected images with
    damage, and the layers and frames that are published for each output.
  \<^item> \<open>Shared_Memory\<close> (\<open>shm/shmem.c\<close>): System V shared memory over descriptor passing, with the
    reachable states as an inductive predicate and the life of a segment as a locale.
  \<^item> \<open>Window_Model\<close> (\<open>window_model.c\<close>, \<open>window_inspection.h\<close>): what the host knows of the windows
    stays right or is marked as outdated, and a refresh brings it up to date.
  \<^item> \<open>Family_Geometry\<close> (\<open>window_family_geometry.c\<close>): paint rectangle and input region of a family.
  \<^item> \<open>Window_Shell\<close> (\<open>window_shell.c\<close>, \<open>shell_surface.h\<close>): desktop and dock windows.
  \<^item> \<open>Screen\<close> (\<open>screen_mode.h\<close>, \<open>vidmode.c\<close> and the RandR part of \<open>InitOutput.c\<close>).
  \<^item> \<open>Resource_Channel\<close> (\<open>resource_channel.c\<close>, \<open>resource_protocol.h\<close>): admission of connections and
    the resource sockets of clients; descriptors are conserved as a multiset.

  \<^item> \<open>Data_Exchange\<close> (\<open>data_exchange.c\<close>): the clipboard and drag bridge with everything that can
    happen to it as one step function.  \<open>Data_Drag\<close> shows that whatever happens the drag speaks XDND,
    \<open>Data_Transfer\<close> who owns the descriptors, \<open>Data_Requests\<close> that a request is answered exactly once
    and no later than its deadline, \<open>Data_Incremental\<close> that the chunks of a long transfer are the file
    again, \<open>Data_Types\<close> that the tables keep their shape in every run.

  \<^bold>\<open>Conventions.\<close>  A C structure is a record with the names of its fields behind a short prefix, a
  function keeps its name, the statics of a file are the fields of a state record that is passed
  through.  What a function sends or calls outside its component is appended to a log in the state,
  so the order of effects is part of the statements.  Linked lists are lists, objects of the X
  server (windows) are numbers in a store.  Code that is not part of the repository (the X server,
  the kernel, pixman, libxcvt) is an argument; where a statement needs to know how it behaves, that
  is a named hypothesis and a witness instantiates it.  Integers have the width of the source where
  overflow can happen (\<open>u8\<close>, \<open>u32\<close>, \<open>u64\<close>), and are unbounded where the code checks the range first.

  \<^bold>\<open>Loops.\<close>  Loops over lists and arrays are structural.  Loops over pointers of the window tree are
  partial functions into \<open>option\<close>; \<open>None\<close> is a loop that does not end, and the theorems about
  them show that they return on every tree.  Loops over kernel answers consume a list of answers;
  \<open>None\<close> means that the list was too short, and the theorems hold for every list.

  \<^bold>\<open>Not modelled.\<close>  The C++ files (\<open>cmdentrypoint.cpp\<close>, \<open>session.cpp\<close>, \<open>renderer.cpp\<close>,
  \<open>renderer_outputs.cpp\<close>, \<open>output_commands.cpp\<close>, \<open>workqueue.cpp\<close>): threads, OpenGL and JNI glue
  whose protocol appears here as messages.  \<open>fbconfigs.h\<close> is a table of constants.  \<open>InitInput.c\<close> and
  the screen set-up, Present, DRI3, EXA and GLX parts of \<open>InitOutput.c\<close> fill callback tables of the
  X server or call it.  \<open>dma_copy.c\<close> is a sequence of Vulkan calls.  Logging and debug output are left out everywhere.
\<close>

end
